(* ===== verification/Prelude.thy ===== *)
theory Prelude
  imports Main "HOL-Library.Word"
begin

text \<open>
  Shared vocabulary of the development: the machine-integer types, the panics of the Rust
  code as values, checked arithmetic, the indexing and unwrapping operations of the Rust
  core library, and the loop combinator for \<open>for\<close> loops over a finite range.

  A Rust computation that may panic is a value of type \<open>'a result = panic + 'a\<close>: \<open>Inl\<close> is
  a panic, \<open>Inr\<close> a normal return.  \<open>usize\<close> and \<open>u64\<close> quantities that are counters, sizes
  or addresses are natural numbers with explicitly checked operations (an arithmetic
  overflow panics, which is the behaviour of a build with overflow checks); quantities
  that are read bit by bit are words of the source's width.
\<close>

unbundle bit_operations_syntax

named_theorems result_simps \<open>rewriting of panicking computations\<close>
named_theorems checked_simps \<open>characterisation of checked arithmetic\<close>

type_synonym u8 = "8 word"
type_synonym u16 = "16 word"
type_synonym u32 = "32 word"
type_synonym u64 = "64 word"
type_synonym usize = nat

datatype panic =
    Overflow
  | IndexOutOfBounds
  | UnwrapNone
  | ExpectFailed string
  | AssertFailed
  | InvalidAddress
  | Unreachable
  | DivideByZero
  | ExplicitPanic string

type_synonym 'a result = "panic + 'a"

section \<open>Sequencing\<close>

definition and_then :: "'e + 'a \<Rightarrow> ('a \<Rightarrow> 'e + 'b) \<Rightarrow> 'e + 'b" where
  "and_then m f = (case m of Inl e \<Rightarrow> Inl e | Inr x \<Rightarrow> f x)"

lemma and_then_Inl [simp, result_simps]: "and_then (Inl e) f = Inl e"
  by (simp add: and_then_def)

lemma and_then_Inr [simp, result_simps]: "and_then (Inr x) f = f x"
  by (simp add: and_then_def)

lemma and_then_return [simp]: "and_then m Inr = m"
  by (cases m) simp_all

lemma and_then_eq_Inr [result_simps]:
  "and_then m f = Inr y \<longleftrightarrow> (\<exists>x. m = Inr x \<and> f x = Inr y)"
  by (cases m) auto

lemma and_then_eq_Inl [result_simps]:
  "and_then m f = Inl e \<longleftrightarrow> m = Inl e \<or> (\<exists>x. m = Inr x \<and> f x = Inl e)"
  by (cases m) auto

lemma and_then_InrE:
  assumes "and_then m f = Inr y"
  obtains x where "m = Inr x" "f x = Inr y"
  using assms by (auto simp: and_then_eq_Inr)

lemma and_then_cong [fundef_cong]:
  "m = m' \<Longrightarrow> (\<And>x. m' = Inr x \<Longrightarrow> f x = f' x) \<Longrightarrow> and_then m f = and_then m' f'"
  by (cases m') auto

definition assert_that :: "bool \<Rightarrow> unit result" where
  "assert_that b = (if b then Inr () else Inl AssertFailed)"

lemma assert_that_eq_Inr [result_simps]: "assert_that b = Inr u \<longleftrightarrow> b"
  by (simp add: assert_that_def)

lemma assert_that_True [simp]: "assert_that True = Inr ()"
  by (simp add: assert_that_def)

lemma assert_that_False [simp]: "assert_that False = Inl AssertFailed"
  by (simp add: assert_that_def)

definition unwrap :: "'a option \<Rightarrow> 'a result" where
  "unwrap x = (case x of None \<Rightarrow> Inl UnwrapNone | Some y \<Rightarrow> Inr y)"

definition expect :: "string \<Rightarrow> 'a option \<Rightarrow> 'a result" where
  "expect msg x = (case x of None \<Rightarrow> Inl (ExpectFailed msg) | Some y \<Rightarrow> Inr y)"

lemma unwrap_simps [simp]: "unwrap None = Inl UnwrapNone" "unwrap (Some x) = Inr x"
  by (simp_all add: unwrap_def)

lemma unwrap_eq_Inr [result_simps]: "unwrap x = Inr y \<longleftrightarrow> x = Some y"
  by (cases x) auto

lemma expect_simps [simp]: "expect s None = Inl (ExpectFailed s)" "expect s (Some x) = Inr x"
  by (simp_all add: expect_def)

lemma expect_eq_Inr [result_simps]: "expect s x = Inr y \<longleftrightarrow> x = Some y"
  by (cases x) auto

text \<open>Slice indexing \<open>xs[i]\<close> and \<open>xs[i] = v\<close>: both panic out of range.\<close>

definition index :: "'a list \<Rightarrow> nat \<Rightarrow> 'a result" where
  "index xs i = (if i < length xs then Inr (xs ! i) else Inl IndexOutOfBounds)"

definition store :: "'a list \<Rightarrow> nat \<Rightarrow> 'a \<Rightarrow> 'a list result" where
  "store xs i v = (if i < length xs then Inr (xs[i := v]) else Inl IndexOutOfBounds)"

lemma index_eq_Inr [result_simps]: "index xs i = Inr y \<longleftrightarrow> i < length xs \<and> y = xs ! i"
  by (auto simp: index_def)

lemma store_eq_Inr [result_simps]: "store xs i v = Inr ys \<longleftrightarrow> i < length xs \<and> ys = xs[i := v]"
  by (auto simp: store_def)

section \<open>Checked arithmetic\<close>

definition usize_max :: nat where
  "usize_max = 2 ^ 64 - 1"

definition usize_add :: "nat \<Rightarrow> nat \<Rightarrow> nat result" where
  "usize_add a b = (if a + b \<le> usize_max then Inr (a + b) else Inl Overflow)"

definition usize_sub :: "nat \<Rightarrow> nat \<Rightarrow> nat result" where
  "usize_sub a b = (if b \<le> a then Inr (a - b) else Inl Overflow)"

definition usize_mul :: "nat \<Rightarrow> nat \<Rightarrow> nat result" where
  "usize_mul a b = (if a * b \<le> usize_max then Inr (a * b) else Inl Overflow)"

definition div_ceil :: "nat \<Rightarrow> nat \<Rightarrow> nat" where
  "div_ceil a b = (if a mod b = 0 then a div b else a div b + 1)"

definition usize_rem :: "nat \<Rightarrow> nat \<Rightarrow> nat result" where
  "usize_rem a b = (if b = 0 then Inl DivideByZero else Inr (a mod b))"

definition usize_div :: "nat \<Rightarrow> nat \<Rightarrow> nat result" where
  "usize_div a b = (if b = 0 then Inl DivideByZero else Inr (a div b))"

lemma usize_rem_pos [simp]: "0 < b \<Longrightarrow> usize_rem a b = Inr (a mod b)"
  by (simp add: usize_rem_def)

lemma usize_div_pos [simp]: "0 < b \<Longrightarrow> usize_div a b = Inr (a div b)"
  by (simp add: usize_div_def)

lemma usize_rem_eq_Inr [checked_simps]: "usize_rem a b = Inr c \<longleftrightarrow> 0 < b \<and> c = a mod b"
  by (auto simp: usize_rem_def)

lemma usize_div_eq_Inr [checked_simps]: "usize_div a b = Inr c \<longleftrightarrow> 0 < b \<and> c = a div b"
  by (auto simp: usize_div_def)

lemma usize_add_eq_Inr [checked_simps]: "usize_add a b = Inr c \<longleftrightarrow> a + b \<le> usize_max \<and> c = a + b"
  by (auto simp: usize_add_def)

lemma usize_sub_eq_Inr [checked_simps]: "usize_sub a b = Inr c \<longleftrightarrow> b \<le> a \<and> c = a - b"
  by (auto simp: usize_sub_def)

lemma usize_mul_eq_Inr [checked_simps]: "usize_mul a b = Inr c \<longleftrightarrow> a * b \<le> usize_max \<and> c = a * b"
  by (auto simp: usize_mul_def)

lemma div_ceil_bounds:
  assumes "0 < b"
  shows "a \<le> div_ceil a b * b" and "div_ceil a b * b < a + b"
proof -
  define q r where "q = a div b" and "r = a mod b"
  then have e: "a = q * b + r" and m: "r < b" using assms by auto
  have "a \<le> div_ceil a b * b \<and> div_ceil a b * b < a + b"
    using e m assms unfolding div_ceil_def q_def [symmetric] r_def [symmetric] by auto
  then show "a \<le> div_ceil a b * b" and "div_ceil a b * b < a + b" by auto
qed

text \<open>The same operations on words of a fixed width.\<close>

definition word_add :: "'a::len word \<Rightarrow> 'a word \<Rightarrow> 'a word result" where
  "word_add a b = (if unat a + unat b < 2 ^ LENGTH('a) then Inr (a + b) else Inl Overflow)"

definition word_sub :: "'a::len word \<Rightarrow> 'a word \<Rightarrow> 'a word result" where
  "word_sub a b = (if b \<le> a then Inr (a - b) else Inl Overflow)"

definition word_mul :: "'a::len word \<Rightarrow> 'a word \<Rightarrow> 'a word result" where
  "word_mul a b = (if unat a * unat b < 2 ^ LENGTH('a) then Inr (a * b) else Inl Overflow)"

lemma word_add_eq_Inr [checked_simps]:
  "word_add (a :: 'a::len word) b = Inr c \<longleftrightarrow> unat a + unat b < 2 ^ LENGTH('a) \<and> c = a + b"
  by (auto simp: word_add_def)

lemma word_sub_eq_Inr [checked_simps]: "word_sub a b = Inr c \<longleftrightarrow> b \<le> a \<and> c = a - b"
  by (auto simp: word_sub_def)

lemma word_mul_eq_Inr [checked_simps]:
  "word_mul (a :: 'a::len word) b = Inr c \<longleftrightarrow> unat a * unat b < 2 ^ LENGTH('a) \<and> c = a * b"
  by (auto simp: word_mul_def)

definition word_div :: "'a::len word \<Rightarrow> 'a word \<Rightarrow> 'a word result" where
  "word_div a b = (if b = 0 then Inl DivideByZero else Inr (a div b))"

lemma word_div_eq_Inr [checked_simps]: "word_div a b = Inr c \<longleftrightarrow> b \<noteq> 0 \<and> c = a div b"
  by (auto simp: word_div_def)

section \<open>Bits\<close>

lemma high_bits_zero: "w < 2 ^ k \<Longrightarrow> k \<le> n \<Longrightarrow> \<not> bit w n" for w :: "'a::len word"
proof
  assume w: "w < 2 ^ k" and k: "k \<le> n" and b: "bit w n"
  from b have n: "n < LENGTH('a)" by (rule bit_imp_le_length)
  have "unat (2 ^ k :: 'a word) = 2 ^ k"
    using k n unat_of_nat [of "2 ^ k", where 'a = 'a] by simp
  with w have "unat w < 2 ^ k" by (simp add: word_less_nat_alt)
  also have "(2 :: nat) ^ k \<le> 2 ^ n" using k by (simp add: power_increasing)
  finally have "unat w div 2 ^ n = 0" by simp
  then have "\<not> bit (unat w) n" by (simp add: bit_iff_odd)
  with b n show False by (simp add: bit_unsigned_iff)
qed

lemma unat_of_nat_small: "n < 2 ^ LENGTH('a) \<Longrightarrow> unat (of_nat n :: 'a::len word) = n"
  by (simp add: unsigned_of_nat take_bit_nat_eq_self)

section \<open>Lists\<close>

lemma find_append:
  "find P (xs @ ys) = (case find P xs of Some x \<Rightarrow> Some x | None \<Rightarrow> find P ys)"
  by (induction xs) auto

lemma first_index:
  assumes "i < length xs" and "P (xs ! i)"
  obtains k where "k < length xs" "P (xs ! k)" "\<forall>j < k. \<not> P (xs ! j)"
proof -
  let ?Q = "\<lambda>k. k < length xs \<and> P (xs ! k)"
  from assms have "?Q (LEAST k. ?Q k)" by (intro LeastI [of ?Q i]) simp
  moreover from this have "\<forall>j < (LEAST k. ?Q k). \<not> P (xs ! j)"
    using not_less_Least [of _ ?Q] by (meson less_trans)
  ultimately show thesis using that by blast
qed

section \<open>Intervals\<close>

lemma ivl_head: "lo < hi \<Longrightarrow> {lo..<hi} = insert lo {Suc lo..<hi}" for lo hi :: nat
  by auto

text \<open>Evaluation of closed ranges, for the witnesses.\<close>

lemma upt_0_numeral: "[0..<numeral n] = 0 # [Suc 0..<numeral n]"
  by (simp add: upt_conv_Cons)

lemma upt_1_numeral: "[Suc 0..<numeral n] = (if Suc 0 < numeral n then 1 # [2..<numeral n] else [])"
  by (auto simp: upt_conv_Cons eval_nat_numeral)

lemmas upt_eval = upt_0_numeral upt_1_numeral upt_rec_numeral

section \<open>Loops over a finite sequence\<close>

fun for_each :: "('a \<Rightarrow> 's \<Rightarrow> 'e + 's) \<Rightarrow> 'a list \<Rightarrow> 's \<Rightarrow> 'e + 's" where
  "for_each body [] s = Inr s"
| "for_each body (x # xs) s = and_then (body x s) (for_each body xs)"

lemma for_each_append:
  "for_each body (xs @ ys) s = and_then (for_each body xs s) (for_each body ys)"
  by (induction xs arbitrary: s) (auto simp: and_then_def split: sum.splits)

text \<open>
  The loop rule: an assertion indexed by the number of finished iterations that every
  iteration advances, and under which no iteration panics, holds when the loop ends.
\<close>

lemma for_each_upt_rule:
  assumes "I a s"
    and "\<And>i s. a \<le> i \<Longrightarrow> i < b \<Longrightarrow> I i s \<Longrightarrow> \<exists>s'. body i s = Inr s' \<and> I (Suc i) s'"
    and "a \<le> b"
  shows "\<exists>s'. for_each body [a..<b] s = Inr s' \<and> I b s'"
  using assms
proof (induction "b - a" arbitrary: a s)
  case 0
  then show ?case by simp
next
  case (Suc k)
  then have "a < b" by simp
  then have upt: "[a..<b] = a # [Suc a..<b]" by (simp add: upt_conv_Cons)
  from Suc.prems(1) Suc.prems(2)[of a s] \<open>a < b\<close> obtain s1
    where s1: "body a s = Inr s1" "I (Suc a) s1" by auto
  have "\<exists>s'. for_each body [Suc a..<b] s1 = Inr s' \<and> I b s'"
    using Suc.hyps(2) Suc.prems(2) s1(2) \<open>a < b\<close> by (intro Suc.hyps(1)) auto
  then show ?case using s1(1) upt by simp
qed

lemma for_each_invariant:
  assumes "for_each body xs s = Inr s'" and "P s"
    and "\<And>x s s'. x \<in> set xs \<Longrightarrow> P s \<Longrightarrow> body x s = Inr s' \<Longrightarrow> P s'"
  shows "P s'"
  using assms
proof (induction xs arbitrary: s)
  case Nil
  then show ?case by simp
next
  case (Cons x xs)
  from Cons.prems(1) obtain s1 where "body x s = Inr s1" "for_each body xs s1 = Inr s'"
    by (auto simp: and_then_eq_Inr)
  moreover from this(1) Cons.prems(2,3) have "P s1" by (meson list.set_intros(1))
  ultimately show ?case using Cons.IH Cons.prems(3) by (meson list.set_intros(2))
qed

section \<open>Computations that may spin\<close>

text \<open>
  A computation with a polling loop may also never return: \<open>None\<close> is the value of such a run.
\<close>

type_synonym 'a outcome = "'a result option"

definition out_then :: "'a outcome \<Rightarrow> ('a \<Rightarrow> 'b outcome) \<Rightarrow> 'b outcome" where
  "out_then m f = (case m of None \<Rightarrow> None | Some (Inl e) \<Rightarrow> Some (Inl e) | Some (Inr x) \<Rightarrow> f x)"

lemma out_then_simps [simp]:
  "out_then None f = None" "out_then (Some (Inl e)) f = Some (Inl e)" "out_then (Some (Inr x)) f = f x"
  by (simp_all add: out_then_def)

lemma out_then_eq_Inr [result_simps]:
  "out_then m f = Some (Inr y) \<longleftrightarrow> (\<exists>x. m = Some (Inr x) \<and> f x = Some (Inr y))"
  by (auto simp: out_then_def split: option.splits sum.splits)

fun out_for_each :: "('a \<Rightarrow> 's \<Rightarrow> 's outcome) \<Rightarrow> 'a list \<Rightarrow> 's \<Rightarrow> 's outcome" where
  "out_for_each body [] s = Some (Inr s)"
| "out_for_each body (x # xs) s = out_then (body x s) (out_for_each body xs)"

section \<open>Slices\<close>

text \<open>\<open>slice::chunks(n)\<close>, which panics for \<open>n = 0\<close>; the code calls it with positive constants only.\<close>

function slice_chunks :: "nat \<Rightarrow> 'a list \<Rightarrow> 'a list list" where
  "slice_chunks n xs = (if n = 0 \<or> xs = [] then [] else take n xs # slice_chunks n (drop n xs))"
  by auto
termination by (relation "measure (\<lambda>(_, xs). length xs)") auto

declare slice_chunks.simps [simp del]

lemma slice_chunks_short: "xs \<noteq> [] \<Longrightarrow> length xs \<le> n \<Longrightarrow> slice_chunks n xs = [xs]"
  by (cases n) (auto simp: slice_chunks.simps)

lemma slice_chunks_concat: "0 < n \<Longrightarrow> concat (slice_chunks n xs) = xs"
  by (induction n xs rule: slice_chunks.induct) (subst slice_chunks.simps, auto)

section \<open>Little-endian numbers\<close>

definition le_bytes :: "u8 list \<Rightarrow> nat" where
  "le_bytes bs = foldr (\<lambda>b n. unat b + 256 * n) bs 0"

fun to_le_bytes :: "nat \<Rightarrow> nat \<Rightarrow> u8 list" where
  "to_le_bytes 0 v = []"
| "to_le_bytes (Suc n) v = of_nat v # to_le_bytes n (v div 256)"

lemma le_bytes_simps [simp]: "le_bytes [] = 0" "le_bytes (b # bs) = unat b + 256 * le_bytes bs"
  by (simp_all add: le_bytes_def)

lemma length_to_le_bytes [simp]: "length (to_le_bytes n v) = n"
  by (induction n v rule: to_le_bytes.induct) auto

lemma le_bytes_to_le_bytes: "le_bytes (to_le_bytes n v) = v mod 256 ^ n"
  by (induction n v rule: to_le_bytes.induct) (simp_all add: unat_of_nat mod_mult2_eq add.commute)

lemma unat_byte_less: "unat (b :: u8) < 256"
  using unsigned_less [of b] by simp

lemma le_bytes_less: "le_bytes bs < 256 ^ length bs"
proof (induction bs)
  case (Cons b bs)
  then show ?case using unat_byte_less [of b] by simp
qed simp

lemma to_le_bytes_le_bytes: "to_le_bytes (length bs) (le_bytes bs) = bs"
proof (induction bs)
  case (Cons b bs)
  have z: "(256 :: u8) = 0" by simp
  have "256 * w = (0 :: u8)" for w by (simp only: z mult_zero_left)
  then show ?case using Cons unat_byte_less [of b] by simp
qed simp

end
