(* ===== verification/Bitmap.thy ===== *)
theory Bitmap
  imports Prelude
begin

text \<open>
  The bitmap of \<open>data/bitmap.rs\<close>.  Single bits of a byte are read and written through the
  \<open>bit_field\<close> crate, whose two operations are the fields of the parameter record
  \<open>bit_field_api\<close>; the locale \<open>bit_field\<close> states their documented behaviour and the
  lemmas of the bitmap are proved from it.
\<close>

record bit_field_api =
  get_bit :: "u8 \<Rightarrow> nat \<Rightarrow> bool"
  set_bit :: "u8 \<Rightarrow> nat \<Rightarrow> bool \<Rightarrow> u8"

section \<open>Data and operations\<close>

record Bitmap =
  inner :: "u8 list"

definition bitmap_new :: "u8 list \<Rightarrow> Bitmap" where
  "bitmap_new buf = \<lparr>inner = replicate (length buf) 0\<rparr>"

definition bitmap_len :: "Bitmap \<Rightarrow> nat" where
  "bitmap_len b = length (inner b)"

definition bitmap_get :: "bit_field_api \<Rightarrow> Bitmap \<Rightarrow> nat \<Rightarrow> bool result" where
  "bitmap_get bf b i = and_then (index (inner b) (i div 8)) (\<lambda>byte. Inr (get_bit bf byte (i mod 8)))"

definition bitmap_set :: "bit_field_api \<Rightarrow> Bitmap \<Rightarrow> nat \<Rightarrow> bool \<Rightarrow> Bitmap result" where
  "bitmap_set bf b i v =
     and_then (index (inner b) (i div 8)) (\<lambda>byte.
     and_then (store (inner b) (i div 8) (set_bit bf byte (i mod 8) v)) (\<lambda>bytes.
     Inr (b\<lparr>inner := bytes\<rparr>)))"

section \<open>Abstract view\<close>

text \<open>
  \<open>bits bf b\<close> is the set of indices whose bit is set; \<open>capacity b\<close> is the number of bits.
  \<open>set_range\<close> is the loop \<open>for i in lo..hi { bitmap.set(i, v) }\<close> that the clients run.
\<close>

definition capacity :: "Bitmap \<Rightarrow> nat" where
  "capacity b = 8 * bitmap_len b"

definition bits :: "bit_field_api \<Rightarrow> Bitmap \<Rightarrow> nat set" where
  "bits bf b = {i. i < capacity b \<and> get_bit bf (inner b ! (i div 8)) (i mod 8)}"

definition set_range :: "bit_field_api \<Rightarrow> nat \<Rightarrow> nat \<Rightarrow> bool \<Rightarrow> Bitmap \<Rightarrow> Bitmap result" where
  "set_range bf lo hi v b = for_each (\<lambda>i b. bitmap_set bf b i v) [lo..<hi] b"

lemma byte_index_less [simp]: "i div 8 < length (inner b) \<longleftrightarrow> i < capacity b"
  by (simp add: capacity_def bitmap_len_def div_less_iff_less_mult mult.commute)

lemma bitmap_len_le_capacity: "bitmap_len b \<le> capacity b"
  by (simp add: capacity_def)

lemma bits_less_capacity: "i \<in> bits bf b \<Longrightarrow> i < capacity b"
  by (simp add: bits_def)

lemma finite_bits [simp]: "finite (bits bf b)"
  by (rule finite_subset [of _ "{..<capacity b}"]) (auto simp: bits_def)

lemma bitmap_get_in: "i < capacity b \<Longrightarrow> bitmap_get bf b i = Inr (i \<in> bits bf b)"
  by (simp add: bitmap_get_def index_def bits_def)

lemma bitmap_get_out: "capacity b \<le> i \<Longrightarrow> bitmap_get bf b i = Inl IndexOutOfBounds"
  by (simp add: bitmap_get_def index_def)

lemma bitmap_set_out: "capacity b \<le> i \<Longrightarrow> bitmap_set bf b i v = Inl IndexOutOfBounds"
  by (simp add: bitmap_set_def index_def)

lemma bitmap_set_len [simp]: "bitmap_set bf b i v = Inr b' \<Longrightarrow> bitmap_len b' = bitmap_len b"
  by (auto simp: bitmap_set_def bitmap_len_def result_simps)

locale bit_field =
  fixes bf :: bit_field_api
  assumes get_set_bit: "i < 8 \<Longrightarrow> j < 8 \<Longrightarrow>
      get_bit bf (set_bit bf w i v) j = (if j = i then v else get_bit bf w j)"
    and get_bit_zero: "i < 8 \<Longrightarrow> \<not> get_bit bf 0 i"
begin

lemma bits_new: "bits bf (bitmap_new buf) = {}"
  by (auto simp: bits_def bitmap_new_def capacity_def bitmap_len_def get_bit_zero nth_replicate)

lemma bitmap_set_in:
  assumes "i < capacity b"
  obtains b' where "bitmap_set bf b i v = Inr b'" "bitmap_len b' = bitmap_len b"
    "bits bf b' = (if v then insert i (bits bf b) else bits bf b - {i})"
proof -
  define w where "w = inner b ! (i div 8)"
  define b' where "b' = b\<lparr>inner := (inner b)[i div 8 := set_bit bf w (i mod 8) v]\<rparr>"
  have set: "bitmap_set bf b i v = Inr b'"
    using assms by (simp add: bitmap_set_def index_def store_def b'_def w_def)
  have cap: "capacity b' = capacity b" by (simp add: capacity_def bitmap_len_def b'_def)
  have bit: "get_bit bf (inner b' ! (j div 8)) (j mod 8) =
      (if j = i then v else get_bit bf (inner b ! (j div 8)) (j mod 8))"
    if "j < capacity b" for j
  proof (cases "j div 8 = i div 8")
    case True
    then have "j = i \<longleftrightarrow> j mod 8 = i mod 8" by (metis div_mult_mod_eq)
    with True assms show ?thesis by (auto simp: b'_def w_def get_set_bit)
  next
    case False
    then show ?thesis by (auto simp: b'_def)
  qed
  have "bits bf b' = (if v then insert i (bits bf b) else bits bf b - {i})"
    using assms by (auto simp: bits_def cap bit split: if_splits)
  then show thesis using that set by (simp add: b'_def bitmap_len_def)
qed

lemma set_range_in:
  assumes "lo \<le> hi" and "hi \<le> capacity b"
  obtains b' where "set_range bf lo hi v b = Inr b'" "bitmap_len b' = bitmap_len b"
    "bits bf b' = (if v then bits bf b \<union> {lo..<hi} else bits bf b - {lo..<hi})"
proof -
  define I where "I = (\<lambda>k b'. bitmap_len b' = bitmap_len b \<and>
    bits bf b' = (if v then bits bf b \<union> {lo..<k} else bits bf b - {lo..<k}))"
  have step: "\<exists>c'. bitmap_set bf c k v = Inr c' \<and> I (Suc k) c'"
    if k: "lo \<le> k" "k < hi" "I k c" for k c
  proof -
    from k(3) have "capacity c = capacity b" by (simp add: I_def capacity_def)
    with k(2) assms(2) have "k < capacity c" by simp
    then obtain c' where c': "bitmap_set bf c k v = Inr c'" "bitmap_len c' = bitmap_len c"
      "bits bf c' = (if v then insert k (bits bf c) else bits bf c - {k})"
      by (rule bitmap_set_in)
    have "{lo..<Suc k} = insert k {lo..<k}" using k(1) by auto
    with c' k(3) have "I (Suc k) c'" by (auto simp: I_def)
    with c'(1) show ?thesis by blast
  qed
  have "\<exists>b'. for_each (\<lambda>i b. bitmap_set bf b i v) [lo..<hi] b = Inr b' \<and> I hi b'"
    by (rule for_each_upt_rule [where I = I]) (use assms(1) step in \<open>auto simp: I_def\<close>)
  then show thesis using that by (auto simp: set_range_def I_def)
qed

lemma set_range_Inr:
  assumes "set_range bf lo hi v b = Inr b'" and "lo \<le> hi"
  shows "hi \<le> capacity b \<or> lo = hi"
proof (rule ccontr)
  assume "\<not> ?thesis"
  with assms(2) have h: "capacity b < hi" "lo < hi" by auto
  define m where "m = max lo (capacity b)"
  have "[lo..<hi] = [lo..<m] @ [m..<hi]"
    using upt_add_eq_append [of lo m "hi - m"] h by (simp add: m_def)
  with assms(1) obtain c where c: "for_each (\<lambda>i b. bitmap_set bf b i v) [lo..<m] b = Inr c"
    "for_each (\<lambda>i b. bitmap_set bf b i v) [m..<hi] c = Inr b'"
    by (auto simp: set_range_def for_each_append and_then_eq_Inr)
  from c(1) have "bitmap_len c = bitmap_len b"
    by (rule for_each_invariant [where P = "\<lambda>c. bitmap_len c = bitmap_len b"]) auto
  then have "capacity c \<le> m" by (simp add: m_def capacity_def)
  moreover have "[m..<hi] = m # [Suc m..<hi]" using h by (simp add: m_def upt_conv_Cons)
  ultimately show False using c(2) by (simp add: bitmap_set_out)
qed

end

section \<open>A concrete bit field\<close>

text \<open>
  The crate's operations on a byte are the bit operations of the word library: the laws
  hold of them, so the hypotheses \<open>bit_field bf\<close> of the development can be met.
\<close>

definition byte_bits :: bit_field_api where
  "byte_bits = \<lparr>get_bit = bit,
     set_bit = (\<lambda>w i v. if v then Bit_Operations.set_bit i w else unset_bit i w)\<rparr>"

interpretation byte_bits: bit_field byte_bits
  by unfold_locales (auto simp: byte_bits_def bit_set_bit_iff bit_unset_bit_iff)

text \<open>The rewrite rules that evaluate bitmap operations on closed terms.\<close>

lemmas bitmap_eval = set_range_def bitmap_set_def bitmap_get_def bitmap_new_def index_def store_def
  byte_bits_def capacity_def bitmap_len_def set_bit_eq_or unset_bit_eq_and_not upt_eval

end
