(* ===== verification/Address.thy ===== *)
theory Address
  imports Prelude
begin

text \<open>
  Physical and virtual addresses (\<open>memory/mod.rs\<close>).  The address types come from the
  \<open>x86_64\<close> crate; its constructors are the fields of the parameter record \<open>x86_api\<close> and the
  locale \<open>x86_addr\<close> states their documented behaviour: \<open>PhysAddr::new\<close> accepts addresses
  below \<open>2^52\<close>, \<open>VirtAddr::new\<close> accepts canonical addresses, and \<open>containing_address\<close> rounds
  down to a multiple of 4096.  A frame or page is represented by its start address.
\<close>

record x86_api =
  phys_addr_new :: "nat \<Rightarrow> nat result"
  virt_addr_new :: "nat \<Rightarrow> nat result"
  frame_containing :: "nat \<Rightarrow> nat"
  page_containing :: "nat \<Rightarrow> nat"

definition canonical :: "nat \<Rightarrow> bool" where
  "canonical a \<longleftrightarrow> a < 2 ^ 47 \<or> 2 ^ 64 - 2 ^ 47 \<le> a \<and> a < 2 ^ 64"

definition convert_physical_to_virtual :: "x86_api \<Rightarrow> nat \<Rightarrow> nat \<Rightarrow> nat result" where
  "convert_physical_to_virtual x offset pa = and_then (usize_add pa offset) (virt_addr_new x)"

definition convert_virtual_to_physical :: "x86_api \<Rightarrow> nat \<Rightarrow> nat \<Rightarrow> nat result" where
  "convert_virtual_to_physical x offset va = and_then (usize_sub va offset) (phys_addr_new x)"

locale x86_addr =
  fixes x :: x86_api
  assumes phys_addr_new: "phys_addr_new x a = (if a < 2 ^ 52 then Inr a else Inl InvalidAddress)"
    and virt_addr_new: "virt_addr_new x a = (if canonical a then Inr a else Inl InvalidAddress)"
    and frame_containing: "frame_containing x a = a - a mod 4096"
    and page_containing: "page_containing x a = a - a mod 4096"
begin

lemma physical_to_virtual_to_physical:
  assumes "pa < 2 ^ 52" and "convert_physical_to_virtual x offset pa = Inr va"
  shows "convert_virtual_to_physical x offset va = Inr pa"
proof -
  from assms(2) have "va = pa + offset"
    by (auto simp: convert_physical_to_virtual_def virt_addr_new result_simps checked_simps
        split: if_splits)
  with assms(1) show ?thesis
    by (simp add: convert_virtual_to_physical_def usize_sub_def phys_addr_new)
qed

lemma virtual_to_physical_to_virtual:
  assumes "canonical va" and "convert_virtual_to_physical x offset va = Inr pa"
  shows "convert_physical_to_virtual x offset pa = Inr va"
proof -
  from assms have "va < 2 ^ 64" by (auto simp: canonical_def)
  with assms show ?thesis
    by (auto simp: convert_physical_to_virtual_def convert_virtual_to_physical_def virt_addr_new
        phys_addr_new usize_add_def usize_max_def result_simps checked_simps split: if_splits)
qed

lemma frame_containing_aligned [simp]: "frame_containing x (4096 * n) = 4096 * n"
  by (simp add: frame_containing)

end

definition x86_model :: x86_api where
  "x86_model = \<lparr>
     phys_addr_new = (\<lambda>a. if a < 2 ^ 52 then Inr a else Inl InvalidAddress),
     virt_addr_new = (\<lambda>a. if canonical a then Inr a else Inl InvalidAddress),
     frame_containing = (\<lambda>a. a - a mod 4096),
     page_containing = (\<lambda>a. a - a mod 4096)\<rparr>"

interpretation x86_model: x86_addr x86_model
  by unfold_locales (simp_all add: x86_model_def)

end
