(* ===== verification/Frame.thy ===== *)
theory Frame
  imports Bitmap Address
begin

text \<open>
  The physical frame allocator of \<open>memory/frame.rs\<close>: a bitmap with one bit per 4 KiB
  frame (set: free), a count of usable frames and a cursor.  The boot loader's memory map
  is the input of \<open>frame_init\<close>; \<open>mem\<close> is the virtual memory the bitmap is placed in.

  The source compares frame numbers with \<open>Bitmap::len\<close>, which counts bytes; the model
  keeps this, and the lemmas below are about the code as it is.
\<close>

section \<open>Data\<close>

datatype EntryType = USABLE | OTHER nat

record MemoryEntry =
  base :: nat
  region_length :: nat
  entry_type :: EntryType

record BitmapFrameAllocator =
  bitmap :: Bitmap
  usable_frames :: nat
  next_frame :: nat

section \<open>Initialisation\<close>

definition init_region ::
  "bit_field_api \<Rightarrow> MemoryEntry \<Rightarrow> BitmapFrameAllocator \<Rightarrow> BitmapFrameAllocator result" where
  "init_region bf region a =
     (let start_page_index = base region div 4096;
          frame_count = region_length region div 4096 in
      and_then (usize_add (usable_frames a) frame_count) (\<lambda>usable.
      and_then (usize_add start_page_index frame_count) (\<lambda>stop.
      and_then (set_range bf start_page_index stop True (bitmap a)) (\<lambda>b.
      Inr \<lparr>bitmap = b, usable_frames = usable,
           next_frame = min (next_frame a) start_page_index\<rparr>))))"

definition frame_init ::
  "bit_field_api \<Rightarrow> x86_api \<Rightarrow> nat \<Rightarrow> (nat \<Rightarrow> u8) \<Rightarrow> MemoryEntry list \<Rightarrow> BitmapFrameAllocator result" where
  "frame_init bf x offset mem entries =
     and_then (expect ''No memory regions found!'' (if entries = [] then None else Some (last entries))) (\<lambda>region.
     and_then (usize_add (base region) (region_length region)) (\<lambda>memory_size.
     let bitmap_size = div_ceil (memory_size div 4096) 8;
         usable_regions = filter (\<lambda>r. entry_type r = USABLE) entries in
     and_then (expect ''No suitable memory region for bitmap!''
                 (map_option base (find (\<lambda>r. bitmap_size \<le> region_length r) usable_regions))) (\<lambda>bitmap_address.
     and_then (phys_addr_new x bitmap_address) (\<lambda>physical_address.
     and_then (convert_physical_to_virtual x offset physical_address) (\<lambda>virtual_address.
     let bitmap_buffer = map (\<lambda>i. mem (virtual_address + i)) [0..<bitmap_size] in
     and_then (for_each (init_region bf) usable_regions
                 \<lparr>bitmap = bitmap_new bitmap_buffer, usable_frames = 0, next_frame = usize_max\<rparr>) (\<lambda>a.
     let bitmap_frame_start = bitmap_address div 4096;
         bitmap_frame_count = div_ceil bitmap_size 4096 in
     and_then (usize_add bitmap_frame_start bitmap_frame_count) (\<lambda>bitmap_frame_end.
     and_then (assert_that (next_frame a \<le> bitmap_frame_start)) (\<lambda>_.
     and_then (if next_frame a = bitmap_frame_start then usize_add bitmap_frame_end 1
               else Inr (next_frame a)) (\<lambda>next.
     and_then (usize_sub (usable_frames a) bitmap_frame_count) (\<lambda>usable.
     and_then (set_range bf bitmap_frame_start bitmap_frame_end False (bitmap a)) (\<lambda>b.
     Inr \<lparr>bitmap = b, usable_frames = usable, next_frame = next\<rparr>)))))))))))"

section \<open>Single-frame allocation\<close>

text \<open>\<open>find_free\<close> is \<open>(lo..hi).find(|&i| self.bitmap.get(i))\<close>.\<close>

function find_free :: "bit_field_api \<Rightarrow> Bitmap \<Rightarrow> nat \<Rightarrow> nat \<Rightarrow> nat option result" where
  "find_free bf b lo hi =
     (if lo < hi then
        and_then (bitmap_get bf b lo) (\<lambda>free.
          if free then Inr (Some lo) else find_free bf b (lo + 1) hi)
      else Inr None)"
  by pat_completeness auto
termination
  by (relation "measure (\<lambda>(bf, b, lo, hi). hi - lo)") auto

definition allocate_frame ::
  "bit_field_api \<Rightarrow> x86_api \<Rightarrow> BitmapFrameAllocator \<Rightarrow> (nat option \<times> BitmapFrameAllocator) result" where
  "allocate_frame bf x a =
     (if usable_frames a = 0 then Inr (None, a)
      else
        and_then (bitmap_set bf (bitmap a) (next_frame a) False) (\<lambda>b.
        and_then (usize_mul (next_frame a) 4096) (\<lambda>address.
        and_then (usize_add (next_frame a) 1) (\<lambda>lo.
        and_then (find_free bf b lo (bitmap_len b)) (\<lambda>found.
        and_then (phys_addr_new x address) (\<lambda>pa.
        Inr (Some (frame_containing x pa),
             \<lparr>bitmap = b, usable_frames = usable_frames a - 1,
              next_frame = (case found of Some i \<Rightarrow> i | None \<Rightarrow> bitmap_len b)\<rparr>)))))))"

definition deallocate_frame ::
  "bit_field_api \<Rightarrow> BitmapFrameAllocator \<Rightarrow> nat \<Rightarrow> BitmapFrameAllocator result" where
  "deallocate_frame bf a frame =
     and_then (bitmap_set bf (bitmap a) (frame div 4096) True) (\<lambda>b. Inr (a\<lparr>bitmap := b\<rparr>))"

section \<open>Contiguous allocation\<close>

text \<open>
  \<open>take_run\<close> is the loop that counts free frames from \<open>next\<close> on and stops when \<open>cnt\<close> of
  them are found; \<open>skip_used\<close> is the loop that passes over used frames; \<open>search\<close> is the
  outer \<open>loop\<close> of \<open>allocate_frames\<close>.
\<close>

function take_run :: "bit_field_api \<Rightarrow> Bitmap \<Rightarrow> nat \<Rightarrow> nat \<Rightarrow> nat \<Rightarrow> (nat \<times> bool) result" where
  "take_run bf b cnt next frame_cnt =
     (if next < bitmap_len b then
        and_then (bitmap_get bf b next) (\<lambda>free.
          if free then
            (if frame_cnt + 1 = cnt then Inr (next + 1, True)
             else take_run bf b cnt (next + 1) (frame_cnt + 1))
          else Inr (next, False))
      else Inr (next, False))"
  by pat_completeness auto
termination
  by (relation "measure (\<lambda>(bf, b, cnt, next, frame_cnt). bitmap_len b - next)") auto

function skip_used :: "bit_field_api \<Rightarrow> Bitmap \<Rightarrow> nat \<Rightarrow> nat result" where
  "skip_used bf b next =
     (if next < bitmap_len b then
        and_then (bitmap_get bf b next) (\<lambda>free.
          if free then Inr next else skip_used bf b (next + 1))
      else Inr next)"
  by pat_completeness auto
termination
  by (relation "measure (\<lambda>(bf, b, next). bitmap_len b - next)") auto

declare find_free.simps [simp del] take_run.simps [simp del] skip_used.simps [simp del]

lemma take_run_ge: "take_run bf b cnt next fc = Inr (n, found) \<Longrightarrow> next \<le> n"
proof (induction bf b cnt "next" fc arbitrary: n found rule: take_run.induct)
  case (1 bf b cnt "next" fc)
  then show ?case
    by (subst (asm) take_run.simps)
      (fastforce simp: result_simps split: if_splits)
qed

lemma skip_used_ge: "skip_used bf b next = Inr n \<Longrightarrow> next \<le> n"
proof (induction bf b "next" arbitrary: n rule: skip_used.induct)
  case (1 bf b "next")
  then show ?case
    by (subst (asm) skip_used.simps)
      (fastforce simp: result_simps split: if_splits)
qed

text \<open>One round of the outer loop makes progress: it passes at least one frame.\<close>

lemma search_round_progress:
  assumes "next < bitmap_len b" and "skip_used bf b next = Inr m"
    and "take_run bf b cnt m 0 = Inr (n, found)"
  shows "next < n"
proof (cases "bitmap_get bf b next = Inr True")
  case True
  with assms(1,2) have m: "m = next" by (simp add: skip_used.simps [of bf b "next"])
  with assms(1,3) True show ?thesis
    by (subst (asm) take_run.simps) (auto simp: result_simps split: if_splits dest: take_run_ge)
next
  case False
  with assms(1,2) have "skip_used bf b (next + 1) = Inr m"
    by (subst (asm) skip_used.simps) (auto simp: result_simps split: if_splits)
  then have "next + 1 \<le> m" by (rule skip_used_ge)
  moreover from assms(3) have "m \<le> n" by (rule take_run_ge)
  ultimately show ?thesis by simp
qed

function search :: "bit_field_api \<Rightarrow> Bitmap \<Rightarrow> nat \<Rightarrow> nat \<Rightarrow> nat option result" where
  "search bf b cnt next =
     (if bitmap_len b \<le> next then Inr None
      else
        and_then (skip_used bf b next) (\<lambda>m.
        and_then (take_run bf b cnt m 0) (\<lambda>(n, found).
          if found then Inr (Some n) else search bf b cnt n)))"
  by pat_completeness auto
termination
  by (relation "measure (\<lambda>(bf, b, cnt, next). bitmap_len b - next)")
    (auto simp: not_le intro!: diff_less_mono2 dest: search_round_progress)

declare search.simps [simp del]

definition allocate_frames ::
  "bit_field_api \<Rightarrow> BitmapFrameAllocator \<Rightarrow> nat \<Rightarrow> (nat option \<times> BitmapFrameAllocator) result" where
  "allocate_frames bf a cnt =
     (if usable_frames a < cnt then Inr (None, a)
      else
        let a1 = a\<lparr>usable_frames := usable_frames a - cnt\<rparr> in
        and_then (take_run bf (bitmap a1) cnt (next_frame a1) 0) (\<lambda>(next, found).
        if found then
          and_then (usize_sub next cnt) (\<lambda>start.
          and_then (usize_mul start 4096) (\<lambda>addr.
          and_then (set_range bf start next False (bitmap a1)) (\<lambda>b.
          Inr (Some addr, a1\<lparr>bitmap := b, next_frame := next\<rparr>))))
        else
          and_then (search bf (bitmap a1) cnt next) (\<lambda>r.
          case r of
            None \<Rightarrow> Inr (None, a1\<lparr>usable_frames := usable_frames a1 + cnt\<rparr>)
          | Some n \<Rightarrow>
              and_then (usize_sub n cnt) (\<lambda>start.
              and_then (usize_mul start 4096) (\<lambda>addr.
              and_then (set_range bf start n False (bitmap a1)) (\<lambda>b.
              Inr (Some addr, a1\<lparr>bitmap := b\<rparr>)))))))"

text \<open>The DMA entry points of \<open>drivers/mod.rs\<close>.\<close>

definition alloc_for_dma ::
  "bit_field_api \<Rightarrow> x86_api \<Rightarrow> nat \<Rightarrow> BitmapFrameAllocator \<Rightarrow> nat \<Rightarrow> ((nat \<times> nat) \<times> BitmapFrameAllocator) result" where
  "alloc_for_dma bf x offset a cnt =
     and_then (allocate_frames bf a cnt) (\<lambda>(r, a').
     and_then (unwrap r) (\<lambda>phys.
     and_then (phys_addr_new x phys) (\<lambda>pa.
     and_then (convert_physical_to_virtual x offset pa) (\<lambda>virt.
     Inr ((pa, virt), a')))))"

definition dealloc_for_dma ::
  "bit_field_api \<Rightarrow> x86_api \<Rightarrow> nat \<Rightarrow> BitmapFrameAllocator \<Rightarrow> nat \<Rightarrow> nat \<Rightarrow> BitmapFrameAllocator result" where
  "dealloc_for_dma bf x offset a virt_addr cnt =
     and_then (convert_virtual_to_physical x offset virt_addr) (\<lambda>phys.
     deallocate_frame bf a (frame_containing x phys))"

section \<open>What the scanning loops compute\<close>

text \<open>
  \<open>fits bf b cnt s\<close>: the \<open>cnt\<close> frames from \<open>s\<close> on are free and lie below the limit the code
  uses.
\<close>

definition fits :: "bit_field_api \<Rightarrow> Bitmap \<Rightarrow> nat \<Rightarrow> nat \<Rightarrow> bool" where
  "fits bf b cnt s \<longleftrightarrow> s + cnt \<le> bitmap_len b \<and> {s..<s + cnt} \<subseteq> bits bf b"

lemma find_free_spec:
  assumes "hi \<le> capacity b"
  shows "\<exists>r. find_free bf b lo hi = Inr r \<and>
    (case r of None \<Rightarrow> {lo..<hi} \<inter> bits bf b = {}
     | Some j \<Rightarrow> lo \<le> j \<and> j < hi \<and> j \<in> bits bf b \<and> {lo..<j} \<inter> bits bf b = {})"
  using assms
proof (induction bf b lo hi rule: find_free.induct)
  case (1 bf b lo hi)
  show ?case
  proof (cases "lo < hi")
    case True
    with "1.prems" have get: "bitmap_get bf b lo = Inr (lo \<in> bits bf b)" by (simp add: bitmap_get_in)
    show ?thesis
    proof (cases "lo \<in> bits bf b")
      case True
      with \<open>lo < hi\<close> get show ?thesis by (simp add: find_free.simps [of bf b lo hi])
    next
      case False
      with "1.IH" [OF \<open>lo < hi\<close> get] "1.prems" obtain r where r: "find_free bf b (lo + 1) hi = Inr r"
        "case r of None \<Rightarrow> {lo + 1..<hi} \<inter> bits bf b = {}
         | Some j \<Rightarrow> lo + 1 \<le> j \<and> j < hi \<and> j \<in> bits bf b \<and> {lo + 1..<j} \<inter> bits bf b = {}" by auto
      with False \<open>lo < hi\<close> get show ?thesis
        by (subst find_free.simps) (auto simp: ivl_head split: option.splits)
    qed
  next
    case False
    then show ?thesis by (simp add: find_free.simps [of bf b lo hi])
  qed
qed

lemma skip_used_spec:
  "\<exists>n. skip_used bf b next = Inr n \<and> next \<le> n \<and> n \<le> max next (bitmap_len b) \<and>
     {next..<n} \<inter> bits bf b = {} \<and> (bitmap_len b \<le> n \<or> n \<in> bits bf b)"
proof (induction bf b "next" rule: skip_used.induct)
  case (1 bf b "next")
  show ?case
  proof (cases "next < bitmap_len b")
    case True
    then have get: "bitmap_get bf b next = Inr (next \<in> bits bf b)"
      using bitmap_len_le_capacity [of b] by (intro bitmap_get_in) simp
    show ?thesis
    proof (cases "next \<in> bits bf b")
      case True
      with \<open>next < bitmap_len b\<close> get show ?thesis by (simp add: skip_used.simps [of bf b "next"])
    next
      case False
      with "1.IH" [OF True get] obtain n where n: "skip_used bf b (next + 1) = Inr n" "next + 1 \<le> n"
        "n \<le> max (next + 1) (bitmap_len b)" "{next + 1..<n} \<inter> bits bf b = {}"
        "bitmap_len b \<le> n \<or> n \<in> bits bf b" by blast
      from True get False n(1) have "skip_used bf b next = Inr n"
        by (simp add: skip_used.simps [of bf b "next"])
      moreover have "{next..<n} \<inter> bits bf b = {}" using n(2,4) False by (simp add: ivl_head)
      ultimately show ?thesis using n(2,3,5) True by auto
    qed
  next
    case False
    then show ?thesis by (simp add: skip_used.simps [of bf b "next"])
  qed
qed

lemma take_run_spec:
  assumes "fc < cnt"
  shows "\<exists>n found. take_run bf b cnt next fc = Inr (n, found) \<and> next \<le> n \<and>
    {next..<n} \<subseteq> bits bf b \<and>
    (if found then fc + (n - next) = cnt \<and> n \<le> bitmap_len b
     else fc + (n - next) < cnt \<and> (bitmap_len b \<le> n \<or> n \<notin> bits bf b))"
  using assms
proof (induction bf b cnt "next" fc rule: take_run.induct)
  case (1 bf b cnt "next" fc)
  show ?case
  proof (cases "next < bitmap_len b \<and> next \<in> bits bf b")
    case True
    then have get: "bitmap_get bf b next = Inr True"
      using bitmap_len_le_capacity [of b] by (simp add: bitmap_get_in)
    show ?thesis
    proof (cases "fc + 1 = cnt")
      case True
      with get \<open>next < bitmap_len b \<and> _\<close> show ?thesis
        by (auto simp: take_run.simps [of bf b cnt "next" fc])
    next
      case False
      with "1.prems" have "fc + 1 < cnt" by simp
      with "1.IH" [of True] True get False obtain n found where
        r: "take_run bf b cnt (next + 1) (fc + 1) = Inr (n, found)" "next + 1 \<le> n"
        "{next + 1..<n} \<subseteq> bits bf b"
        "if found then fc + 1 + (n - (next + 1)) = cnt \<and> n \<le> bitmap_len b
         else fc + 1 + (n - (next + 1)) < cnt \<and> (bitmap_len b \<le> n \<or> n \<notin> bits bf b)"
        by auto
      with True get False have "take_run bf b cnt next fc = Inr (n, found)"
        by (simp add: take_run.simps [of bf b cnt "next" fc])
      moreover have "{next..<n} \<subseteq> bits bf b" using r(2,3) True by (simp add: ivl_head)
      ultimately show ?thesis using r(2,4) by (intro exI [of _ n] exI [of _ found]) auto
    qed
  next
    case False
    then have "take_run bf b cnt next fc = Inr (next, False)"
      using bitmap_len_le_capacity [of b] bitmap_get_in [of "next" b bf]
      by (auto simp: take_run.simps [of bf b cnt "next" fc])
    with False "1.prems" show ?thesis by (intro exI [of _ "next"] exI [of _ False]) auto
  qed
qed

lemmas take_run_start = take_run_spec [where fc = 0, unfolded add_0]

text \<open>
  A run that was cut short rules out every start inside it: such a run would have to
  contain the used frame, or the limit, at which the count stopped.
\<close>

lemma short_run_no_fit:
  assumes "n - m < cnt" and "bitmap_len b \<le> n \<or> n \<notin> bits bf b" and "m \<le> s" and "s \<le> n"
  shows "\<not> fits bf b cnt s"
  using assms by (auto simp: fits_def subset_iff)

lemma used_no_fit:
  assumes "{m..<n} \<inter> bits bf b = {}" and "m \<le> s" and "s < n" and "0 < cnt"
  shows "\<not> fits bf b cnt s"
  using assms by (auto simp: fits_def subset_iff)

lemma search_spec:
  assumes "0 < cnt"
  shows "\<exists>r. search bf b cnt next = Inr r \<and>
    (case r of None \<Rightarrow> \<forall>s\<ge>next. \<not> fits bf b cnt s
     | Some n \<Rightarrow> cnt \<le> n \<and> next \<le> n - cnt \<and> fits bf b cnt (n - cnt) \<and>
         (\<forall>s. next \<le> s \<and> s < n - cnt \<longrightarrow> \<not> fits bf b cnt s))"
  using assms
proof (induction bf b cnt "next" rule: search.induct)
  case (1 bf b cnt "next")
  show ?case
  proof (cases "bitmap_len b \<le> next")
    case True
    with "1.prems" show ?thesis by (simp add: search.simps [of bf b cnt "next"] fits_def)
  next
    case False
    obtain m where m: "skip_used bf b next = Inr m" "next \<le> m" "{next..<m} \<inter> bits bf b = {}"
      using skip_used_spec [of bf b "next"] by blast
    obtain n found where n: "take_run bf b cnt m 0 = Inr (n, found)" "m \<le> n" "{m..<n} \<subseteq> bits bf b"
      "if found then n - m = cnt \<and> n \<le> bitmap_len b
       else n - m < cnt \<and> (bitmap_len b \<le> n \<or> n \<notin> bits bf b)"
      using take_run_start [OF "1.prems", of bf b m] by blast
    have below: "\<not> fits bf b cnt s" if "next \<le> s" "s < m" for s
      using used_no_fit [OF m(3) that "1.prems"] .
    show ?thesis
    proof (cases found)
      case True
      with False m n have "search bf b cnt next = Inr (Some n)"
        by (simp add: search.simps [of bf b cnt "next"])
      moreover from True n have "n - cnt = m" and "cnt \<le> n" by auto
      moreover from this True n have "fits bf b cnt m" by (auto simp: fits_def)
      ultimately show ?thesis using below m(2) by auto
    next
      case notfound: False
      with n(4) have short: "n - m < cnt" "bitmap_len b \<le> n \<or> n \<notin> bits bf b" by auto
      have upto: "\<not> fits bf b cnt s" if "next \<le> s" "s \<le> n" for s
        using below short_run_no_fit [OF short, of s] that by (cases "s < m") auto
      have "next \<le> n" using m(2) n(2) by simp
      from notfound False m n have rec: "search bf b cnt next = search bf b cnt n"
        by (simp add: search.simps [of bf b cnt "next"])
      from "1.IH" [OF False m(1) n(1) refl notfound "1.prems"] obtain r
        where r: "search bf b cnt n = Inr r"
        "case r of None \<Rightarrow> \<forall>s\<ge>n. \<not> fits bf b cnt s
         | Some k \<Rightarrow> cnt \<le> k \<and> n \<le> k - cnt \<and> fits bf b cnt (k - cnt) \<and>
             (\<forall>s. n \<le> s \<and> s < k - cnt \<longrightarrow> \<not> fits bf b cnt s)" by blast
      from r(2) have "case r of None \<Rightarrow> \<forall>s\<ge>next. \<not> fits bf b cnt s
         | Some k \<Rightarrow> cnt \<le> k \<and> next \<le> k - cnt \<and> fits bf b cnt (k - cnt) \<and>
             (\<forall>s. next \<le> s \<and> s < k - cnt \<longrightarrow> \<not> fits bf b cnt s)"
        using upto \<open>next \<le> n\<close>
        by (auto split: option.splits; metis nle_le)
      with rec r(1) show ?thesis by simp
    qed
  qed
qed

section \<open>Contracts of the operations\<close>

abbreviation free_frames :: "bit_field_api \<Rightarrow> BitmapFrameAllocator \<Rightarrow> nat set" where
  "free_frames bf a \<equiv> bits bf (bitmap a)"

text \<open>
  \<open>addressable\<close>: frame numbers below the code's limit have 52-bit physical addresses, as
  they do on every machine the crate supports.
\<close>

definition addressable :: "BitmapFrameAllocator \<Rightarrow> bool" where
  "addressable a \<longleftrightarrow> bitmap_len (bitmap a) < 2 ^ 40"

lemma addressable_mul:
  assumes "addressable a" and "n \<le> bitmap_len (bitmap a)"
  shows "usize_mul n 4096 = Inr (4096 * n)"
  using assms by (simp add: addressable_def usize_mul_def usize_max_def mult.commute)

context bit_field
begin

lemma allocate_frames_contract:
  assumes "0 < cnt" and "cnt \<le> usable_frames a" and "addressable a"
  shows "\<exists>r a'. allocate_frames bf a cnt = Inr (r, a') \<and>
    (case r of
       None \<Rightarrow> a' = a \<and> (\<forall>s\<ge>next_frame a. \<not> fits bf (bitmap a) cnt s)
     | Some addr \<Rightarrow> \<exists>s\<ge>next_frame a. addr = 4096 * s \<and> fits bf (bitmap a) cnt s \<and>
         (\<forall>t. next_frame a \<le> t \<and> t < s \<longrightarrow> \<not> fits bf (bitmap a) cnt t) \<and>
         free_frames bf a' = free_frames bf a - {s..<s + cnt} \<and>
         usable_frames a' = usable_frames a - cnt \<and>
         bitmap_len (bitmap a') = bitmap_len (bitmap a) \<and>
         next_frame a' \<in> {next_frame a, s + cnt})"
proof -
  let ?b = "bitmap a" and ?c = "next_frame a"
  obtain n found where n: "take_run bf ?b cnt ?c 0 = Inr (n, found)" "?c \<le> n" "{?c..<n} \<subseteq> bits bf ?b"
    "if found then n - ?c = cnt \<and> n \<le> bitmap_len ?b
     else n - ?c < cnt \<and> (bitmap_len ?b \<le> n \<or> n \<notin> bits bf ?b)"
    using take_run_start [OF assms(1), of bf ?b ?c] by blast
  have clear: "\<exists>b'. set_range bf s (s + cnt) False ?b = Inr b' \<and> bitmap_len b' = bitmap_len ?b \<and>
      bits bf b' = bits bf ?b - {s..<s + cnt}" if "fits bf ?b cnt s" for s
    using that bitmap_len_le_capacity [of ?b] set_range_in [of s "s + cnt" ?b False]
    by (auto simp: fits_def) (metis le_add1 le_trans)
  show ?thesis
  proof (cases found)
    case True
    with n have "fits bf ?b cnt ?c" "n = ?c + cnt" by (auto simp: fits_def)
    with clear [of ?c] True n(1) assms addressable_mul [OF assms(3), of ?c] show ?thesis
      by (auto simp: allocate_frames_def usize_sub_def fits_def)
  next
    case False
    with n(4) have short: "n - ?c < cnt" "bitmap_len ?b \<le> n \<or> n \<notin> bits bf ?b" by auto
    have upto: "\<not> fits bf ?b cnt s" if "?c \<le> s" "s \<le> n" for s
      using short_run_no_fit [OF short that] .
    obtain r where r: "search bf ?b cnt n = Inr r"
      "case r of None \<Rightarrow> \<forall>s\<ge>n. \<not> fits bf ?b cnt s
       | Some k \<Rightarrow> cnt \<le> k \<and> n \<le> k - cnt \<and> fits bf ?b cnt (k - cnt) \<and>
           (\<forall>s. n \<le> s \<and> s < k - cnt \<longrightarrow> \<not> fits bf ?b cnt s)"
      using search_spec [OF assms(1), of bf ?b n] by blast
    show ?thesis
    proof (cases r)
      case None
      with r False n(1) assms(2) have "allocate_frames bf a cnt = Inr (None, a)"
        by (simp add: allocate_frames_def)
      moreover have "\<not> fits bf ?b cnt s" if "?c \<le> s" for s
        using upto [OF that] r(2) None by (cases "s \<le> n") auto
      ultimately show ?thesis by auto
    next
      case (Some k)
      define s where "s = k - cnt"
      with Some r(2) have k: "k = s + cnt" "n \<le> s" "fits bf ?b cnt s"
        "\<And>t. n \<le> t \<Longrightarrow> t < s \<Longrightarrow> \<not> fits bf ?b cnt t" by auto
      from clear [OF k(3)] obtain b' where b': "set_range bf s (s + cnt) False ?b = Inr b'"
        "bitmap_len b' = bitmap_len ?b" "bits bf b' = bits bf ?b - {s..<s + cnt}" by blast
      have "allocate_frames bf a cnt = Inr (Some (4096 * s),
          a\<lparr>usable_frames := usable_frames a - cnt, bitmap := b'\<rparr>)"
        using Some r(1) False n(1) assms(2) b'(1) k(1,3) addressable_mul [OF assms(3), of s]
        by (simp add: allocate_frames_def usize_sub_def fits_def)
      moreover have "\<not> fits bf ?b cnt t" if "?c \<le> t" "t < s" for t
        using upto [OF that(1)] k(4) [OF _ that(2)] by (cases "t \<le> n") auto
      moreover have "?c \<le> s" using n(2) k(2) by simp
      ultimately show ?thesis using k(3) b'(2,3) by auto
    qed
  qed
qed

end

text \<open>
  The cursor discipline: the cursor is at a free frame below the limit, or at the limit.
  \<open>reachable_free\<close> are the frames the single-frame allocator can still hand out.
\<close>

definition cursor_inv :: "bit_field_api \<Rightarrow> BitmapFrameAllocator \<Rightarrow> bool" where
  "cursor_inv bf a \<longleftrightarrow> next_frame a \<le> bitmap_len (bitmap a) \<and>
     (next_frame a < bitmap_len (bitmap a) \<longrightarrow> next_frame a \<in> free_frames bf a)"

definition reachable_free :: "bit_field_api \<Rightarrow> BitmapFrameAllocator \<Rightarrow> nat set" where
  "reachable_free bf a = {i \<in> free_frames bf a. next_frame a \<le> i \<and> i < bitmap_len (bitmap a)}"

text \<open>\<open>allocate_n\<close> is \<open>n\<close> calls of \<open>allocate_frame().unwrap()\<close>, as the mapping loops make them.\<close>

fun allocate_n ::
  "bit_field_api \<Rightarrow> x86_api \<Rightarrow> nat \<Rightarrow> BitmapFrameAllocator \<Rightarrow> (nat list \<times> BitmapFrameAllocator) result" where
  "allocate_n bf x 0 a = Inr ([], a)"
| "allocate_n bf x (Suc n) a =
     and_then (allocate_frame bf x a) (\<lambda>(r, a1).
     and_then (unwrap r) (\<lambda>f.
     and_then (allocate_n bf x n a1) (\<lambda>(fs, a2). Inr (f # fs, a2))))"

locale frame_env = bit_field bf + x86_addr x for bf :: bit_field_api and x :: x86_api
begin

lemma allocate_frame_contract:
  assumes "0 < usable_frames a" and "next_frame a \<le> bitmap_len (bitmap a)"
    and "0 < bitmap_len (bitmap a)" and "addressable a"
  obtains a' where "allocate_frame bf x a = Inr (Some (4096 * next_frame a), a')"
    "free_frames bf a' = free_frames bf a - {next_frame a}"
    "usable_frames a' = usable_frames a - 1"
    "bitmap_len (bitmap a') = bitmap_len (bitmap a)"
    "cursor_inv bf a'"
    "next_frame a' = bitmap_len (bitmap a) \<or> next_frame a < next_frame a'"
    "{next_frame a + 1..<next_frame a'} \<inter> free_frames bf a = {}"
proof -
  let ?n = "next_frame a" and ?b = "bitmap a"
  from assms(2,3) have "?n < capacity ?b" by (simp add: capacity_def)
  then obtain b where b: "bitmap_set bf ?b ?n False = Inr b" "bitmap_len b = bitmap_len ?b"
    "bits bf b = bits bf ?b - {?n}" by (rule bitmap_set_in [where v = False]) simp
  have "bitmap_len b \<le> capacity b" by (rule bitmap_len_le_capacity)
  from find_free_spec [OF this, of bf "?n + 1"] obtain r
    where r: "find_free bf b (?n + 1) (bitmap_len b) = Inr r"
    "case r of None \<Rightarrow> {?n + 1..<bitmap_len b} \<inter> bits bf b = {}
     | Some j \<Rightarrow> ?n + 1 \<le> j \<and> j < bitmap_len b \<and> j \<in> bits bf b \<and> {?n + 1..<j} \<inter> bits bf b = {}"
    by blast
  define n' where "n' = (case r of Some i \<Rightarrow> i | None \<Rightarrow> bitmap_len b)"
  define a' where "a' = \<lparr>bitmap = b, usable_frames = usable_frames a - 1, next_frame = n'\<rparr>"
  have small: "?n < 2 ^ 40" using assms(2,4) by (simp add: addressable_def)
  then have "phys_addr_new x (4096 * ?n) = Inr (4096 * ?n)" by (simp add: phys_addr_new)
  moreover have "usize_add ?n 1 = Inr (?n + 1)" using small by (simp add: usize_add_def usize_max_def)
  ultimately have "allocate_frame bf x a = Inr (Some (4096 * ?n), a')"
    using assms(1) b(1) r(1) addressable_mul [OF assms(4,2)]
    by (simp add: allocate_frame_def a'_def n'_def)
  moreover have n': "n' \<le> bitmap_len ?b" "n' < bitmap_len ?b \<longrightarrow> n' \<in> bits bf b"
    "n' = bitmap_len ?b \<or> ?n < n'" "{?n + 1..<n'} \<inter> bits bf b = {}"
    using r(2) b(2) by (cases r; simp add: n'_def)+
  moreover from n'(1,2) b(2) have "cursor_inv bf a'" by (simp add: cursor_inv_def a'_def)
  moreover have "{?n + 1..<n'} \<inter> bits bf ?b = {}"
  proof -
    have "?n \<notin> {?n + 1..<n'}" by simp
    with n'(4) b(3) show ?thesis by blast
  qed
  ultimately show thesis using that [of a'] b(2,3) by (simp add: a'_def)
qed

lemma allocate_frame_some:
  assumes "0 < usable_frames a" and "next_frame a \<le> bitmap_len (bitmap a)"
    and "0 < bitmap_len (bitmap a)" and "addressable a"
  shows "\<exists>a'. allocate_frame bf x a = Inr (Some (4096 * next_frame a), a') \<and>
    usable_frames a' = usable_frames a - 1 \<and> bitmap_len (bitmap a') = bitmap_len (bitmap a) \<and>
    cursor_inv bf a' \<and> (next_frame a' = bitmap_len (bitmap a) \<or> next_frame a < next_frame a')"
  using assms by (rule allocate_frame_contract) blast

lemma reachable_free_allocate:
  assumes "cursor_inv bf a" and "next_frame a < bitmap_len (bitmap a)"
    and "free_frames bf a' = free_frames bf a - {next_frame a}"
    and "bitmap_len (bitmap a') = bitmap_len (bitmap a)"
    and "next_frame a' = bitmap_len (bitmap a) \<or> next_frame a < next_frame a'"
    and "{next_frame a + 1..<next_frame a'} \<inter> free_frames bf a = {}"
  shows "reachable_free bf a = insert (next_frame a) (reachable_free bf a')"
    and "\<forall>i \<in> reachable_free bf a'. next_frame a < i"
proof -
  have lt: "next_frame a < next_frame a'" using assms(2,5) by auto
  have notin: "i \<notin> free_frames bf a" if "next_frame a < i" "i < next_frame a'" for i
    using assms(6) that by (auto simp: disjoint_iff)
  show "reachable_free bf a = insert (next_frame a) (reachable_free bf a')"
    using assms(1-4) lt notin
    by (auto simp: reachable_free_def cursor_inv_def not_less dest: le_neq_implies_less)
  show "\<forall>i \<in> reachable_free bf a'. next_frame a < i"
    using lt by (auto simp: reachable_free_def)
qed

lemma finite_reachable_free [simp]: "finite (reachable_free bf a)"
  by (simp add: reachable_free_def)

lemma allocate_n_contract:
  assumes "cursor_inv bf a" and "n \<le> usable_frames a" and "n \<le> card (reachable_free bf a)"
    and "addressable a"
  shows "\<exists>a'. allocate_n bf x n a =
    Inr (map ((*) 4096) (take n (sorted_list_of_set (reachable_free bf a))), a')"
  using assms
proof (induction n arbitrary: a)
  case 0
  then show ?case by simp
next
  case (Suc n)
  from Suc.prems(3) have ne: "reachable_free bf a \<noteq> {}" by auto
  then have lt: "next_frame a < bitmap_len (bitmap a)" by (auto simp: reachable_free_def)
  with Suc.prems obtain a1 where
    a1: "allocate_frame bf x a = Inr (Some (4096 * next_frame a), a1)"
    "free_frames bf a1 = free_frames bf a - {next_frame a}"
    "usable_frames a1 = usable_frames a - 1"
    "bitmap_len (bitmap a1) = bitmap_len (bitmap a)" "cursor_inv bf a1"
    "next_frame a1 = bitmap_len (bitmap a) \<or> next_frame a < next_frame a1"
    "{next_frame a + 1..<next_frame a1} \<inter> free_frames bf a = {}"
    using allocate_frame_contract [of a] by auto
  note split = reachable_free_allocate [OF Suc.prems(1) lt a1(2,4,6,7)]
  then have notin: "next_frame a \<notin> reachable_free bf a1" by auto
  with split(1) Suc.prems(3) have "n \<le> card (reachable_free bf a1)" by simp
  moreover have "addressable a1" using Suc.prems(4) a1(4) by (simp add: addressable_def)
  ultimately obtain a' where a': "allocate_n bf x n a1 =
      Inr (map ((*) 4096) (take n (sorted_list_of_set (reachable_free bf a1))), a')"
    using Suc.IH [of a1] Suc.prems(2) a1(3,5) by fastforce
  have "sorted_list_of_set (reachable_free bf a) =
      next_frame a # sorted_list_of_set (reachable_free bf a1)"
    using split notin by (intro sorted_list_of_set_unique [THEN iffD1])
      (auto simp: sorted_list_of_set.finite_set_strict_sorted)
  with a1(1) a' show ?case by simp
qed

end

section \<open>The initial allocator\<close>

definition region_frames :: "MemoryEntry \<Rightarrow> nat set" where
  "region_frames r = {base r div 4096..<base r div 4096 + region_length r div 4096}"

definition usable_regions :: "MemoryEntry list \<Rightarrow> MemoryEntry list" where
  "usable_regions entries = filter (\<lambda>r. entry_type r = USABLE) entries"

text \<open>
  \<open>bitmap_region\<close>: the usable region the bitmap is placed in; \<open>bitmap_frames\<close>: the frames
  the bitmap itself occupies there.
\<close>

definition bitmap_region :: "MemoryEntry list \<Rightarrow> nat \<Rightarrow> MemoryEntry option" where
  "bitmap_region entries sz = find (\<lambda>r. sz \<le> region_length r) (usable_regions entries)"

definition bitmap_frames :: "MemoryEntry \<Rightarrow> nat \<Rightarrow> nat set" where
  "bitmap_frames r sz = {base r div 4096..<base r div 4096 + div_ceil sz 4096}"

context bit_field
begin

lemma set_range_result:
  assumes "set_range bf lo hi v b = Inr b'" and "lo \<le> hi"
  shows "bitmap_len b' = bitmap_len b"
    and "bits bf b' = (if v then bits bf b \<union> {lo..<hi} else bits bf b - {lo..<hi})"
proof -
  consider "lo = hi" | "hi \<le> capacity b" using set_range_Inr [OF assms] by auto
  then have "bitmap_len b' = bitmap_len b \<and>
    bits bf b' = (if v then bits bf b \<union> {lo..<hi} else bits bf b - {lo..<hi})"
  proof cases
    case 1
    with assms(1) show ?thesis by (simp add: set_range_def)
  next
    case 2
    then show ?thesis using assms set_range_in [of lo hi b v] by (metis Inr_inject)
  qed
  then show "bitmap_len b' = bitmap_len b"
    and "bits bf b' = (if v then bits bf b \<union> {lo..<hi} else bits bf b - {lo..<hi})" by auto
qed

lemma init_region_result:
  assumes "init_region bf r a = Inr a'"
  shows "free_frames bf a' = free_frames bf a \<union> region_frames r"
    and "usable_frames a' = usable_frames a + card (region_frames r)"
    and "bitmap_len (bitmap a') = bitmap_len (bitmap a)"
proof -
  from assms obtain b where b: "set_range bf (base r div 4096)
      (base r div 4096 + region_length r div 4096) True (bitmap a) = Inr b"
    "a' = \<lparr>bitmap = b, usable_frames = usable_frames a + region_length r div 4096,
           next_frame = min (next_frame a) (base r div 4096)\<rparr>"
    by (auto simp: init_region_def Let_def result_simps checked_simps)
  from set_range_result [OF b(1)] b(2)
  show "free_frames bf a' = free_frames bf a \<union> region_frames r"
    and "usable_frames a' = usable_frames a + card (region_frames r)"
    and "bitmap_len (bitmap a') = bitmap_len (bitmap a)"
    by (simp_all add: region_frames_def)
qed

lemma init_regions_result:
  assumes "for_each (init_region bf) rs a = Inr a'"
  shows "free_frames bf a' = free_frames bf a \<union> (\<Union>r \<in> set rs. region_frames r) \<and>
    usable_frames a' = usable_frames a + sum_list (map (card \<circ> region_frames) rs) \<and>
    bitmap_len (bitmap a') = bitmap_len (bitmap a)"
  using assms
proof (induction rs arbitrary: a)
  case Nil
  then show ?case by simp
next
  case (Cons r rs)
  then obtain a1 where "init_region bf r a = Inr a1" "for_each (init_region bf) rs a1 = Inr a'"
    by (auto simp: and_then_eq_Inr)
  with Cons.IH [of a1] init_region_result [of r a a1] show ?case by auto
qed

lemma frame_init_result:
  assumes "frame_init bf x offset mem entries = Inr a"
  shows "\<exists>r. bitmap_region entries (bitmap_len (bitmap a)) = Some r \<and>
    free_frames bf a =
      (\<Union>r \<in> set (usable_regions entries). region_frames r) - bitmap_frames r (bitmap_len (bitmap a)) \<and>
    usable_frames a + card (bitmap_frames r (bitmap_len (bitmap a))) =
      sum_list (map (card \<circ> region_frames) (usable_regions entries))"
proof -
  define sz where "sz = div_ceil ((base (last entries) + region_length (last entries)) div 4096) 8"
  from assms obtain r va a1 b where
    r: "bitmap_region entries sz = Some r"
    and a1: "for_each (init_region bf) (usable_regions entries)
      \<lparr>bitmap = bitmap_new (map (\<lambda>i. mem (va + i)) [0..<sz]), usable_frames = 0,
       next_frame = usize_max\<rparr> = Inr a1"
    and b: "set_range bf (base r div 4096) (base r div 4096 + div_ceil sz 4096) False (bitmap a1) = Inr b"
    and a: "bitmap a = b" "usable_frames a + div_ceil sz 4096 = usable_frames a1"
    by (fastforce simp: frame_init_def Let_def result_simps checked_simps usable_regions_def
        bitmap_region_def sz_def split: if_splits)
  have len: "bitmap_len (bitmap_new (map (\<lambda>i. mem (va + i)) [0..<sz])) = sz"
    by (simp add: bitmap_len_def bitmap_new_def)
  note a1' = init_regions_result [OF a1, simplified, unfolded bits_new len]
  from set_range_result [OF b] a a1' have "bitmap_len (bitmap a) = sz"
    "free_frames bf a = (\<Union>r \<in> set (usable_regions entries). region_frames r) - bitmap_frames r sz"
    by (simp_all add: bitmap_frames_def)
  with r a a1' show ?thesis by (simp add: bitmap_frames_def)
qed

end

text \<open>
  What the Limine protocol guarantees of usable entries: page-aligned and not overlapping.
\<close>

definition limine_map :: "MemoryEntry list \<Rightarrow> bool" where
  "limine_map entries \<longleftrightarrow>
     (\<forall>r \<in> set (usable_regions entries). base r mod 4096 = 0 \<and> region_length r mod 4096 = 0) \<and>
     sorted_wrt (\<lambda>r s. region_frames r \<inter> region_frames s = {}) (usable_regions entries)"

lemma card_regions:
  assumes "sorted_wrt (\<lambda>r s. region_frames r \<inter> region_frames s = {}) rs"
  shows "card (\<Union>r \<in> set rs. region_frames r) = sum_list (map (card \<circ> region_frames) rs)"
  using assms
proof (induction rs)
  case Nil
  then show ?case by simp
next
  case (Cons r rs)
  then have "region_frames r \<inter> (\<Union>r \<in> set rs. region_frames r) = {}" by auto
  moreover have "finite (region_frames s)" for s by (simp add: region_frames_def)
  ultimately show ?case using Cons by (simp add: card_Un_disjoint)
qed

lemma bitmap_frames_subset:
  assumes "region_length r mod 4096 = 0" and "sz \<le> region_length r"
  shows "bitmap_frames r sz \<subseteq> region_frames r"
proof -
  have "div_ceil sz 4096 \<le> region_length r div 4096"
    using assms div_ceil_bounds(2) [of 4096 sz] by auto
  then show ?thesis by (auto simp: bitmap_frames_def region_frames_def)
qed

section \<open>Properties\<close>

text \<open>A small allocator for the witnesses: eight bitmap bytes, frames 0, 2, 3, 4, 6 and 7 free.\<close>

definition demo_allocator :: BitmapFrameAllocator where
  "demo_allocator = \<lparr>bitmap = \<lparr>inner = [0xDD, 0, 0, 0, 0, 0, 0, 0]\<rparr>, usable_frames = 6, next_frame = 0\<rparr>"

lemma demo_addressable: "addressable demo_allocator"
  by (simp add: addressable_def demo_allocator_def bitmap_len_def)

lemma demo_free_iff: "i < 8 \<Longrightarrow> i \<in> free_frames byte_bits demo_allocator \<longleftrightarrow> bit (0xDD :: u8) i"
  by (simp add: demo_allocator_def bits_def capacity_def bitmap_len_def byte_bits_def)

lemma demo_cursor: "cursor_inv byte_bits demo_allocator"
  using demo_free_iff [of 0] by (simp add: cursor_inv_def demo_allocator_def bitmap_len_def)

lemma demo_reachable: "reachable_free byte_bits demo_allocator = {0, 2, 3, 4, 6, 7}"
proof -
  have "reachable_free byte_bits demo_allocator = {i. i < 8 \<and> bit (0xDD :: u8) i}"
    using demo_free_iff
    by (auto simp: reachable_free_def) (simp_all add: demo_allocator_def bitmap_len_def)
  also have "\<dots> = Set.filter (bit (0xDD :: u8)) (set [0..<8])" by auto
  also have "\<dots> = {0, 2, 3, 4, 6, 7}" by code_simp
  finally show ?thesis .
qed

text \<open>
  C6. \<open>allocate_frames\<close> is first fit: for a positive request that the count admits it
  returns the lowest run of \<open>cnt\<close> free frames at or after the cursor that lies below the
  limit, marks exactly that run used and lowers the count by \<open>cnt\<close>; it returns \<open>None\<close>, with
  the allocator unchanged, only when there is no such run.  It never panics.
\<close>

theorem allocate_frames_first_fit:
  assumes "bit_field bf" and "0 < cnt" and "cnt \<le> usable_frames a" and "addressable a"
  shows "\<exists>r a'. allocate_frames bf a cnt = Inr (r, a') \<and>
    (case r of
       None \<Rightarrow> a' = a \<and> (\<forall>s\<ge>next_frame a. \<not> fits bf (bitmap a) cnt s)
     | Some addr \<Rightarrow> \<exists>s\<ge>next_frame a. addr = 4096 * s \<and> fits bf (bitmap a) cnt s \<and>
         (\<forall>t. next_frame a \<le> t \<and> t < s \<longrightarrow> \<not> fits bf (bitmap a) cnt t) \<and>
         free_frames bf a' = free_frames bf a - {s..<s + cnt} \<and>
         usable_frames a' = usable_frames a - cnt \<and>
         bitmap_len (bitmap a') = bitmap_len (bitmap a) \<and>
         next_frame a' \<in> {next_frame a, s + cnt})"
  by (rule bit_field.allocate_frames_contract [OF assms])

theorem allocate_frames_first_fit_witness:
  "\<exists>r a'. allocate_frames byte_bits demo_allocator 2 = Inr (r, a') \<and>
     (case r of
        None \<Rightarrow> a' = demo_allocator \<and> (\<forall>s\<ge>next_frame demo_allocator. \<not> fits byte_bits (bitmap demo_allocator) 2 s)
      | Some addr \<Rightarrow> \<exists>s\<ge>next_frame demo_allocator. addr = 4096 * s \<and> fits byte_bits (bitmap demo_allocator) 2 s \<and>
          (\<forall>t. next_frame demo_allocator \<le> t \<and> t < s \<longrightarrow> \<not> fits byte_bits (bitmap demo_allocator) 2 t) \<and>
          free_frames byte_bits a' = free_frames byte_bits demo_allocator - {s..<s + 2} \<and>
          usable_frames a' = usable_frames demo_allocator - 2 \<and>
          bitmap_len (bitmap a') = bitmap_len (bitmap demo_allocator) \<and>
          next_frame a' \<in> {next_frame demo_allocator, s + 2})"
  by (rule allocate_frames_first_fit)
    (simp_all add: byte_bits.bit_field_axioms demo_addressable, simp add: demo_allocator_def)

text \<open>
  C7. Repeated single-frame allocation from a state in which the cursor is at a free
  frame hands out the free frames below the limit in ascending order, each once: \<open>n\<close> calls
  return the \<open>n\<close> smallest frames that are free at or after the cursor.
\<close>

theorem allocate_n_ascending:
  assumes "frame_env bf x" and "cursor_inv bf a" and "n \<le> usable_frames a"
    and "n \<le> card (reachable_free bf a)" and "addressable a"
  shows "\<exists>a'. allocate_n bf x n a =
    Inr (map ((*) 4096) (take n (sorted_list_of_set (reachable_free bf a))), a')"
  by (rule frame_env.allocate_n_contract [OF assms])

lemma frame_env_model: "frame_env byte_bits x86_model"
  by (intro frame_env.intro byte_bits.bit_field_axioms x86_model.x86_addr_axioms)

theorem allocate_n_ascending_witness:
  "\<exists>a'. allocate_n byte_bits x86_model 4 demo_allocator = Inr ([0, 8192, 12288, 16384], a')"
proof -
  have "\<exists>a'. allocate_n byte_bits x86_model 4 demo_allocator =
      Inr (map ((*) 4096) (take 4 (sorted_list_of_set (reachable_free byte_bits demo_allocator))), a')"
    by (rule allocate_n_ascending)
      (simp_all add: frame_env_model demo_cursor demo_addressable demo_reachable, simp add: demo_allocator_def)
  moreover have "sorted_list_of_set {0, 2, 3, 4, 6, 7 :: nat} = [0, 2, 3, 4, 6, 7]" by code_simp
  ultimately show ?thesis by (simp add: demo_reachable)
qed

text \<open>A memory map with one usable region of sixteen frames from address 0 on, below a reserved one.\<close>

definition demo_map :: "MemoryEntry list" where
  "demo_map = [\<lparr>base = 0, region_length = 65536, entry_type = USABLE\<rparr>,
               \<lparr>base = 65536, region_length = 65536, entry_type = OTHER 1\<rparr>]"

lemma demo_map_init:
  "frame_init byte_bits x86_model 0 (\<lambda>_. 7) demo_map =
     Inr \<lparr>bitmap = \<lparr>inner = [0xFE, 0xFF, 0, 0]\<rparr>, usable_frames = 15, next_frame = 2\<rparr>"
proof -
  have zeros: "replicate 4 0 = [0, 0, 0, 0 :: u8]" by (simp add: eval_nat_numeral)
  have fill: "set_range byte_bits 0 16 True \<lparr>inner = replicate 4 0\<rparr> = Inr \<lparr>inner = [255, 255, 0, 0]\<rparr>"
    by (simp add: bitmap_eval zeros)
  have own: "set_range byte_bits 0 1 False \<lparr>inner = [255, 255, 0, 0]\<rparr> = Inr \<lparr>inner = [254, 255, 0, 0]\<rparr>"
    by (simp add: bitmap_eval)
  show ?thesis
    using fill own
    by (simp add: frame_init_def demo_map_def usize_add_def usize_sub_def usize_max_def div_ceil_def
        x86_model_def convert_physical_to_virtual_def canonical_def init_region_def bitmap_new_def
        upt_eval)
qed

lemma demo_map_limine: "limine_map demo_map"
  by (simp add: limine_map_def demo_map_def usable_regions_def)

text \<open>
  C8. After initialisation a frame is free exactly when it lies in a usable region of the
  memory map and is not one of the frames the bitmap itself was placed in; the bitmap was
  placed in the first usable region that can hold it.
\<close>

theorem frame_init_free:
  assumes "bit_field bf" and "frame_init bf x offset mem entries = Inr a"
  shows "\<exists>r. bitmap_region entries (bitmap_len (bitmap a)) = Some r \<and>
    free_frames bf a =
      (\<Union>r \<in> set (usable_regions entries). region_frames r) - bitmap_frames r (bitmap_len (bitmap a))"
  using bit_field.frame_init_result [OF assms] by blast

theorem frame_init_free_witness:
  "\<exists>r. bitmap_region demo_map 4 = Some r \<and>
     free_frames byte_bits \<lparr>bitmap = \<lparr>inner = [0xFE, 0xFF, 0, 0]\<rparr>, usable_frames = 15, next_frame = 2\<rparr> =
       (\<Union>r \<in> set (usable_regions demo_map). region_frames r) - bitmap_frames r 4"
  using frame_init_free [OF byte_bits.bit_field_axioms demo_map_init] by (simp add: bitmap_len_def eval_nat_numeral)

text \<open>
  On a memory map as the boot protocol describes it (usable regions page-aligned and
  disjoint) the initial count of usable frames is the number of free frames.
\<close>

theorem frame_init_count:
  assumes "bit_field bf" and "frame_init bf x offset mem entries = Inr a" and "limine_map entries"
  shows "usable_frames a = card (free_frames bf a)"
proof -
  let ?sz = "bitmap_len (bitmap a)"
  from bit_field.frame_init_result [OF assms(1,2)] obtain r where
    r: "bitmap_region entries ?sz = Some r"
    and free: "free_frames bf a = (\<Union>r \<in> set (usable_regions entries). region_frames r) - bitmap_frames r ?sz"
    and count: "usable_frames a + card (bitmap_frames r ?sz) =
      sum_list (map (card \<circ> region_frames) (usable_regions entries))" by blast
  from r have mem: "r \<in> set (usable_regions entries)" "?sz \<le> region_length r"
    by (auto simp: bitmap_region_def find_Some_iff)
  with assms(3) have sub: "bitmap_frames r ?sz \<subseteq> (\<Union>r \<in> set (usable_regions entries). region_frames r)"
    using bitmap_frames_subset [of r ?sz] by (auto simp: limine_map_def)
  have "finite (bitmap_frames r ?sz)" by (simp add: bitmap_frames_def)
  from card_Diff_subset [OF this sub] have "card (free_frames bf a) =
      sum_list (map (card \<circ> region_frames) (usable_regions entries)) - card (bitmap_frames r ?sz)"
    using assms(3) by (simp add: free card_regions limine_map_def)
  with count show ?thesis by simp
qed

theorem frame_init_count_witness:
  "(15 :: nat) = card (free_frames byte_bits
     \<lparr>bitmap = \<lparr>inner = [0xFE, 0xFF, 0, 0]\<rparr>, usable_frames = 15, next_frame = 2\<rparr>)"
  using frame_init_count [OF byte_bits.bit_field_axioms demo_map_init demo_map_limine] by simp

text \<open>
  Running out is not noticed: when the cursor has reached the limit but the count is
  still positive, two successive calls of \<open>allocate_frame\<close> return the same frame, the one
  whose number is the length of the bitmap in bytes.
\<close>

theorem allocate_frame_exhausted:
  assumes "frame_env bf x" and "next_frame a = bitmap_len (bitmap a)" and "0 < bitmap_len (bitmap a)"
    and "2 \<le> usable_frames a" and "addressable a"
  shows "\<exists>a1 a2. allocate_frame bf x a = Inr (Some (4096 * bitmap_len (bitmap a)), a1) \<and>
    allocate_frame bf x a1 = Inr (Some (4096 * bitmap_len (bitmap a)), a2)"
proof -
  let ?l = "bitmap_len (bitmap a)"
  from assms obtain a1 where a1: "allocate_frame bf x a = Inr (Some (4096 * ?l), a1)"
    "usable_frames a1 = usable_frames a - 1" "bitmap_len (bitmap a1) = ?l" "cursor_inv bf a1"
    "next_frame a1 = ?l \<or> ?l < next_frame a1"
    using frame_env.allocate_frame_some [OF assms(1), of a] by auto
  then have "next_frame a1 = ?l" by (auto simp: cursor_inv_def)
  with a1 assms have "\<exists>a2. allocate_frame bf x a1 = Inr (Some (4096 * ?l), a2)"
    using frame_env.allocate_frame_some [OF assms(1), of a1] by (auto simp: addressable_def)
  with a1(1) show ?thesis by blast
qed

theorem allocate_frame_exhausted_witness:
  "\<exists>a1 a2. allocate_frame byte_bits x86_model (demo_allocator\<lparr>next_frame := 8\<rparr>) = Inr (Some 32768, a1) \<and>
     allocate_frame byte_bits x86_model a1 = Inr (Some 32768, a2)"
  using allocate_frame_exhausted [OF frame_env_model, of "demo_allocator\<lparr>next_frame := 8\<rparr>"]
  by (simp add: demo_allocator_def bitmap_len_def addressable_def)

text \<open>
  The cursor \<open>allocate_frames\<close> leaves behind is not checked: when the run it hands out
  starts at the cursor and is followed by a used frame, the next \<open>allocate_frame\<close> hands out
  that used frame.
\<close>

theorem allocate_frame_after_run:
  assumes "frame_env bf x" and "0 < cnt" and "cnt < usable_frames a" and "addressable a"
    and "fits bf (bitmap a) cnt (next_frame a)" and "next_frame a + cnt \<notin> free_frames bf a"
  shows "\<exists>a1 a2. allocate_frames bf a cnt = Inr (Some (4096 * next_frame a), a1) \<and>
    next_frame a + cnt \<notin> free_frames bf a1 \<and>
    allocate_frame bf x a1 = Inr (Some (4096 * (next_frame a + cnt)), a2)"
proof -
  let ?s = "next_frame a"
  have bf: "bit_field bf" using assms(1) by (rule frame_env.axioms)
  obtain n found where n: "take_run bf (bitmap a) cnt ?s 0 = Inr (n, found)" "?s \<le> n"
    "if found then n - ?s = cnt \<and> n \<le> bitmap_len (bitmap a)
     else n - ?s < cnt \<and> (bitmap_len (bitmap a) \<le> n \<or> n \<notin> bits bf (bitmap a))"
    using take_run_start [OF assms(2), of bf "bitmap a" ?s] by blast
  have found: "found" "n = ?s + cnt"
    using n(2,3) short_run_no_fit [of n ?s cnt "bitmap a" bf ?s] assms(5) by (auto split: if_splits)
  have le: "?s + cnt \<le> bitmap_len (bitmap a)" using assms(5) by (simp add: fits_def)
  then obtain b where b: "set_range bf ?s (?s + cnt) False (bitmap a) = Inr b"
    "bitmap_len b = bitmap_len (bitmap a)" "bits bf b = free_frames bf a - {?s..<?s + cnt}"
    using bit_field.set_range_in [OF bf, of ?s "?s + cnt" "bitmap a" False]
      bitmap_len_le_capacity [of "bitmap a"] by auto
  define a1 where "a1 = a\<lparr>usable_frames := usable_frames a - cnt, bitmap := b, next_frame := ?s + cnt\<rparr>"
  have "allocate_frames bf a cnt = Inr (Some (4096 * ?s), a1)"
    using found n(1) b(1) assms(3) addressable_mul [OF assms(4), of ?s] le
    by (simp add: allocate_frames_def usize_sub_def a1_def)
  moreover have "\<exists>a2. allocate_frame bf x a1 = Inr (Some (4096 * (?s + cnt)), a2)"
    using frame_env.allocate_frame_some [OF assms(1), of a1] assms(2,3,4) le b(2)
    by (simp add: a1_def addressable_def) blast
  moreover have "?s + cnt \<notin> free_frames bf a1" using assms(6) b(3) by (simp add: a1_def)
  ultimately show ?thesis by blast
qed

theorem allocate_frame_after_run_witness:
  "\<exists>a1 a2. allocate_frames byte_bits demo_allocator 1 = Inr (Some 0, a1) \<and>
     1 \<notin> free_frames byte_bits a1 \<and> allocate_frame byte_bits x86_model a1 = Inr (Some 4096, a2)"
proof -
  have "0 \<in> free_frames byte_bits demo_allocator" "1 \<notin> free_frames byte_bits demo_allocator"
    by (simp_all add: demo_free_iff)
  then show ?thesis
    using allocate_frame_after_run [OF frame_env_model, of 1 demo_allocator] demo_addressable
    by (simp add: fits_def) (simp add: demo_allocator_def bitmap_len_def)
qed

text \<open>
  Freeing a frame sets its bit and nothing else: neither the count nor the cursor
  moves, so an allocator whose count has reached zero refuses every later request even
  though frames have been freed.
\<close>

theorem deallocate_frame_not_counted:
  assumes "bit_field bf" and "frame div 4096 < capacity (bitmap a)"
  shows "\<exists>a'. deallocate_frame bf a frame = Inr a' \<and>
    free_frames bf a' = insert (frame div 4096) (free_frames bf a) \<and>
    usable_frames a' = usable_frames a \<and> next_frame a' = next_frame a \<and>
    (usable_frames a = 0 \<longrightarrow> allocate_frame bf x a' = Inr (None, a'))"
proof -
  obtain b where "bitmap_set bf (bitmap a) (frame div 4096) True = Inr b"
    "bits bf b = insert (frame div 4096) (free_frames bf a)"
    using bit_field.bitmap_set_in [OF assms, of True] by auto
  then show ?thesis by (auto simp: deallocate_frame_def allocate_frame_def)
qed

theorem deallocate_frame_not_counted_witness:
  "\<exists>a'. deallocate_frame byte_bits (demo_allocator\<lparr>usable_frames := 0\<rparr>) 4096 = Inr a' \<and>
     1 \<in> free_frames byte_bits a' \<and> allocate_frame byte_bits x86_model a' = Inr (None, a')"
  using deallocate_frame_not_counted [OF byte_bits.bit_field_axioms, of 4096 "demo_allocator\<lparr>usable_frames := 0\<rparr>" x86_model]
  by (auto simp: demo_allocator_def capacity_def bitmap_len_def)

end
