(* ===== verification/Signals.thy ===== *)
theory Signals
  imports Bitmap
begin

text \<open>
  The per-process signal manager of \<open>task/signal.rs\<close>: a bitmap of pending signal types, the
  list of pending signals and the type the process waits for (0: none).
\<close>

section \<open>Data and operations\<close>

record Signal =
  ty :: nat
  signal_data :: "u64 list"

record SignalManager =
  signal_bitmap :: Bitmap
  signals :: "Signal list"
  waiting_for :: nat

definition signal_manager_new :: "nat \<Rightarrow> SignalManager" where
  "signal_manager_new signal_type_num =
     \<lparr>signal_bitmap = bitmap_new (replicate signal_type_num 0), signals = [], waiting_for = 0\<rparr>"

definition has_signal :: "bit_field_api \<Rightarrow> SignalManager \<Rightarrow> nat \<Rightarrow> bool result" where
  "has_signal bf m signal_type = bitmap_get bf (signal_bitmap m) signal_type"

definition register_signal ::
  "bit_field_api \<Rightarrow> SignalManager \<Rightarrow> nat \<Rightarrow> Signal \<Rightarrow> (bool \<times> SignalManager) result" where
  "register_signal bf m signal_type signal =
     and_then (assert_that (signal_type \<noteq> 0)) (\<lambda>_.
     and_then (bitmap_set bf (signal_bitmap m) signal_type True) (\<lambda>b.
     let m1 = m\<lparr>signal_bitmap := b, signals := signals m @ [signal]\<rparr> in
     if signal_type = waiting_for m1 then Inr (True, m1\<lparr>waiting_for := 0\<rparr>)
     else Inr (False, m1)))"

definition register_wait_for :: "SignalManager \<Rightarrow> nat \<Rightarrow> SignalManager" where
  "register_wait_for m signal_type = m\<lparr>waiting_for := signal_type\<rparr>"

text \<open>The search loop \<open>for idx in 0..self.signals.len()\<close> of \<open>get_signal\<close>.\<close>

fun first_of_type :: "Signal list \<Rightarrow> nat \<Rightarrow> nat list \<Rightarrow> Signal option result" where
  "first_of_type sigs t [] = Inr None"
| "first_of_type sigs t (idx # idxs) =
     and_then (index sigs idx) (\<lambda>s. if ty s = t then Inr (Some s) else first_of_type sigs t idxs)"

definition get_signal :: "bit_field_api \<Rightarrow> SignalManager \<Rightarrow> nat \<Rightarrow> Signal option result" where
  "get_signal bf m signal_type =
     and_then (bitmap_get bf (signal_bitmap m) signal_type) (\<lambda>pending.
     if pending then first_of_type (signals m) signal_type [0..<length (signals m)] else Inr None)"

text \<open>
  The loop of \<open>delete_signal\<close>: the range is fixed before the loop, the list shrinks inside
  it, and each iteration indexes the current list.  \<open>Vec::remove(idx)\<close> shifts the rest down.
\<close>

definition delete_step :: "nat \<Rightarrow> nat \<Rightarrow> Signal list \<Rightarrow> Signal list result" where
  "delete_step t idx sigs =
     and_then (index sigs idx) (\<lambda>s.
     Inr (if ty s = t then take idx sigs @ drop (Suc idx) sigs else sigs))"

definition delete_signal :: "bit_field_api \<Rightarrow> SignalManager \<Rightarrow> nat \<Rightarrow> SignalManager result" where
  "delete_signal bf m signal_type =
     and_then (bitmap_get bf (signal_bitmap m) signal_type) (\<lambda>pending.
     if pending then
       and_then (bitmap_set bf (signal_bitmap m) signal_type False) (\<lambda>b.
       and_then (for_each (delete_step signal_type) [0..<length (signals m)] (signals m)) (\<lambda>sigs.
       Inr (m\<lparr>signal_bitmap := b, signals := sigs\<rparr>)))
     else Inr m)"

section \<open>Loops\<close>

lemma first_of_type_drop:
  "k \<le> length sigs \<Longrightarrow>
   first_of_type sigs t [k..<length sigs] = Inr (find (\<lambda>s. ty s = t) (drop k sigs))"
proof (induction "length sigs - k" arbitrary: k)
  case 0
  then show ?case by simp
next
  case (Suc n)
  then have "k < length sigs" by simp
  with Suc.hyps(1) [of "Suc k"] Suc.hyps(2) show ?case
    by (simp add: upt_conv_Cons index_def Cons_nth_drop_Suc [symmetric])
qed

text \<open>Once the list is shorter than the fixed range, the loop runs into its end and panics.\<close>

lemma delete_loop_overrun:
  assumes "length sigs < n" and "a < n"
  shows "for_each (delete_step t) [a..<n] sigs = Inl IndexOutOfBounds"
  using assms
proof (induction "n - a" arbitrary: a sigs)
  case 0
  then show ?case by simp
next
  case (Suc k)
  have upt: "[a..<n] = a # [Suc a..<n]" using Suc.prems by (simp add: upt_conv_Cons)
  show ?case
  proof (cases "a < length sigs")
    case True
    with Suc.prems have "Suc a < n" by simp
    with True Suc.hyps Suc.prems upt show ?thesis by (simp add: delete_step_def index_def)
  next
    case False
    with upt show ?thesis by (simp add: delete_step_def index_def)
  qed
qed

lemma delete_loop_no_match:
  assumes "\<forall>i. a \<le> i \<and> i < b \<longrightarrow> ty (sigs ! i) \<noteq> t" and "b \<le> length sigs"
  shows "for_each (delete_step t) [a..<b] sigs = Inr sigs"
proof (cases "a \<le> b")
  case True
  have "\<exists>s'. for_each (delete_step t) [a..<b] sigs = Inr s' \<and> s' = sigs"
    by (rule for_each_upt_rule [where I = "\<lambda>_ s. s = sigs"])
      (use assms True in \<open>auto simp: delete_step_def index_def\<close>)
  then show ?thesis by simp
qed simp

text \<open>The loop with its first match at position \<open>i\<close>: only a match in the last place is survived.\<close>

lemma delete_loop_match:
  assumes "i < length sigs" and "ty (sigs ! i) = t" and "\<forall>j < i. ty (sigs ! j) \<noteq> t"
  shows "for_each (delete_step t) [0..<length sigs] sigs =
    (if Suc i = length sigs then Inr (butlast sigs) else Inl IndexOutOfBounds)"
proof -
  let ?n = "length sigs"
  have split: "[0..<?n] = [0..<i] @ i # [Suc i..<?n]"
    using assms(1) upt_add_eq_append [of 0 i "?n - i"] by (simp add: upt_conv_Cons)
  have "for_each (delete_step t) [0..<i] sigs = Inr sigs"
    using assms(1,3) by (intro delete_loop_no_match) auto
  moreover have "delete_step t i sigs = Inr (take i sigs @ drop (Suc i) sigs)"
    using assms(1,2) by (simp add: delete_step_def index_def)
  ultimately have "for_each (delete_step t) [0..<?n] sigs =
      for_each (delete_step t) [Suc i..<?n] (take i sigs @ drop (Suc i) sigs)"
    by (simp add: split for_each_append del: upt_Suc)
  moreover have "Suc i < ?n \<Longrightarrow> for_each (delete_step t) [Suc i..<?n] (take i sigs @ drop (Suc i) sigs) =
      Inl IndexOutOfBounds"
    using assms(1) by (intro delete_loop_overrun) auto
  moreover have "Suc i = ?n \<Longrightarrow> butlast sigs = take i sigs" by (metis butlast_conv_take diff_Suc_1)
  ultimately show ?thesis using assms(1) by (cases "Suc i = ?n") auto
qed

lemma delete_signal_pending:
  assumes "bit_field bf" and "t \<in> bits bf (signal_bitmap m)"
  obtains b where "bits bf b = bits bf (signal_bitmap m) - {t}"
    "bitmap_len b = bitmap_len (signal_bitmap m)"
    "delete_signal bf m t =
      and_then (for_each (delete_step t) [0..<length (signals m)] (signals m)) (\<lambda>sigs.
        Inr (m\<lparr>signal_bitmap := b, signals := sigs\<rparr>))"
proof -
  have cap: "t < capacity (signal_bitmap m)" using assms(2) by (rule bits_less_capacity)
  obtain b where b: "bitmap_set bf (signal_bitmap m) t False = Inr b"
    "bitmap_len b = bitmap_len (signal_bitmap m)" "bits bf b = bits bf (signal_bitmap m) - {t}"
    using bit_field.bitmap_set_in [OF assms(1) cap, of False] by auto
  show thesis
    using that [OF b(3,2)] assms(2) b(1) bitmap_get_in [OF cap, of bf] by (simp add: delete_signal_def)
qed

section \<open>Properties\<close>

text \<open>
  \<open>consistent\<close>: the bitmap records exactly the types of the pending signals.
\<close>

definition consistent :: "bit_field_api \<Rightarrow> SignalManager \<Rightarrow> bool" where
  "consistent bf m \<longleftrightarrow> bits bf (signal_bitmap m) = ty ` set (signals m)"

text \<open>
  Registering a signal of a nonzero type within the bitmap returns whether the process
  was waiting for this type, clears the wait in that case, makes the type pending, and a
  later \<open>get_signal\<close> of the type returns the oldest pending signal of it; the manager stays
  consistent when it was.
\<close>

theorem register_signal_delivers:
  assumes "bit_field bf" and "t \<noteq> 0" and "t < capacity (signal_bitmap m)" and "ty s = t"
  shows "\<exists>m'. register_signal bf m t s = Inr (t = waiting_for m, m') \<and>
    waiting_for m' = (if t = waiting_for m then 0 else waiting_for m) \<and>
    has_signal bf m' t = Inr True \<and>
    get_signal bf m' t = Inr (case find (\<lambda>s. ty s = t) (signals m) of Some s0 \<Rightarrow> Some s0 | None \<Rightarrow> Some s) \<and>
    (consistent bf m \<longrightarrow> consistent bf m')"
proof -
  obtain b where b: "bitmap_set bf (signal_bitmap m) t True = Inr b"
    "bitmap_len b = bitmap_len (signal_bitmap m)" "bits bf b = insert t (bits bf (signal_bitmap m))"
    using bit_field.bitmap_set_in [OF assms(1,3), of True] by auto
  define m1 where "m1 = m\<lparr>signal_bitmap := b, signals := signals m @ [s],
    waiting_for := (if t = waiting_for m then 0 else waiting_for m)\<rparr>"
  have "register_signal bf m t s = Inr (t = waiting_for m, m1)"
    using assms(2) b(1) by (auto simp: register_signal_def m1_def Let_def)
  moreover have pending: "bitmap_get bf b t = Inr True"
    using assms(3) b(2,3) bitmap_get_in [of t b bf] by (simp add: capacity_def)
  then have "has_signal bf m1 t = Inr True" by (simp add: has_signal_def m1_def)
  moreover have "get_signal bf m1 t = Inr (find (\<lambda>s. ty s = t) (signals m @ [s]))"
    using pending first_of_type_drop [of 0 "signals m @ [s]" t] by (simp add: get_signal_def m1_def)
  moreover have "find (\<lambda>s. ty s = t) (signals m @ [s]) =
      (case find (\<lambda>s. ty s = t) (signals m) of Some s0 \<Rightarrow> Some s0 | None \<Rightarrow> Some s)"
    using assms(4) by (cases "find (\<lambda>s. ty s = t) (signals m)") (simp_all add: find_append)
  moreover have "consistent bf m \<longrightarrow> consistent bf m1"
    using assms(4) b(3) by (simp add: consistent_def m1_def)
  ultimately show ?thesis by (auto simp: m1_def)
qed

theorem register_signal_delivers_witness:
  "\<exists>m'. register_signal byte_bits (register_wait_for (signal_manager_new 64) 9) 9 \<lparr>ty = 9, signal_data = []\<rparr> = Inr (True, m') \<and>
     get_signal byte_bits m' 9 = Inr (Some \<lparr>ty = 9, signal_data = []\<rparr>)"
  using register_signal_delivers [OF byte_bits.bit_field_axioms, of 9 "register_wait_for (signal_manager_new 64) 9"
      "\<lparr>ty = 9, signal_data = []\<rparr>"]
  by (auto simp: register_wait_for_def signal_manager_new_def capacity_def bitmap_len_def bitmap_new_def)

text \<open>
  C39. What \<open>delete_signal\<close> does for a pending type: without a queued signal of the type it
  only clears the bit; when the first queued signal of the type is the last of the queue
  it removes that one; in every other case the loop indexes past the shortened list and
  the call panics.
\<close>

theorem delete_signal_outcome:
  assumes "bit_field bf" and "t \<in> bits bf (signal_bitmap m)"
  shows "\<exists>b. bits bf b = bits bf (signal_bitmap m) - {t} \<and>
    ((\<forall>s \<in> set (signals m). ty s \<noteq> t) \<longrightarrow>
       delete_signal bf m t = Inr (m\<lparr>signal_bitmap := b\<rparr>)) \<and>
    (\<forall>i < length (signals m). ty (signals m ! i) = t \<and> (\<forall>j < i. ty (signals m ! j) \<noteq> t) \<longrightarrow>
       delete_signal bf m t =
         (if Suc i = length (signals m) then Inr (m\<lparr>signal_bitmap := b, signals := butlast (signals m)\<rparr>)
          else Inl IndexOutOfBounds))"
proof -
  obtain b where b: "bits bf b = bits bf (signal_bitmap m) - {t}"
    and unfold: "delete_signal bf m t =
      and_then (for_each (delete_step t) [0..<length (signals m)] (signals m)) (\<lambda>sigs.
        Inr (m\<lparr>signal_bitmap := b, signals := sigs\<rparr>))"
    by (rule delete_signal_pending [OF assms])
  have "delete_signal bf m t = Inr (m\<lparr>signal_bitmap := b\<rparr>)" if "\<forall>s \<in> set (signals m). ty s \<noteq> t"
    using that delete_loop_no_match [of 0 "length (signals m)" "signals m" t] by (simp add: unfold)
  moreover have "delete_signal bf m t =
      (if Suc i = length (signals m) then Inr (m\<lparr>signal_bitmap := b, signals := butlast (signals m)\<rparr>)
       else Inl IndexOutOfBounds)"
    if "i < length (signals m)" "ty (signals m ! i) = t" "\<forall>j < i. ty (signals m ! j) \<noteq> t" for i
    using delete_loop_match [OF that] by (simp add: unfold)
  ultimately show ?thesis using b by blast
qed

definition demo_signals :: SignalManager where
  "demo_signals = \<lparr>signal_bitmap = \<lparr>inner = [6]\<rparr>,
     signals = [\<lparr>ty = 1, signal_data = []\<rparr>, \<lparr>ty = 2, signal_data = []\<rparr>], waiting_for = 0\<rparr>"

lemma demo_signals_bits: "t < 8 \<Longrightarrow> t \<in> bits byte_bits (signal_bitmap demo_signals) \<longleftrightarrow> bit (6 :: u8) t"
  by (simp add: demo_signals_def bits_def capacity_def bitmap_len_def byte_bits_def)

theorem delete_signal_outcome_witness:
  "delete_signal byte_bits demo_signals 1 = Inl IndexOutOfBounds"
proof -
  have "1 \<in> bits byte_bits (signal_bitmap demo_signals)" by (simp add: demo_signals_bits)
  then show ?thesis
    using delete_signal_outcome [OF byte_bits.bit_field_axioms, of 1 demo_signals]
    by (auto simp: demo_signals_def)
qed

text \<open>
  A call of \<open>delete_signal\<close> that returns keeps a consistent manager consistent: the
  type is no longer pending and no signal of another type is lost or reordered.
\<close>

theorem delete_signal_consistent:
  assumes "bit_field bf" and "consistent bf m" and "t < capacity (signal_bitmap m)"
    and "delete_signal bf m t = Inr m'"
  shows "consistent bf m' \<and> has_signal bf m' t = Inr False \<and>
    filter (\<lambda>s. ty s \<noteq> t) (signals m') = filter (\<lambda>s. ty s \<noteq> t) (signals m)"
proof (cases "t \<in> bits bf (signal_bitmap m)")
  case False
  with assms(3,4) have "m' = m" by (auto simp: delete_signal_def bitmap_get_in)
  with False assms(2,3) show ?thesis by (simp add: has_signal_def bitmap_get_in)
next
  case True
  let ?sigs = "signals m"
  obtain b where b: "bits bf b = bits bf (signal_bitmap m) - {t}"
    "bitmap_len b = bitmap_len (signal_bitmap m)"
    "delete_signal bf m t = and_then (for_each (delete_step t) [0..<length ?sigs] ?sigs) (\<lambda>sigs.
        Inr (m\<lparr>signal_bitmap := b, signals := sigs\<rparr>))"
    by (rule delete_signal_pending [OF assms(1) True])
  from True assms(2) obtain k where "k < length ?sigs" "ty (?sigs ! k) = t"
    by (auto simp: consistent_def in_set_conv_nth)
  then obtain i where i: "i < length ?sigs" "ty (?sigs ! i) = t" "\<forall>j < i. ty (?sigs ! j) \<noteq> t"
    by (rule first_index [where P = "\<lambda>s. ty s = t"])
  from delete_loop_match [OF i] b(3) assms(4) have last: "Suc i = length ?sigs"
    and m': "m' = m\<lparr>signal_bitmap := b, signals := butlast ?sigs\<rparr>" by (auto split: if_splits)
  from last have sig: "?sigs = butlast ?sigs @ [?sigs ! i]"
    by (metis append_butlast_last_id diff_Suc_1 last_conv_nth length_0_conv nat.distinct(1))
  have rest: "\<forall>s \<in> set (butlast ?sigs). ty s \<noteq> t"
    using i(3) last by (metis butlast_conv_take diff_Suc_1 in_set_conv_nth length_take min_less_iff_conj nth_take)
  have "ty ` set ?sigs = insert t (ty ` set (butlast ?sigs))" using i(2) by (subst sig) auto
  with assms(2) b(1) rest have "bits bf b = ty ` set (butlast ?sigs)" by (auto simp: consistent_def)
  moreover have "bitmap_get bf b t = Inr False"
    using b(1,2) assms(3) bitmap_get_in [of t b bf] by (simp add: capacity_def)
  moreover have "filter (\<lambda>s. ty s \<noteq> t) ?sigs = filter (\<lambda>s. ty s \<noteq> t) (butlast ?sigs)"
    using i(2) by (subst sig) simp
  ultimately show ?thesis using m' by (simp add: consistent_def has_signal_def)
qed

lemma demo_signals_consistent: "consistent byte_bits demo_signals"
proof -
  have "bits byte_bits (signal_bitmap demo_signals) = {t. t < 8 \<and> bit (6 :: u8) t}"
    by (auto simp: demo_signals_def bits_def capacity_def bitmap_len_def byte_bits_def)
  also have "\<dots> = Set.filter (bit (6 :: u8)) (set [0..<8])" by auto
  also have "\<dots> = {1, 2}" by code_simp
  finally show ?thesis by (auto simp: consistent_def demo_signals_def)
qed

theorem delete_signal_consistent_witness:
  "consistent byte_bits \<lparr>signal_bitmap = \<lparr>inner = [2]\<rparr>, signals = [\<lparr>ty = 1, signal_data = []\<rparr>], waiting_for = 0\<rparr>"
proof -
  have "delete_signal byte_bits demo_signals 2 =
      Inr \<lparr>signal_bitmap = \<lparr>inner = [2]\<rparr>, signals = [\<lparr>ty = 1, signal_data = []\<rparr>], waiting_for = 0\<rparr>"
    by (simp add: delete_signal_def demo_signals_def bitmap_eval delete_step_def)
  moreover have "2 < capacity (signal_bitmap demo_signals)"
    by (simp add: demo_signals_def capacity_def bitmap_len_def)
  ultimately show ?thesis
    using delete_signal_consistent [OF byte_bits.bit_field_axioms demo_signals_consistent] by blast
qed

end
