(* ===== verification/Switch.thy ===== *)
theory Switch
  imports Prelude
begin

text \<open>
  Context switching: the \<open>Context\<close> structure and the \<open>push_context!\<close>/\<open>pop_context!\<close> macros of
  \<open>task/context.rs\<close>, the assembly of \<open>timer_interrupt\<close> in \<open>arch/interrupts.rs\<close> and of
  \<open>syscall_handler\<close> in \<open>user/syscall.rs\<close>.

  The assembly runs on a small x86-64 machine: the general registers, the stack pointer,
  \<open>cr3\<close>, the interrupt-frame registers and a memory of quadwords.  Addresses are 64-bit words
  and wrap around as the processor's do.  Kernel memory is mapped alike in every address
  space, so one memory serves before and after a write to \<open>cr3\<close>.
\<close>

section \<open>The machine\<close>

datatype reg =
    RAX | RBX | RCX | RDX | RDI | RSI | RBP
  | R8 | R9 | R10 | R11 | R12 | R13 | R14 | R15

record cpu =
  gpr :: "reg \<Rightarrow> u64"
  cpu_rsp :: u64
  cpu_cr3 :: u64
  cpu_rip :: u64
  cpu_cs :: u64
  cpu_rflags :: u64
  cpu_ss :: u64
  interrupts_on :: bool
  memory :: "u64 \<Rightarrow> u64"

datatype instr =
    Push reg
  | Pop reg
  | MovFromCr3 reg
  | MovToCr3 reg
  | Mov reg reg
  | MovFromRsp reg
  | MovToRsp reg
  | Cli
  | Sti

fun exec1 :: "instr \<Rightarrow> cpu \<Rightarrow> cpu" where
  "exec1 (Push r) s = s\<lparr>cpu_rsp := cpu_rsp s - 8, memory := (memory s)(cpu_rsp s - 8 := gpr s r)\<rparr>"
| "exec1 (Pop r) s = s\<lparr>gpr := (gpr s)(r := memory s (cpu_rsp s)), cpu_rsp := cpu_rsp s + 8\<rparr>"
| "exec1 (MovFromCr3 r) s = s\<lparr>gpr := (gpr s)(r := cpu_cr3 s)\<rparr>"
| "exec1 (MovToCr3 r) s = s\<lparr>cpu_cr3 := gpr s r\<rparr>"
| "exec1 (Mov d r) s = s\<lparr>gpr := (gpr s)(d := gpr s r)\<rparr>"
| "exec1 (MovFromRsp d) s = s\<lparr>gpr := (gpr s)(d := cpu_rsp s)\<rparr>"
| "exec1 (MovToRsp r) s = s\<lparr>cpu_rsp := gpr s r\<rparr>"
| "exec1 Cli s = s\<lparr>interrupts_on := False\<rparr>"
| "exec1 Sti s = s\<lparr>interrupts_on := True\<rparr>"

fun exec :: "instr list \<Rightarrow> cpu \<Rightarrow> cpu" where
  "exec [] s = s"
| "exec (i # is) s = exec is (exec1 i s)"

lemma exec_append: "exec (is @ js) s = exec js (exec is s)"
  by (induction "is" arbitrary: s) auto

text \<open>Delivery of an interrupt by the processor onto the stack \<open>stk\<close>, and \<open>iretq\<close>.\<close>

definition deliver :: "u64 \<Rightarrow> cpu \<Rightarrow> cpu" where
  "deliver stk s = s\<lparr>cpu_rsp := stk - 40,
     memory := (memory s)(stk - 8 := cpu_ss s, stk - 16 := cpu_rsp s, stk - 24 := cpu_rflags s,
                          stk - 32 := cpu_cs s, stk - 40 := cpu_rip s)\<rparr>"

definition iretq :: "cpu \<Rightarrow> cpu" where
  "iretq s = s\<lparr>cpu_rip := memory s (cpu_rsp s), cpu_cs := memory s (cpu_rsp s + 8),
     cpu_rflags := memory s (cpu_rsp s + 16), cpu_rsp := memory s (cpu_rsp s + 24),
     cpu_ss := memory s (cpu_rsp s + 32)\<rparr>"

definition sysretq :: "cpu \<Rightarrow> cpu" where
  "sysretq s = s\<lparr>cpu_rip := gpr s RCX, cpu_rflags := gpr s R11\<rparr>"

section \<open>The saved context\<close>

record Context =
  c_cr3 :: u64
  c_r15 :: u64
  c_r14 :: u64
  c_r13 :: u64
  c_r12 :: u64
  c_r11 :: u64
  c_r10 :: u64
  c_r9 :: u64
  c_r8 :: u64
  c_rbp :: u64
  c_rsi :: u64
  c_rdi :: u64
  c_rdx :: u64
  c_rcx :: u64
  c_rbx :: u64
  c_rax :: u64
  c_rip :: u64
  c_cs :: u64
  c_rflags :: u64
  c_rsp :: u64
  c_ss :: u64

text \<open>\<open>#[derive(Default)]\<close>: all fields are 0.\<close>

definition context_default :: Context where
  "context_default = \<lparr>c_cr3 = 0, c_r15 = 0, c_r14 = 0, c_r13 = 0, c_r12 = 0, c_r11 = 0, c_r10 = 0,
     c_r9 = 0, c_r8 = 0, c_rbp = 0, c_rsi = 0, c_rdi = 0, c_rdx = 0, c_rcx = 0, c_rbx = 0, c_rax = 0,
     c_rip = 0, c_cs = 0, c_rflags = 0, c_rsp = 0, c_ss = 0\<rparr>"

definition context_init :: "Context \<Rightarrow> u64 \<Rightarrow> u64 \<Rightarrow> u64 \<Rightarrow> u16 \<times> u16 \<Rightarrow> Context" where
  "context_init c entry_point stack_end_address page_table_address segment_selectors =
     (let c1 = c\<lparr>c_rflags := 0x200, c_rip := entry_point, c_rsp := stack_end_address,
                 c_cr3 := page_table_address\<rparr>;
          (code_selector, data_selector) = segment_selectors in
      c1\<lparr>c_cs := ucast code_selector, c_ss := ucast data_selector\<rparr>)"

text \<open>\<open>Context::from_address\<close>: the packed structure read from memory, field by field.\<close>

definition from_address :: "(u64 \<Rightarrow> u64) \<Rightarrow> u64 \<Rightarrow> Context" where
  "from_address m a = \<lparr>c_cr3 = m a, c_r15 = m (a + 8), c_r14 = m (a + 16), c_r13 = m (a + 24),
     c_r12 = m (a + 32), c_r11 = m (a + 40), c_r10 = m (a + 48), c_r9 = m (a + 56),
     c_r8 = m (a + 64), c_rbp = m (a + 72), c_rsi = m (a + 80), c_rdi = m (a + 88),
     c_rdx = m (a + 96), c_rcx = m (a + 104), c_rbx = m (a + 112), c_rax = m (a + 120),
     c_rip = m (a + 128), c_cs = m (a + 136), c_rflags = m (a + 144), c_rsp = m (a + 152),
     c_ss = m (a + 160)\<rparr>"

definition push_context :: "instr list" where
  "push_context = [Push RAX, Push RBX, Push RCX, Push RDX, Push RDI, Push RSI, Push RBP,
     Push R8, Push R9, Push R10, Push R11, Push R12, Push R13, Push R14, Push R15,
     MovFromCr3 R15, Push R15]"

definition pop_context :: "instr list" where
  "pop_context = [Pop R15, MovToCr3 R15, Pop R15, Pop R14, Pop R13, Pop R12, Pop R11, Pop R10,
     Pop R9, Pop R8, Pop RBP, Pop RSI, Pop RDI, Pop RDX, Pop RCX, Pop RBX, Pop RAX]"

text \<open>
  \<open>timer_interrupt\<close>: the handler is called with the stack pointer in \<open>rdi\<close> and returns the
  address of the context to resume in \<open>rax\<close>; \<open>handler\<close> stands for that call.
\<close>

definition timer_interrupt :: "(cpu \<Rightarrow> cpu) \<Rightarrow> cpu \<Rightarrow> cpu" where
  "timer_interrupt handler s =
     iretq (exec ([MovToRsp RAX] @ pop_context @ [Sti])
              (handler (exec ([Cli] @ push_context @ [MovFromRsp RDI]) s)))"

definition syscall_handler :: "(cpu \<Rightarrow> cpu) \<Rightarrow> cpu \<Rightarrow> cpu" where
  "syscall_handler syscall_handle_fn s =
     sysretq (exec [Pop R15, Pop R14, Pop R13, Pop R12, Pop RBX, Pop RBP, Pop R11, Pop RCX]
       (syscall_handle_fn
         (exec [Push RCX, Push R11, Push RBP, Push RBX, Push R12, Push R13, Push R14, Push R15,
                Mov RCX R10] s)))"

section \<open>Saving and restoring\<close>

text \<open>What the saved structure has to hold of a running processor.\<close>

definition context_of :: "cpu \<Rightarrow> Context" where
  "context_of s = \<lparr>c_cr3 = cpu_cr3 s, c_r15 = gpr s R15, c_r14 = gpr s R14, c_r13 = gpr s R13,
     c_r12 = gpr s R12, c_r11 = gpr s R11, c_r10 = gpr s R10, c_r9 = gpr s R9, c_r8 = gpr s R8,
     c_rbp = gpr s RBP, c_rsi = gpr s RSI, c_rdi = gpr s RDI, c_rdx = gpr s RDX,
     c_rcx = gpr s RCX, c_rbx = gpr s RBX, c_rax = gpr s RAX, c_rip = cpu_rip s, c_cs = cpu_cs s,
     c_rflags = cpu_rflags s, c_rsp = cpu_rsp s, c_ss = cpu_ss s\<rparr>"

lemma context_of_cong:
  "context_of s = context_of t \<longleftrightarrow>
     gpr s = gpr t \<and> cpu_cr3 s = cpu_cr3 t \<and> cpu_rip s = cpu_rip t \<and> cpu_cs s = cpu_cs t \<and>
     cpu_rflags s = cpu_rflags t \<and> cpu_rsp s = cpu_rsp t \<and> cpu_ss s = cpu_ss t"
  (is "_ \<longleftrightarrow> ?rhs")
proof
  assume eq: "context_of s = context_of t"
  have "gpr s r = gpr t r" for r using eq by (cases r) (simp_all add: context_of_def)
  with eq show ?rhs by (auto simp: context_of_def)
qed (simp add: context_of_def)

lemma saved_context:
  fixes s :: cpu and stk :: u64
  defines "e \<equiv> exec ([Cli] @ push_context @ [MovFromRsp RDI]) (deliver stk s)"
  shows "gpr e RDI = stk - 168" and "cpu_rsp e = stk - 168"
    and "from_address (memory e) (stk - 168) = context_of s"
    and "\<not> interrupts_on e"
proof -
  show "gpr e RDI = stk - 168" "cpu_rsp e = stk - 168" "\<not> interrupts_on e"
    by (simp_all add: e_def push_context_def deliver_def)
  show "from_address (memory e) (stk - 168) = context_of s"
    by (simp add: e_def push_context_def deliver_def from_address_def context_of_def)
qed

lemma restored_context:
  "context_of (iretq (exec ([MovToRsp RAX] @ pop_context @ [Sti]) s)) =
     from_address (memory s) (gpr s RAX)"
  by (simp add: pop_context_def iretq_def from_address_def context_of_def add.assoc)

lemma restored_memory:
  "memory (iretq (exec ([MovToRsp RAX] @ pop_context @ [Sti]) s)) = memory s"
  by (simp add: pop_context_def iretq_def)

section \<open>Properties\<close>

text \<open>
  Entering the timer interrupt saves the interrupted processor state: the structure
  that \<open>Context::from_address\<close> reads at the address passed to the handler holds every
  general register, \<open>cr3\<close> and the interrupt frame of the interrupted code.
\<close>

theorem timer_entry_saves_context:
  "from_address (memory (exec ([Cli] @ push_context @ [MovFromRsp RDI]) (deliver stk s)))
     (gpr (exec ([Cli] @ push_context @ [MovFromRsp RDI]) (deliver stk s)) RDI) = context_of s"
  by (simp only: saved_context)

text \<open>
  Leaving the timer interrupt resumes the context the handler chose: whatever the
  handler does, the processor continues with exactly the registers, \<open>cr3\<close>, instruction
  pointer, segments, flags and stack pointer stored at the address it returned in \<open>rax\<close>.
\<close>

theorem timer_exit_resumes_context:
  "context_of (timer_interrupt handler s) =
     (let h = handler (exec ([Cli] @ push_context @ [MovFromRsp RDI]) s)
      in from_address (memory h) (gpr h RAX))"
  by (simp only: timer_interrupt_def restored_context Let_def)

text \<open>
  A handler that returns the address it was given resumes the interrupted code: every
  register is as before the interrupt.
\<close>

theorem timer_interrupt_transparent:
  assumes "\<And>t. gpr (handler t) RAX = gpr t RDI" and "\<And>t. memory (handler t) = memory t"
  shows "context_of (timer_interrupt handler (deliver stk s)) = context_of s"
  by (simp only: timer_interrupt_def restored_context assms saved_context)

theorem timer_interrupt_transparent_witness:
  "context_of (timer_interrupt (\<lambda>t. t\<lparr>gpr := (gpr t)(RAX := gpr t RDI)\<rparr>)
     (deliver 0x8000 \<lparr>gpr = (\<lambda>_. 7), cpu_rsp = 0x4000, cpu_cr3 = 0x1000, cpu_rip = 0x400000,
        cpu_cs = 0x23, cpu_rflags = 0x202, cpu_ss = 0x1B, interrupts_on = True, memory = (\<lambda>_. 0)\<rparr>)) =
   context_of \<lparr>gpr = (\<lambda>_. 7), cpu_rsp = 0x4000, cpu_cr3 = 0x1000, cpu_rip = 0x400000,
        cpu_cs = 0x23, cpu_rflags = 0x202, cpu_ss = 0x1B, interrupts_on = True, memory = (\<lambda>_. 0)\<rparr>"
  by (rule timer_interrupt_transparent) simp_all

text \<open>
  The system call stub gives the handler its fourth argument in \<open>rcx\<close> and, when the
  handler obeys the calling convention for the stack (it returns with the stack pointer
  it was given and does not write above it), restores \<open>rbx\<close>, \<open>rbp\<close>, \<open>r12\<close> to \<open>r15\<close> and the
  stack pointer and returns to the address and flags that \<open>syscall\<close> left in \<open>rcx\<close> and \<open>r11\<close>;
  \<open>rax\<close> is the handler's.
\<close>

theorem syscall_handler_restores:
  assumes "\<And>t. cpu_rsp (f t) = cpu_rsp t"
    and "\<And>t k. k < 8 \<Longrightarrow> memory (f t) (cpu_rsp t + 8 * of_nat k) = memory t (cpu_rsp t + 8 * of_nat k)"
  shows "let entry = exec [Push RCX, Push R11, Push RBP, Push RBX, Push R12, Push R13, Push R14, Push R15, Mov RCX R10] s;
             s' = syscall_handler f s in
    gpr entry RCX = gpr s R10 \<and> gpr entry RDI = gpr s RDI \<and> gpr entry RSI = gpr s RSI \<and>
    gpr entry RDX = gpr s RDX \<and> gpr entry R8 = gpr s R8 \<and> gpr entry R9 = gpr s R9 \<and>
    gpr entry RAX = gpr s RAX \<and>
    (\<forall>r \<in> {RCX, R11, RBP, RBX, R12, R13, R14, R15}. gpr s' r = gpr s r) \<and>
    gpr s' RAX = gpr (f entry) RAX \<and> cpu_rsp s' = cpu_rsp s \<and>
    cpu_rip s' = gpr s RCX \<and> cpu_rflags s' = gpr s R11"
proof -
  define e where "e = exec [Push RCX, Push R11, Push RBP, Push RBX, Push R12, Push R13, Push R14, Push R15, Mov RCX R10] s"
  have rsp: "cpu_rsp e = cpu_rsp s - 64" by (simp add: e_def)
  have args: "gpr e RCX = gpr s R10 \<and> gpr e RDI = gpr s RDI \<and> gpr e RSI = gpr s RSI \<and> gpr e RDX = gpr s RDX \<and>
      gpr e R8 = gpr s R8 \<and> gpr e R9 = gpr s R9 \<and> gpr e RAX = gpr s RAX" by (simp add: e_def)
  have saved: "memory e (cpu_rsp s - 64) = gpr s R15" "memory e (cpu_rsp s - 56) = gpr s R14"
    "memory e (cpu_rsp s - 48) = gpr s R13" "memory e (cpu_rsp s - 40) = gpr s R12"
    "memory e (cpu_rsp s - 32) = gpr s RBX" "memory e (cpu_rsp s - 24) = gpr s RBP"
    "memory e (cpu_rsp s - 16) = gpr s R11" "memory e (cpu_rsp s - 8) = gpr s RCX"
    by (simp_all add: e_def)
  obtain t where t: "t = f e" by blast
  have slot: "memory t (cpu_rsp s - 64 + 8 * of_nat k) = memory e (cpu_rsp s - 64 + 8 * of_nat k)"
    if "k < 8" for k using assms(2) [OF that, of e] by (simp add: rsp t)
  note slots = slot [of 0] slot [of 1] slot [of 2] slot [of 3] slot [of 4] slot [of 5] slot [of 6] slot [of 7]
  have sp: "cpu_rsp t = cpu_rsp s - 64" using assms(1) [of e] by (simp add: t rsp)
  have handler: "syscall_handler f s =
      sysretq (exec [Pop R15, Pop R14, Pop R13, Pop R12, Pop RBX, Pop RBP, Pop R11, Pop RCX] t)"
    by (simp only: syscall_handler_def e_def t)
  show ?thesis
    unfolding Let_def e_def [symmetric] handler t [symmetric]
    using slots args saved by (simp add: sp sysretq_def)
qed

theorem syscall_handler_restores_witness:
  "gpr (syscall_handler (\<lambda>t. t\<lparr>gpr := (gpr t)(RAX := 5, RCX := 0, R11 := 0)\<rparr>)
     \<lparr>gpr = (\<lambda>_. 9), cpu_rsp = 0x4000, cpu_cr3 = 0x1000, cpu_rip = 0, cpu_cs = 8, cpu_rflags = 2,
      cpu_ss = 16, interrupts_on = False, memory = (\<lambda>_. 0)\<rparr>) RCX = 9"
  using syscall_handler_restores [of "\<lambda>t. t\<lparr>gpr := (gpr t)(RAX := 5, RCX := 0, R11 := 0)\<rparr>"
      "\<lparr>gpr = (\<lambda>_. 9), cpu_rsp = 0x4000, cpu_cr3 = 0x1000, cpu_rip = 0, cpu_cs = 8, cpu_rflags = 2,
      cpu_ss = 16, interrupts_on = False, memory = (\<lambda>_. 0)\<rparr>"]
  by (simp add: Let_def)

end
