(* ===== verification/Sched.thy ===== *)
theory Sched
  imports Switch
begin

text \<open>
  Threads and the round-robin scheduler (\<open>task/thread.rs\<close>, \<open>task/scheduler.rs\<close>), with the part
  of the per-CPU data they touch (\<open>arch/gdt.rs\<close>, \<open>arch/smp.rs\<close>) and the initial FPU state
  (\<open>drivers/fpu.rs\<close>).

  Thread objects live in an explicit store: an \<open>Arc<RwLock<Thread>>\<close> is an object address, a
  \<open>Weak\<close> the same address, and \<open>Weak::upgrade\<close> succeeds when the object is still in the store.
  The addresses, kernel stacks and selectors a new thread gets come from the heap and the
  descriptor tables; they are arguments.
\<close>

section \<open>Data\<close>

record FpState =
  fcw :: u16
  fsw :: u16
  ftw :: u16
  fop :: u16
  word2 :: u64
  word3 :: u64
  mxcsr :: u32
  mxcsr_mask :: u32
  mm :: "u64 list"
  xmm :: "u64 list"
  fp_rest :: "u64 list"

definition fp_default :: FpState where
  "fp_default = \<lparr>fcw = 0, fsw = 0, ftw = 0, fop = 0, word2 = 0, word3 = 0, mxcsr = 0, mxcsr_mask = 0,
     mm = replicate 16 0, xmm = replicate 32 0, fp_rest = replicate 12 0\<rparr>"

definition fp_new :: FpState where
  "fp_new = fp_default\<lparr>mxcsr := 0x1f80, fcw := 0x037f\<rparr>"

datatype ThreadState = Running | Ready | Blocked | Waiting | Terminated

fun is_active :: "ThreadState \<Rightarrow> bool" where
  "is_active Running = True"
| "is_active Ready = True"
| "is_active _ = False"

record Thread =
  tid :: u64
  state :: ThreadState
  kernel_stack :: u64  \<comment> \<open>end address\<close>
  thread_context :: Context
  process :: nat
  fpu_context :: FpState

record CpuInfo =
  privilege_stack_table :: "u64 list"

record Scheduler =
  current_threads :: "u32 \<rightharpoonup> nat"
  ready_threads :: "nat list"

record Kernel =
  threads :: "nat \<rightharpoonup> Thread"
  sched :: Scheduler
  cpus :: "u32 \<rightharpoonup> CpuInfo"
  next_id :: u64
  kernel_process_threads :: "nat list"

section \<open>Per-CPU data\<close>

definition map_index :: "('k \<rightharpoonup> 'v) \<Rightarrow> 'k \<Rightarrow> 'v result" where
  "map_index m k = (case m k of None \<Rightarrow> Inl IndexOutOfBounds | Some v \<Rightarrow> Inr v)"

definition set_ring0_rsp :: "CpuInfo \<Rightarrow> u64 \<Rightarrow> CpuInfo result" where
  "set_ring0_rsp c rsp =
     and_then (store (privilege_stack_table c) 0 rsp) (\<lambda>t. Inr (c\<lparr>privilege_stack_table := t\<rparr>))"

text \<open>\<open>Cpus::get\<close> and \<open>Cpus::get_mut\<close>.\<close>

definition cpus_get :: "Kernel \<Rightarrow> u32 \<Rightarrow> CpuInfo result" where
  "cpus_get k lapic_id = unwrap (cpus k lapic_id)"

section \<open>Threads\<close>

definition thread_id_new :: "Kernel \<Rightarrow> u64 \<times> Kernel" where
  "thread_id_new k = (next_id k, k\<lparr>next_id := next_id k + 1\<rparr>)"

definition thread_new :: "nat \<Rightarrow> u64 \<Rightarrow> Kernel \<Rightarrow> Thread \<times> Kernel" where
  "thread_new proc stack_end k =
     (let (i, k1) = thread_id_new k in
      (\<lparr>tid = i, state = Ready, kernel_stack = stack_end, thread_context = context_default,
        process = proc, fpu_context = fp_default\<rparr>, k1))"

definition get_init_thread :: "nat \<Rightarrow> nat \<Rightarrow> u64 \<Rightarrow> Kernel \<Rightarrow> nat \<times> Kernel" where
  "get_init_thread kernel_process addr stack_end k =
     (let (t, k1) = thread_new kernel_process stack_end k in
      (addr, k1\<lparr>threads := (threads k1)(addr \<mapsto> t),
                kernel_process_threads := kernel_process_threads k1 @ [addr]\<rparr>))"

section \<open>The scheduler\<close>

definition scheduler_add :: "nat \<Rightarrow> Scheduler \<Rightarrow> Scheduler" where
  "scheduler_add t s = s\<lparr>ready_threads := t # ready_threads s\<rparr>"

definition new_kernel_thread ::
  "nat \<Rightarrow> u64 \<Rightarrow> u16 \<times> u16 \<Rightarrow> nat \<Rightarrow> u64 \<Rightarrow> u64 \<Rightarrow> Kernel \<Rightarrow> Kernel" where
  "new_kernel_thread kernel_process page_table_address kernel_segments addr stack_end function k =
     (let (t, k1) = thread_new kernel_process stack_end k;
          t1 = t\<lparr>thread_context := context_init (thread_context t) function (kernel_stack t) page_table_address kernel_segments\<rparr> in
      k1\<lparr>threads := (threads k1)(addr \<mapsto> t1), sched := scheduler_add addr (sched k1),
         kernel_process_threads := kernel_process_threads k1 @ [addr]\<rparr>)"

text \<open>
  \<open>Scheduler::new\<close>: one initial thread per CPU, in key order; \<open>supply\<close> gives the address and
  the kernel stack of each.
\<close>

fun scheduler_new :: "nat \<Rightarrow> (u32 \<Rightarrow> nat \<times> u64) \<Rightarrow> u32 list \<Rightarrow> Kernel \<Rightarrow> Kernel" where
  "scheduler_new kp supply [] k = k\<lparr>sched := \<lparr>current_threads = Map.empty, ready_threads = []\<rparr>\<rparr>"
| "scheduler_new kp supply (l # ls) k =
     (let (addr, k1) = get_init_thread kp (fst (supply l)) (snd (supply l)) k;
          k2 = scheduler_new kp supply ls k1 in
      k2\<lparr>sched := (sched k2)\<lparr>current_threads := (current_threads (sched k2))(l \<mapsto> addr)\<rparr>\<rparr>)"

text \<open>
  \<open>remove\<close>: the closure of \<open>retain\<close> upgrades both references for every element, so a dropped
  thread anywhere in the queue makes it panic.
\<close>

fun retain_other :: "(nat \<rightharpoonup> Thread) \<Rightarrow> nat \<Rightarrow> nat list \<Rightarrow> nat list result" where
  "retain_other ths t [] = Inr []"
| "retain_other ths t (u # us) =
     and_then (unwrap (ths u)) (\<lambda>_.
     and_then (unwrap (ths t)) (\<lambda>_.
     and_then (retain_other ths t us) (\<lambda>vs.
     Inr (if u = t then vs else u # vs))))"

definition scheduler_remove :: "nat \<Rightarrow> Kernel \<Rightarrow> Kernel result" where
  "scheduler_remove t k =
     and_then (retain_other (threads k) t (ready_threads (sched k))) (\<lambda>r.
     Inr (k\<lparr>sched := (sched k)\<lparr>ready_threads := r\<rparr>\<rparr>))"

definition current_thread :: "u32 \<Rightarrow> Kernel \<Rightarrow> nat result" where
  "current_thread lapic_id k = map_index (current_threads (sched k)) lapic_id"

text \<open>
  \<open>schedule\<close>: \<open>ctx\<close> is the context read from the interrupt stack, \<open>context_addr\<close> gives the
  address of the context field inside a thread object.
\<close>

definition save_context :: "u32 \<Rightarrow> Context \<Rightarrow> Kernel \<Rightarrow> (nat option \<times> Kernel) result" where
  "save_context lapic_id ctx k =
     and_then (map_index (current_threads (sched k)) lapic_id) (\<lambda>cur.
     Inr (case threads k cur of
            None \<Rightarrow> (None, k)
          | Some t \<Rightarrow> (Some cur, k\<lparr>threads := (threads k)(cur \<mapsto> t\<lparr>thread_context := ctx\<rparr>)\<rparr>)))"

definition pick_next :: "u32 \<Rightarrow> nat option \<Rightarrow> Kernel \<Rightarrow> Kernel result" where
  "pick_next lapic_id last_thread k =
     (case ready_threads (sched k) of
        [] \<Rightarrow> Inr k
      | next # rest_ready \<Rightarrow>
          let s1 = (sched k)\<lparr>ready_threads := rest_ready,
                             current_threads := (current_threads (sched k))(lapic_id \<mapsto> next)\<rparr> in
          (case last_thread of
             None \<Rightarrow> Inr (k\<lparr>sched := s1\<rparr>)
           | Some l \<Rightarrow>
               and_then (unwrap (threads k l)) (\<lambda>t.
               case state t of
                 Blocked \<Rightarrow> Inr (k\<lparr>sched := s1\<rparr>)
               | Terminated \<Rightarrow> Inr (k\<lparr>sched := s1\<rparr>)
               | Waiting \<Rightarrow> Inr (k\<lparr>sched := s1\<rparr>)
               | _ \<Rightarrow> Inr (k\<lparr>sched := s1\<lparr>ready_threads := ready_threads s1 @ [l]\<rparr>\<rparr>))))"

definition schedule :: "(nat \<Rightarrow> u64) \<Rightarrow> u32 \<Rightarrow> Context \<Rightarrow> Kernel \<Rightarrow> (u64 \<times> Kernel) result" where
  "schedule context_addr lapic_id ctx k =
     and_then (save_context lapic_id ctx k) (\<lambda>(last_thread, k1).
     and_then (pick_next lapic_id last_thread k1) (\<lambda>k2.
     and_then (map_index (current_threads (sched k2)) lapic_id) (\<lambda>cur.
     and_then (unwrap (threads k2 cur)) (\<lambda>next_thread.
     and_then (cpus_get k2 lapic_id) (\<lambda>c.
     and_then (set_ring0_rsp c (kernel_stack next_thread)) (\<lambda>c'.
     Inr (context_addr cur, k2\<lparr>cpus := (cpus k2)(lapic_id \<mapsto> c')\<rparr>)))))))"

section \<open>Invariants\<close>

text \<open>
  \<open>exclusive\<close>: no thread runs on two CPUs, none is queued twice, and none is both running
  and queued.  \<open>live\<close>: every scheduled or queued thread is in the store and every CPU with a
  current thread has its per-CPU data.
\<close>

definition exclusive :: "Scheduler \<Rightarrow> bool" where
  "exclusive s \<longleftrightarrow>
     (\<forall>l l' t. current_threads s l = Some t \<and> current_threads s l' = Some t \<longrightarrow> l = l') \<and>
     distinct (ready_threads s) \<and>
     (\<forall>l t. current_threads s l = Some t \<longrightarrow> t \<notin> set (ready_threads s))"

definition live :: "Kernel \<Rightarrow> bool" where
  "live k \<longleftrightarrow> ran (current_threads (sched k)) \<union> set (ready_threads (sched k)) \<subseteq> dom (threads k) \<and>
     (\<forall>l \<in> dom (current_threads (sched k)). \<exists>c. cpus k l = Some c \<and> privilege_stack_table c \<noteq> [])"

definition scheduled :: "Kernel \<Rightarrow> nat set" where
  "scheduled k = ran (current_threads (sched k)) \<union> set (ready_threads (sched k))"

lemma map_index_eq_Inr [result_simps]: "map_index m k = Inr v \<longleftrightarrow> m k = Some v"
  by (auto simp: map_index_def split: option.splits)

text \<open>
  The effect of a \<open>schedule\<close> on a live kernel, in one equation: the head of the queue (or the
  current thread when the queue is empty) becomes current, and the last thread goes to the
  back of the queue when it is active.
\<close>

definition next_of :: "nat \<Rightarrow> nat list \<Rightarrow> nat" where
  "next_of cur ready = (case ready of [] \<Rightarrow> cur | n # _ \<Rightarrow> n)"

definition requeue :: "bool \<Rightarrow> nat \<Rightarrow> nat list \<Rightarrow> nat list" where
  "requeue active cur ready = (case ready of [] \<Rightarrow> [] | _ # ns \<Rightarrow> if active then ns @ [cur] else ns)"

lemma state_match:
  "(case st of Running \<Rightarrow> b | Ready \<Rightarrow> b | Blocked \<Rightarrow> a | Waiting \<Rightarrow> a | Terminated \<Rightarrow> a) =
     (if is_active st then b else a)"
  by (cases st) auto

lemma pick_next_eq:
  assumes "case lt of None \<Rightarrow> True | Some t \<Rightarrow> threads k t \<noteq> None" and "current_threads (sched k) l = Some cur"
    and "case lt of None \<Rightarrow> threads k cur = None | Some t \<Rightarrow> t = cur"
  shows "pick_next l lt k = Inr (k\<lparr>sched :=
    \<lparr>current_threads = (current_threads (sched k))(l \<mapsto> next_of cur (ready_threads (sched k))),
     ready_threads = requeue (case threads k cur of None \<Rightarrow> False | Some t \<Rightarrow> is_active (state t))
       cur (ready_threads (sched k))\<rparr>\<rparr>)"
  using assms
  by (cases lt; cases "ready_threads (sched k)"; cases "sched k"; cases k)
    (auto simp: pick_next_def next_of_def requeue_def state_match fun_upd_idem)

text \<open>The kernel after the context is saved and the queue rotated, before the stack is set.\<close>

definition rotated :: "u32 \<Rightarrow> Context \<Rightarrow> nat \<Rightarrow> Kernel \<Rightarrow> Kernel" where
  "rotated l ctx cur k = k\<lparr>
     threads := (case threads k cur of None \<Rightarrow> threads k
       | Some t \<Rightarrow> (threads k)(cur \<mapsto> t\<lparr>thread_context := ctx\<rparr>)),
     sched := \<lparr>current_threads = (current_threads (sched k))(l \<mapsto> next_of cur (ready_threads (sched k))),
       ready_threads = requeue (case threads k cur of None \<Rightarrow> False | Some t \<Rightarrow> is_active (state t))
         cur (ready_threads (sched k))\<rparr>\<rparr>"

lemma schedule_eq:
  assumes "current_threads (sched k) l = Some cur"
  defines "n \<equiv> next_of cur (ready_threads (sched k))"
  shows "schedule ca l ctx k =
    and_then (unwrap (threads (rotated l ctx cur k) n)) (\<lambda>u.
    and_then (unwrap (cpus k l)) (\<lambda>c.
    and_then (set_ring0_rsp c (kernel_stack u)) (\<lambda>c'.
    Inr (ca n, (rotated l ctx cur k)\<lparr>cpus := (cpus k)(l \<mapsto> c')\<rparr>))))"
proof -
  define lt where "lt = (if threads k cur = None then None else Some cur)"
  define k1 where "k1 = k\<lparr>threads := (case threads k cur of None \<Rightarrow> threads k
       | Some t \<Rightarrow> (threads k)(cur \<mapsto> t\<lparr>thread_context := ctx\<rparr>))\<rparr>"
  have save: "save_context l ctx k = Inr (lt, k1)"
    using assms(1) by (cases "threads k cur") (simp_all add: save_context_def map_index_def lt_def k1_def)
  have lt: "case lt of None \<Rightarrow> True | Some t \<Rightarrow> threads k1 t \<noteq> None"
      "case lt of None \<Rightarrow> threads k1 cur = None | Some t \<Rightarrow> t = cur"
    by (auto simp: lt_def k1_def split: option.splits)
  from pick_next_eq [OF lt(1) _ lt(2), of l] assms(1) have "pick_next l lt k1 = Inr (rotated l ctx cur k)"
    by (cases "threads k cur") (simp_all add: rotated_def k1_def)
  with save show ?thesis
    by (simp add: schedule_def map_index_def cpus_get_def) (simp add: rotated_def n_def)
qed

lemma schedule_result:
  assumes "schedule ca l ctx k = Inr (a, k')"
  obtains cur u c where "current_threads (sched k) l = Some cur"
    "a = ca (next_of cur (ready_threads (sched k)))"
    "threads (rotated l ctx cur k) (next_of cur (ready_threads (sched k))) = Some u" "cpus k l = Some c"
    "k' = (rotated l ctx cur k)\<lparr>cpus := (cpus k)(l \<mapsto>
        c\<lparr>privilege_stack_table := (privilege_stack_table c)[0 := kernel_stack u]\<rparr>)\<rparr>"
proof -
  obtain cur where cur: "current_threads (sched k) l = Some cur"
    using assms by (auto simp: schedule_def save_context_def result_simps)
  with assms show thesis
    by (auto simp: schedule_eq [OF cur] set_ring0_rsp_def result_simps intro!: that [OF cur])
qed

lemma schedule_result_at:
  assumes "schedule ca l ctx k = Inr (a, k')" and "current_threads (sched k) l = Some cur"
  obtains u c where "a = ca (next_of cur (ready_threads (sched k)))"
    "threads (rotated l ctx cur k) (next_of cur (ready_threads (sched k))) = Some u" "cpus k l = Some c"
    "k' = (rotated l ctx cur k)\<lparr>cpus := (cpus k)(l \<mapsto>
        c\<lparr>privilege_stack_table := (privilege_stack_table c)[0 := kernel_stack u]\<rparr>)\<rparr>"
  using schedule_result [OF assms(1)] assms(2) by (metis option.inject)

lemma schedule_total:
  assumes "live k" and "current_threads (sched k) l = Some cur"
  shows "\<exists>a k'. schedule ca l ctx k = Inr (a, k')"
proof -
  have "l \<in> dom (current_threads (sched k))" using assms(2) by auto
  with assms(1) obtain c where c: "cpus k l = Some c" "privilege_stack_table c \<noteq> []"
    unfolding live_def by blast
  have "next_of cur (ready_threads (sched k)) \<in> scheduled k"
    using assms(2) by (auto simp: next_of_def scheduled_def ran_def split: list.splits)
  with assms(1) have "\<exists>u. threads (rotated l ctx cur k) (next_of cur (ready_threads (sched k))) = Some u"
    by (auto simp: live_def scheduled_def rotated_def split: option.splits)
  with c show ?thesis
    by (auto simp: schedule_eq [OF assms(2)] set_ring0_rsp_def store_def)
qed

lemma exclusive_rotate:
  assumes "exclusive s" and "current_threads s l = Some cur"
  shows "exclusive \<lparr>current_threads = (current_threads s)(l \<mapsto> next_of cur (ready_threads s)),
    ready_threads = requeue b cur (ready_threads s)\<rparr>"
proof (cases "ready_threads s")
  case Nil
  with assms show ?thesis by (auto simp: exclusive_def next_of_def requeue_def fun_upd_idem)
next
  case (Cons n ns)
  with assms have "n \<notin> set ns" "cur \<notin> set (n # ns)" "\<And>l'. current_threads s l' \<noteq> Some n"
    "distinct ns" by (fastforce simp: exclusive_def)+
  with assms Cons show ?thesis
    by (auto simp: exclusive_def next_of_def requeue_def split: if_splits)
qed

lemma retain_other_result:
  "retain_other ths t us = Inr vs \<Longrightarrow> vs = filter (\<lambda>u. u \<noteq> t) us"
  by (induction us arbitrary: vs) (auto simp: result_simps)

text \<open>The steps of the task subsystem: what happens to the scheduler's state over time.\<close>

inductive task_step :: "Kernel \<Rightarrow> Kernel \<Rightarrow> bool" where
  timer: "schedule ca l ctx k = Inr (a, k') \<Longrightarrow> task_step k k'"
| spawn: "addr \<notin> scheduled k \<Longrightarrow> task_step k (new_kernel_thread kp pt segs addr stk f k)"
| unschedule: "scheduler_remove t k = Inr k' \<Longrightarrow> task_step k k'"
| set_state: "threads k t = Some th \<Longrightarrow>
    task_step k (k\<lparr>threads := (threads k)(t \<mapsto> th\<lparr>state := st\<rparr>)\<rparr>)"
| drop_thread: "task_step k (k\<lparr>threads := (threads k)(t := None)\<rparr>)"

inductive task_reachable :: "Kernel \<Rightarrow> Kernel \<Rightarrow> bool" for k0 where
  start: "task_reachable k0 k0"
| step: "task_reachable k0 k \<Longrightarrow> task_step k k' \<Longrightarrow> task_reachable k0 k'"

lemma task_step_exclusive:
  assumes "task_step k k'" and "exclusive (sched k)"
  shows "exclusive (sched k')"
  using assms
proof (induction rule: task_step.induct)
  case (timer ca l ctx k a k')
  from timer.hyps obtain cur where "current_threads (sched k) l = Some cur"
    "sched k' = sched (rotated l ctx cur k)" by (rule schedule_result) simp
  with exclusive_rotate [OF timer.prems] show ?case by (simp add: rotated_def)
next
  case (spawn addr k kp pt segs stk f)
  then show ?case
    by (auto simp: exclusive_def new_kernel_thread_def thread_new_def thread_id_new_def
        scheduler_add_def scheduled_def ran_def Let_def)
next
  case (unschedule t k k')
  then show ?case
    by (auto simp: scheduler_remove_def result_simps exclusive_def dest!: retain_other_result)
qed auto

lemma scheduler_new_current:
  assumes "distinct ls" and "inj_on (fst \<circ> supply) (set ls)"
  shows "exclusive (sched (scheduler_new kp supply ls k)) \<and>
    ready_threads (sched (scheduler_new kp supply ls k)) = [] \<and>
    (\<forall>l. current_threads (sched (scheduler_new kp supply ls k)) l =
       (if l \<in> set ls then Some (fst (supply l)) else None))"
  using assms
proof (induction ls arbitrary: k)
  case Nil
  then show ?case by (simp add: exclusive_def)
next
  case (Cons l ls)
  then have "fst (supply l) \<notin> (fst \<circ> supply) ` set ls" by simp
  then have fresh: "\<And>l'. l' \<in> set ls \<Longrightarrow> fst (supply l') \<noteq> fst (supply l)" by (metis comp_apply imageI)
  from Cons show ?case
    by (auto simp: exclusive_def Let_def get_init_thread_def thread_new_def thread_id_new_def
        split: prod.splits if_splits dest: fresh)
qed

lemma live_rotated:
  assumes "live k" and "current_threads (sched k) l = Some cur" and "cpus k l = Some c"
    and "cpus k' = (cpus k)(l \<mapsto> c\<lparr>privilege_stack_table := (privilege_stack_table c)[0 := r]\<rparr>)"
    and "sched k' = sched (rotated l ctx cur k)" and "threads k' = threads (rotated l ctx cur k)"
  shows "live k'"
proof -
  have sub: "ran (current_threads (sched k')) \<union> set (ready_threads (sched k')) \<subseteq> scheduled k"
    using assms(2,5) by (auto simp: rotated_def scheduled_def next_of_def requeue_def ran_def split: list.splits if_splits)
  have "dom (threads k) \<subseteq> dom (threads k')"
    using assms(6) by (auto simp: rotated_def split: option.splits)
  moreover have "dom (current_threads (sched k')) = dom (current_threads (sched k))"
    using assms(2,5) by (auto simp: rotated_def)
  ultimately show ?thesis
    using assms(1,3,4) sub unfolding live_def scheduled_def by (auto simp: dom_def subset_iff)
qed

fun schedule_many :: "(nat \<Rightarrow> u64) \<Rightarrow> u32 \<Rightarrow> Context list \<Rightarrow> Kernel \<Rightarrow> Kernel result" where
  "schedule_many ca l [] k = Inr k"
| "schedule_many ca l (ctx # ctxs) k =
     and_then (schedule ca l ctx k) (\<lambda>(_, k1). schedule_many ca l ctxs k1)"

definition all_active :: "Kernel \<Rightarrow> nat list \<Rightarrow> bool" where
  "all_active k ts \<longleftrightarrow> (\<forall>t \<in> set ts. \<exists>th. threads k t = Some th \<and> is_active (state th))"

lemma round_robin_run:
  assumes "live k" and "current_threads (sched k) l = Some cur"
    and "all_active k (cur # ready_threads (sched k))"
  shows "\<exists>k' c'. schedule_many ca l ctxs k = Inr k' \<and> current_threads (sched k') l = Some c' \<and>
    c' # ready_threads (sched k') = rotate (length ctxs) (cur # ready_threads (sched k))"
  using assms
proof (induction ctxs arbitrary: k cur)
  case Nil
  then show ?case by simp
next
  case (Cons ctx ctxs)
  let ?r = "ready_threads (sched k)"
  obtain a k1 where sch: "schedule ca l ctx k = Inr (a, k1)"
    using schedule_total [OF Cons.prems(1,2)] by blast
  then obtain u :: Thread and c where k1: "cpus k l = Some c" "k1 = (rotated l ctx cur k)\<lparr>cpus := (cpus k)(l \<mapsto>
        c\<lparr>privilege_stack_table := (privilege_stack_table c)[0 := kernel_stack u]\<rparr>)\<rparr>"
    by (rule schedule_result_at [OF _ Cons.prems(2)]) blast
  have live: "live k1" by (rule live_rotated [OF Cons.prems(1,2) k1(1)]) (simp_all add: k1(2))
  obtain th where th: "threads k cur = Some th" "is_active (state th)"
    using Cons.prems(3) by (auto simp: all_active_def)
  have rot: "next_of cur ?r # requeue True cur ?r = rotate1 (cur # ?r)"
    by (cases ?r) (simp_all add: next_of_def requeue_def)
  have cur1: "current_threads (sched k1) l = Some (next_of cur ?r)"
    and rdy1: "ready_threads (sched k1) = requeue True cur ?r"
    using th by (simp_all add: k1(2) rotated_def)
  have "set (next_of cur ?r # requeue True cur ?r) = set (cur # ?r)" unfolding rot by simp
  with Cons.prems(3) th have "all_active k1 (next_of cur ?r # ready_threads (sched k1))"
    unfolding all_active_def rdy1 by (simp add: k1(2) rotated_def)
  from Cons.IH [OF live cur1 this] sch rot show ?case
    unfolding rdy1 by (simp add: rotate1_rotate_swap)
qed

section \<open>Properties\<close>

lemma schedule_effect:
  assumes "live k" and "current_threads (sched k) l = Some cur" and "threads k cur = Some t"
  defines "n \<equiv> next_of cur (ready_threads (sched k))"
  shows "\<exists>k' u c'. schedule ca l ctx k = Inr (ca n, k') \<and>
    current_threads (sched k') = (current_threads (sched k))(l \<mapsto> n) \<and>
    ready_threads (sched k') = requeue (is_active (state t)) cur (ready_threads (sched k)) \<and>
    threads k' = (threads k)(cur \<mapsto> t\<lparr>thread_context := ctx\<rparr>) \<and>
    threads k' n = Some u \<and> cpus k' l = Some c' \<and> hd (privilege_stack_table c') = kernel_stack u"
proof -
  obtain a k' where sch: "schedule ca l ctx k = Inr (a, k')"
    using schedule_total [OF assms(1,2)] by blast
  then obtain u c where r: "a = ca n" "threads (rotated l ctx cur k) n = Some u" "cpus k l = Some c"
    "k' = (rotated l ctx cur k)\<lparr>cpus := (cpus k)(l \<mapsto>
        c\<lparr>privilege_stack_table := (privilege_stack_table c)[0 := kernel_stack u]\<rparr>)\<rparr>"
    unfolding n_def by (rule schedule_result_at [OF _ assms(2)])
  have "l \<in> dom (current_threads (sched k))" using assms(2) by auto
  with assms(1) r(3) have "privilege_stack_table c \<noteq> []" unfolding live_def by force
  then have "hd ((privilege_stack_table c)[0 := kernel_stack u]) = kernel_stack u"
    by (cases "privilege_stack_table c") auto
  with sch r assms(3) show ?thesis by (auto simp: rotated_def n_def)
qed

text \<open>
  C14. One scheduling step on a live kernel: the address returned is that of the context
  of the next thread (the head of the queue, or the running thread when the queue is
  empty); the interrupted context is stored in the thread that was running and no other
  thread object changes; the ring-0 stack of the CPU becomes the kernel stack of the next
  thread; the running thread is queued last if it is active.
\<close>

theorem schedule_switches:
  assumes "live k" and "current_threads (sched k) l = Some cur" and "threads k cur = Some t"
    and "n = next_of cur (ready_threads (sched k))"
  shows "\<exists>k' u c'. schedule ca l ctx k = Inr (ca n, k') \<and>
    current_threads (sched k') = (current_threads (sched k))(l \<mapsto> n) \<and>
    ready_threads (sched k') = requeue (is_active (state t)) cur (ready_threads (sched k)) \<and>
    threads k' = (threads k)(cur \<mapsto> t\<lparr>thread_context := ctx\<rparr>) \<and>
    threads k' n = Some u \<and> cpus k' l = Some c' \<and> hd (privilege_stack_table c') = kernel_stack u"
  unfolding assms(4) by (rule schedule_effect [OF assms(1-3)])

definition demo_thread :: "u64 \<Rightarrow> Thread" where
  "demo_thread i = \<lparr>tid = i, state = Ready, kernel_stack = 0x1000 * (i + 1), thread_context = context_default,
     process = 0, fpu_context = fp_default\<rparr>"

definition demo_kernel :: Kernel where
  "demo_kernel = \<lparr>threads = [10 \<mapsto> demo_thread 0, 11 \<mapsto> demo_thread 1, 12 \<mapsto> demo_thread 2],
     sched = \<lparr>current_threads = [0 \<mapsto> 10], ready_threads = [11, 12]\<rparr>,
     cpus = [0 \<mapsto> \<lparr>privilege_stack_table = [0, 0, 0]\<rparr>], next_id = 3, kernel_process_threads = [10, 11, 12]\<rparr>"

lemma demo_kernel_live: "live demo_kernel"
  by (auto simp: live_def demo_kernel_def ran_def split: if_splits)

theorem schedule_switches_witness:
  "\<exists>k'. schedule (\<lambda>t. of_nat t) 0 context_default demo_kernel = Inr (11, k') \<and> ready_threads (sched k') = [12, 10]"
proof -
  have k: "current_threads (sched demo_kernel) 0 = Some 10" "threads demo_kernel 10 = Some (demo_thread 0)"
    "11 = next_of 10 (ready_threads (sched demo_kernel))"
    by (simp_all add: demo_kernel_def next_of_def)
  have "requeue (is_active (state (demo_thread 0))) 10 (ready_threads (sched demo_kernel)) = [12, 10]"
    by (simp add: demo_kernel_def requeue_def demo_thread_def)
  then show ?thesis
    using schedule_switches [OF demo_kernel_live k, of "\<lambda>t. of_nat t" context_default] by auto
qed

text \<open>
  C15. Round robin: on a CPU whose running and queued threads are all active, \<open>m\<close> timer
  ticks rotate the running thread and the queue by \<open>m\<close> places.  In particular the thread
  at place \<open>i\<close> of the queue runs after \<open>i + 1\<close> ticks.
\<close>

theorem round_robin:
  assumes "live k" and "current_threads (sched k) l = Some cur"
    and "all_active k (cur # ready_threads (sched k))"
  shows "\<exists>k' c'. schedule_many ca l ctxs k = Inr k' \<and> current_threads (sched k') l = Some c' \<and>
    c' # ready_threads (sched k') = rotate (length ctxs) (cur # ready_threads (sched k))"
  by (rule round_robin_run [OF assms])

theorem round_robin_witness:
  "\<exists>k'. schedule_many (\<lambda>t. of_nat t) 0 [context_default, context_default] demo_kernel = Inr k' \<and>
     current_threads (sched k') 0 = Some 12 \<and> ready_threads (sched k') = [10, 11]"
  using round_robin [OF demo_kernel_live, of 0 10 "\<lambda>t. of_nat t" "[context_default, context_default]"]
  by (auto simp: demo_kernel_def all_active_def demo_thread_def rotate_def)

text \<open>
  C16. In every state the task subsystem reaches from a freshly built scheduler by timer
  ticks on any CPU, thread creation, removal, state changes and the dropping of thread
  objects, no thread runs on two CPUs, none is queued twice, and none is queued while it
  runs.
\<close>

theorem scheduler_exclusive:
  assumes "distinct ls" and "inj_on (fst \<circ> supply) (set ls)"
    and "task_reachable (scheduler_new kp supply ls k0) k"
  shows "exclusive (sched k)"
  using assms(3)
proof (induction rule: task_reachable.induct)
  case start
  then show ?case using scheduler_new_current [OF assms(1,2)] by blast
next
  case (step k k')
  then show ?case by (blast intro: task_step_exclusive)
qed

theorem scheduler_exclusive_witness:
  "exclusive (sched (new_kernel_thread 0 0x1000 (8, 16) 7 0x9000 0x400000
     (scheduler_new 0 (\<lambda>l. (unat l, 0)) [0, 1] demo_kernel)))"
proof (rule scheduler_exclusive [of "[0, 1]" "\<lambda>l. (unat l, 0)"])
  show "task_reachable (scheduler_new 0 (\<lambda>l. (unat l, 0)) [0, 1] demo_kernel)
     (new_kernel_thread 0 0x1000 (8, 16) 7 0x9000 0x400000
       (scheduler_new 0 (\<lambda>l. (unat l, 0)) [0, 1] demo_kernel))"
    by (rule task_reachable.step [OF task_reachable.start task_step.spawn])
      (auto simp: scheduled_def ran_def Let_def get_init_thread_def thread_new_def thread_id_new_def
        split: if_splits)
qed (auto simp: inj_on_def)

text \<open>
  A tick loses no thread that can run: the threads known to the scheduler stay the
  same, except that a running thread which is not active (or whose object is gone) leaves
  when another one takes over.
\<close>

theorem schedule_keeps_threads:
  assumes "exclusive (sched k)" and "current_threads (sched k) l = Some cur"
    and "schedule ca l ctx k = Inr (a, k')"
  shows "scheduled k' =
    (if ready_threads (sched k) = [] \<or> (\<exists>t. threads k cur = Some t \<and> is_active (state t))
     then scheduled k else scheduled k - {cur})"
proof -
  have sch: "sched k' = sched (rotated l ctx cur k)"
    using assms(3,2) by (rule schedule_result_at) simp
  have ran: "ran ((current_threads (sched k))(l \<mapsto> n)) = insert n (ran (current_threads (sched k)) - {cur})" for n
    using assms(1,2) by (auto simp: exclusive_def ran_def split: if_splits) fastforce
  have cur: "cur \<in> ran (current_threads (sched k))" "cur \<notin> set (ready_threads (sched k))"
    using assms(1,2) by (auto simp: ran_def exclusive_def)
  show ?thesis
    unfolding scheduled_def sch
    using cur by (cases "ready_threads (sched k)"; cases "threads k cur")
      (auto simp: rotated_def ran next_of_def requeue_def)
qed

theorem schedule_keeps_threads_witness:
  "\<exists>a k'. schedule (\<lambda>t. of_nat t) 0 context_default demo_kernel = Inr (a, k') \<and> scheduled k' = scheduled demo_kernel"
proof -
  have ex: "exclusive (sched demo_kernel)" by (auto simp: exclusive_def demo_kernel_def split: if_splits)
  have cur: "current_threads (sched demo_kernel) 0 = Some 10" by (simp add: demo_kernel_def)
  obtain a k' where k': "schedule (\<lambda>t. of_nat t) 0 context_default demo_kernel = Inr (a, k')"
    using schedule_total [OF demo_kernel_live cur] by blast
  from schedule_keeps_threads [OF ex cur k'] have "scheduled k' = scheduled demo_kernel"
    by (simp add: demo_kernel_def demo_thread_def)
  with k' show ?thesis by blast
qed

text \<open>
  A queued thread whose object has been dropped (as happens to the threads of a
  process that has exited) is not skipped: the tick that reaches it panics.
\<close>

theorem schedule_dropped_thread:
  assumes "current_threads (sched k) l = Some cur" and "ready_threads (sched k) = n # ns"
    and "threads k n = None"
  shows "schedule ca l ctx k = Inl UnwrapNone"
proof -
  have "threads (rotated l ctx cur k) n = None"
    using assms(3) by (auto simp: rotated_def split: option.splits)
  with assms(2) show ?thesis by (simp add: schedule_eq [OF assms(1)] next_of_def)
qed

theorem schedule_dropped_thread_witness:
  "schedule (\<lambda>t. of_nat t) 0 context_default (demo_kernel\<lparr>threads := (threads demo_kernel)(11 := None)\<rparr>) = Inl UnwrapNone"
  by (rule schedule_dropped_thread [of _ _ 10 11 "[12]"]) (simp_all add: demo_kernel_def)

end
