(* ===== verification/NvmeCmd.thy ===== *)
theory NvmeCmd
  imports Prelude
begin

text \<open>
  The 64-byte submission queue entries of \<open>drivers/nvme/cmd.rs\<close> and their constructors, with
  the fields at the widths of the source.  A \<open>usize\<close> pointer argument is a 64-bit word here,
  since it is only stored.
\<close>

record NvmeCommand =
  opcode :: u8
  cmd_flags :: u8
  c_id :: u16
  ns_id :: u32
  cmd_rsvd :: u64
  md_ptr :: u64
  d_ptr :: "u64 \<times> u64"
  cdw10 :: u32
  cdw11 :: u32
  cdw12 :: u32
  cdw13 :: u32
  cdw14 :: u32
  cdw15 :: u32

definition command_default :: NvmeCommand where
  "command_default = \<lparr>opcode = 0, cmd_flags = 0, c_id = 0, ns_id = 0, cmd_rsvd = 0, md_ptr = 0,
     d_ptr = (0, 0), cdw10 = 0, cdw11 = 0, cdw12 = 0, cdw13 = 0, cdw14 = 0, cdw15 = 0\<rparr>"

definition create_io_completion_queue :: "u16 \<Rightarrow> u16 \<Rightarrow> u64 \<Rightarrow> u16 \<Rightarrow> NvmeCommand" where
  "create_io_completion_queue cid qid ptr sz = \<lparr>opcode = 5, cmd_flags = 0, c_id = cid, ns_id = 0,
     cmd_rsvd = 0, md_ptr = 0, d_ptr = (ptr, 0),
     cdw10 = push_bit 16 (ucast sz) OR ucast qid, cdw11 = 1,
     cdw12 = 0, cdw13 = 0, cdw14 = 0, cdw15 = 0\<rparr>"

definition create_io_submission_queue :: "u16 \<Rightarrow> u16 \<Rightarrow> u64 \<Rightarrow> u16 \<Rightarrow> u16 \<Rightarrow> NvmeCommand" where
  "create_io_submission_queue cid q_id ptr sz cq_id = \<lparr>opcode = 1, cmd_flags = 0, c_id = cid, ns_id = 0,
     cmd_rsvd = 0, md_ptr = 0, d_ptr = (ptr, 0),
     cdw10 = push_bit 16 (ucast sz) OR ucast q_id, cdw11 = push_bit 16 (ucast cq_id) OR 1,
     cdw12 = 0, cdw13 = 0, cdw14 = 0, cdw15 = 0\<rparr>"

definition delete_io_submission_queue :: "u16 \<Rightarrow> u16 \<Rightarrow> NvmeCommand" where
  "delete_io_submission_queue cid q_id = command_default\<lparr>opcode := 0, c_id := cid, cdw10 := ucast q_id\<rparr>"

definition delete_io_completion_queue :: "u16 \<Rightarrow> u16 \<Rightarrow> NvmeCommand" where
  "delete_io_completion_queue cid q_id = command_default\<lparr>opcode := 4, c_id := cid, cdw10 := ucast q_id\<rparr>"

definition identify_namespace_cmd :: "u16 \<Rightarrow> u64 \<Rightarrow> u32 \<Rightarrow> NvmeCommand" where
  "identify_namespace_cmd cid ptr ns = \<lparr>opcode = 6, cmd_flags = 0, c_id = cid, ns_id = ns,
     cmd_rsvd = 0, md_ptr = 0, d_ptr = (ptr, 0), cdw10 = 0, cdw11 = 0,
     cdw12 = 0, cdw13 = 0, cdw14 = 0, cdw15 = 0\<rparr>"

definition identify_controller_cmd :: "u16 \<Rightarrow> u64 \<Rightarrow> NvmeCommand" where
  "identify_controller_cmd cid ptr = \<lparr>opcode = 6, cmd_flags = 0, c_id = cid, ns_id = 0,
     cmd_rsvd = 0, md_ptr = 0, d_ptr = (ptr, 0), cdw10 = 1, cdw11 = 0,
     cdw12 = 0, cdw13 = 0, cdw14 = 0, cdw15 = 0\<rparr>"

definition identify_namespace_list_cmd :: "u16 \<Rightarrow> u64 \<Rightarrow> u32 \<Rightarrow> NvmeCommand" where
  "identify_namespace_list_cmd cid ptr start = \<lparr>opcode = 6, cmd_flags = 0, c_id = cid, ns_id = start,
     cmd_rsvd = 0, md_ptr = 0, d_ptr = (ptr, 0), cdw10 = 2, cdw11 = 0,
     cdw12 = 0, cdw13 = 0, cdw14 = 0, cdw15 = 0\<rparr>"

definition get_features :: "u16 \<Rightarrow> u64 \<Rightarrow> u8 \<Rightarrow> NvmeCommand" where
  "get_features cid ptr fid = command_default\<lparr>opcode := 0xA, d_ptr := (ptr, 0), cdw10 := ucast fid\<rparr>"

definition io_read :: "u16 \<Rightarrow> u32 \<Rightarrow> u64 \<Rightarrow> u16 \<Rightarrow> u64 \<Rightarrow> u64 \<Rightarrow> NvmeCommand" where
  "io_read cid ns lba blocks_1 ptr0 ptr1 = \<lparr>opcode = 2, cmd_flags = 0, c_id = cid, ns_id = ns,
     cmd_rsvd = 0, md_ptr = 0, d_ptr = (ptr0, ptr1),
     cdw10 = ucast lba, cdw11 = ucast (drop_bit 32 lba), cdw12 = ucast blocks_1,
     cdw13 = 0, cdw14 = 0, cdw15 = 0\<rparr>"

definition io_write :: "u16 \<Rightarrow> u32 \<Rightarrow> u64 \<Rightarrow> u16 \<Rightarrow> u64 \<Rightarrow> u64 \<Rightarrow> NvmeCommand" where
  "io_write cid ns lba blocks_1 ptr0 ptr1 = \<lparr>opcode = 1, cmd_flags = 0, c_id = cid, ns_id = ns,
     cmd_rsvd = 0, md_ptr = 0, d_ptr = (ptr0, ptr1),
     cdw10 = ucast lba, cdw11 = ucast (drop_bit 32 lba), cdw12 = ucast blocks_1,
     cdw13 = 0, cdw14 = 0, cdw15 = 0\<rparr>"

definition format_nvm :: "u16 \<Rightarrow> u32 \<Rightarrow> NvmeCommand" where
  "format_nvm cid ns = \<lparr>opcode = 0x80, cmd_flags = 0, c_id = cid, ns_id = ns,
     cmd_rsvd = 0, md_ptr = 0, d_ptr = (0, 0), cdw10 = push_bit 9 1, cdw11 = 0,
     cdw12 = 0, cdw13 = 0, cdw14 = 0, cdw15 = 0\<rparr>"

definition async_event_req :: "u16 \<Rightarrow> NvmeCommand" where
  "async_event_req cid = \<lparr>opcode = 0xC, cmd_flags = 0, c_id = cid, ns_id = 0,
     cmd_rsvd = 0, md_ptr = 0, d_ptr = (0, 0), cdw10 = 0, cdw11 = 0,
     cdw12 = 0, cdw13 = 0, cdw14 = 0, cdw15 = 0\<rparr>"

definition get_log_page :: "u16 \<Rightarrow> u32 \<Rightarrow> u64 \<Rightarrow> u64 \<Rightarrow> u8 \<Rightarrow> u16 \<Rightarrow> NvmeCommand" where
  "get_log_page cid numd ptr0 ptr1 lid lpid = command_default\<lparr>c_id := cid, d_ptr := (ptr0, ptr1),
     cdw10 := push_bit 16 numd OR ucast lid,
     cdw11 := push_bit 16 (ucast lpid) OR drop_bit 16 numd\<rparr>"

definition write_zeroes :: "u16 \<Rightarrow> u32 \<Rightarrow> u64 \<Rightarrow> u16 \<Rightarrow> bool \<Rightarrow> NvmeCommand" where
  "write_zeroes cid ns slba nlb deac = \<lparr>opcode = 8, cmd_flags = 0, c_id = cid, ns_id = ns,
     cmd_rsvd = 0, md_ptr = 0, d_ptr = (0, 0),
     cdw10 = ucast slba, cdw11 = ucast (drop_bit 32 slba),
     cdw12 = push_bit 25 (of_bool deac) OR ucast nlb,
     cdw13 = 0, cdw14 = 0, cdw15 = 0\<rparr>"

section \<open>Decoding\<close>

text \<open>How a controller reads the fields back: the starting block, the block count, the queue size and id.\<close>

definition cmd_slba :: "NvmeCommand \<Rightarrow> u64" where
  "cmd_slba c = push_bit 32 (ucast (cdw11 c)) OR ucast (cdw10 c)"

definition cmd_nlb :: "NvmeCommand \<Rightarrow> u16" where
  "cmd_nlb c = ucast (cdw12 c)"

definition cmd_qsize :: "NvmeCommand \<Rightarrow> u16" where
  "cmd_qsize c = ucast (drop_bit 16 (cdw10 c))"

definition cmd_qid :: "NvmeCommand \<Rightarrow> u16" where
  "cmd_qid c = ucast (cdw10 c)"

lemma split_lba: "push_bit 32 (ucast (ucast (drop_bit 32 lba) :: u32)) OR ucast (ucast lba :: u32) = (lba :: u64)"
  by (rule bit_word_eqI) (auto simp: bit_simps)

lemma split_halves:
  "ucast (drop_bit 16 (push_bit 16 (ucast (hi :: u16)) OR ucast (lo :: u16) :: u32)) = hi"
  "ucast (push_bit 16 (ucast (hi :: u16)) OR ucast (lo :: u16) :: u32) = lo"
  by (rule bit_word_eqI, auto simp: bit_simps dest: bit_imp_le_length)+

lemma widen_narrow: "ucast (ucast (w :: u16) :: u32) = w"
  by (rule bit_word_eqI) (auto simp: bit_simps)

lemma nlb_with_flag: "ucast (push_bit 25 (of_bool b) OR ucast (n :: u16) :: u32) = n"
  by (rule bit_word_eqI) (auto simp: bit_simps)

section \<open>Properties\<close>

text \<open>
  The block address of a read, write or write-zeroes command survives the split into
  two dwords and the block count its embedding in dword 12: a controller that decodes the
  command gets the arguments back.
\<close>

theorem io_command_roundtrip:
  "cmd_slba (io_read cid ns lba n p0 p1) = lba \<and> cmd_nlb (io_read cid ns lba n p0 p1) = n \<and>
   cmd_slba (io_write cid ns lba n p0 p1) = lba \<and> cmd_nlb (io_write cid ns lba n p0 p1) = n \<and>
   cmd_slba (write_zeroes cid ns lba n deac) = lba \<and> cmd_nlb (write_zeroes cid ns lba n deac) = n"
  unfolding cmd_slba_def cmd_nlb_def io_read_def io_write_def write_zeroes_def
  by (simp add: split_lba widen_narrow nlb_with_flag del: push_bit_of_1 of_bool_eq_iff split del: split_of_bool)

text \<open>
  The queue creation and deletion commands carry the queue id and, for creation, the
  queue size unharmed, and the submission queue command names its completion queue.
\<close>

theorem queue_command_roundtrip:
  "cmd_qid (create_io_completion_queue cid q ptr sz) = q \<and> cmd_qsize (create_io_completion_queue cid q ptr sz) = sz \<and>
   cmd_qid (create_io_submission_queue cid q ptr sz cq) = q \<and>
   cmd_qsize (create_io_submission_queue cid q ptr sz cq) = sz \<and>
   ucast (drop_bit 16 (cdw11 (create_io_submission_queue cid q ptr sz cq))) = cq \<and>
   cmd_qid (delete_io_submission_queue cid q) = q \<and> cmd_qid (delete_io_completion_queue cid q) = q"
proof -
  have "ucast (drop_bit 16 (push_bit 16 (ucast cq) OR 1 :: u32)) = cq"
    using split_halves(1) [of cq 1] by simp
  then show ?thesis
    unfolding cmd_qid_def cmd_qsize_def create_io_completion_queue_def create_io_submission_queue_def
      delete_io_submission_queue_def delete_io_completion_queue_def command_default_def
    by (simp only: NvmeCommand.select_convs NvmeCommand.update_convs split_halves widen_narrow)
qed

text \<open>
  \<open>get_log_page\<close> never sets its opcode: for every argument the entry carries opcode 0,
  which is the opcode of \<open>delete_io_submission_queue\<close>, with the low byte of dword 10 equal
  to the log identifier.
\<close>

theorem get_log_page_opcode:
  "opcode (get_log_page cid numd p0 p1 lid lpid) = opcode (delete_io_submission_queue cid q) \<and>
   ucast (cdw10 (get_log_page cid numd p0 p1 lid lpid)) = lid"
proof -
  have "ucast (push_bit 16 numd OR ucast lid :: u32) = lid"
    by (rule bit_word_eqI) (auto simp: bit_simps)
  then show ?thesis by (simp add: get_log_page_def delete_io_submission_queue_def command_default_def)
qed

end
