(* ===== verification/NvmeMem.thy ===== *)
theory NvmeMem
  imports Frame
begin

text \<open>
  DMA buffers (\<open>drivers/nvme/memory.rs\<close>): a region of physical memory with its virtual
  address, the range operations on it and the iterator over its chunks.  \<open>elem\<close> is the size
  in bytes of the element type \<open>T\<close>; the driver iterates over byte buffers only.
\<close>

definition PAGE_SIZE :: nat where
  "PAGE_SIZE = 4096"

record Dma =
  virt :: nat
  phys :: nat
  dma_size :: nat

definition dma_allocate ::
  "bit_field_api \<Rightarrow> x86_api \<Rightarrow> nat \<Rightarrow> BitmapFrameAllocator \<Rightarrow> nat \<Rightarrow> (Dma \<times> BitmapFrameAllocator) result" where
  "dma_allocate bf x offset a sz =
     (let sz' = (if sz mod 4096 \<noteq> 0 then (sz div 2 ^ 12 + 1) * 2 ^ 12 else sz) in
      and_then (alloc_for_dma bf x offset a (sz' div PAGE_SIZE)) (\<lambda>((paddr, vaddr), a').
      Inr (\<lparr>virt = vaddr, phys = paddr, dma_size = sz'\<rparr>, a')))"

text \<open>\<open>DmaSlice::slice\<close>, and the byte ranges of the \<open>Index\<close> implementations (as offsets).\<close>

definition dma_slice :: "Dma \<Rightarrow> nat \<Rightarrow> nat \<Rightarrow> Dma result" where
  "dma_slice d start stop =
     and_then (assert_that (stop \<le> dma_size d)) (\<lambda>_.
     and_then (usize_sub stop start) (\<lambda>n.
     Inr \<lparr>virt = virt d + start, phys = phys d + start, dma_size = n\<rparr>))"

definition dma_index_range :: "Dma \<Rightarrow> nat \<Rightarrow> nat \<Rightarrow> (nat \<times> nat) result" where
  "dma_index_range d start stop =
     and_then (assert_that (stop \<le> dma_size d)) (\<lambda>_.
     and_then (usize_sub stop start) (\<lambda>n. Inr (virt d + start, n)))"

definition dma_index_to :: "Dma \<Rightarrow> nat \<Rightarrow> (nat \<times> nat) result" where
  "dma_index_to d stop = dma_index_range d 0 stop"

definition dma_index_full :: "Dma \<Rightarrow> (nat \<times> nat) result" where
  "dma_index_full d = dma_index_range d 0 (dma_size d)"

text \<open>A chunk's slice is its first address and its length.\<close>

record DmaChunk =
  phys_addr :: nat
  slice_ptr :: nat
  chunk_len :: nat

text \<open>One call of \<open>DmaChunks::next\<close>: the chunk, if any, and the new offset.\<close>

definition chunks_next :: "nat \<Rightarrow> nat \<Rightarrow> Dma \<Rightarrow> nat \<Rightarrow> (DmaChunk \<times> nat) option" where
  "chunks_next elem chunk_size d current_offset =
     (if dma_size d \<le> current_offset then None
      else
        let chunk_phys_addr = phys d + current_offset * elem;
            offset_ptr = virt d + current_offset * elem;
            len = min chunk_size ((dma_size d - current_offset) div elem) in
        Some (\<lparr>phys_addr = chunk_phys_addr, slice_ptr = offset_ptr, chunk_len = len\<rparr>, current_offset + len))"

text \<open>All chunks the iterator yields from an offset on; \<open>None\<close> when it never ends.\<close>

partial_function (option) chunks_from :: "nat \<Rightarrow> nat \<Rightarrow> Dma \<Rightarrow> nat \<Rightarrow> DmaChunk list option" where
  "chunks_from elem chunk_size d off =
     (case chunks_next elem chunk_size d off of
        None \<Rightarrow> Some []
      | Some (c, off') \<Rightarrow>
          Option.bind (chunks_from elem chunk_size d off') (\<lambda>cs. Some (c # cs)))"

definition dma_chunks :: "Dma \<Rightarrow> nat \<Rightarrow> DmaChunk list option" where
  "dma_chunks d bytes = chunks_from 1 bytes d 0"

section \<open>Chunks tile the buffer\<close>

text \<open>\<open>tiles a v n cs\<close>: the chunks lie one after the other from physical address \<open>a\<close>
  and virtual address \<open>v\<close> on and cover \<open>n\<close> bytes.\<close>

fun tiles :: "nat \<Rightarrow> nat \<Rightarrow> nat \<Rightarrow> DmaChunk list \<Rightarrow> bool" where
  "tiles a v n [] \<longleftrightarrow> n = 0"
| "tiles a v n (c # cs) \<longleftrightarrow> phys_addr c = a \<and> slice_ptr c = v \<and> 0 < chunk_len c \<and> chunk_len c \<le> n \<and>
     tiles (a + chunk_len c) (v + chunk_len c) (n - chunk_len c) cs"

lemma chunks_from_tiles:
  assumes "0 < chunk_size" and "off \<le> dma_size d"
  shows "\<exists>cs. chunks_from 1 chunk_size d off = Some cs \<and>
    tiles (phys d + off) (virt d + off) (dma_size d - off) cs \<and> (\<forall>c \<in> set cs. chunk_len c \<le> chunk_size) \<and>
    (\<forall>c \<in> set (butlast cs). chunk_len c = chunk_size)"
  using assms(2)
proof (induction "dma_size d - off" arbitrary: off rule: less_induct)
  case less
  show ?case
  proof (cases "dma_size d \<le> off")
    case True
    with less.prems show ?thesis by (subst chunks_from.simps) (simp add: chunks_next_def)
  next
    case False
    define len where "len = min chunk_size (dma_size d - off)"
    have len: "0 < len" "len \<le> dma_size d - off" "len \<le> chunk_size"
      using False assms(1) by (auto simp: len_def)
    have "dma_size d - (off + len) < dma_size d - off" "off + len \<le> dma_size d" using len False by auto
    from less.hyps [OF this] obtain cs where cs: "chunks_from 1 chunk_size d (off + len) = Some cs"
      "tiles (phys d + (off + len)) (virt d + (off + len)) (dma_size d - (off + len)) cs"
      "\<forall>c \<in> set cs. chunk_len c \<le> chunk_size" "\<forall>c \<in> set (butlast cs). chunk_len c = chunk_size" by blast
    have "chunks_from 1 chunk_size d off = Some (\<lparr>phys_addr = phys d + off, slice_ptr = virt d + off, chunk_len = len\<rparr> # cs)"
      using False cs(1) by (subst chunks_from.simps) (simp add: chunks_next_def len_def Let_def)
    moreover have "len = chunk_size" if "cs \<noteq> []"
    proof (rule ccontr)
      assume "len \<noteq> chunk_size"
      then have "len = dma_size d - off" by (auto simp: len_def)
      with cs(2) False have "tiles (phys d + (off + len)) (virt d + (off + len)) 0 cs" by simp
      with that show False by (cases cs) auto
    qed
    ultimately show ?thesis using cs(2-4) len by (auto simp: add.assoc)
  qed
qed

lemma tiles_total: "tiles a v n cs \<Longrightarrow> sum_list (map chunk_len cs) = n"
  by (induction cs arbitrary: a v n) auto

section \<open>Properties\<close>

text \<open>
  Splitting a byte buffer into chunks of a positive size ends, and the chunks tile the
  buffer: they follow one another from its first byte, none is empty or longer than the
  size asked for, all but the last have exactly that size, and together they have the
  length of the buffer.
\<close>

theorem dma_chunks_tile:
  assumes "0 < bytes"
  shows "\<exists>cs. dma_chunks d bytes = Some cs \<and> tiles (phys d) (virt d) (dma_size d) cs \<and>
    sum_list (map chunk_len cs) = dma_size d \<and>
    (\<forall>c \<in> set cs. chunk_len c \<le> bytes) \<and> (\<forall>c \<in> set (butlast cs). chunk_len c = bytes)"
  using chunks_from_tiles [OF assms, of 0 d] tiles_total by (auto simp: dma_chunks_def)

theorem dma_chunks_tile_witness:
  "\<exists>cs. dma_chunks \<lparr>virt = 0, phys = 0x10000, dma_size = 20480\<rparr> 8192 = Some cs \<and>
     sum_list (map chunk_len cs) = 20480"
  using dma_chunks_tile [of 8192 "\<lparr>virt = 0, phys = 0x10000, dma_size = 20480\<rparr>"] by auto

lemma demo_dma_page:
  "dma_allocate byte_bits x86_model 0 demo_allocator 4096 =
      Inr (\<lparr>virt = 0, phys = 0, dma_size = 4096\<rparr>,
           \<lparr>bitmap = \<lparr>inner = [0xDC, 0, 0, 0, 0, 0, 0, 0]\<rparr>, usable_frames = 5, next_frame = 1\<rparr>)"
  by (simp add: dma_allocate_def PAGE_SIZE_def alloc_for_dma_def allocate_frames_def demo_allocator_def
      take_run.simps search.simps skip_used.simps bitmap_eval usize_sub_def usize_mul_def usize_max_def
      x86_model_def convert_physical_to_virtual_def usize_add_def canonical_def)

text \<open>
  A DMA allocation of at least one byte that returns has a size that is a multiple of
  the page size, at least the size asked for and less than a page larger, and the frames
  behind it were free and are free no longer.
\<close>

theorem dma_allocate_region:
  assumes "frame_env bf x" and "addressable a" and "0 < sz"
    and "dma_allocate bf x offset a sz = Inr (d, a')"
  shows "dma_size d mod 4096 = 0 \<and> sz \<le> dma_size d \<and> dma_size d < sz + 4096 \<and> phys d mod 4096 = 0 \<and>
    {phys d div 4096..<(phys d + dma_size d) div 4096} \<subseteq> free_frames bf a \<and>
    free_frames bf a' = free_frames bf a - {phys d div 4096..<(phys d + dma_size d) div 4096}"
proof -
  define sz' where "sz' = (if sz mod 4096 \<noteq> 0 then (sz div 2 ^ 12 + 1) * 2 ^ 12 else sz)"
  have "sz' = div_ceil sz 4096 * 4096" by (auto simp: sz'_def div_ceil_def)
  then have round: "sz' mod 4096 = 0" "sz \<le> sz'" "sz' < sz + 4096"
    using div_ceil_bounds [of 4096 sz] by simp_all
  let ?n = "sz' div 4096"
  from assms(4) obtain addr where alloc: "allocate_frames bf a ?n = Inr (Some addr, a')"
    and d: "dma_size d = sz'" "phys_addr_new x addr = Inr (phys d)"
    by (auto simp: dma_allocate_def alloc_for_dma_def Let_def sz'_def PAGE_SIZE_def result_simps
        split: prod.splits)
  have x: "x86_addr x" and bf: "bit_field bf" using assms(1) by (auto dest: frame_env.axioms)
  from d(2) x have addr: "phys d = addr" by (auto simp: x86_addr.phys_addr_new split: if_splits)
  have pos: "0 < ?n" using assms(3) round by (auto simp: div_greater_zero_iff)
  have "?n \<le> usable_frames a" using alloc by (auto simp: allocate_frames_def split: if_splits)
  from bit_field.allocate_frames_contract [OF bf pos this assms(2)] alloc obtain s where
    s: "addr = 4096 * s" "fits bf (bitmap a) ?n s" "free_frames bf a' = free_frames bf a - {s..<s + ?n}"
    by auto
  have "phys d div 4096 = s" "(phys d + dma_size d) div 4096 = s + ?n" using s(1) addr d(1) by auto
  with s round d(1) addr show ?thesis by (auto simp: fits_def)
qed

theorem dma_allocate_region_witness:
  "\<exists>d a'. dma_allocate byte_bits x86_model 0 demo_allocator 5000 = Inr (d, a') \<and> dma_size d = 8192 \<and> phys d = 8192 \<and>
     {2..<4} \<subseteq> free_frames byte_bits demo_allocator"
proof -
  have alloc: "dma_allocate byte_bits x86_model 0 demo_allocator 5000 =
      Inr (\<lparr>virt = 8192, phys = 8192, dma_size = 8192\<rparr>,
           \<lparr>bitmap = \<lparr>inner = [0xD1, 0, 0, 0, 0, 0, 0, 0]\<rparr>, usable_frames = 4, next_frame = 0\<rparr>)"
    by (simp add: dma_allocate_def PAGE_SIZE_def alloc_for_dma_def allocate_frames_def demo_allocator_def
        take_run.simps search.simps skip_used.simps bitmap_eval usize_sub_def usize_mul_def usize_max_def
        x86_model_def convert_physical_to_virtual_def usize_add_def canonical_def)
  show ?thesis
    using dma_allocate_region [OF frame_env_model demo_addressable _ alloc] alloc by simp
qed

end
