(* ===== verification/NvmeQueue.thy ===== *)
theory NvmeQueue
  imports NvmeCmd NvmeMem
begin

text \<open>
  The rings an NVMe driver and its controller share (\<open>drivers/nvme/queues.rs\<close>): the
  submission ring, which the driver fills and the controller empties, and the completion
  ring, which the controller fills and the driver polls by the phase bit of each entry.

  The memory behind the rings is an explicit store: a \<open>machine\<close> maps the physical address
  of a ring (or of a PRP list) and a slot number to the entry there, and the bytes of other
  DMA buffers to their values.  The controller is a parameter of the model, a record of functions that
  say what a register read returns, how the machine reacts to a register write, and what
  may happen while the driver spins.

  Both rings are shown to be first-in first-out queues: locale \<open>fifo\<close> states the contract and
  proves once that every interleaving of enqueues and dequeues loses, duplicates and
  reorders nothing.
\<close>

record NvmeCompletion =
  command_specific :: u32
  cqe_rsvd :: u32
  cqe_sq_head :: u16
  cqe_sq_id :: u16
  cqe_c_id :: u16
  status :: u16

definition QUEUE_LENGTH :: nat where
  "QUEUE_LENGTH = 1024"

record 'd machine =
  sq_mem :: "nat \<Rightarrow> nat \<Rightarrow> NvmeCommand"
  cq_mem :: "nat \<Rightarrow> nat \<Rightarrow> NvmeCompletion"
  prp_mem :: "nat \<Rightarrow> nat \<Rightarrow> u64"
  ram :: "nat \<Rightarrow> u8"
  dev :: 'd

record 'd nvme_hw =
  mmio_read32 :: "nat \<Rightarrow> 'd machine \<Rightarrow> u32"
  mmio_read64 :: "nat \<Rightarrow> 'd machine \<Rightarrow> u64"
  mmio_write32 :: "nat \<Rightarrow> u32 \<Rightarrow> 'd machine \<Rightarrow> 'd machine"
  mmio_write64 :: "nat \<Rightarrow> u64 \<Rightarrow> 'd machine \<Rightarrow> 'd machine"
  relax :: "'d machine \<Rightarrow> 'd machine"

section \<open>Submission queue\<close>

record NvmeSubQueue =
  sq_commands :: Dma
  sq_head :: nat
  sq_tail :: nat
  sq_len :: nat
  sq_doorbell :: nat

definition nvme_sub_queue_new ::
  "bit_field_api \<Rightarrow> x86_api \<Rightarrow> nat \<Rightarrow> BitmapFrameAllocator \<Rightarrow> nat \<Rightarrow> nat \<Rightarrow>
     (NvmeSubQueue \<times> BitmapFrameAllocator) result" where
  "nvme_sub_queue_new bf x offset a len doorbell =
     and_then (dma_allocate bf x offset a 4096) (\<lambda>(d, a').
     Inr (\<lparr>sq_commands = d, sq_head = 0, sq_tail = 0, sq_len = min len QUEUE_LENGTH,
           sq_doorbell = doorbell\<rparr>, a'))"

definition sq_is_empty :: "NvmeSubQueue \<Rightarrow> bool" where
  "sq_is_empty q \<longleftrightarrow> sq_head q = sq_tail q"

definition sq_is_full :: "NvmeSubQueue \<Rightarrow> bool result" where
  "sq_is_full q = and_then (usize_rem (sq_tail q + 1) (sq_len q)) (\<lambda>r. Inr (sq_head q = r))"

definition sq_submit ::
  "NvmeSubQueue \<Rightarrow> NvmeCommand \<Rightarrow> 'd machine \<Rightarrow> (nat \<times> NvmeSubQueue \<times> 'd machine) result" where
  "sq_submit q entry m =
     (if QUEUE_LENGTH \<le> sq_tail q then Inl IndexOutOfBounds
      else
        let addr = phys (sq_commands q);
            m' = m\<lparr>sq_mem := (sq_mem m)(addr := (sq_mem m addr)(sq_tail q := entry))\<rparr> in
        and_then (usize_rem (sq_tail q + 1) (sq_len q)) (\<lambda>t.
        Inr (t, q\<lparr>sq_tail := t\<rparr>, m')))"

definition sq_submit_checked ::
  "NvmeSubQueue \<Rightarrow> NvmeCommand \<Rightarrow> 'd machine \<Rightarrow> (nat option \<times> NvmeSubQueue \<times> 'd machine) result" where
  "sq_submit_checked q entry m =
     and_then (sq_is_full q) (\<lambda>full.
     if full then Inr (None, q, m)
     else and_then (sq_submit q entry m) (\<lambda>(t, q', m'). Inr (Some t, q', m')))"

definition sq_get_addr :: "NvmeSubQueue \<Rightarrow> nat" where
  "sq_get_addr q = phys (sq_commands q)"

section \<open>Completion queue\<close>

record NvmeCompQueue =
  cq_commands :: Dma
  cq_head :: nat
  cq_phase :: bool
  cq_len :: nat
  cq_doorbell :: nat

definition nvme_comp_queue_new ::
  "bit_field_api \<Rightarrow> x86_api \<Rightarrow> nat \<Rightarrow> BitmapFrameAllocator \<Rightarrow> nat \<Rightarrow> nat \<Rightarrow>
     (NvmeCompQueue \<times> BitmapFrameAllocator) result" where
  "nvme_comp_queue_new bf x offset a len doorbell =
     and_then (dma_allocate bf x offset a 4096) (\<lambda>(d, a').
     Inr (\<lparr>cq_commands = d, cq_head = 0, cq_phase = True, cq_len = min len QUEUE_LENGTH,
           cq_doorbell = doorbell\<rparr>, a'))"

definition cq_get_addr :: "NvmeCompQueue \<Rightarrow> nat" where
  "cq_get_addr q = phys (cq_commands q)"

definition phase_bit :: "NvmeCompletion \<Rightarrow> bool" where
  "phase_bit e \<longleftrightarrow> status e AND 1 = 1"

text \<open>\<open>ring\<close> is the array of entries behind \<open>self.commands\<close>.\<close>

definition complete ::
  "NvmeCompQueue \<Rightarrow> (nat \<Rightarrow> NvmeCompletion) \<Rightarrow>
     ((nat \<times> NvmeCompletion \<times> nat) option \<times> NvmeCompQueue) result" where
  "complete q ring =
     (if QUEUE_LENGTH \<le> cq_head q then Inl IndexOutOfBounds
      else
        let entry = ring (cq_head q) in
        if phase_bit entry = cq_phase q then
          let prev = cq_head q in
          and_then (usize_rem (cq_head q + 1) (cq_len q)) (\<lambda>h.
          let q1 = q\<lparr>cq_head := h\<rparr>;
              q2 = (if h = 0 then q1\<lparr>cq_phase := \<not> cq_phase q1\<rparr> else q1) in
          Inr (Some (h, entry, prev), q2))
        else Inr (None, q))"

text \<open>The polling loop; \<open>None\<close> when it spins for ever.\<close>

partial_function (option) complete_spin ::
  "'d nvme_hw \<Rightarrow> NvmeCompQueue \<Rightarrow> 'd machine \<Rightarrow>
     ((nat \<times> NvmeCompletion \<times> nat) \<times> NvmeCompQueue \<times> 'd machine) result option" where
  "complete_spin hw q m =
     (case complete q (cq_mem m (phys (cq_commands q))) of
        Inl e \<Rightarrow> Some (Inl e)
      | Inr (v, q') \<Rightarrow>
          (case v of
             Some w \<Rightarrow> Some (Inr (w, q', m))
           | None \<Rightarrow> complete_spin hw q' (relax hw m)))"

definition complete_n ::
  "'d nvme_hw \<Rightarrow> NvmeCompQueue \<Rightarrow> nat \<Rightarrow> 'd machine \<Rightarrow>
     ((nat \<times> NvmeCompletion \<times> nat) \<times> NvmeCompQueue \<times> 'd machine) result option" where
  "complete_n hw q commands m =
     (let prev = cq_head q in
      case usize_sub commands 1 of
        Inl e \<Rightarrow> Some (Inl e)
      | Inr k \<Rightarrow>
          (let q1 = q\<lparr>cq_head := cq_head q + k\<rparr>;
               q2 = (if cq_len q1 \<le> cq_head q1 then q1\<lparr>cq_phase := \<not> cq_phase q1\<rparr> else q1) in
           case usize_rem (cq_head q2) (cq_len q2) of
             Inl e \<Rightarrow> Some (Inl e)
           | Inr h \<Rightarrow>
               map_option (\<lambda>r. and_then r (\<lambda>((head, entry, _), q', m'). Inr ((head, entry, prev), q', m')))
                 (complete_spin hw (q2\<lparr>cq_head := h\<rparr>) m)))"

section \<open>The queue contract\<close>

text \<open>
  What a shared ring promises its two ends: \<open>enq\<close> appends (or refuses), \<open>deq\<close> takes the
  oldest entry and returns nothing only when nothing is waiting, and \<open>sync\<close>, by which one end
  tells the other how far it has come, changes no contents.  \<open>norm\<close> forgets the part of an entry
  the ring itself uses.
\<close>

datatype 'a action = Enq 'a | Deq | Sync

fun run_actions ::
  "('a \<Rightarrow> 's \<Rightarrow> 's option) \<Rightarrow> ('s \<Rightarrow> ('a \<times> 's) option) \<Rightarrow> ('s \<Rightarrow> 's) \<Rightarrow> 'a action list \<Rightarrow> 's \<Rightarrow>
     'a list \<times> 'a list \<times> 's" where
  "run_actions enq deq sync [] s = ([], [], s)"
| "run_actions enq deq sync (Enq a # as) s =
     (case enq a s of
        None \<Rightarrow> run_actions enq deq sync as s
      | Some s1 \<Rightarrow> (let (ins, outs, s') = run_actions enq deq sync as s1 in (a # ins, outs, s')))"
| "run_actions enq deq sync (Deq # as) s =
     (case deq s of
        None \<Rightarrow> run_actions enq deq sync as s
      | Some (a, s1) \<Rightarrow> (let (ins, outs, s') = run_actions enq deq sync as s1 in (ins, a # outs, s')))"
| "run_actions enq deq sync (Sync # as) s = run_actions enq deq sync as (sync s)"

locale fifo =
  fixes inv :: "'s \<Rightarrow> bool"
    and contents :: "'s \<Rightarrow> 'a list"
    and enq :: "'a \<Rightarrow> 's \<Rightarrow> 's option"
    and deq :: "'s \<Rightarrow> ('a \<times> 's) option"
    and sync :: "'s \<Rightarrow> 's"
    and norm :: "'a \<Rightarrow> 'a"
  assumes enq_some: "inv s \<Longrightarrow> enq a s = Some s' \<Longrightarrow> inv s' \<and> contents s' = contents s @ [norm a]"
    and deq_some: "inv s \<Longrightarrow> deq s = Some (a, s') \<Longrightarrow> inv s' \<and> contents s = a # contents s'"
    and deq_none: "inv s \<Longrightarrow> deq s = None \<Longrightarrow> contents s = []"
    and sync_keeps: "inv s \<Longrightarrow> inv (sync s) \<and> contents (sync s) = contents s"
begin

lemma run_fifo:
  assumes "inv s" and "run_actions enq deq sync acts s = (ins, outs, s')"
  shows "inv s' \<and> contents s @ map norm ins = outs @ contents s'"
  using assms
proof (induction acts arbitrary: s ins outs s')
  case Nil
  then show ?case by simp
next
  case (Cons a as)
  show ?case
  proof (cases a)
    case (Enq e)
    show ?thesis
    proof (cases "enq e s")
      case None
      with Cons Enq show ?thesis by simp
    next
      case (Some s1)
      note s1 = enq_some [OF Cons.prems(1) Some]
      obtain ins1 where "run_actions enq deq sync as s1 = (ins1, outs, s')" "ins = e # ins1"
        using Cons.prems(2) Enq Some by (auto split: prod.splits)
      with Cons.IH [of s1] s1 show ?thesis by simp
    qed
  next
    case Deq
    show ?thesis
    proof (cases "deq s")
      case None
      with Cons Deq show ?thesis by simp
    next
      case (Some r)
      then obtain e s1 where r: "deq s = Some (e, s1)" by (cases r) auto
      note s1 = deq_some [OF Cons.prems(1) r]
      obtain outs1 where "run_actions enq deq sync as s1 = (ins, outs1, s')" "outs = e # outs1"
        using Cons.prems(2) Deq r by (auto split: prod.splits)
      with Cons.IH [of s1] s1 show ?thesis by simp
    qed
  next
    case Sync
    with Cons.IH [of "sync s" ins outs s'] Cons.prems show ?thesis using sync_keeps [of s] by simp
  qed
qed

lemma drained:
  assumes "inv s" and "run_actions enq deq sync acts s = (ins, outs, s')" and "deq s' = None"
  shows "outs = contents s @ map norm ins"
  using run_fifo [OF assms(1,2)] deq_none assms(3) by auto

end

section \<open>The completion ring\<close>

text \<open>
  \<open>cq_at q h\<close>: the driver has taken \<open>h\<close> entries since the queue was created; its head and its
  phase flag are a function of \<open>h\<close>.
\<close>

definition cq_at :: "NvmeCompQueue \<Rightarrow> nat \<Rightarrow> bool" where
  "cq_at q h \<longleftrightarrow> 0 < cq_len q \<and> cq_len q \<le> QUEUE_LENGTH \<and> cq_head q = h mod cq_len q \<and>
     cq_phase q = even (h div cq_len q)"

text \<open>Entry number \<open>i\<close> is in its slot: the slot carries the phase of the lap \<open>i\<close> belongs to.\<close>

definition posted :: "nat \<Rightarrow> (nat \<Rightarrow> NvmeCompletion) \<Rightarrow> nat \<Rightarrow> bool" where
  "posted len ring i \<longleftrightarrow> phase_bit (ring (i mod len)) = even (i div len)"

lemma cq_at_new:
  assumes "nvme_comp_queue_new bf x offset a len doorbell = Inr (q, a')" and "0 < len"
  shows "cq_at q 0"
  using assms by (auto simp: nvme_comp_queue_new_def cq_at_def QUEUE_LENGTH_def result_simps)

definition cq_advance :: "NvmeCompQueue \<Rightarrow> nat \<Rightarrow> NvmeCompQueue" where
  "cq_advance q h = q\<lparr>cq_head := h mod cq_len q, cq_phase := even (h div cq_len q)\<rparr>"

lemma cq_at_advance: "cq_at q h \<Longrightarrow> cq_at (cq_advance q h') h'"
  by (simp add: cq_at_def cq_advance_def)

lemma cq_advance_simps [simp]:
  "cq_len (cq_advance q h) = cq_len q" "cq_commands (cq_advance q h) = cq_commands q"
  "cq_doorbell (cq_advance q h) = cq_doorbell q"
  "cq_advance (cq_advance q h) h' = cq_advance q h'"
  by (simp_all add: cq_advance_def)

lemma cq_at_eq_advance: "cq_at q h \<Longrightarrow> q = cq_advance q h"
  by (simp add: cq_at_def cq_advance_def)

lemma complete_at:
  assumes "cq_at q h"
  shows "complete q ring =
    (if posted (cq_len q) ring h
     then Inr (Some (Suc h mod cq_len q, ring (h mod cq_len q), h mod cq_len q), cq_advance q (Suc h))
     else Inr (None, q))"
proof -
  from assms have len: "0 < cq_len q" "cq_len q \<le> QUEUE_LENGTH" "cq_head q = h mod cq_len q"
    "cq_phase q = even (h div cq_len q)" by (auto simp: cq_at_def)
  have in_range: "\<not> QUEUE_LENGTH \<le> h mod cq_len q" using len mod_less_divisor [of "cq_len q" h] by linarith
  have "Suc (h mod cq_len q) mod cq_len q = Suc h mod cq_len q" by (simp add: mod_Suc_eq)
  moreover have "even (Suc h div cq_len q) = (if Suc h mod cq_len q = 0 then \<not> even (h div cq_len q) else even (h div cq_len q))"
    by (simp add: div_Suc)
  ultimately show ?thesis using in_range len
    by (simp add: complete_def posted_def cq_advance_def Let_def)
qed

text \<open>\<open>complete\<close> repeated \<open>n\<close> times, the reference for \<open>complete_n\<close>.\<close>

fun complete_times ::
  "nat \<Rightarrow> NvmeCompQueue \<Rightarrow> (nat \<Rightarrow> NvmeCompletion) \<Rightarrow> ((nat \<times> NvmeCompletion \<times> nat) list \<times> NvmeCompQueue) result" where
  "complete_times 0 q ring = Inr ([], q)"
| "complete_times (Suc n) q ring =
     and_then (complete q ring) (\<lambda>(v, q1).
     and_then (unwrap v) (\<lambda>w.
     and_then (complete_times n q1 ring) (\<lambda>(ws, q2). Inr (w # ws, q2))))"

lemma complete_times_at:
  assumes "cq_at q h" and "\<forall>i \<in> {h..<h + n}. posted (cq_len q) ring i"
  shows "complete_times n q ring =
    Inr (map (\<lambda>i. (Suc i mod cq_len q, ring (i mod cq_len q), i mod cq_len q)) [h..<h + n], cq_advance q (h + n))"
  using assms
proof (induction n arbitrary: q h)
  case 0
  then show ?case using cq_at_eq_advance by simp
next
  case (Suc n)
  have "posted (cq_len q) ring h" using Suc.prems(2) by simp
  moreover have "[h..<h + Suc n] = h # [Suc h..<Suc h + n]" by (simp add: upt_conv_Cons)
  ultimately show ?case
    using Suc.IH [OF cq_at_advance [OF Suc.prems(1)], of "Suc h"] Suc.prems(2)
    by (simp add: complete_at [OF Suc.prems(1)])
qed

lemma complete_spin_posted:
  assumes "cq_at q h" and "posted (cq_len q) (cq_mem m (phys (cq_commands q))) h"
  shows "complete_spin hw q m =
    Some (Inr ((Suc h mod cq_len q, cq_mem m (phys (cq_commands q)) (h mod cq_len q), h mod cq_len q),
      cq_advance q (Suc h), m))"
  using assms by (subst complete_spin.simps) (simp add: complete_at)

lemma complete_spin_waits:
  assumes "cq_at q h" and "posted (cq_len q) (cq_mem ((relax hw ^^ k) m) (phys (cq_commands q))) h"
  shows "\<exists>j \<le> k. let m' = (relax hw ^^ j) m; ring = cq_mem m' (phys (cq_commands q)) in
    posted (cq_len q) ring h \<and>
    complete_spin hw q m =
      Some (Inr ((Suc h mod cq_len q, ring (h mod cq_len q), h mod cq_len q), cq_advance q (Suc h), m'))"
  using assms
proof (induction k arbitrary: m)
  case 0
  then show ?case using complete_spin_posted [of q h m hw] by (simp add: Let_def)
next
  case (Suc k)
  show ?case
  proof (cases "posted (cq_len q) (cq_mem m (phys (cq_commands q))) h")
    case True
    then show ?thesis using complete_spin_posted [OF Suc.prems(1)] by (intro exI [of _ 0]) (simp add: Let_def)
  next
    case False
    have "complete_spin hw q m = complete_spin hw q (relax hw m)"
      using False Suc.prems(1) by (subst complete_spin.simps) (simp add: complete_at)
    moreover obtain j where "j \<le> k" "let m' = (relax hw ^^ j) (relax hw m); ring = cq_mem m' (phys (cq_commands q)) in
      posted (cq_len q) ring h \<and>
      complete_spin hw q (relax hw m) =
        Some (Inr ((Suc h mod cq_len q, ring (h mod cq_len q), h mod cq_len q), cq_advance q (Suc h), m'))"
      using Suc.IH [OF Suc.prems(1), of "relax hw m"] Suc.prems(2) by (auto simp: funpow_swap1)
    ultimately show ?thesis by (intro exI [of _ "Suc j"]) (simp add: funpow_swap1)
  qed
qed

lemma complete_n_at:
  assumes "cq_at q h" and "0 < n" and "n \<le> cq_len q"
  shows "complete_n hw q n m =
    map_option (\<lambda>r. and_then r (\<lambda>((head, entry, _), q', m'). Inr ((head, entry, h mod cq_len q), q', m')))
      (complete_spin hw (cq_advance q (h + (n - 1))) m)"
proof -
  from assms(1) have len: "0 < cq_len q" "cq_head q = h mod cq_len q"
    "cq_phase q = even (h div cq_len q)" by (auto simp: cq_at_def)
  let ?k = "n - 1"
  define c r where "c = h div cq_len q" and "r = h mod cq_len q"
  have h: "h = c * cq_len q + r" "r < cq_len q" using len(1) by (auto simp: c_def r_def)
  have k: "?k < cq_len q" using assms(2,3) by simp
  have "(h + ?k) div cq_len q = c + (r + ?k) div cq_len q" unfolding h(1) using len(1) by (simp add: add.assoc)
  moreover have "(r + ?k) div cq_len q = (if cq_len q \<le> r + ?k then 1 else 0)"
    using h(2) k by (auto simp: div_if)
  ultimately have "even ((h + ?k) div cq_len q) = (if cq_len q \<le> r + ?k then \<not> even c else even c)" by simp
  moreover have "(r + ?k) mod cq_len q = (h + ?k) mod cq_len q" by (simp add: r_def mod_add_left_eq)
  ultimately show ?thesis using len assms(2)
    by (cases q) (simp add: complete_n_def usize_sub_def cq_advance_def Let_def c_def r_def)
qed

text \<open>
  The ring with both its ends: the driver's queue, the slots, the number of entries the
  controller has posted, the number the driver has taken, and the number the driver has
  acknowledged through the head doorbell.  The controller writes entry \<open>i\<close> into slot
  \<open>i mod len\<close> with the phase of its lap, and only while the slot is acknowledged.
\<close>

record cq_ring =
  ring_queue :: NvmeCompQueue
  ring_slots :: "nat \<Rightarrow> NvmeCompletion"
  produced :: nat
  consumed :: nat
  acked :: nat

definition set_phase :: "bool \<Rightarrow> NvmeCompletion \<Rightarrow> NvmeCompletion" where
  "set_phase p e = e\<lparr>status := (if p then status e OR 1 else status e AND NOT 1)\<rparr>"

definition strip_phase :: "NvmeCompletion \<Rightarrow> NvmeCompletion" where
  "strip_phase = set_phase False"

definition cq_post :: "NvmeCompletion \<Rightarrow> cq_ring \<Rightarrow> cq_ring option" where
  "cq_post e r =
     (let len = cq_len (ring_queue r); i = produced r in
      if i < acked r + len
      then Some (r\<lparr>ring_slots := (ring_slots r)(i mod len := set_phase (even (i div len)) e), produced := Suc i\<rparr>)
      else None)"

definition cq_poll :: "cq_ring \<Rightarrow> (NvmeCompletion \<times> cq_ring) option" where
  "cq_poll r =
     (case complete (ring_queue r) (ring_slots r) of
        Inr (Some (_, e, _), q) \<Rightarrow> Some (strip_phase e, r\<lparr>ring_queue := q, consumed := Suc (consumed r)\<rparr>)
      | _ \<Rightarrow> None)"

definition cq_ack :: "cq_ring \<Rightarrow> cq_ring" where
  "cq_ack r = r\<lparr>acked := consumed r\<rparr>"

definition cq_inv :: "cq_ring \<Rightarrow> bool" where
  "cq_inv r \<longleftrightarrow> cq_at (ring_queue r) (consumed r) \<and> acked r \<le> consumed r \<and> consumed r \<le> produced r \<and>
     produced r \<le> acked r + cq_len (ring_queue r) \<and>
     (\<forall>i. consumed r \<le> i \<and> i < produced r \<longrightarrow> posted (cq_len (ring_queue r)) (ring_slots r) i) \<and>
     (\<forall>i. produced r \<le> i \<and> i < consumed r + cq_len (ring_queue r) \<longrightarrow>
        \<not> posted (cq_len (ring_queue r)) (ring_slots r) i)"

definition cq_contents :: "cq_ring \<Rightarrow> NvmeCompletion list" where
  "cq_contents r =
     map (\<lambda>i. strip_phase (ring_slots r (i mod cq_len (ring_queue r)))) [consumed r..<produced r]"

lemma phase_set_phase [simp]: "phase_bit (set_phase p e) = p"
proof -
  have "(status e OR 1) AND 1 = 1" "(status e AND NOT 1) AND 1 = 0"
    by (simp_all add: bit_eq_iff bit_simps) (auto simp: bit_simps)
  then show ?thesis by (simp add: phase_bit_def set_phase_def)
qed

lemma strip_set_phase [simp]: "strip_phase (set_phase p e) = strip_phase e"
proof -
  have "(status e OR 1) AND NOT 1 = status e AND NOT 1"
    by (rule bit_word_eqI) (auto simp: bit_simps)
  then show ?thesis by (simp add: strip_phase_def set_phase_def and.assoc)
qed

text \<open>Two entry numbers less than a lap apart have different slots.\<close>

lemma slot_distinct:
  fixes i j len :: nat
  assumes "i mod len = j mod len" and "i < j + len" and "j < i + len"
  shows "i = j"
proof (cases "i \<le> j")
  case True
  with assms have "len dvd j - i" by (metis mod_eq_dvd_iff_nat)
  with assms True show ?thesis by (auto dest: dvd_imp_le)
next
  case False
  with assms have "len dvd i - j" by (metis mod_eq_dvd_iff_nat nat_le_linear)
  with assms False show ?thesis by (auto dest: dvd_imp_le)
qed

lemma posted_update_other:
  assumes "i \<noteq> j" and "i < j + len" and "j < i + len"
  shows "posted len (f(j mod len := e)) i = posted len f i"
  using assms slot_distinct [of i len j] by (auto simp: posted_def)

text \<open>One lap further the same slot has the other phase.\<close>

lemma posted_next_lap: "0 < len \<Longrightarrow> posted len f (i + len) \<longleftrightarrow> \<not> posted len f i"
  by (auto simp: posted_def div_add_self2)

lemma cq_post_fifo:
  assumes "cq_inv r" and "cq_post e r = Some r'"
  shows "cq_inv r' \<and> cq_contents r' = cq_contents r @ [strip_phase e]"
proof -
  let ?len = "cq_len (ring_queue r)" and ?i = "produced r"
  from assms(2) have room: "?i < acked r + ?len"
    and r': "r' = r\<lparr>ring_slots := (ring_slots r)(?i mod ?len := set_phase (even (?i div ?len)) e), produced := Suc ?i\<rparr>"
    by (auto simp: cq_post_def Let_def split: if_splits)
  from assms(1) have le: "acked r \<le> consumed r" "consumed r \<le> ?i" by (auto simp: cq_inv_def)
  have same: "posted ?len (ring_slots r') j = posted ?len (ring_slots r) j"
    if "consumed r \<le> j" "j < consumed r + ?len" "j \<noteq> ?i" for j
    unfolding r' using that room le by (simp add: posted_update_other)
  have new: "posted ?len (ring_slots r') ?i" by (simp add: r' posted_def)
  have "posted ?len (ring_slots r') j" if "consumed r \<le> j" "j < Suc ?i" for j
    using that same [of j] new assms(1) room le by (cases "j = ?i") (auto simp: cq_inv_def)
  moreover have "\<not> posted ?len (ring_slots r') j" if "Suc ?i \<le> j" "j < consumed r + ?len" for j
    using that same [of j] assms(1) le by (auto simp: cq_inv_def)
  ultimately have "cq_inv r'" using assms(1) room by (auto simp: cq_inv_def r')
  moreover have "ring_slots r' (j mod ?len) = ring_slots r (j mod ?len)" if "consumed r \<le> j" "j < ?i" for j
    using that room le slot_distinct [of j ?len ?i] by (auto simp: r')
  ultimately show ?thesis using le by (auto simp: cq_contents_def r')
qed

lemma cq_poll_at:
  assumes "cq_inv r"
  shows "cq_poll r =
    (if consumed r < produced r
     then Some (strip_phase (ring_slots r (consumed r mod cq_len (ring_queue r))),
                r\<lparr>ring_queue := cq_advance (ring_queue r) (Suc (consumed r)), consumed := Suc (consumed r)\<rparr>)
     else None)"
proof -
  have at: "cq_at (ring_queue r) (consumed r)" and pos: "0 < cq_len (ring_queue r)"
    using assms by (auto simp: cq_inv_def cq_at_def)
  have "posted (cq_len (ring_queue r)) (ring_slots r) (consumed r) \<longleftrightarrow> consumed r < produced r"
    using assms pos unfolding cq_inv_def by (metis le_add_same_cancel1 le_eq_less_or_eq less_add_same_cancel1 order_refl)
  then show ?thesis by (simp add: cq_poll_def complete_at [OF at])
qed

lemma cq_poll_fifo:
  assumes "cq_inv r" and "cq_poll r = Some (e, r')"
  shows "cq_inv r' \<and> cq_contents r = e # cq_contents r'"
proof -
  let ?len = "cq_len (ring_queue r)" and ?h = "consumed r"
  from assms have h: "?h < produced r" and e: "e = strip_phase (ring_slots r (?h mod ?len))"
    and r': "r' = r\<lparr>ring_queue := cq_advance (ring_queue r) (Suc ?h), consumed := Suc ?h\<rparr>"
    by (auto simp: cq_poll_at split: if_splits)
  have at0: "cq_at (ring_queue r) ?h" using assms(1) by (simp add: cq_inv_def)
  then have pos: "0 < ?len" by (simp add: cq_at_def)
  note at = cq_at_advance [OF at0, of "Suc ?h"]
  have "\<not> posted ?len (ring_slots r) j" if "produced r \<le> j" "j < Suc ?h + ?len" for j
  proof (cases "j = ?h + ?len")
    case True
    then show ?thesis using posted_next_lap [OF pos] assms(1) h by (auto simp: cq_inv_def)
  next
    case False
    then show ?thesis using that assms(1) by (auto simp: cq_inv_def)
  qed
  then have "cq_inv r'" using assms(1) h at unfolding cq_inv_def r' by auto
  moreover have "[?h..<produced r] = ?h # [Suc ?h..<produced r]" using h by (simp add: upt_conv_Cons)
  ultimately show ?thesis by (simp add: cq_contents_def r' e)
qed

interpretation cq: fifo cq_inv cq_contents cq_post cq_poll cq_ack strip_phase
proof unfold_locales
  fix r :: cq_ring
  assume "cq_inv r"
  then show "cq_poll r = None \<Longrightarrow> cq_contents r = []"
    by (auto simp: cq_poll_at cq_contents_def split: if_splits)
  show "cq_inv (cq_ack r) \<and> cq_contents (cq_ack r) = cq_contents r"
    using \<open>cq_inv r\<close> by (auto simp: cq_ack_def cq_inv_def cq_contents_def)
qed (use cq_post_fifo cq_poll_fifo in blast)+

section \<open>The submission ring\<close>

text \<open>
  The driver's queue and memory, the number of commands submitted, the number the controller
  has fetched, and the number the driver knows to be fetched (the \<open>sq_head\<close> field of the last
  completion, which the driver stores into \<open>head\<close>).
\<close>

record sq_ring =
  sub_queue :: NvmeSubQueue
  sub_machine :: "unit machine"
  submitted :: nat
  fetched :: nat
  known :: nat

definition sq_push :: "NvmeCommand \<Rightarrow> sq_ring \<Rightarrow> sq_ring option" where
  "sq_push e r =
     (case sq_submit_checked (sub_queue r) e (sub_machine r) of
        Inr (Some _, q, m) \<Rightarrow> Some (r\<lparr>sub_queue := q, sub_machine := m, submitted := Suc (submitted r)\<rparr>)
      | _ \<Rightarrow> None)"

definition sq_slot :: "sq_ring \<Rightarrow> nat \<Rightarrow> NvmeCommand" where
  "sq_slot r i = sq_mem (sub_machine r) (sq_get_addr (sub_queue r)) (i mod sq_len (sub_queue r))"

definition sq_fetch :: "sq_ring \<Rightarrow> (NvmeCommand \<times> sq_ring) option" where
  "sq_fetch r =
     (if fetched r < submitted r then Some (sq_slot r (fetched r), r\<lparr>fetched := Suc (fetched r)\<rparr>) else None)"

definition sq_learn :: "sq_ring \<Rightarrow> sq_ring" where
  "sq_learn r = r\<lparr>sub_queue := (sub_queue r)\<lparr>sq_head := fetched r mod sq_len (sub_queue r)\<rparr>, known := fetched r\<rparr>"

definition sq_inv :: "sq_ring \<Rightarrow> bool" where
  "sq_inv r \<longleftrightarrow> sq_len (sub_queue r) \<le> QUEUE_LENGTH \<and> known r \<le> fetched r \<and> fetched r \<le> submitted r \<and>
     submitted r < known r + sq_len (sub_queue r) \<and>
     sq_head (sub_queue r) = known r mod sq_len (sub_queue r) \<and>
     sq_tail (sub_queue r) = submitted r mod sq_len (sub_queue r)"

definition sq_contents :: "sq_ring \<Rightarrow> NvmeCommand list" where
  "sq_contents r = map (sq_slot r) [fetched r..<submitted r]"

lemma sq_is_full_at:
  assumes "sq_inv r"
  shows "sq_is_full (sub_queue r) = Inr (Suc (submitted r) = known r + sq_len (sub_queue r))"
proof -
  let ?len = "sq_len (sub_queue r)"
  have len: "0 < ?len" "known r \<le> submitted r" "submitted r < known r + ?len"
    using assms by (auto simp: sq_inv_def)
  have "known r mod ?len = Suc (submitted r) mod ?len \<longleftrightarrow> Suc (submitted r) = known r + ?len"
  proof
    assume "known r mod ?len = Suc (submitted r) mod ?len"
    then have "(known r + ?len) mod ?len = Suc (submitted r) mod ?len" by simp
    then show "Suc (submitted r) = known r + ?len"
      using slot_distinct [of "known r + ?len" ?len "Suc (submitted r)"] len by simp
  next
    assume "Suc (submitted r) = known r + ?len"
    then show "known r mod ?len = Suc (submitted r) mod ?len" by simp
  qed
  then show ?thesis using assms len(1) by (simp add: sq_is_full_def sq_inv_def mod_Suc_eq)
qed

lemma sq_submit_at:
  assumes "sq_inv r"
  shows "sq_submit (sub_queue r) e m =
    (let q = sub_queue r; t = Suc (submitted r) mod sq_len q; addr = sq_get_addr q in
     Inr (t, q\<lparr>sq_tail := t\<rparr>,
       m\<lparr>sq_mem := (sq_mem m)(addr := (sq_mem m addr)(submitted r mod sq_len q := e))\<rparr>))"
proof -
  have len: "0 < sq_len (sub_queue r)" using assms by (auto simp: sq_inv_def)
  then have "submitted r mod sq_len (sub_queue r) < QUEUE_LENGTH"
    using assms mod_less_divisor [OF len, of "submitted r"] unfolding sq_inv_def by linarith
  then show ?thesis using assms len
    by (simp add: sq_submit_def sq_inv_def Let_def mod_Suc_eq sq_get_addr_def)
qed

lemma sq_push_fifo:
  assumes "sq_inv r" and "sq_push e r = Some r'"
  shows "sq_inv r' \<and> sq_contents r' = sq_contents r @ [id e]"
proof -
  let ?q = "sub_queue r" and ?m = "sub_machine r"
  let ?len = "sq_len ?q" and ?t = "submitted r" and ?addr = "sq_get_addr (sub_queue r)"
  from assms have room: "Suc ?t \<noteq> known r + ?len"
    and r': "r' = r\<lparr>sub_queue := ?q\<lparr>sq_tail := Suc ?t mod ?len\<rparr>, submitted := Suc ?t,
      sub_machine := ?m\<lparr>sq_mem := (sq_mem ?m)(?addr := (sq_mem ?m ?addr)(?t mod ?len := e))\<rparr>\<rparr>"
    by (auto simp: sq_push_def sq_submit_checked_def sq_is_full_at sq_submit_at Let_def split: if_splits)
  have "sq_slot r' i = sq_slot r i" if "fetched r \<le> i" "i < ?t" for i
    using that assms(1) slot_distinct [of i ?len ?t]
    by (auto simp: sq_slot_def r' sq_get_addr_def sq_inv_def)
  moreover have "sq_slot r' ?t = e" by (simp add: sq_slot_def r' sq_get_addr_def)
  moreover have "fetched r \<le> ?t" using assms(1) by (simp add: sq_inv_def)
  ultimately have "sq_contents r' = sq_contents r @ [e]" by (simp add: sq_contents_def r')
  moreover have "sq_inv r'" using assms(1) room by (auto simp: sq_inv_def r')
  ultimately show ?thesis by simp
qed

interpretation sq: fifo sq_inv sq_contents sq_push sq_fetch sq_learn id
proof unfold_locales
  fix r r' :: sq_ring and c
  assume inv: "sq_inv r"
  show "sq_fetch r = None \<Longrightarrow> sq_contents r = []"
    by (auto simp: sq_fetch_def sq_contents_def split: if_splits)
  show "sq_inv (sq_learn r) \<and> sq_contents (sq_learn r) = sq_contents r"
    using inv by (auto simp: sq_learn_def sq_inv_def sq_contents_def sq_slot_def sq_get_addr_def)
  show "sq_inv r' \<and> sq_contents r = c # sq_contents r'" if "sq_fetch r = Some (c, r')"
    using that inv
    by (auto simp: sq_fetch_def sq_inv_def sq_contents_def sq_slot_def upt_conv_Cons split: if_splits)
qed (use sq_push_fifo in blast)

section \<open>Properties\<close>

text \<open>Concrete data for the instances: a ring of length three whose slots 0 and 2 hold entries.\<close>

definition demo_completion :: "u16 \<Rightarrow> NvmeCompletion" where
  "demo_completion s = \<lparr>command_specific = 0, cqe_rsvd = 0, cqe_sq_head = 0, cqe_sq_id = 0, cqe_c_id = 0, status = s\<rparr>"

definition demo_command :: "u16 \<Rightarrow> NvmeCommand" where
  "demo_command i = command_default\<lparr>c_id := i\<rparr>"

definition demo_machine :: "unit machine" where
  "demo_machine = \<lparr>sq_mem = \<lambda>_ _. command_default, cq_mem = \<lambda>_ i. demo_completion (if i = 2 then 1 else 0),
     prp_mem = \<lambda>_ _. 0, ram = \<lambda>_. 0, dev = ()\<rparr>"

definition demo_hw :: "unit nvme_hw" where
  "demo_hw = \<lparr>mmio_read32 = \<lambda>_ _. 0, mmio_read64 = \<lambda>_ _. 0, mmio_write32 = \<lambda>_ _ m. m,
     mmio_write64 = \<lambda>_ _ m. m, relax = \<lambda>m. m\<rparr>"

definition demo_cq :: NvmeCompQueue where
  "demo_cq = \<lparr>cq_commands = \<lparr>virt = 0, phys = 0, dma_size = 4096\<rparr>, cq_head = 2, cq_phase = True, cq_len = 3, cq_doorbell = 0\<rparr>"

definition fresh_cq_ring :: "NvmeCompQueue \<Rightarrow> (nat \<Rightarrow> NvmeCompletion) \<Rightarrow> cq_ring" where
  "fresh_cq_ring q slots = \<lparr>ring_queue = q, ring_slots = slots, produced = 0, consumed = 0, acked = 0\<rparr>"

definition fresh_sq_ring :: "NvmeSubQueue \<Rightarrow> unit machine \<Rightarrow> sq_ring" where
  "fresh_sq_ring q m = \<lparr>sub_queue = q, sub_machine = m, submitted = 0, fetched = 0, known = 0\<rparr>"

text \<open>
  C9. A completion queue as \<open>NvmeCompQueue::new\<close> creates it, over memory with clear phase bits,
  is a first-in first-out queue under every interleaving of controller posts, driver polls
  and head-doorbell writes: what the driver has read, followed by what is still waiting, is
  exactly what the controller has posted, in order; and when a poll returns nothing the
  driver has read everything.  The phase bit alone tells new entries from old ones across
  every wrap-around of the ring.
\<close>

theorem completion_ring_fifo:
  assumes "nvme_comp_queue_new bf x offset a len doorbell = Inr (q, a')" and "0 < len"
    and "\<forall>i < cq_len q. \<not> phase_bit (slots i)"
    and "run_actions cq_post cq_poll cq_ack acts (fresh_cq_ring q slots) = (posts, polled, r)"
  shows "map strip_phase posts = polled @ cq_contents r \<and>
    (cq_poll r = None \<longrightarrow> polled = map strip_phase posts) \<and> cq_at (ring_queue r) (consumed r)"
proof -
  have at: "cq_at q 0" using cq_at_new [OF assms(1,2)] .
  then have inv: "cq_inv (fresh_cq_ring q slots)" using assms(3)
    by (auto simp: cq_inv_def fresh_cq_ring_def posted_def cq_at_def)
  have "cq_contents (fresh_cq_ring q slots) = []" by (simp add: cq_contents_def fresh_cq_ring_def)
  then show ?thesis using cq.run_fifo [OF inv assms(4)] cq.drained [OF inv assms(4)]
    by (auto simp: cq_inv_def)
qed

theorem completion_ring_fifo_witness:
  "\<exists>q a' r. nvme_comp_queue_new byte_bits x86_model 0 demo_allocator 2 0 = Inr (q, a') \<and>
     run_actions cq_post cq_poll cq_ack
       [Enq (demo_completion 0), Enq (demo_completion 2), Enq (demo_completion 4), Deq, Sync,
        Enq (demo_completion 4), Deq, Deq, Deq] (fresh_cq_ring q (\<lambda>_. demo_completion 0)) =
       (map demo_completion [0, 2, 4], map demo_completion [0, 2, 4], r) \<and> cq_contents r = []"
proof -
  obtain q a' where q: "nvme_comp_queue_new byte_bits x86_model 0 demo_allocator 2 0 = Inr (q, a')"
    "q = \<lparr>cq_commands = \<lparr>virt = 0, phys = 0, dma_size = 4096\<rparr>, cq_head = 0, cq_phase = True, cq_len = 2, cq_doorbell = 0\<rparr>"
    by (simp add: nvme_comp_queue_new_def demo_dma_page QUEUE_LENGTH_def)
  let ?acts = "[Enq (demo_completion 0), Enq (demo_completion 2), Enq (demo_completion 4), Deq, Sync,
    Enq (demo_completion 4), Deq, Deq, Deq]"
  obtain r where r: "run_actions cq_post cq_poll cq_ack ?acts (fresh_cq_ring q (\<lambda>_. demo_completion 0)) =
      (map demo_completion [0, 2, 4], map demo_completion [0, 2, 4], r)"
    by (simp add: q(2) fresh_cq_ring_def cq_post_def cq_poll_def cq_ack_def complete_def QUEUE_LENGTH_def
        phase_bit_def set_phase_def strip_phase_def demo_completion_def Let_def)
  have "\<forall>i < cq_len q. \<not> phase_bit (demo_completion 0)" by (simp add: phase_bit_def demo_completion_def)
  from completion_ring_fifo [OF q(1) _ this r] have "cq_contents r = []"
    by (simp add: demo_completion_def strip_phase_def set_phase_def)
  with q r show ?thesis by blast
qed

text \<open>
  C10. A submission queue as \<open>NvmeSubQueue::new\<close> creates it is a first-in first-out queue under
  every interleaving of checked submissions, controller fetches and head updates: no accepted
  command is lost, duplicated, reordered or overwritten before the controller has fetched it.
\<close>

theorem submission_ring_fifo:
  assumes "nvme_sub_queue_new bf x offset a len doorbell = Inr (q, a')" and "0 < len"
    and "run_actions sq_push sq_fetch sq_learn acts (fresh_sq_ring q m) = (accepted, seen, r)"
  shows "accepted = seen @ sq_contents r \<and> (sq_fetch r = None \<longrightarrow> seen = accepted)"
proof -
  have inv: "sq_inv (fresh_sq_ring q m)" using assms(1,2)
    by (auto simp: sq_inv_def fresh_sq_ring_def nvme_sub_queue_new_def QUEUE_LENGTH_def result_simps)
  have "sq_contents (fresh_sq_ring q m) = []" by (simp add: sq_contents_def fresh_sq_ring_def)
  then show ?thesis using sq.run_fifo [OF inv assms(3)] sq.drained [OF inv assms(3)] by auto
qed

theorem submission_ring_fifo_witness:
  "\<exists>q a' r. nvme_sub_queue_new byte_bits x86_model 0 demo_allocator 3 0 = Inr (q, a') \<and>
     run_actions sq_push sq_fetch sq_learn
       [Enq (demo_command 1), Enq (demo_command 2), Enq (demo_command 3), Deq, Sync, Enq (demo_command 4), Deq]
       (fresh_sq_ring q demo_machine) =
       (map demo_command [1, 2, 4], map demo_command [1, 2], r) \<and> sq_contents r = [demo_command 4]"
proof -
  obtain q a' where q: "nvme_sub_queue_new byte_bits x86_model 0 demo_allocator 3 0 = Inr (q, a')"
    "q = \<lparr>sq_commands = \<lparr>virt = 0, phys = 0, dma_size = 4096\<rparr>, sq_head = 0, sq_tail = 0, sq_len = 3, sq_doorbell = 0\<rparr>"
    by (simp add: nvme_sub_queue_new_def demo_dma_page QUEUE_LENGTH_def)
  obtain r where r: "run_actions sq_push sq_fetch sq_learn
       [Enq (demo_command 1), Enq (demo_command 2), Enq (demo_command 3), Deq, Sync, Enq (demo_command 4), Deq]
       (fresh_sq_ring q demo_machine) = (map demo_command [1, 2, 4], map demo_command [1, 2], r)"
    by (simp add: q(2) fresh_sq_ring_def sq_push_def sq_fetch_def sq_learn_def sq_submit_checked_def sq_submit_def
        sq_is_full_def sq_slot_def sq_get_addr_def QUEUE_LENGTH_def demo_machine_def Let_def)
  from submission_ring_fifo [OF q(1) _ r] have "sq_contents r = [demo_command 4]" by simp
  with q r show ?thesis by blast
qed

text \<open>
  When the next \<open>n\<close> entries are posted, \<open>complete_n\<close> does what \<open>n\<close> calls of \<open>complete\<close> do:
  the same final queue and the same last head and entry, with the head before the first
  entry as the third component.
\<close>

theorem complete_n_is_n_completes:
  assumes "cq_at q h" and "0 < n" and "n \<le> cq_len q"
    and "\<forall>i \<in> {h..<h + n}. posted (cq_len q) (cq_mem m (phys (cq_commands q))) i"
  shows "\<exists>vs q' hd e. complete_times n q (cq_mem m (phys (cq_commands q))) = Inr (vs, q') \<and>
    last vs = (hd, e, (h + n - 1) mod cq_len q) \<and> fst (snd (vs ! 0)) = cq_mem m (phys (cq_commands q)) (cq_head q) \<and>
    complete_n hw q n m = Some (Inr ((hd, e, cq_head q), q', m)) \<and> cq_at q' (h + n)"
proof -
  let ?ring = "cq_mem m (phys (cq_commands q))"
  let ?k = "h + (n - 1)"
  from assms(2) have k: "h + n = Suc ?k" by simp
  have "posted (cq_len q) ?ring ?k" using assms(2,4) by simp
  then have n: "complete_n hw q n m =
      Some (Inr ((Suc ?k mod cq_len q, ?ring (?k mod cq_len q), h mod cq_len q), cq_advance q (Suc ?k), m))"
    using complete_n_at [OF assms(1-3), of hw m] complete_spin_posted [OF cq_at_advance [OF assms(1)], of ?k m hw] by simp
  have last: "last (map f [h..<h + n]) = f ?k" for f :: "nat \<Rightarrow> nat \<times> NvmeCompletion \<times> nat"
    unfolding k by simp
  have first: "map f [h..<h + n] ! 0 = f h" for f :: "nat \<Rightarrow> nat \<times> NvmeCompletion \<times> nat"
    using assms(2) by simp
  have hd: "cq_head q = h mod cq_len q" using assms(1) by (simp add: cq_at_def)
  show ?thesis unfolding hd
    by (intro exI conjI, rule complete_times_at [OF assms(1,4)], unfold last first n, unfold k)
      (use cq_at_advance [OF assms(1), of "Suc ?k"] in simp_all)
qed

theorem complete_n_is_n_completes_witness:
  "\<exists>vs q' hd e. complete_times 2 demo_cq (cq_mem demo_machine 0) = Inr (vs, q') \<and>
     complete_n demo_hw demo_cq 2 demo_machine = Some (Inr ((hd, e, 2), q', demo_machine)) \<and> cq_at q' 4"
proof -
  have at: "cq_at demo_cq 2" by (simp add: demo_cq_def cq_at_def QUEUE_LENGTH_def)
  have "\<forall>i \<in> {2..<2 + 2}. posted (cq_len demo_cq) (cq_mem demo_machine (phys (cq_commands demo_cq))) i"
    by (simp add: demo_cq_def demo_machine_def posted_def phase_bit_def demo_completion_def ivl_head)
  from complete_n_is_n_completes [OF at _ _ this, of demo_hw] show ?thesis
    by (auto simp: demo_cq_def)
qed

text \<open>
  The polling loop returns as soon as the controller has posted the entry at the head: if
  that entry is there after \<open>k\<close> spins, \<open>complete_spin\<close> ends after at most \<open>k\<close>, with that entry and
  the head advanced by one.
\<close>

theorem complete_spin_returns:
  assumes "cq_at q h" and "posted (cq_len q) (cq_mem ((relax hw ^^ k) m) (phys (cq_commands q))) h"
  shows "\<exists>j \<le> k. \<exists>e. complete_spin hw q m =
      Some (Inr ((Suc h mod cq_len q, e, h mod cq_len q), cq_advance q (Suc h), (relax hw ^^ j) m)) \<and>
    e = cq_mem ((relax hw ^^ j) m) (phys (cq_commands q)) (h mod cq_len q) \<and>
    phase_bit e = cq_phase q \<and> cq_at (cq_advance q (Suc h)) (Suc h)"
  using complete_spin_waits [OF assms] cq_at_advance [OF assms(1), of "Suc h"] assms(1)
  by (auto simp: Let_def posted_def cq_at_def)

theorem complete_spin_returns_witness:
  "\<exists>e. complete_spin demo_hw demo_cq demo_machine =
     Some (Inr ((0, e, 2), cq_advance demo_cq 3, demo_machine)) \<and> phase_bit e"
proof -
  have at: "cq_at demo_cq 2" by (simp add: demo_cq_def cq_at_def QUEUE_LENGTH_def)
  have "posted (cq_len demo_cq) (cq_mem ((relax demo_hw ^^ 0) demo_machine) (phys (cq_commands demo_cq))) 2"
    by (simp add: demo_cq_def demo_machine_def posted_def phase_bit_def demo_completion_def)
  from complete_spin_returns [OF at this] show ?thesis by (auto simp: demo_cq_def)
qed

text \<open>
  \<open>NvmeCommand\<close> is packed: its fields take 64 bytes.  Slot \<open>i\<close> of a submission queue lies inside
  the DMA region allocated for the queue when its last byte does.
\<close>

definition slot_inside :: "NvmeSubQueue \<Rightarrow> nat \<Rightarrow> bool" where
  "slot_inside q i \<longleftrightarrow> 64 * (i + 1) \<le> dma_size (sq_commands q)"

definition submit_body :: "NvmeCommand \<Rightarrow> NvmeSubQueue \<times> 'd machine \<Rightarrow> (NvmeSubQueue \<times> 'd machine) result" where
  "submit_body c = (\<lambda>(q, m). and_then (sq_submit q c m) (\<lambda>(_, q', m'). Inr (q', m')))"

lemma submit_body_tail:
  assumes "sq_tail q + length cs < sq_len q" and "sq_len q \<le> QUEUE_LENGTH"
  shows "\<exists>m'. for_each submit_body cs (q, m) = Inr (q\<lparr>sq_tail := sq_tail q + length cs\<rparr>, m')"
  using assms
proof (induction cs arbitrary: q m)
  case Nil
  then show ?case by simp
next
  case (Cons c cs)
  obtain m1 where "submit_body c (q, m) = Inr (q\<lparr>sq_tail := Suc (sq_tail q)\<rparr>, m1)"
    using Cons.prems by (simp add: submit_body_def sq_submit_def Let_def)
  then show ?case using Cons.IH [of "q\<lparr>sq_tail := Suc (sq_tail q)\<rparr>" m1] Cons.prems by simp
qed

text \<open>
  A submission queue of the driver's length is backed by a single page: it has 1024 slots,
  but after \<open>k\<close> submissions (none of which panics) the slot the next one writes lies inside the
  allocated region only while \<open>k\<close> is below 64.
\<close>

theorem sub_queue_overrun:
  assumes "nvme_sub_queue_new bf x offset a QUEUE_LENGTH doorbell = Inr (q, a')" and "length cs < 1024"
  shows "\<exists>q' m'. for_each submit_body cs (q, m) = Inr (q', m') \<and> sq_tail q' = length cs \<and>
    (slot_inside q' (sq_tail q') \<longleftrightarrow> length cs < 64)"
proof -
  have q: "dma_size (sq_commands q) = 4096" "sq_tail q = 0" "sq_len q = QUEUE_LENGTH"
    using assms(1) by (auto simp: nvme_sub_queue_new_def dma_allocate_def result_simps split: prod.splits)
  then show ?thesis using submit_body_tail [of q cs m] assms(2)
    by (auto simp: slot_inside_def QUEUE_LENGTH_def)
qed

theorem sub_queue_overrun_witness:
  "\<exists>q a' q' m'. nvme_sub_queue_new byte_bits x86_model 0 demo_allocator QUEUE_LENGTH 0 = Inr (q, a') \<and>
     for_each submit_body (replicate 64 command_default) (q, demo_machine) = Inr (q', m') \<and> \<not> slot_inside q' (sq_tail q')"
proof -
  obtain q a' where q: "nvme_sub_queue_new byte_bits x86_model 0 demo_allocator QUEUE_LENGTH 0 = Inr (q, a')"
    by (simp add: nvme_sub_queue_new_def demo_dma_page)
  from sub_queue_overrun [OF q, of "replicate 64 command_default" demo_machine] q show ?thesis
    by (simp only: length_replicate) fastforce
qed

end
