(* ===== verification/NvmeDevice.thy ===== *)
theory NvmeDevice
  imports NvmeQueue
begin

text \<open>
  The NVMe controller driver (\<open>drivers/nvme/nvme.rs\<close> and the block interface of
  \<open>drivers/nvme/mod.rs\<close>): register access, doorbells, initialisation, admin commands,
  namespaces, and the read and write paths.

  An operation takes the device and the machine and returns an outcome: it may panic, and a
  polling loop in it may spin for ever.  Memory behind the device's queues and buffers is
  the explicit store of the machine.  Logging is left out.
\<close>

record NvmeNamespace =
  nsp_id :: u32
  nsp_blocks :: nat
  nsp_block_size :: nat

record NvmeDevice =
  dev_addr :: nat
  dev_len :: nat
  dstrd :: u16
  admin_sq :: NvmeSubQueue
  admin_cq :: NvmeCompQueue
  io_sq :: NvmeSubQueue
  io_cq :: NvmeCompQueue
  buffer :: Dma
  prp_list :: Dma
  namespaces :: "u32 \<rightharpoonup> NvmeNamespace"
  stat_completions :: nat
  stat_submissions :: nat
  dev_q_id :: u16

record NvmeQueuePair =
  qp_id :: u16
  qp_sub :: NvmeSubQueue
  qp_comp :: NvmeCompQueue

section \<open>Registers\<close>

datatype NvmeRegs32 = VS | INTMS | INTMC | CC | CSTS | NSSR | AQA | CMBLOC | CMBSZ | BPINFO | BPRSEL
  | BPMBL | CMBSTS | PMRCAP | PMRCTL | PMRSTS | PMREBS | PMRSWTP

fun reg32 :: "NvmeRegs32 \<Rightarrow> nat" where
  "reg32 VS = 0x8" | "reg32 INTMS = 0xC" | "reg32 INTMC = 0x10" | "reg32 CC = 0x14" | "reg32 CSTS = 0x1C"
| "reg32 NSSR = 0x20" | "reg32 AQA = 0x24" | "reg32 CMBLOC = 0x38" | "reg32 CMBSZ = 0x3C" | "reg32 BPINFO = 0x40"
| "reg32 BPRSEL = 0x44" | "reg32 BPMBL = 0x48" | "reg32 CMBSTS = 0x58" | "reg32 PMRCAP = 0xE00"
| "reg32 PMRCTL = 0xE04" | "reg32 PMRSTS = 0xE08" | "reg32 PMREBS = 0xE0C" | "reg32 PMRSWTP = 0xE10"

datatype NvmeRegs64 = CAP | ASQ | ACQ | CMBMSC | PMRMSC

fun reg64 :: "NvmeRegs64 \<Rightarrow> nat" where
  "reg64 CAP = 0x0" | "reg64 ASQ = 0x28" | "reg64 ACQ = 0x30" | "reg64 CMBMSC = 0x50" | "reg64 PMRMSC = 0xE14"

datatype NvmeArrayRegs = SQyTDBL | CQyHDBL

definition set_reg32 :: "'d nvme_hw \<Rightarrow> NvmeDevice \<Rightarrow> nat \<Rightarrow> u32 \<Rightarrow> 'd machine \<Rightarrow> 'd machine result" where
  "set_reg32 hw v reg val m =
     and_then (usize_sub (dev_len v) 4) (\<lambda>lim.
     and_then (assert_that (reg \<le> lim)) (\<lambda>_.
     Inr (mmio_write32 hw (dev_addr v + reg) val m)))"

definition get_reg32 :: "'d nvme_hw \<Rightarrow> NvmeDevice \<Rightarrow> nat \<Rightarrow> 'd machine \<Rightarrow> u32 result" where
  "get_reg32 hw v reg m =
     and_then (usize_sub (dev_len v) 4) (\<lambda>lim.
     and_then (assert_that (reg \<le> lim)) (\<lambda>_.
     Inr (mmio_read32 hw (dev_addr v + reg) m)))"

definition set_reg64 :: "'d nvme_hw \<Rightarrow> NvmeDevice \<Rightarrow> nat \<Rightarrow> u64 \<Rightarrow> 'd machine \<Rightarrow> 'd machine result" where
  "set_reg64 hw v reg val m =
     and_then (usize_sub (dev_len v) 8) (\<lambda>lim.
     and_then (assert_that (reg \<le> lim)) (\<lambda>_.
     Inr (mmio_write64 hw (dev_addr v + reg) val m)))"

definition get_reg64 :: "'d nvme_hw \<Rightarrow> NvmeDevice \<Rightarrow> nat \<Rightarrow> 'd machine \<Rightarrow> u64 result" where
  "get_reg64 hw v reg m =
     and_then (usize_sub (dev_len v) 8) (\<lambda>lim.
     and_then (assert_that (reg \<le> lim)) (\<lambda>_.
     Inr (mmio_read64 hw (dev_addr v + reg) m)))"

text \<open>
  The doorbell of queue \<open>qid\<close>: stride and index are \<open>u16\<close> in the source, so the product is
  checked at that width, and bits shifted out of the stride are lost.
\<close>

definition doorbell_offset :: "u16 \<Rightarrow> NvmeArrayRegs \<Rightarrow> u16 \<Rightarrow> u16 result" where
  "doorbell_offset stride reg qid =
     and_then (word_mul 2 qid) (\<lambda>i.
     and_then (case reg of SQyTDBL \<Rightarrow> Inr i | CQyHDBL \<Rightarrow> word_add i 1) (\<lambda>j.
     word_mul (push_bit (unat stride) 4) j))"

definition write_reg_idx ::
  "'d nvme_hw \<Rightarrow> NvmeDevice \<Rightarrow> NvmeArrayRegs \<Rightarrow> u16 \<Rightarrow> u32 \<Rightarrow> 'd machine \<Rightarrow> 'd machine result" where
  "write_reg_idx hw v reg qid val m =
     and_then (doorbell_offset (dstrd v) reg qid) (\<lambda>off.
     Inr (mmio_write32 hw (dev_addr v + 0x1000 + unat off) val m))"

section \<open>Commands\<close>

definition cqe_status :: "NvmeCompletion \<Rightarrow> u16" where
  "cqe_status e = drop_bit 1 (status e)"

text \<open>\<open>Err\<close> values are the left summand of the returned value.\<close>

definition submit_and_complete_admin ::
  "'d nvme_hw \<Rightarrow> (u16 \<Rightarrow> u64 \<Rightarrow> NvmeCommand) \<Rightarrow> NvmeDevice \<Rightarrow> 'd machine \<Rightarrow>
     ((string + NvmeCompletion) \<times> NvmeDevice \<times> 'd machine) outcome" where
  "submit_and_complete_admin hw cmd_init v m =
     (let cid = sq_tail (admin_sq v) in
      out_then (Some (sq_submit (admin_sq v) (cmd_init (of_nat cid) (of_nat (phys (buffer v)))) m))
        (\<lambda>(t, sq, m1).
      out_then (Some (write_reg_idx hw v SQyTDBL 0 (of_nat t) m1)) (\<lambda>m2.
      out_then (complete_spin hw (admin_cq v) m2) (\<lambda>((head, entry, _), cq, m3).
      out_then (Some (write_reg_idx hw v CQyHDBL 0 (of_nat head) m3)) (\<lambda>m4.
      let v' = v\<lparr>admin_sq := sq, admin_cq := cq\<rparr> in
      if cqe_status entry \<noteq> 0
      then Some (Inr (Inl ''Requesting i/o completion queue failed'', v', m4))
      else Some (Inr (Inr entry, v', m4)))))))"

definition io_entry :: "bool \<Rightarrow> u16 \<Rightarrow> u32 \<Rightarrow> nat \<Rightarrow> u16 \<Rightarrow> nat \<Rightarrow> nat \<Rightarrow> NvmeCommand" where
  "io_entry write cid ns lba blocks_1 addr ptr1 =
     (if write then io_write cid ns (of_nat lba) blocks_1 (of_nat addr) (of_nat ptr1)
      else io_read cid ns (of_nat lba) blocks_1 (of_nat addr) (of_nat ptr1))"

definition namespace_prp :: "NvmeDevice \<Rightarrow> nat \<Rightarrow> nat \<Rightarrow> nat result" where
  "namespace_prp v addr bytes =
     (if bytes \<le> 4096 then Inr 0
      else if bytes \<le> 8192 then usize_add addr 4096
      else Inr (phys (prp_list v)))"

definition device_submit_io ::
  "NvmeNamespace \<Rightarrow> nat \<Rightarrow> nat \<Rightarrow> nat \<Rightarrow> bool \<Rightarrow> NvmeDevice \<Rightarrow> 'd machine \<Rightarrow>
     (nat option \<times> NvmeDevice \<times> 'd machine) result" where
  "device_submit_io ns addr blocks lba write v m =
     and_then (assert_that (0 < blocks)) (\<lambda>_.
     and_then (assert_that (blocks \<le> 0x10000)) (\<lambda>_.
     and_then (usize_mul blocks (nsp_block_size ns)) (\<lambda>bytes.
     and_then
       (if bytes \<le> 4096 then Inr 0
        else if bytes \<le> 8192 then usize_add addr 4096
        else and_then (usize_sub addr (phys (buffer v))) (\<lambda>d. usize_add (phys (prp_list v)) (d div 8)))
       (\<lambda>ptr1.
     and_then (word_sub (of_nat blocks) 1) (\<lambda>blocks_1.
     let entry = io_entry write (of_nat (sq_tail (io_sq v))) (nsp_id ns) lba blocks_1 addr ptr1 in
     and_then (sq_submit_checked (io_sq v) entry m) (\<lambda>(t, sq, m').
     Inr (t, v\<lparr>io_sq := sq\<rparr>, m')))))))"

definition device_complete_io ::
  "'d nvme_hw \<Rightarrow> nat \<Rightarrow> NvmeDevice \<Rightarrow> 'd machine \<Rightarrow> (u16 option \<times> NvmeDevice \<times> 'd machine) outcome" where
  "device_complete_io hw step v m =
     out_then (complete_n hw (io_cq v) step m) (\<lambda>((t, entry, _), cq, m1).
     let v1 = v\<lparr>io_cq := cq\<rparr> in
     out_then (Some (write_reg_idx hw v1 CQyHDBL 1 (of_nat t) m1)) (\<lambda>m2.
     if cqe_status entry \<noteq> 0 then Some (Inr (None, v1, m2))
     else out_then (Some (usize_add (stat_completions v1) 1)) (\<lambda>n.
       Some (Inr (Some (cqe_sq_head entry), v1\<lparr>stat_completions := n\<rparr>, m2)))))"

definition namespace_io ::
  "'d nvme_hw \<Rightarrow> u32 \<Rightarrow> nat \<Rightarrow> nat \<Rightarrow> nat \<Rightarrow> bool \<Rightarrow> NvmeDevice \<Rightarrow> 'd machine \<Rightarrow> (NvmeDevice \<times> 'd machine) outcome" where
  "namespace_io hw ns blocks lba addr write v m =
     out_then (Some (assert_that (0 < blocks))) (\<lambda>_.
     out_then (Some (assert_that (blocks \<le> 0x10000))) (\<lambda>_.
     out_then (Some (usize_mul blocks 512)) (\<lambda>bytes.
     out_then (Some (namespace_prp v addr bytes)) (\<lambda>ptr1.
     out_then (Some (word_sub (of_nat blocks) 1)) (\<lambda>blocks_1.
     let entry = io_entry write (of_nat (sq_tail (io_sq v))) ns lba blocks_1 addr ptr1 in
     out_then (Some (sq_submit (io_sq v) entry m)) (\<lambda>(t, sq, m1).
     out_then (Some (usize_add (stat_submissions v) 1)) (\<lambda>n.
     let v1 = v\<lparr>io_sq := sq, stat_submissions := n\<rparr> in
     out_then (Some (write_reg_idx hw v1 SQyTDBL 1 (of_nat t) m1)) (\<lambda>m2.
     out_then (device_complete_io hw 1 v1 m2) (\<lambda>(r, v2, m3).
     out_then (Some (unwrap r)) (\<lambda>h.
     Some (Inr (v2\<lparr>io_sq := (io_sq v2)\<lparr>sq_head := unat h\<rparr>\<rparr>, m3))))))))))))"

section \<open>Reading and writing\<close>

definition dma_blocks :: "DmaChunk \<Rightarrow> nat" where
  "dma_blocks c = (chunk_len c + 512 - 1) div 512"

definition io_body ::
  "'d nvme_hw \<Rightarrow> bool \<Rightarrow> DmaChunk \<Rightarrow> nat \<times> NvmeDevice \<times> 'd machine \<Rightarrow> (nat \<times> NvmeDevice \<times> 'd machine) outcome" where
  "io_body hw write c = (\<lambda>(lba, v, m).
     out_then (namespace_io hw 1 (dma_blocks c) lba (phys_addr c) write v m) (\<lambda>(v', m').
     out_then (Some (usize_add lba (dma_blocks c))) (\<lambda>lba'.
     Some (Inr (lba', v', m')))))"

definition nvme_write :: "'d nvme_hw \<Rightarrow> Dma \<Rightarrow> nat \<Rightarrow> NvmeDevice \<Rightarrow> 'd machine \<Rightarrow> (NvmeDevice \<times> 'd machine) outcome" where
  "nvme_write hw data lba v m =
     (case dma_chunks data (2 * 4096) of None \<Rightarrow> None
      | Some cs \<Rightarrow> out_then (out_for_each (io_body hw True) cs (lba, v, m)) (\<lambda>(_, v', m'). Some (Inr (v', m'))))"

definition nvme_read :: "'d nvme_hw \<Rightarrow> Dma \<Rightarrow> nat \<Rightarrow> NvmeDevice \<Rightarrow> 'd machine \<Rightarrow> (NvmeDevice \<times> 'd machine) outcome" where
  "nvme_read hw dest lba v m =
     (case dma_chunks dest (2 * 4096) of None \<Rightarrow> None
      | Some cs \<Rightarrow> out_then (out_for_each (io_body hw False) cs (lba, v, m)) (\<lambda>(_, v', m'). Some (Inr (v', m'))))"

text \<open>Copying into and out of a DMA buffer: the range check of \<open>Index\<close>, then the bytes.\<close>

definition ram_read :: "'d machine \<Rightarrow> nat \<Rightarrow> nat \<Rightarrow> u8 list" where
  "ram_read m addr n = map (\<lambda>i. ram m (addr + i)) [0..<n]"

definition ram_write :: "nat \<Rightarrow> u8 list \<Rightarrow> 'd machine \<Rightarrow> 'd machine" where
  "ram_write addr bs m =
     m\<lparr>ram := (\<lambda>a. if addr \<le> a \<and> a < addr + length bs then bs ! (a - addr) else ram m a)\<rparr>"

definition buffer_store :: "NvmeDevice \<Rightarrow> u8 list \<Rightarrow> 'd machine \<Rightarrow> 'd machine result" where
  "buffer_store v bs m = and_then (dma_index_to (buffer v) (length bs)) (\<lambda>_. Inr (ram_write (phys (buffer v)) bs m))"

definition buffer_load :: "NvmeDevice \<Rightarrow> nat \<Rightarrow> 'd machine \<Rightarrow> u8 list result" where
  "buffer_load v n m = and_then (dma_index_to (buffer v) n) (\<lambda>_. Inr (ram_read m (phys (buffer v)) n))"

definition copied_blocks :: "NvmeNamespace \<Rightarrow> nat \<Rightarrow> nat result" where
  "copied_blocks ns n =
     and_then (usize_add n (nsp_block_size ns)) (\<lambda>a.
     and_then (usize_sub a 1) (\<lambda>b. usize_div b (nsp_block_size ns)))"

definition write_copied_body ::
  "'d nvme_hw \<Rightarrow> NvmeNamespace \<Rightarrow> u8 list \<Rightarrow> nat \<times> NvmeDevice \<times> 'd machine \<Rightarrow> (nat \<times> NvmeDevice \<times> 'd machine) outcome" where
  "write_copied_body hw ns chunk = (\<lambda>(lba, v, m).
     out_then (Some (buffer_store v chunk m)) (\<lambda>m1.
     out_then (Some (copied_blocks ns (length chunk))) (\<lambda>blocks.
     out_then (namespace_io hw 1 blocks lba (phys (buffer v)) True v m1) (\<lambda>(v', m').
     out_then (Some (usize_add lba blocks)) (\<lambda>lba'.
     Some (Inr (lba', v', m')))))))"

definition write_copied :: "'d nvme_hw \<Rightarrow> u8 list \<Rightarrow> nat \<Rightarrow> NvmeDevice \<Rightarrow> 'd machine \<Rightarrow> (NvmeDevice \<times> 'd machine) outcome" where
  "write_copied hw data lba v m =
     out_then (Some (unwrap (namespaces v 1))) (\<lambda>ns.
     out_then (out_for_each (write_copied_body hw ns) (slice_chunks (128 * 4096) data) (lba, v, m)) (\<lambda>(_, v', m').
     Some (Inr (v', m'))))"

text \<open>The destination slice is rebuilt chunk by chunk; the result carries its new contents.\<close>

definition read_copied_body ::
  "'d nvme_hw \<Rightarrow> NvmeNamespace \<Rightarrow> u8 list \<Rightarrow> u8 list \<times> nat \<times> NvmeDevice \<times> 'd machine \<Rightarrow>
     (u8 list \<times> nat \<times> NvmeDevice \<times> 'd machine) outcome" where
  "read_copied_body hw ns chunk = (\<lambda>(out, lba, v, m).
     out_then (Some (copied_blocks ns (length chunk))) (\<lambda>blocks.
     out_then (namespace_io hw 1 blocks lba (phys (buffer v)) False v m) (\<lambda>(v', m').
     out_then (Some (usize_add lba blocks)) (\<lambda>lba'.
     out_then (Some (buffer_load v' (length chunk) m')) (\<lambda>bs.
     Some (Inr (out @ bs, lba', v', m')))))))"

definition read_copied ::
  "'d nvme_hw \<Rightarrow> u8 list \<Rightarrow> nat \<Rightarrow> NvmeDevice \<Rightarrow> 'd machine \<Rightarrow> (u8 list \<times> NvmeDevice \<times> 'd machine) outcome" where
  "read_copied hw dest lba v m =
     out_then (Some (unwrap (namespaces v 1))) (\<lambda>ns.
     out_then (out_for_each (read_copied_body hw ns) (slice_chunks (128 * 4096) dest) ([], lba, v, m))
       (\<lambda>(out, _, v', m'). Some (Inr (out, v', m'))))"

text \<open>The batched paths: several commands per page, one completion wait for all of them.\<close>

definition batch_submit ::
  "'d nvme_hw \<Rightarrow> NvmeNamespace \<Rightarrow> bool \<Rightarrow> nat \<Rightarrow> nat \<Rightarrow> nat \<Rightarrow> nat \<times> NvmeDevice \<times> 'd machine \<Rightarrow>
     (nat \<times> NvmeDevice \<times> 'd machine) result" where
  "batch_submit hw ns write batch_size blocks i = (\<lambda>(lba, v, m).
     and_then (usize_mul i batch_size) (\<lambda>o1.
     and_then (usize_add (phys (buffer v)) o1) (\<lambda>addr.
     and_then (device_submit_io ns addr blocks lba write v m) (\<lambda>(r, v1, m1).
     and_then
       (case r of
          Some t \<Rightarrow>
            and_then (usize_add (stat_submissions v1) 1) (\<lambda>n.
            let v2 = v1\<lparr>stat_submissions := n\<rparr> in
            and_then (write_reg_idx hw v2 SQyTDBL 1 (of_nat t) m1) (\<lambda>m2. Inr (v2, m2)))
        | None \<Rightarrow> Inr (v1, m1)) (\<lambda>(v3, m3).
     and_then (usize_add lba blocks) (\<lambda>lba'. Inr (lba', v3, m3)))))))"

definition batch_chunk ::
  "'d nvme_hw \<Rightarrow> NvmeNamespace \<Rightarrow> bool \<Rightarrow> nat \<Rightarrow> nat \<Rightarrow> nat \<times> NvmeDevice \<times> 'd machine \<Rightarrow>
     (nat \<times> NvmeDevice \<times> 'd machine) outcome" where
  "batch_chunk hw ns write batch_len n = (\<lambda>(lba, v, m).
     let bl = min batch_len (n div 512) in
     out_then (Some (usize_div n bl)) (\<lambda>batch_size.
     out_then (Some (usize_div batch_size (nsp_block_size ns))) (\<lambda>blocks.
     out_then (Some (for_each (batch_submit hw ns write batch_size blocks) [0..<bl] (lba, v, m))) (\<lambda>(lba', v1, m1).
     out_then (device_complete_io hw bl v1 m1) (\<lambda>(r, v2, m2).
     out_then (Some (unwrap r)) (\<lambda>h.
     Some (Inr (lba', v2\<lparr>io_sq := (io_sq v2)\<lparr>sq_head := unat h\<rparr>\<rparr>, m2))))))))"

definition batched_write ::
  "'d nvme_hw \<Rightarrow> u32 \<Rightarrow> u8 list \<Rightarrow> nat \<Rightarrow> nat \<Rightarrow> NvmeDevice \<Rightarrow> 'd machine \<Rightarrow> (NvmeDevice \<times> 'd machine) outcome" where
  "batched_write hw nsid data lba batch_len v m =
     out_then (Some (unwrap (namespaces v nsid))) (\<lambda>ns.
     out_then
       (out_for_each (\<lambda>chunk (lba, v, m).
          out_then (Some (buffer_store v chunk m)) (\<lambda>m1.
          batch_chunk hw ns True batch_len (length chunk) (lba, v, m1)))
        (slice_chunks 4096 data) (lba, v, m))
       (\<lambda>(_, v', m'). Some (Inr (v', m'))))"

definition batched_read ::
  "'d nvme_hw \<Rightarrow> u32 \<Rightarrow> u8 list \<Rightarrow> nat \<Rightarrow> nat \<Rightarrow> NvmeDevice \<Rightarrow> 'd machine \<Rightarrow> (u8 list \<times> NvmeDevice \<times> 'd machine) outcome" where
  "batched_read hw nsid data lba batch_len v m =
     out_then (Some (unwrap (namespaces v nsid))) (\<lambda>ns.
     out_then
       (out_for_each (\<lambda>chunk (out, lba, v, m).
          out_then (batch_chunk hw ns False batch_len (length chunk) (lba, v, m)) (\<lambda>(lba', v', m').
          out_then (Some (buffer_load v' (length chunk) m')) (\<lambda>bs. Some (Inr (out @ bs, lba', v', m')))))
        (slice_chunks 4096 data) ([], lba, v, m))
       (\<lambda>(out, _, v', m'). Some (Inr (out, v', m'))))"

section \<open>Initialisation and identification\<close>

partial_function (option) wait_ready :: "'d nvme_hw \<Rightarrow> NvmeDevice \<Rightarrow> bool \<Rightarrow> 'd machine \<Rightarrow> 'd machine outcome" where
  "wait_ready hw v ready m =
     (case get_reg32 hw v (reg32 CSTS) m of
        Inl e \<Rightarrow> Some (Inl e)
      | Inr csts \<Rightarrow> if (csts AND 1 = 1) = ready then Some (Inr m) else wait_ready hw v ready (relax hw m))"

definition prp_fill :: "NvmeDevice \<Rightarrow> 'd machine \<Rightarrow> 'd machine" where
  "prp_fill v m =
     fold (\<lambda>i m. m\<lparr>prp_mem := (prp_mem m)(phys (prp_list v) :=
                   (prp_mem m (phys (prp_list v)))(i - 1 := of_nat (phys (buffer v) + i * 4096)))\<rparr>) [1..<512] m"

definition device_alloc ::
  "bit_field_api \<Rightarrow> x86_api \<Rightarrow> nat \<Rightarrow> 'd nvme_hw \<Rightarrow> nat \<Rightarrow> nat \<Rightarrow> BitmapFrameAllocator \<Rightarrow> 'd machine \<Rightarrow>
     (NvmeDevice \<times> BitmapFrameAllocator) result" where
  "device_alloc bf x offset hw addr len a m =
     and_then (nvme_sub_queue_new bf x offset a QUEUE_LENGTH 0) (\<lambda>(asq, a1).
     and_then (nvme_comp_queue_new bf x offset a1 QUEUE_LENGTH 0) (\<lambda>(acq, a2).
     and_then (nvme_sub_queue_new bf x offset a2 QUEUE_LENGTH 0) (\<lambda>(isq, a3).
     and_then (nvme_comp_queue_new bf x offset a3 QUEUE_LENGTH 0) (\<lambda>(icq, a4).
     and_then (dma_allocate bf x offset a4 4096) (\<lambda>(buf, a5).
     and_then (dma_allocate bf x offset a5 (8 * 512)) (\<lambda>(prp, a6).
     Inr (\<lparr>dev_addr = addr, dev_len = len,
           dstrd = ucast (drop_bit 32 (mmio_read64 hw (addr + reg64 CAP) m) AND 0xF),
           admin_sq = asq, admin_cq = acq, io_sq = isq, io_cq = icq, buffer = buf, prp_list = prp,
           namespaces = Map.empty, stat_completions = 0, stat_submissions = 0, dev_q_id = 1\<rparr>, a6)))))))"

definition configure ::
  "'d nvme_hw \<Rightarrow> NvmeDevice \<Rightarrow> 'd machine \<Rightarrow> 'd machine outcome" where
  "configure hw v m =
     out_then (Some (get_reg64 hw v (reg64 CAP) m)) (\<lambda>_.
     out_then (Some (get_reg32 hw v (reg32 VS) m)) (\<lambda>_.
     out_then (Some (get_reg32 hw v (reg32 CC) m)) (\<lambda>c0.
     out_then (Some (set_reg32 hw v (reg32 CC) (c0 AND 0xFFFFFFFE) m)) (\<lambda>m1.
     out_then (wait_ready hw v False m1) (\<lambda>m2.
     out_then (Some (set_reg64 hw v (reg64 ASQ) (of_nat (sq_get_addr (admin_sq v))) m2)) (\<lambda>m3.
     out_then (Some (set_reg64 hw v (reg64 ACQ) (of_nat (cq_get_addr (admin_cq v))) m3)) (\<lambda>m4.
     out_then (Some (set_reg32 hw v (reg32 AQA)
        (push_bit 16 (of_nat QUEUE_LENGTH - 1) OR (of_nat QUEUE_LENGTH - 1)) m4)) (\<lambda>m5.
     out_then (Some (get_reg32 hw v (reg32 CC) m5)) (\<lambda>c1.
     out_then (Some (set_reg32 hw v (reg32 CC) ((c1 AND 0xFF00000F) OR (push_bit 20 4 OR push_bit 16 6)) m5)) (\<lambda>m6.
     out_then (Some (get_reg32 hw v (reg32 CC) m6)) (\<lambda>c2.
     out_then (Some (set_reg32 hw v (reg32 CC) (c2 OR 1) m6)) (\<lambda>m7.
     wait_ready hw v True m7))))))))))))"

definition nvme_init ::
  "bit_field_api \<Rightarrow> x86_api \<Rightarrow> nat \<Rightarrow> 'd nvme_hw \<Rightarrow> nat \<Rightarrow> nat \<Rightarrow> BitmapFrameAllocator \<Rightarrow> 'd machine \<Rightarrow>
     ((string + NvmeDevice) \<times> BitmapFrameAllocator \<times> 'd machine) outcome" where
  "nvme_init bf x offset hw addr len a m =
     out_then (Some (device_alloc bf x offset hw addr len a m)) (\<lambda>(v0, a').
     out_then (configure hw v0 (prp_fill v0 m)) (\<lambda>m1.
     out_then (submit_and_complete_admin hw
         (\<lambda>c_id _. create_io_completion_queue c_id (dev_q_id v0) (of_nat (cq_get_addr (io_cq v0))) (of_nat (QUEUE_LENGTH - 1))) v0 m1)
       (\<lambda>(r1, v1, m2).
     case r1 of Inl e \<Rightarrow> Some (Inr (Inl e, a', m2)) | Inr _ \<Rightarrow>
     out_then (submit_and_complete_admin hw
         (\<lambda>c_id _. create_io_submission_queue c_id (dev_q_id v0) (of_nat (sq_get_addr (io_sq v0))) (of_nat (QUEUE_LENGTH - 1)) (dev_q_id v0)) v1 m2)
       (\<lambda>(r2, v2, m3).
     case r2 of Inl e \<Rightarrow> Some (Inr (Inl e, a', m3)) | Inr _ \<Rightarrow>
     out_then (Some (word_add (dev_q_id v2) 1)) (\<lambda>q.
     Some (Inr (Inr (v2\<lparr>dev_q_id := q\<rparr>), a', m3)))))))"

text \<open>
  The strings \<open>identify_controller\<close> logs: the bytes of three fields of the buffer, each cut at
  the first zero (model, serial, firmware; the order of the log line).
\<close>

definition until_zero :: "u8 list \<Rightarrow> string" where
  "until_zero bs = map (\<lambda>b. char_of (unat b)) (takeWhile (\<lambda>b. b \<noteq> 0) bs)"

definition identify_controller ::
  "'d nvme_hw \<Rightarrow> NvmeDevice \<Rightarrow> 'd machine \<Rightarrow> ((string \<times> string \<times> string) \<times> NvmeDevice \<times> 'd machine) outcome" where
  "identify_controller hw v m =
     out_then (submit_and_complete_admin hw identify_controller_cmd v m) (\<lambda>(_, v', m').
     out_then (Some (dma_index_range (buffer v') 4 24)) (\<lambda>_.
     out_then (Some (dma_index_range (buffer v') 24 64)) (\<lambda>_.
     out_then (Some (dma_index_range (buffer v') 64 72)) (\<lambda>_.
     let serial = until_zero (ram_read m' (phys (buffer v') + 4) 20);
         model = until_zero (ram_read m' (phys (buffer v') + 24) 40);
         firmware = until_zero (ram_read m' (phys (buffer v') + 64) 8) in
     Some (Inr ((model, serial, firmware), v', m'))))))"

definition identify_namespace_list ::
  "'d nvme_hw \<Rightarrow> u32 \<Rightarrow> NvmeDevice \<Rightarrow> 'd machine \<Rightarrow> (u32 list \<times> NvmeDevice \<times> 'd machine) outcome" where
  "identify_namespace_list hw base0 v m =
     out_then (submit_and_complete_admin hw (\<lambda>c_id addr. identify_namespace_list_cmd c_id addr base0) v m) (\<lambda>(_, v', m').
     let data = map (\<lambda>i. of_nat (le_bytes (ram_read m' (phys (buffer v') + 4 * i) 4))) [0..<1024] in
     Some (Inr (takeWhile (\<lambda>id. id \<noteq> 0) data, v', m')))"

text \<open>
  The packed structure \<open>IdentifyNamespaceData\<close> as its fields in order with their sizes in bytes; packed,
  a field starts where the one before it ends.
\<close>

definition IdentifyNamespaceData :: "(string \<times> nat) list" where
  "IdentifyNamespaceData =
   [(''nsze'', 8), (''ncap'', 8), (''nuse'', 8), (''nsfeat'', 1), (''nlbaf'', 1), (''flbas'', 1), (''mc'', 1),
     (''dpc'', 1), (''dps'', 1), (''nmic'', 1), (''rescap'', 1), (''fpi'', 1), (''dlfeat'', 1), (''nawun'', 2),
     (''nawupf'', 2), (''nacwu'', 2), (''nabsn'', 2), (''nabo'', 2), (''nabspf'', 2), (''noiob'', 2), (''nvmcap'', 16),
     (''npwg'', 2), (''npwa'', 2), (''npdg'', 2), (''npda'', 2), (''nows'', 2), (''_rsvd1'', 18), (''anagrpid'', 4),
     (''_rsvd2'', 3), (''nsattr'', 1), (''nvmsetid'', 2), (''endgid'', 2), (''nguid'', 16), (''eui64'', 8),
     (''lba_format_support'', 64), (''_rsvd3'', 192), (''vendor_specific'', 3712)]"

fun field_offset :: "(string \<times> nat) list \<Rightarrow> string \<Rightarrow> nat" where
  "field_offset [] n = 0"
| "field_offset ((f, w) # fs) n = (if f = n then 0 else w + field_offset fs n)"

definition read_field :: "(string \<times> nat) list \<Rightarrow> string \<Rightarrow> 'd machine \<Rightarrow> nat \<Rightarrow> nat" where
  "read_field layout n m base_address =
     le_bytes (ram_read m (base_address + field_offset layout n) (the (map_of layout n)))"

definition lba_block_size :: "u8 \<Rightarrow> (nat \<Rightarrow> u32) \<Rightarrow> nat" where
  "lba_block_size flbas lbaf =
     (let flba_idx = unat (flbas AND 0xF);
          flba_data = unat (drop_bit 16 (lbaf flba_idx) AND 0xFF) in
      if \<not> (9 \<le> flba_data \<and> flba_data < 32) then 0 else 2 ^ flba_data)"

definition identify_namespace ::
  "'d nvme_hw \<Rightarrow> u32 \<Rightarrow> NvmeDevice \<Rightarrow> 'd machine \<Rightarrow> ((NvmeNamespace \<times> nat) \<times> NvmeDevice \<times> 'd machine) outcome" where
  "identify_namespace hw nsid v m =
     out_then (submit_and_complete_admin hw (\<lambda>c_id addr. identify_namespace_cmd c_id addr nsid) v m) (\<lambda>(_, v', m').
     let data = phys (buffer v');
         blocks = read_field IdentifyNamespaceData ''ncap'' m' data;
         formats = data + field_offset IdentifyNamespaceData ''lba_format_support'';
         bsize = lba_block_size (of_nat (read_field IdentifyNamespaceData ''flbas'' m' data))
           (\<lambda>i. of_nat (le_bytes (ram_read m' (formats + 4 * i) 4)));
         namespace = \<lparr>nsp_id = nsid, nsp_blocks = blocks, nsp_block_size = bsize\<rparr> in
     out_then (Some (usize_mul blocks bsize)) (\<lambda>cap.
     Some (Inr ((namespace, cap), v'\<lparr>namespaces := (namespaces v')(nsid \<mapsto> namespace)\<rparr>, m'))))"

text \<open>The offsets the NVMe specification gives the fields that are used, and its size of the structure.\<close>

lemma namespace_layout:
  "field_offset IdentifyNamespaceData ''nsze'' = 0" "field_offset IdentifyNamespaceData ''ncap'' = 8"
  "field_offset IdentifyNamespaceData ''flbas'' = 26" "field_offset IdentifyNamespaceData ''lba_format_support'' = 128"
  "sum_list (map snd IdentifyNamespaceData) = 4096"
  by (simp_all add: IdentifyNamespaceData_def)

definition clear_namespace ::
  "'d nvme_hw \<Rightarrow> u32 option \<Rightarrow> NvmeDevice \<Rightarrow> 'd machine \<Rightarrow> (NvmeDevice \<times> 'd machine) outcome" where
  "clear_namespace hw nsid v m =
     out_then (Some (case nsid of
         Some ns \<Rightarrow> and_then (assert_that (namespaces v ns \<noteq> None)) (\<lambda>_. Inr ns)
       | None \<Rightarrow> Inr 0xFFFFFFFF)) (\<lambda>ns.
     out_then (submit_and_complete_admin hw (\<lambda>c_id _. format_nvm c_id ns) v m) (\<lambda>(_, v', m').
     Some (Inr (v', m'))))"

section \<open>Queue pairs\<close>

definition create_io_queue_pair ::
  "bit_field_api \<Rightarrow> x86_api \<Rightarrow> nat \<Rightarrow> 'd nvme_hw \<Rightarrow> nat \<Rightarrow> NvmeDevice \<Rightarrow> BitmapFrameAllocator \<Rightarrow> 'd machine \<Rightarrow>
     ((string + NvmeQueuePair) \<times> NvmeDevice \<times> BitmapFrameAllocator \<times> 'd machine) outcome" where
  "create_io_queue_pair bf x offset hw len v a m =
     (let qid = dev_q_id v in
      out_then (Some (word_mul 2 qid)) (\<lambda>i.
      out_then (Some (word_add i 1)) (\<lambda>j.
      let off = 0x1000 + 4 * 2 ^ unat (dstrd v) * unat j in
      out_then (Some (usize_sub (dev_len v) 4)) (\<lambda>lim.
      out_then (Some (assert_that (off \<le> lim))) (\<lambda>_.
      out_then (Some (nvme_comp_queue_new bf x offset a len (dev_addr v + off))) (\<lambda>(cq, a1).
      out_then (Some (usize_sub len 1)) (\<lambda>l1.
      out_then (submit_and_complete_admin hw
          (\<lambda>c_id _. create_io_completion_queue c_id qid (of_nat (cq_get_addr cq)) (of_nat l1)) v m) (\<lambda>(r1, v1, m1).
      case r1 of Inl e \<Rightarrow> Some (Inr (Inl e, v1, a1, m1)) | Inr _ \<Rightarrow>
      out_then (Some (nvme_sub_queue_new bf x offset a1 len (dev_addr v + 0x1000 + 4 * 2 ^ unat (dstrd v) * unat i))) (\<lambda>(sq, a2).
      out_then (submit_and_complete_admin hw
          (\<lambda>c_id _. create_io_submission_queue c_id qid (of_nat (sq_get_addr sq)) (of_nat l1) qid) v1 m1) (\<lambda>(r2, v2, m2).
      case r2 of Inl e \<Rightarrow> Some (Inr (Inl e, v2, a2, m2)) | Inr _ \<Rightarrow>
      out_then (Some (word_add (dev_q_id v2) 1)) (\<lambda>q.
      Some (Inr (Inr \<lparr>qp_id = qid, qp_sub = sq, qp_comp = cq\<rparr>, v2\<lparr>dev_q_id := q\<rparr>, a2, m2)))))))))))))"

definition delete_io_queue_pair ::
  "'d nvme_hw \<Rightarrow> NvmeQueuePair \<Rightarrow> NvmeDevice \<Rightarrow> 'd machine \<Rightarrow> ((string + unit) \<times> NvmeDevice \<times> 'd machine) outcome" where
  "delete_io_queue_pair hw qp v m =
     out_then (submit_and_complete_admin hw (\<lambda>c_id _. delete_io_submission_queue c_id (qp_id qp)) v m) (\<lambda>(r1, v1, m1).
     case r1 of Inl e \<Rightarrow> Some (Inr (Inl e, v1, m1)) | Inr _ \<Rightarrow>
     out_then (submit_and_complete_admin hw (\<lambda>c_id _. delete_io_completion_queue c_id (qp_id qp)) v1 m1) (\<lambda>(r2, v2, m2).
     case r2 of Inl e \<Rightarrow> Some (Inr (Inl e, v2, m2)) | Inr _ \<Rightarrow> Some (Inr (Inr (), v2, m2))))"

text \<open>\<open>NvmeQueuePair::submit_io\<close>: one command per two-page chunk until the ring is full.\<close>

definition qp_command :: "NvmeQueuePair \<Rightarrow> bool \<Rightarrow> nat \<Rightarrow> DmaChunk \<Rightarrow> NvmeCommand result" where
  "qp_command qp write lba c =
     (let blocks = dma_blocks c; addr = phys_addr c; bytes = blocks * 512 in
      and_then (if bytes \<le> 4096 then Inr 0 else usize_add addr 4096) (\<lambda>ptr1.
      and_then (word_sub (of_nat blocks) 1) (\<lambda>blocks_1.
      Inr (io_entry write (push_bit 11 (qp_id qp) OR of_nat (sq_tail (qp_sub qp))) 1 lba blocks_1 addr ptr1))))"

fun qp_submit_chunks ::
  "'d nvme_hw \<Rightarrow> bool \<Rightarrow> nat \<Rightarrow> nat \<Rightarrow> DmaChunk list \<Rightarrow> NvmeQueuePair \<Rightarrow> 'd machine \<Rightarrow> (nat \<times> NvmeQueuePair \<times> 'd machine) result" where
  "qp_submit_chunks hw write lba reqs [] qp m = Inr (reqs, qp, m)"
| "qp_submit_chunks hw write lba reqs (c # cs) qp m =
     and_then (qp_command qp write lba c) (\<lambda>entry.
     and_then (sq_submit_checked (qp_sub qp) entry m) (\<lambda>(r, sq, m1).
     case r of
       None \<Rightarrow> Inr (reqs, qp\<lparr>qp_sub := sq\<rparr>, m1)
     | Some t \<Rightarrow>
         and_then (usize_add lba (dma_blocks c)) (\<lambda>lba'.
         qp_submit_chunks hw write lba' (reqs + 1) cs (qp\<lparr>qp_sub := sq\<rparr>)
           (mmio_write32 hw (sq_doorbell sq) (of_nat t) m1))))"

definition qp_submit_io ::
  "'d nvme_hw \<Rightarrow> Dma \<Rightarrow> nat \<Rightarrow> bool \<Rightarrow> NvmeQueuePair \<Rightarrow> 'd machine \<Rightarrow> (nat \<times> NvmeQueuePair \<times> 'd machine) outcome" where
  "qp_submit_io hw data lba write qp m =
     map_option (\<lambda>cs. qp_submit_chunks hw write lba 0 cs qp m) (dma_chunks data (2 * 4096))"

definition qp_complete_io ::
  "'d nvme_hw \<Rightarrow> nat \<Rightarrow> NvmeQueuePair \<Rightarrow> 'd machine \<Rightarrow> (u16 option \<times> NvmeQueuePair \<times> 'd machine) outcome" where
  "qp_complete_io hw n qp m =
     out_then (Some (assert_that (0 < n))) (\<lambda>_.
     out_then (complete_n hw (qp_comp qp) n m) (\<lambda>((t, entry, _), cq, m1).
     let m2 = mmio_write32 hw (cq_doorbell cq) (of_nat t) m1;
         qp' = qp\<lparr>qp_comp := cq, qp_sub := (qp_sub qp)\<lparr>sq_head := unat (cqe_sq_head entry)\<rparr>\<rparr> in
     if cqe_status entry \<noteq> 0 then Some (Inr (None, qp', m2))
     else Some (Inr (Some (cqe_sq_head entry), qp', m2))))"

definition quick_poll ::
  "'d nvme_hw \<Rightarrow> NvmeQueuePair \<Rightarrow> 'd machine \<Rightarrow> (unit option \<times> NvmeQueuePair \<times> 'd machine) result" where
  "quick_poll hw qp m =
     and_then (complete (qp_comp qp) (cq_mem m (phys (cq_commands (qp_comp qp))))) (\<lambda>(r, cq).
     case r of
       Some (t, entry, _) \<Rightarrow>
         Inr (Some (), qp\<lparr>qp_comp := cq, qp_sub := (qp_sub qp)\<lparr>sq_head := unat (cqe_sq_head entry)\<rparr>\<rparr>,
              mmio_write32 hw (cq_doorbell cq) (of_nat t) m)
     | None \<Rightarrow> Inr (None, qp\<lparr>qp_comp := cq\<rparr>, m))"

section \<open>Block interface\<close>

text \<open>\<open>read_block\<close> and \<open>write_block\<close> of \<open>drivers/nvme/mod.rs\<close> over the list of controllers.
  Both copy 512 bytes through raw pointers whatever the length of the caller's slice; the model
  covers slices of at least that length.\<close>

definition read_block ::
  "bit_field_api \<Rightarrow> x86_api \<Rightarrow> nat \<Rightarrow> 'd nvme_hw \<Rightarrow> nat \<Rightarrow> nat \<Rightarrow> u8 list \<Rightarrow> NvmeDevice list \<Rightarrow> BitmapFrameAllocator \<Rightarrow>
     'd machine \<Rightarrow> (u8 list \<times> NvmeDevice list \<times> BitmapFrameAllocator \<times> 'd machine) outcome" where
  "read_block bf x offset hw drive block_id buf cons a m =
     out_then (Some (dma_allocate bf x offset a (length buf))) (\<lambda>(dma, a').
     out_then (Some (expect ''Cannot get hd'' (if drive < length cons then Some (cons ! drive) else None))) (\<lambda>nvme.
     out_then (nvme_read hw dma block_id nvme m) (\<lambda>(nvme', m').
     Some (Inr (ram_read m' (phys dma) 512 @ drop 512 buf, cons[drive := nvme'], a', m')))))"

definition write_block ::
  "bit_field_api \<Rightarrow> x86_api \<Rightarrow> nat \<Rightarrow> 'd nvme_hw \<Rightarrow> nat \<Rightarrow> nat \<Rightarrow> u8 list \<Rightarrow> NvmeDevice list \<Rightarrow> BitmapFrameAllocator \<Rightarrow>
     'd machine \<Rightarrow> (NvmeDevice list \<times> BitmapFrameAllocator \<times> 'd machine) outcome" where
  "write_block bf x offset hw drive block_id buf cons a m =
     out_then (Some (dma_allocate bf x offset a (length buf))) (\<lambda>(dma, a').
     let m1 = ram_write (phys dma) (take 512 buf) m in
     out_then (Some (expect ''Cannot get hd'' (if drive < length cons then Some (cons ! drive) else None))) (\<lambda>nvme.
     out_then (nvme_write hw dma block_id nvme m1) (\<lambda>(nvme', m').
     Some (Inr (cons[drive := nvme'], a', m')))))"

section \<open>What the controller promises\<close>

text \<open>
  The documented behaviour of a controller that the driver's synchronous paths rely on.  The
  part of the device the controller knows about is its \<open>link\<close>: register base, doorbell stride
  and the two I/O rings.  \<open>ready\<close> says that no command is outstanding and both ends agree on the
  ring positions, \<open>h\<close> completions having been taken; \<open>served\<close> is the sequence of commands the controller has executed.
\<close>

type_synonym link = "nat \<times> u16 \<times> NvmeSubQueue \<times> NvmeCompQueue"

definition link_of :: "NvmeDevice \<Rightarrow> link" where
  "link_of v = (dev_addr v, dstrd v, io_sq v, io_cq v)"

definition put_command :: "NvmeSubQueue \<Rightarrow> NvmeCommand \<Rightarrow> 'd machine \<Rightarrow> 'd machine" where
  "put_command q c m = m\<lparr>sq_mem := (sq_mem m)(phys (sq_commands q) := (sq_mem m (phys (sq_commands q)))(sq_tail q := c))\<rparr>"

definition sq_next :: "NvmeSubQueue \<Rightarrow> nat" where
  "sq_next q = (sq_tail q + 1) mod sq_len q"

text \<open>The machine after the driver has stored a command and rung the tail doorbell of queue 1.\<close>

definition ring_tail :: "'d nvme_hw \<Rightarrow> nat \<Rightarrow> u16 \<Rightarrow> NvmeSubQueue \<Rightarrow> NvmeCommand \<Rightarrow> 'd machine \<Rightarrow> 'd machine" where
  "ring_tail hw addr s sq c m =
     mmio_write32 hw (addr + 0x1000 + 8 * 2 ^ unat s) (of_nat (sq_next sq)) (put_command sq c m)"

definition ring_head :: "'d nvme_hw \<Rightarrow> nat \<Rightarrow> u16 \<Rightarrow> nat \<Rightarrow> 'd machine \<Rightarrow> 'd machine" where
  "ring_head hw addr s h m = mmio_write32 hw (addr + 0x1000 + 12 * 2 ^ unat s) (of_nat h) m"

definition cq_slots :: "NvmeCompQueue \<Rightarrow> 'd machine \<Rightarrow> nat \<Rightarrow> NvmeCompletion" where
  "cq_slots q m = cq_mem m (phys (cq_commands q))"

locale nvme_server =
  fixes hw :: "'d nvme_hw"
    and served :: "'d machine \<Rightarrow> NvmeCommand list"
    and ready :: "link \<Rightarrow> nat \<Rightarrow> 'd machine \<Rightarrow> bool"
  assumes ready_shape: "ready (addr, s, sq, cq) h m \<Longrightarrow>
      unat s \<le> 12 \<and> sq_tail sq < sq_len sq \<and> sq_len sq \<le> QUEUE_LENGTH \<and> cq_at cq h"
    and answers: "ready (addr, s, sq, cq) h m \<Longrightarrow>
      \<exists>k. posted (cq_len cq) (cq_slots cq ((relax hw ^^ k) (ring_tail hw addr s sq c m))) h"
    and agrees: "ready (addr, s, sq, cq) h m \<Longrightarrow> m1 = (relax hw ^^ j) (ring_tail hw addr s sq c m) \<Longrightarrow>
      posted (cq_len cq) (cq_slots cq m1) h \<Longrightarrow> e = cq_slots cq m1 (h mod cq_len cq) \<Longrightarrow>
      m2 = ring_head hw addr s (Suc h mod cq_len cq) m1 \<Longrightarrow>
      cqe_status e = 0 \<and> served m2 = served m @ [c] \<and>
      ready (addr, s, sq\<lparr>sq_tail := sq_next sq, sq_head := unat (cqe_sq_head e)\<rparr>, cq_advance cq (Suc h)) (Suc h) m2"

lemma unat_push_4: "unat s < 14 \<Longrightarrow> unat (push_bit (unat s) 4 :: u16) = 4 * 2 ^ unat s" for s :: u16
proof -
  assume "unat s < 14"
  then have "(2 :: nat) ^ unat s \<le> 2 ^ 13" by (intro power_increasing) auto
  then have "4 * 2 ^ unat s < (2 :: nat) ^ 16" by simp
  moreover have "unat (push_bit (unat s) 4 :: u16) = take_bit 16 (push_bit (unat s) 4)"
    by (simp add: unsigned_push_bit_eq)
  ultimately show ?thesis by (simp add: push_bit_eq_mult take_bit_nat_eq_self mult.commute)
qed

lemma doorbell_io:
  assumes "unat s \<le> 12"
  shows "\<exists>d. doorbell_offset s SQyTDBL 1 = Inr d \<and> unat d = 8 * 2 ^ unat s"
    and "\<exists>d. doorbell_offset s CQyHDBL 1 = Inr d \<and> unat d = 12 * 2 ^ unat s"
proof -
  have "(2 :: nat) ^ unat s \<le> 2 ^ 12" using assms by (intro power_increasing) auto
  then have b: "12 * 2 ^ unat s < (2 :: nat) ^ 16" by simp
  have u: "unat (push_bit (unat s) 4 :: u16) = 4 * 2 ^ unat s" using unat_push_4 assms by simp
  show "\<exists>d. doorbell_offset s SQyTDBL 1 = Inr d \<and> unat d = 8 * 2 ^ unat s"
    using b u by (simp add: doorbell_offset_def word_mul_def unat_word_ariths)
  show "\<exists>d. doorbell_offset s CQyHDBL 1 = Inr d \<and> unat d = 12 * 2 ^ unat s"
    using b u by (simp add: doorbell_offset_def word_mul_def word_add_def unat_word_ariths)
qed

lemma write_reg_idx_io:
  assumes "unat (dstrd v) \<le> 12"
  shows "write_reg_idx hw v SQyTDBL 1 x m = Inr (mmio_write32 hw (dev_addr v + 0x1000 + 8 * 2 ^ unat (dstrd v)) x m)"
    and "write_reg_idx hw v CQyHDBL 1 x m = Inr (mmio_write32 hw (dev_addr v + 0x1000 + 12 * 2 ^ unat (dstrd v)) x m)"
  using doorbell_io [OF assms] by (auto simp: write_reg_idx_def)

text \<open>
  What a controller reads out of an I/O command: opcode, namespace, first block, block count and the
  two physical page pointers.
\<close>

definition cmd_view :: "NvmeCommand \<Rightarrow> u8 \<times> u32 \<times> nat \<times> nat \<times> nat \<times> nat" where
  "cmd_view c = (opcode c, ns_id c, unat (cmd_slba c), unat (cmd_nlb c) + 1, unat (fst (d_ptr c)), unat (snd (d_ptr c)))"

lemma cmd_view_io:
  assumes "0 < blocks" and "blocks < 0x10000" and "lba \<le> usize_max" and "addr \<le> usize_max" and "p \<le> usize_max"
  shows "cmd_view (io_entry write cid ns lba (of_nat blocks - 1) addr p) =
    (if write then 1 else 2, ns, lba, blocks, addr, p)"
proof -
  have "unat (of_nat blocks :: u16) = blocks" using assms(2) by (simp add: unat_of_nat)
  then have "unat (of_nat blocks - 1 :: u16) + 1 = blocks"
    using assms(1) by (metis Suc_eq_plus1 Suc_pred' gr_implies_not0 unat_0 unat_minus_one)
  moreover have "unat (of_nat lba :: u64) = lba" "unat (of_nat addr :: u64) = addr" "unat (of_nat p :: u64) = p"
    using assms(3-5) by (simp_all add: unat_of_nat usize_max_def)
  ultimately show ?thesis
    by (simp add: cmd_view_def cmd_slba_def cmd_nlb_def io_entry_def io_write_def io_read_def split_lba widen_narrow)
qed

lemma blocks_minus_one:
  assumes "0 < blocks" and "blocks < 0x10000"
  shows "word_sub (of_nat blocks :: u16) 1 = Inr (of_nat blocks - 1)"
proof -
  have "unat (of_nat blocks :: u16) = blocks" using assms by (simp add: unat_of_nat)
  then have "(1 :: u16) \<le> of_nat blocks" using assms(1) by (simp add: word_le_nat_alt)
  then show ?thesis by (simp add: word_sub_def)
qed

text \<open>
  \<open>transfers op lba a n cs\<close>: the commands, as the controller reads them, move \<open>n\<close> bytes at address
  \<open>a\<close> in pieces of at most two pages, block after block from \<open>lba\<close> on; the second pointer of a piece that
  goes beyond one page is that of the next page, and 0 otherwise.
\<close>

fun transfers :: "u8 \<Rightarrow> nat \<Rightarrow> nat \<Rightarrow> nat \<Rightarrow> (u8 \<times> u32 \<times> nat \<times> nat \<times> nat \<times> nat) list \<Rightarrow> bool" where
  "transfers op lba a n [] \<longleftrightarrow> n = 0"
| "transfers op lba a n (c # cs) \<longleftrightarrow>
     (let l = min n 8192; b = (l + 511) div 512 in
      0 < n \<and> c = (op, 1, lba, b, a, if l \<le> 4096 then 0 else a + 4096) \<and> transfers op (lba + b) (a + l) (n - l) cs)"

lemma transfers_iff:
  "transfers op lba a n cs \<longleftrightarrow> (if n = 0 then cs = [] else \<exists>ds. cs =
     (op, 1, lba, (min n 8192 + 511) div 512, a, if min n 8192 \<le> 4096 then 0 else a + 4096) # ds \<and>
     transfers op (lba + (min n 8192 + 511) div 512) (a + min n 8192) (n - min n 8192) ds)"
  by (cases cs) (auto simp: Let_def)

context nvme_server
begin

lemma complete_io_served:
  assumes "ready (link_of v) h m" and "stat_completions v < usize_max"
    and "m1 = ring_tail hw (dev_addr v) (dstrd v) (io_sq v) c m"
    and "w = v\<lparr>io_sq := sq, stat_submissions := n\<rparr>"
  shows "\<exists>(e :: NvmeCompletion) m2. device_complete_io hw 1 w m1 =
      Some (Inr (Some (cqe_sq_head e), w\<lparr>io_cq := cq_advance (io_cq v) (Suc h), stat_completions := stat_completions v + 1\<rparr>, m2)) \<and>
    served m2 = served m @ [c] \<and>
    ready (dev_addr v, dstrd v, (io_sq v)\<lparr>sq_tail := sq_next (io_sq v), sq_head := unat (cqe_sq_head e)\<rparr>,
      cq_advance (io_cq v) (Suc h)) (Suc h) m2"
proof -
  let ?cq = "io_cq v"
  have rdy: "ready (dev_addr v, dstrd v, io_sq v, ?cq) h m" using assms(1) by (simp add: link_of_def)
  have at: "cq_at ?cq h" using ready_shape [OF rdy] by blast
  from answers [OF rdy] obtain k where "posted (cq_len ?cq) (cq_slots ?cq ((relax hw ^^ k) m1)) h"
    unfolding assms(3) by blast
  from complete_spin_waits [OF at this [unfolded cq_slots_def]] obtain j where j:
    "posted (cq_len ?cq) (cq_slots ?cq ((relax hw ^^ j) m1)) h"
    "complete_spin hw ?cq m1 = Some (Inr ((Suc h mod cq_len ?cq, cq_slots ?cq ((relax hw ^^ j) m1) (h mod cq_len ?cq),
       h mod cq_len ?cq), cq_advance ?cq (Suc h), (relax hw ^^ j) m1))"
    by (auto simp: Let_def cq_slots_def)
  define e where "e = cq_slots ?cq ((relax hw ^^ j) m1) (h mod cq_len ?cq)"
  define m2 where "m2 = ring_head hw (dev_addr v) (dstrd v) (Suc h mod cq_len ?cq) ((relax hw ^^ j) m1)"
  have ok: "cqe_status e = 0" "served m2 = served m @ [c]"
    "ready (dev_addr v, dstrd v, (io_sq v)\<lparr>sq_tail := sq_next (io_sq v), sq_head := unat (cqe_sq_head e)\<rparr>, cq_advance ?cq (Suc h)) (Suc h) m2"
    using agrees [OF rdy, of "(relax hw ^^ j) m1" j c e m2] j(1) assms(3) e_def m2_def by blast+
  have len: "0 < cq_len ?cq" using at by (simp add: cq_at_def)
  have "complete_n hw ?cq 1 m1 = Some (Inr ((Suc h mod cq_len ?cq, e, h mod cq_len ?cq), cq_advance ?cq (Suc h), (relax hw ^^ j) m1))"
    using complete_n_at [OF at, of 1 hw m1] len j(2) cq_at_eq_advance [OF at] by (simp add: e_def)
  moreover have "unat (dstrd v) \<le> 12" using ready_shape [OF rdy] by blast
  ultimately have "device_complete_io hw 1 w m1 =
      Some (Inr (Some (cqe_sq_head e), w\<lparr>io_cq := cq_advance ?cq (Suc h), stat_completions := stat_completions v + 1\<rparr>, m2))"
    using ok(1) assms(2,4)
    by (simp add: device_complete_io_def Let_def write_reg_idx_io usize_add_def m2_def ring_head_def)
  with ok(2,3) show ?thesis by blast
qed

lemma namespace_io_served:
  assumes "ready (link_of v) h m" and "0 < blocks" and "blocks \<le> 16" and "addr + 4096 \<le> usize_max \<or> blocks \<le> 8"
    and "lba \<le> usize_max" and "addr \<le> usize_max"
    and "stat_submissions v < usize_max" and "stat_completions v < usize_max"
  shows "\<exists>v' m' c. namespace_io hw ns blocks lba addr write v m = Some (Inr (v', m')) \<and>
    served m' = served m @ [c] \<and> cmd_view c = (if write then 1 else 2, ns, lba, blocks, addr, if blocks \<le> 8 then 0 else addr + 4096) \<and>
    ready (link_of v') (Suc h) m' \<and> stat_submissions v' = stat_submissions v + 1 \<and> stat_completions v' = stat_completions v + 1"
proof -
  have rdy: "ready (dev_addr v, dstrd v, io_sq v, io_cq v) h m" using assms(1) by (simp add: link_of_def)
  from ready_shape [OF rdy] have sh: "unat (dstrd v) \<le> 12" "sq_tail (io_sq v) < sq_len (io_sq v)"
    "sq_len (io_sq v) \<le> QUEUE_LENGTH" by blast+
  define ptr1 where "ptr1 = (if blocks \<le> 8 then 0 else addr + 4096)"
  have ptr: "namespace_prp v addr (blocks * 512) = Inr ptr1" "ptr1 \<le> usize_max" "blocks < 0x10000"
    using assms(3,4) by (auto simp: ptr1_def namespace_prp_def usize_add_def)
  define c where "c = io_entry write (of_nat (sq_tail (io_sq v))) ns lba (of_nat blocks - 1) addr ptr1"
  define sq where "sq = (io_sq v)\<lparr>sq_tail := sq_next (io_sq v)\<rparr>"
  define w where "w = v\<lparr>io_sq := sq, stat_submissions := stat_submissions v + 1\<rparr>"
  have sub: "sq_submit (io_sq v) c m = Inr (sq_next (io_sq v), sq, put_command (io_sq v) c m)"
    using sh by (simp add: sq_submit_def Let_def sq_next_def put_command_def sq_def)
  from complete_io_served [OF assms(1,8) refl w_def, of c] obtain e :: NvmeCompletion and m2 where done_:
    "device_complete_io hw 1 w (ring_tail hw (dev_addr v) (dstrd v) (io_sq v) c m) =
       Some (Inr (Some (cqe_sq_head e), w\<lparr>io_cq := cq_advance (io_cq v) (Suc h), stat_completions := stat_completions v + 1\<rparr>, m2))"
    "served m2 = served m @ [c]"
    "ready (dev_addr v, dstrd v, (io_sq v)\<lparr>sq_tail := sq_next (io_sq v), sq_head := unat (cqe_sq_head e)\<rparr>,
      cq_advance (io_cq v) (Suc h)) (Suc h) m2" by blast
  have mul: "usize_mul blocks 512 = Inr (blocks * 512)" using assms(3) by (simp add: usize_mul_def usize_max_def)
  have "namespace_io hw ns blocks lba addr write v m =
      Some (Inr (w\<lparr>io_cq := cq_advance (io_cq v) (Suc h), stat_completions := stat_completions v + 1,
        io_sq := sq\<lparr>sq_head := unat (cqe_sq_head e)\<rparr>\<rparr>, m2))"
    unfolding namespace_io_def
    using assms(2,3,7) sh(1) done_(1)
    by (simp add: mul ptr(1) blocks_minus_one c_def [symmetric] sub usize_add_def Let_def w_def [symmetric]
        write_reg_idx_io [where v = w])
      (simp add: w_def ring_tail_def write_reg_idx_io)
  then show ?thesis using done_(2,3) cmd_view_io [OF assms(2) ptr(3) assms(5,6) ptr(2)]
    by (auto simp: c_def link_of_def w_def sq_def ptr1_def)
qed

lemma io_loop_served:
  assumes "tiles a w n cs" and "\<forall>c \<in> set cs. chunk_len c \<le> 8192" and "\<forall>c \<in> set (butlast cs). chunk_len c = 8192"
    and "ready (link_of v) h m" and "a + n \<le> usize_max" and "lba + (n + 511) div 512 \<le> usize_max"
    and "stat_submissions v + n \<le> usize_max" and "stat_completions v + n \<le> usize_max"
  shows "\<exists>v' m' ds. out_for_each (io_body hw write) cs (lba, v, m) = Some (Inr (lba + (n + 511) div 512, v', m')) \<and>
    served m' = served m @ ds \<and> transfers (if write then 1 else 2) lba a n (map cmd_view ds) \<and>
    ready (link_of v') (h + length cs) m' \<and> stat_submissions v' = stat_submissions v + length cs \<and>
    stat_completions v' = stat_completions v + length cs \<and> length ds = length cs"
  using assms
proof (induction cs arbitrary: a w n v m lba h)
  case Nil
  then show ?case by simp
next
  case (Cons c cs)
  let ?l = "chunk_len c" and ?b = "dma_blocks c"
  have l: "0 < ?l" "?l \<le> n" "?l \<le> 8192" "phys_addr c = a" "tiles (a + ?l) (w + ?l) (n - ?l) cs"
    using Cons.prems(1,2) by auto
  have full: "?l = min n 8192"
  proof (cases "cs = []")
    case True
    then show ?thesis using l by simp
  next
    case False
    then show ?thesis using Cons.prems(3) l by simp
  qed
  have b: "?b = (?l + 511) div 512" "0 < ?b" "?b \<le> 16" using l(1,3) by (auto simp: dma_blocks_def)
  have sum: "?b + (n - ?l + 511) div 512 = (n + 511) div 512"
  proof (cases "n \<le> 8192")
    case True
    then show ?thesis using full b(1) by simp
  next
    case False
    then have "?l = 8192" using full by simp
    moreover have "(n - 8192 + 511) div 512 + 16 = (n - 8192 + 511 + 16 * 512) div 512"
      by (simp only: div_mult_self1 [OF numeral_neq_zero] add.commute)
    ultimately show ?thesis using False b(1) by simp
  qed
  have page: "?b \<le> 8 \<longleftrightarrow> ?l \<le> 4096" using b(1) by linarith
  then have "a + 4096 \<le> usize_max \<or> ?b \<le> 8" using Cons.prems(5) l(2) by linarith
  then obtain v1 m1 d where one: "namespace_io hw 1 ?b lba a write v m = Some (Inr (v1, m1))"
    "served m1 = served m @ [d]" "cmd_view d = (if write then 1 else 2, 1, lba, ?b, a, if ?l \<le> 4096 then 0 else a + 4096)" "ready (link_of v1) (Suc h) m1"
    "stat_submissions v1 = stat_submissions v + 1" "stat_completions v1 = stat_completions v + 1"
    using namespace_io_served [OF Cons.prems(4) b(2), of a lba 1 "write"] b(3) Cons.prems(5-8) l(1,2) sum page by auto
  have lim: "lba + ?b + (n - ?l + 511) div 512 \<le> usize_max" using Cons.prems(6) sum by simp
  have pre: "a + ?l + (n - ?l) \<le> usize_max" "stat_submissions v1 + (n - ?l) \<le> usize_max"
    "stat_completions v1 + (n - ?l) \<le> usize_max"
    using Cons.prems(5,7,8) l(1,2) one(5,6) by auto
  from Cons.IH [OF l(5) _ _ one(4) pre(1) lim pre(2,3)] Cons.prems(2,3)
  obtain v' m' ds where rest: "out_for_each (io_body hw write) cs (lba + ?b, v1, m1) =
      Some (Inr (lba + ?b + (n - ?l + 511) div 512, v', m'))"
    "served m' = served m1 @ ds" "transfers (if write then 1 else 2) (lba + ?b) (a + ?l) (n - ?l) (map cmd_view ds)"
    "ready (link_of v') (Suc h + length cs) m'" "stat_submissions v' = stat_submissions v1 + length cs"
    "stat_completions v' = stat_completions v1 + length cs" "length ds = length cs"
    by (auto dest: in_set_butlastD split: if_splits)
  have "io_body hw write c (lba, v, m) = Some (Inr (lba + ?b, v1, m1))"
    using one(1) lim by (simp add: io_body_def l(4) usize_add_def)
  then show ?case using rest one sum full l b
    by (intro exI [of _ v'] exI [of _ m'] exI [of _ "d # ds"]) (simp add: add.assoc)
qed

end

section \<open>A simulated controller\<close>

text \<open>
  A controller that keeps the contract, with doorbell stride 0 and rings of the driver's length:
  on a write to the tail doorbell of queue 1 it fetches the command at its own tail, records
  it, and posts a successful completion with the phase of the current lap; it ignores every
  other write.
\<close>

record sim =
  sim_addr :: nat
  sim_sq :: nat
  sim_cq :: nat
  sim_tail :: nat
  sim_count :: nat
  sim_served :: "NvmeCommand list"

definition sim_entry :: "nat \<Rightarrow> u32 \<Rightarrow> NvmeCompletion" where
  "sim_entry i x = \<lparr>command_specific = 0, cqe_rsvd = 0, cqe_sq_head = ucast x, cqe_sq_id = 1, cqe_c_id = 0,
     status = (if even (i div QUEUE_LENGTH) then 1 else 0)\<rparr>"

definition sim_serve :: "u32 \<Rightarrow> sim machine \<Rightarrow> sim machine" where
  "sim_serve x m =
     (let d = dev m; i = sim_count d in
      m\<lparr>cq_mem := (cq_mem m)(sim_cq d := (cq_mem m (sim_cq d))(i mod QUEUE_LENGTH := sim_entry i x)),
        dev := d\<lparr>sim_tail := unat x, sim_count := Suc i, sim_served := sim_served d @ [sq_mem m (sim_sq d) (sim_tail d)]\<rparr>\<rparr>)"

definition sim_hw :: "sim nvme_hw" where
  "sim_hw = \<lparr>mmio_read32 = \<lambda>_ _. 0, mmio_read64 = \<lambda>_ _. 0,
     mmio_write32 = \<lambda>a x m. if a = sim_addr (dev m) + 0x1008 then sim_serve x m else m,
     mmio_write64 = \<lambda>_ _ m. m, relax = \<lambda>m. m\<rparr>"

definition sim_log :: "sim machine \<Rightarrow> NvmeCommand list" where
  "sim_log m = sim_served (dev m)"

definition sim_ready :: "link \<Rightarrow> nat \<Rightarrow> sim machine \<Rightarrow> bool" where
  "sim_ready l h m = (case l of (addr, s, sq, cq) \<Rightarrow>
     s = 0 \<and> sim_addr (dev m) = addr \<and> sim_sq (dev m) = phys (sq_commands sq) \<and> sim_cq (dev m) = phys (cq_commands cq) \<and>
     sim_tail (dev m) = sq_tail sq \<and> sq_len sq = QUEUE_LENGTH \<and> sq_tail sq < QUEUE_LENGTH \<and>
     cq_len cq = QUEUE_LENGTH \<and> cq_at cq h \<and> sim_count (dev m) = h)"

lemma sim_ring:
  assumes "sim_ready (addr, s, sq, cq) h m"
  shows "ring_tail sim_hw addr s sq c m = sim_serve (of_nat (sq_next sq)) (put_command sq c m)"
    and "ring_head sim_hw addr s x (ring_tail sim_hw addr s sq c m) = ring_tail sim_hw addr s sq c m"
  using assms by (auto simp: sim_ready_def ring_tail_def ring_head_def sim_hw_def put_command_def sim_serve_def Let_def)

lemma sim_relax [simp]: "(relax sim_hw ^^ j) m = m"
  by (induction j) (simp_all add: sim_hw_def)

lemma sim_slot:
  assumes "sim_ready (addr, s, sq, cq) h m"
  shows "cq_slots cq (ring_tail sim_hw addr s sq c m) (h mod cq_len cq) = sim_entry h (of_nat (sq_next sq))"
  using assms unfolding sim_ring(1) [OF assms]
  by (auto simp: sim_ready_def cq_slots_def sim_serve_def put_command_def Let_def)

lemma sim_entry_phase: "phase_bit (sim_entry i x) = even (i div QUEUE_LENGTH)" "cqe_status (sim_entry i x) = 0"
  by (simp_all add: phase_bit_def sim_entry_def cqe_status_def)

interpretation sim: nvme_server sim_hw sim_log sim_ready
proof unfold_locales
  fix addr s sq cq h m c m1 j m2 and e :: NvmeCompletion
  assume rdy: "sim_ready (addr, s, sq, cq) h m"
  show "unat s \<le> 12 \<and> sq_tail sq < sq_len sq \<and> sq_len sq \<le> QUEUE_LENGTH \<and> cq_at cq h"
    using rdy by (simp add: sim_ready_def)
  have len: "cq_len cq = QUEUE_LENGTH" using rdy by (simp add: sim_ready_def)
  show "\<exists>k. posted (cq_len cq) (cq_slots cq ((relax sim_hw ^^ k) (ring_tail sim_hw addr s sq c m))) h"
    using sim_slot [OF rdy, of c] sim_entry_phase len by (simp add: posted_def)
  assume m1: "m1 = (relax sim_hw ^^ j) (ring_tail sim_hw addr s sq c m)"
    and e: "e = cq_slots cq m1 (h mod cq_len cq)"
    and m2: "m2 = ring_head sim_hw addr s (Suc h mod cq_len cq) m1"
  have e': "e = sim_entry h (of_nat (sq_next sq))" using e m1 sim_slot [OF rdy] by simp
  have m2': "m2 = sim_serve (of_nat (sq_next sq)) (put_command sq c m)"
    using m2 m1 sim_ring [OF rdy] by simp
  have next_lt: "sq_next sq < QUEUE_LENGTH" using rdy by (simp add: sq_next_def sim_ready_def QUEUE_LENGTH_def)
  then have u: "unat (of_nat (sq_next sq) :: u32) = sq_next sq"
    by (simp add: unat_of_nat QUEUE_LENGTH_def)
  have "cqe_status e = 0" using e' sim_entry_phase by simp
  moreover have "sim_log m2 = sim_log m @ [c]" using m2' rdy
    by (simp add: sim_log_def sim_serve_def put_command_def sim_ready_def Let_def)
  moreover have "sim_ready (addr, s, sq\<lparr>sq_tail := sq_next sq, sq_head := unat (cqe_sq_head e)\<rparr>,
      cq_advance cq (Suc h)) (Suc h) m2"
    using rdy next_lt u cq_at_advance unfolding m2' sim_ready_def
    by (auto simp: sim_serve_def put_command_def Let_def)
  ultimately show "cqe_status e = 0 \<and> sim_log m2 = sim_log m @ [c] \<and>
      sim_ready (addr, s, sq\<lparr>sq_tail := sq_next sq, sq_head := unat (cqe_sq_head e)\<rparr>, cq_advance cq (Suc h)) (Suc h) m2"
    by blast
qed

section \<open>Properties\<close>

text \<open>
  The rings are separate stores here.  That is faithful as long as the entries a transfer uses lie inside
  the rings' own allocations: \<open>rings_apart v d\<close> says so for the commands that move \<open>d\<close>, for entries of 64
  and 16 bytes.
\<close>

definition slots_inside :: "Dma \<Rightarrow> nat \<Rightarrow> nat \<Rightarrow> nat \<Rightarrow> nat \<Rightarrow> bool" where
  "slots_inside ring entry len at n \<longleftrightarrow> entry * len \<le> dma_size ring \<or> entry * (at + n) \<le> dma_size ring"

definition dma_apart :: "Dma \<Rightarrow> Dma \<Rightarrow> bool" where
  "dma_apart a b \<longleftrightarrow> phys a + dma_size a \<le> phys b \<or> phys b + dma_size b \<le> phys a"

definition rings_apart :: "NvmeDevice \<Rightarrow> Dma \<Rightarrow> bool" where
  "rings_apart v d \<longleftrightarrow>
     (let n = (dma_size d + 8191) div 8192; sq = sq_commands (io_sq v); cq = cq_commands (io_cq v) in
      slots_inside sq 64 (sq_len (io_sq v)) (sq_tail (io_sq v)) n \<and> slots_inside cq 16 (cq_len (io_cq v)) (cq_head (io_cq v)) n \<and>
      dma_apart sq cq \<and> dma_apart sq d \<and> dma_apart cq d)"

text \<open>
  C11. Against a controller that answers commands, reading into or writing from a DMA buffer
  returns, and the controller has executed exactly the commands that move the whole buffer:
  pieces of two pages (the last one possibly shorter) in buffer order, at consecutive block
  addresses from \<open>lba\<close> on, with the address of the piece and, where it goes beyond one page, that of the
  next page as pointers, and nothing else; both statistics grow by the number of commands.  The ring entries the commands use
  have to lie in the memory allocated for the rings, away from each other and from the buffer: with the
  driver's 4096 bytes for a ring of 1024 entries that is the case for the first 64 entries of the
  submission ring and 256 of the completion ring, and the entries beyond overlap.
\<close>

theorem nvme_transfer:
  assumes "nvme_server hw served ready" and "ready (link_of v) h m" and "rings_apart v d"
    and "phys d + dma_size d \<le> usize_max" and "lba + (dma_size d + 511) div 512 \<le> usize_max"
    and "stat_submissions v + dma_size d \<le> usize_max" and "stat_completions v + dma_size d \<le> usize_max"
  shows "\<exists>v' m' cs. (if write then nvme_write hw d lba v m else nvme_read hw d lba v m) = Some (Inr (v', m')) \<and>
    served m' = served m @ cs \<and> transfers (if write then 1 else 2) lba (phys d) (dma_size d) (map cmd_view cs) \<and>
    ready (link_of v') (h + length cs) m' \<and> stat_submissions v' = stat_submissions v + length cs \<and>
    stat_completions v' = stat_completions v + length cs"
proof -
  from chunks_from_tiles [of 8192 0 d] obtain chunks where c: "dma_chunks d (2 * 4096) = Some chunks"
    "tiles (phys d) (virt d) (dma_size d) chunks" "\<forall>c \<in> set chunks. chunk_len c \<le> 8192"
    "\<forall>c \<in> set (butlast chunks). chunk_len c = 8192"
    by (auto simp: dma_chunks_def)
  from nvme_server.io_loop_served [OF assms(1) c(2-4) assms(2,4-7), of "write"] obtain v' m' cs where
    "out_for_each (io_body hw write) chunks (lba, v, m) = Some (Inr (lba + (dma_size d + 511) div 512, v', m'))"
    "served m' = served m @ cs" "transfers (if write then 1 else 2) lba (phys d) (dma_size d) (map cmd_view cs)"
    "ready (link_of v') (h + length chunks) m'" "stat_submissions v' = stat_submissions v + length chunks"
    "stat_completions v' = stat_completions v + length chunks" "length cs = length chunks"
    by blast
  then show ?thesis using c(1) by (auto simp: nvme_read_def nvme_write_def)
qed

definition demo_device :: NvmeDevice where
  "demo_device = \<lparr>dev_addr = 0x1000000, dev_len = 0x4000, dstrd = 0,
     admin_sq = \<lparr>sq_commands = \<lparr>virt = 0, phys = 0, dma_size = 4096\<rparr>, sq_head = 0, sq_tail = 0, sq_len = 1024, sq_doorbell = 0\<rparr>,
     admin_cq = \<lparr>cq_commands = \<lparr>virt = 0, phys = 4096, dma_size = 4096\<rparr>, cq_head = 0, cq_phase = True, cq_len = 1024, cq_doorbell = 0\<rparr>,
     io_sq = \<lparr>sq_commands = \<lparr>virt = 0, phys = 8192, dma_size = 4096\<rparr>, sq_head = 0, sq_tail = 0, sq_len = 1024, sq_doorbell = 0\<rparr>,
     io_cq = \<lparr>cq_commands = \<lparr>virt = 0, phys = 12288, dma_size = 4096\<rparr>, cq_head = 0, cq_phase = True, cq_len = 1024, cq_doorbell = 0\<rparr>,
     buffer = \<lparr>virt = 0, phys = 16384, dma_size = 4096\<rparr>, prp_list = \<lparr>virt = 0, phys = 20480, dma_size = 4096\<rparr>,
     namespaces = [1 \<mapsto> \<lparr>nsp_id = 1, nsp_blocks = 4096, nsp_block_size = 512\<rparr>],
     stat_completions = 0, stat_submissions = 0, dev_q_id = 2\<rparr>"

definition demo_sim :: "sim machine" where
  "demo_sim = \<lparr>sq_mem = \<lambda>_ _. command_default, cq_mem = \<lambda>_ _. demo_completion 0, prp_mem = \<lambda>_ _. 0, ram = \<lambda>_. 0,
     dev = \<lparr>sim_addr = 0x1000000, sim_sq = 8192, sim_cq = 12288, sim_tail = 0, sim_count = 0, sim_served = []\<rparr>\<rparr>"

lemma demo_sim_ready: "sim_ready (link_of demo_device) 0 demo_sim"
  by (simp add: sim_ready_def link_of_def demo_device_def demo_sim_def cq_at_def QUEUE_LENGTH_def)

theorem nvme_transfer_witness:
  "\<exists>v' m' cs. nvme_read sim_hw \<lparr>virt = 0, phys = 0x10000, dma_size = 20480\<rparr> 100 demo_device demo_sim = Some (Inr (v', m')) \<and>
     rings_apart demo_device \<lparr>virt = 0, phys = 0x10000, dma_size = 20480\<rparr> \<and> sim_log m' = cs \<and>
     map cmd_view cs = [(2, 1, 100, 16, 0x10000, 0x11000), (2, 1, 116, 16, 0x12000, 0x13000), (2, 1, 132, 8, 0x14000, 0)] \<and>
     stat_completions v' = 3"
proof -
  let ?d = "\<lparr>virt = 0, phys = 0x10000, dma_size = 20480\<rparr>"
  have apart: "rings_apart demo_device ?d"
    by (simp add: rings_apart_def slots_inside_def dma_apart_def demo_device_def)
  have "\<exists>v' m' cs. (if False then nvme_write sim_hw ?d 100 demo_device demo_sim else nvme_read sim_hw ?d 100 demo_device demo_sim) =
      Some (Inr (v', m')) \<and>
    sim_log m' = sim_log demo_sim @ cs \<and> transfers (if False then 1 else 2) 100 (phys ?d) (dma_size ?d) (map cmd_view cs) \<and>
    sim_ready (link_of v') (0 + length cs) m' \<and> stat_submissions v' = stat_submissions demo_device + length cs \<and>
    stat_completions v' = stat_completions demo_device + length cs"
    by (rule nvme_transfer [OF sim.nvme_server_axioms demo_sim_ready apart])
      (simp_all add: usize_max_def demo_device_def)
  then obtain v' m' cs where r: "nvme_read sim_hw ?d 100 demo_device demo_sim = Some (Inr (v', m'))" "sim_log m' = cs"
    "transfers 2 100 0x10000 20480 (map cmd_view cs)" "stat_completions v' = length cs"
    by (auto simp: sim_log_def demo_sim_def demo_device_def)
  obtain ds where ds: "map cmd_view cs = (2, 1, 100, 16, 0x10000, 0x11000) # ds" "transfers 2 116 0x12000 12288 ds"
    using r(3) transfers_iff [of 2 100 "0x10000" 20480] by auto
  obtain es where es: "ds = (2, 1, 116, 16, 0x12000, 0x13000) # es" "transfers 2 132 0x14000 4096 es"
    using ds(2) transfers_iff [of 2 116 "0x12000" 12288] by auto
  have "es = [(2, 1, 132, 8, 0x14000, 0)]"
    using es(2) transfers_iff [of 2 132 "0x14000" 4096 es] transfers_iff [of 2 140 "0x15000" 0] by auto
  then have "map cmd_view cs = [(2, 1, 100, 16, 0x10000, 0x11000), (2, 1, 116, 16, 0x12000, 0x13000), (2, 1, 132, 8, 0x14000, 0)]"
    using ds(1) es(1) by simp
  moreover from this have "length cs = 3" by (drule_tac arg_cong [where f = length]) simp
  ultimately show ?thesis using r(1,2,4) apart by (intro exI [of _ v'] exI [of _ m'] exI [of _ cs]) simp
qed

text \<open>
  \<open>namespace_io\<close> asserts that the block count is between 1 and 0x10000, but a count of exactly
  0x10000 truncates to 0 as a \<open>u16\<close> and the subtraction of 1 overflows: that count panics before
  anything is submitted, as do the counts the assertions reject.
\<close>

theorem namespace_io_count_limits:
  "namespace_io hw ns 0 lba addr write v m = Some (Inl AssertFailed) \<and>
   namespace_io hw ns 0x10000 lba addr write v m = Some (Inl Overflow) \<and>
   namespace_io hw ns (0x10001 + k) lba addr write v m = Some (Inl AssertFailed)"
proof -
  have zero: "(65536 :: u16) = 0" by simp
  have "word_sub (of_nat 65536 :: u16) 1 = Inl Overflow" by (simp add: word_sub_def zero)
  moreover have "usize_mul 65536 512 = Inr 33554432" by (simp add: usize_mul_def usize_max_def)
  moreover have "namespace_prp v addr 33554432 = Inr (phys (prp_list v))" by (simp add: namespace_prp_def)
  ultimately have "namespace_io hw ns 0x10000 lba addr write v m = Some (Inl Overflow)"
    by (simp add: namespace_io_def)
  then show ?thesis by (simp add: namespace_io_def)
qed

text \<open>
  Doorbell registers do not alias: with a stride exponent below 14, two doorbell offsets that
  are computed without overflow are equal only for the same register of the same queue.
\<close>

theorem doorbell_injective:
  assumes "unat s < 14" and "doorbell_offset s r q = Inr d" and "doorbell_offset s r' q' = Inr d"
  shows "r = r' \<and> q = q'"
proof -
  have off: "unat d = 4 * 2 ^ unat s * (2 * unat q + (case r of SQyTDBL \<Rightarrow> 0 | CQyHDBL \<Rightarrow> 1))"
    if "doorbell_offset s r q = Inr d" for r q
  proof -
    let ?p = "push_bit (unat s) 4 :: u16"
    define j where "j = (case r of SQyTDBL \<Rightarrow> 2 * q | CQyHDBL \<Rightarrow> 2 * q + 1)"
    have j: "unat j = 2 * unat q + (case r of SQyTDBL \<Rightarrow> 0 | CQyHDBL \<Rightarrow> 1)"
      and d: "unat ?p * unat j < 2 ^ 16" "d = ?p * j"
      using that
      by (cases r; auto simp: doorbell_offset_def j_def result_simps checked_simps unat_word_ariths)+
    then have "unat d = unat ?p * unat j" by (simp add: unat_word_ariths)
    then show ?thesis using j unat_push_4 [OF assms(1)] by simp
  qed
  have "2 * unat q + (case r of SQyTDBL \<Rightarrow> 0 | CQyHDBL \<Rightarrow> 1) = 2 * unat q' + (case r' of SQyTDBL \<Rightarrow> 0 | CQyHDBL \<Rightarrow> 1)"
    using off [OF assms(2)] off [OF assms(3)] by simp
  then have "r = r' \<and> unat q = unat q'" by (cases r; cases r'; simp; presburger)
  then show ?thesis using word_unat_eq_iff by blast
qed

theorem doorbell_injective_witness:
  "{(r, q). doorbell_offset 0 r q = Inr 12} = {(CQyHDBL, 1)}"
proof -
  have "doorbell_offset 0 CQyHDBL 1 = Inr 12" by (simp add: doorbell_offset_def word_mul_def word_add_def)
  then show ?thesis using doorbell_injective [of 0 CQyHDBL 1 12] by auto
qed

text \<open>
  The buffer the driver allocates for copied transfers is one page, so \<open>write_copied\<close> of more
  than 4096 bytes panics in the range check of its first chunk instead of writing anything.
\<close>

theorem write_copied_limit:
  assumes "device_alloc bf x offset hw addr len a m0 = Inr (v0, a')" and "buffer v = buffer v0"
    and "namespaces v 1 = Some ns" and "4096 < length data"
  shows "write_copied hw data lba v m = Some (Inl AssertFailed)"
proof -
  have buf: "dma_size (buffer v) = 4096" using assms(1,2)
    by (auto simp: device_alloc_def dma_allocate_def result_simps split: prod.splits)
  let ?chunk = "take 524288 data"
  have "data \<noteq> []" using assms(4) by auto
  then have "slice_chunks 524288 data = ?chunk # slice_chunks 524288 (drop 524288 data)"
    by (subst slice_chunks.simps) simp
  moreover have "\<not> min (length data) 524288 \<le> 4096" using assms(4) by simp
  then have "buffer_store v ?chunk m = Inl AssertFailed"
    using buf by (simp add: buffer_store_def dma_index_to_def dma_index_range_def)
  ultimately show ?thesis using assms(3) by (simp add: write_copied_def write_copied_body_def)
qed

lemma demo_device_alloc:
  "\<exists>v a'. device_alloc byte_bits x86_model 0 sim_hw 0x1000000 0x4000 demo_allocator demo_sim = Inr (v, a')"
  by (simp add: device_alloc_def nvme_sub_queue_new_def nvme_comp_queue_new_def demo_dma_page)
    (simp add: dma_allocate_def PAGE_SIZE_def alloc_for_dma_def allocate_frames_def
      take_run.simps search.simps skip_used.simps bitmap_eval usize_sub_def usize_mul_def usize_max_def
      x86_model_def convert_physical_to_virtual_def usize_add_def canonical_def)

theorem write_copied_limit_witness:
  "\<exists>v. write_copied sim_hw (replicate 5000 0) 7 v demo_sim = Some (Inl AssertFailed) \<and> namespaces v 1 \<noteq> None"
proof -
  obtain v0 a' where alloc: "device_alloc byte_bits x86_model 0 sim_hw 0x1000000 0x4000 demo_allocator demo_sim = Inr (v0, a')"
    using demo_device_alloc by blast
  let ?v = "v0\<lparr>namespaces := [1 \<mapsto> \<lparr>nsp_id = 1, nsp_blocks = 4096, nsp_block_size = 512\<rparr>]\<rparr>"
  have "write_copied sim_hw (replicate 5000 0) 7 ?v demo_sim = Some (Inl AssertFailed)"
    by (rule write_copied_limit [OF alloc]) simp_all
  then show ?thesis by (intro exI [of _ ?v]) simp
qed

end
