(* ===== verification/PciConfig.thy ===== *)
theory PciConfig
  imports Address
begin

text \<open>
  Access to PCI configuration space: function numbers, the port mechanism of
  \<open>arch/mod.rs\<close> (\<open>X86_64PciArch\<close>), and the memory-mapped mechanism of \<open>PciRoot\<close> in
  \<open>drivers/pci.rs\<close>, with the capability iterators on top of them.

  Configuration space as the rest of the PCI code uses it is the trait \<open>TraitPciArch\<close>, the record
  \<open>pci_arch\<close> here.  Locale \<open>config_ports\<close> states what the two I/O ports do and shows that the port
  accesses implement the trait.
\<close>

record BusDeviceFunction =
  bus :: u8
  device :: u8
  func :: u8

definition bdf_valid :: "BusDeviceFunction \<Rightarrow> bool" where
  "bdf_valid b \<longleftrightarrow> device b < 32 \<and> func b < 8"

datatype PciError =
    InvalidBarType
  | CreateMmioError
  | InvalidBusDeviceFunction
  | SegmentNotFound
  | GetWrongHeader
  | UnrecognisedHeaderType
  | PciDeviceStructureTransformError

section \<open>The port mechanism\<close>

definition PORT_PCI_CONFIG_ADDRESS :: u16 where
  "PORT_PCI_CONFIG_ADDRESS = 0xcf8"

definition PORT_PCI_CONFIG_DATA :: u16 where
  "PORT_PCI_CONFIG_DATA = 0xcfc"

definition config_address :: "BusDeviceFunction \<Rightarrow> u8 \<Rightarrow> u32" where
  "config_address b offset =
     push_bit 16 (ucast (bus b)) OR push_bit 11 (ucast (device b)) OR
     push_bit 8 (ucast (func b) AND 7) OR ucast (offset AND 0xfc) OR 0x80000000"

text \<open>The 32-bit ports: \<open>Port::write\<close> and \<open>Port::read\<close>.\<close>

record 'w port_io =
  out32 :: "u16 \<Rightarrow> u32 \<Rightarrow> 'w \<Rightarrow> 'w"
  in32 :: "u16 \<Rightarrow> 'w \<Rightarrow> u32 \<times> 'w"

definition x86_read_config :: "'w port_io \<Rightarrow> BusDeviceFunction \<Rightarrow> u8 \<Rightarrow> 'w \<Rightarrow> u32 \<times> 'w" where
  "x86_read_config io b offset w =
     in32 io PORT_PCI_CONFIG_DATA (out32 io PORT_PCI_CONFIG_ADDRESS (config_address b offset) w)"

definition x86_write_config :: "'w port_io \<Rightarrow> BusDeviceFunction \<Rightarrow> u8 \<Rightarrow> u32 \<Rightarrow> 'w \<Rightarrow> 'w" where
  "x86_write_config io b offset data w =
     out32 io PORT_PCI_CONFIG_DATA data (out32 io PORT_PCI_CONFIG_ADDRESS (config_address b offset) w)"

definition address_pci_to_address_memory :: "nat \<Rightarrow> PciError + nat" where
  "address_pci_to_address_memory address = Inr address"

text \<open>The trait: what a read returns and what a write does to the machine.\<close>

record 'w pci_arch =
  arch_read :: "BusDeviceFunction \<Rightarrow> u8 \<Rightarrow> 'w \<Rightarrow> u32"
  arch_write :: "BusDeviceFunction \<Rightarrow> u8 \<Rightarrow> u32 \<Rightarrow> 'w \<Rightarrow> 'w"

definition x86_arch :: "'w port_io \<Rightarrow> 'w pci_arch" where
  "x86_arch io = \<lparr>arch_read = \<lambda>b off w. fst (x86_read_config io b off w),
                  arch_write = x86_write_config io\<rparr>"

section \<open>The memory-mapped mechanism\<close>

record SegmentGroup =
  seg_base :: u64
  seg_group :: u16
  seg_bus_start :: u8
  seg_bus_end :: u8

record PciRoot =
  physical_address_base :: u64
  mmio_base :: "nat option"
  segement_group_number :: u16
  bus_begin :: u8
  bus_end :: u8

fun ecam_root :: "SegmentGroup list \<Rightarrow> u16 \<Rightarrow> PciError + PciRoot" where
  "ecam_root [] seg = Inl SegmentNotFound"
| "ecam_root (g # gs) seg =
     (if seg_group g = seg
      then Inr \<lparr>physical_address_base = seg_base g, mmio_base = None, segement_group_number = seg,
                bus_begin = seg_bus_start g, bus_end = seg_bus_end g\<rparr>
      else ecam_root gs seg)"

text \<open>
  \<open>PciRoot::map\<close>: the pages handed to the kernel page table, as pairs of a virtual and a physical
  page address, and the new root.
\<close>

definition map_page :: "x86_api \<Rightarrow> nat \<Rightarrow> nat \<Rightarrow> nat \<Rightarrow> (nat \<times> nat) list \<Rightarrow> (nat \<times> nat) list result" where
  "map_page x vaddr paddr i pages =
     and_then (virt_addr_new x (vaddr + i * 4096)) (\<lambda>v.
     and_then (phys_addr_new x (paddr + i * 4096)) (\<lambda>p.
     Inr (pages @ [(page_containing x v, frame_containing x p)])))"

definition map_pages :: "x86_api \<Rightarrow> nat \<Rightarrow> nat \<Rightarrow> nat \<Rightarrow> (nat \<times> nat) list result" where
  "map_pages x vaddr paddr n = for_each (map_page x vaddr paddr) [0..<n] []"

definition pci_root_map :: "x86_api \<Rightarrow> nat \<Rightarrow> PciRoot \<Rightarrow> ((nat \<times> nat) list \<times> PciRoot) result" where
  "pci_root_map x offset r =
     and_then (word_sub (bus_end r) (bus_begin r)) (\<lambda>d.
     and_then (word_add d 1) (\<lambda>bus_number.
     and_then (word_add bus_number 1) (\<lambda>b1.
     let bus_number_double = unat b1 div 2 in
     and_then (phys_addr_new x (unat (physical_address_base r))) (\<lambda>paddr.
     and_then (convert_physical_to_virtual x offset paddr) (\<lambda>vaddr.
     and_then (map_pages x vaddr paddr bus_number_double) (\<lambda>pages.
     Inr (pages, r\<lparr>mmio_base := Some vaddr\<rparr>)))))))"

definition pci_root_new ::
  "x86_api \<Rightarrow> nat \<Rightarrow> SegmentGroup list \<Rightarrow> u16 \<Rightarrow> (PciError + (nat \<times> nat) list \<times> PciRoot) result" where
  "pci_root_new x offset mcfg seg =
     (case ecam_root mcfg seg of
        Inl e \<Rightarrow> Inr (Inl e)
      | Inr r \<Rightarrow> and_then (pci_root_map x offset r) (\<lambda>p. Inr (Inr p)))"

definition cam_offset :: "PciRoot \<Rightarrow> BusDeviceFunction \<Rightarrow> u16 \<Rightarrow> u32 result" where
  "cam_offset r b register_offset =
     and_then (assert_that (bdf_valid b)) (\<lambda>_.
     and_then (word_sub (bus b) (bus_begin r)) (\<lambda>d.
     let bdf = push_bit 8 (ucast d) OR push_bit 3 (ucast (device b)) OR ucast (func b);
         address = push_bit 12 bdf OR ucast register_offset in
     and_then (assert_that (address AND 3 = 0)) (\<lambda>_. Inr address)))"

text \<open>The mapped registers are 32-bit words at \<open>mmio_base\<close> plus four times the word offset.\<close>

definition root_read_config :: "(nat \<Rightarrow> u32) \<Rightarrow> PciRoot \<Rightarrow> BusDeviceFunction \<Rightarrow> u16 \<Rightarrow> u32 result" where
  "root_read_config mem r b register_offset =
     and_then (cam_offset r b register_offset) (\<lambda>address.
     and_then (unwrap (mmio_base r)) (\<lambda>base.
     Inr (mem (base + 4 * unat (drop_bit 2 address)))))"

definition root_write_config ::
  "(nat \<Rightarrow> u32) \<Rightarrow> PciRoot \<Rightarrow> BusDeviceFunction \<Rightarrow> u16 \<Rightarrow> u32 \<Rightarrow> (nat \<Rightarrow> u32) result" where
  "root_write_config mem r b register_offset data =
     and_then (cam_offset r b register_offset) (\<lambda>address.
     and_then (unwrap (mmio_base r)) (\<lambda>base.
     Inr (mem(base + 4 * unat (drop_bit 2 address) := data))))"

section \<open>Capabilities\<close>

definition capabilities_offset :: "'w pci_arch \<Rightarrow> BusDeviceFunction \<Rightarrow> 'w \<Rightarrow> u8 option" where
  "capabilities_offset arch b w =
     (let result = arch_read arch b 0x04 w; status = ucast (drop_bit 16 result) :: u16 in
      if bit status 4 then Some (ucast (arch_read arch b 0x34 w) AND 0xFC) else None)"

record CapabilityInfo =
  cap_offset :: u8
  cap_id :: u8
  private_header :: u16

definition capability_next :: "'w pci_arch \<Rightarrow> BusDeviceFunction \<Rightarrow> 'w \<Rightarrow> u8 option \<Rightarrow> (CapabilityInfo \<times> u8 option) option" where
  "capability_next arch b w next_capability_offset =
     (case next_capability_offset of
        None \<Rightarrow> None
      | Some offset \<Rightarrow>
          let capability_header = arch_read arch b offset w;
              id = ucast capability_header;
              next_offset = ucast (drop_bit 8 capability_header) :: u8;
              private = ucast (drop_bit 16 capability_header) in
          Some (\<lparr>cap_offset = offset, cap_id = id, private_header = private\<rparr>,
                if next_offset = 0 then None
                else if next_offset < 64 \<or> next_offset AND 3 \<noteq> 0 then None
                else Some next_offset))"

record ExternalCapabilityInfo =
  ext_offset :: u16
  ext_id :: u16
  capability_version :: u8

definition external_capability_next ::
  "(nat \<Rightarrow> u32) \<Rightarrow> PciRoot \<Rightarrow> BusDeviceFunction \<Rightarrow> u16 option \<Rightarrow> (ExternalCapabilityInfo \<times> u16 option) option result" where
  "external_capability_next mem r b next_capability_offset =
     (case next_capability_offset of
        None \<Rightarrow> Inr None
      | Some offset \<Rightarrow>
          and_then (root_read_config mem r b offset) (\<lambda>capability_header.
          let id = ucast capability_header;
              next_offset = ucast (drop_bit 20 capability_header) :: u16;
              version = ucast (drop_bit 16 capability_header AND 0xf) in
          Inr (Some (\<lparr>ext_offset = offset, ext_id = id, capability_version = version\<rparr>,
                if next_offset = 0 then None
                else if next_offset < 0x100 \<or> next_offset AND 3 \<noteq> 0 then None
                else Some next_offset))))"

definition external_capabilities :: "u16 option" where
  "external_capabilities = Some 0x100"

section \<open>Addresses determine registers\<close>

lemma const_bits:
  "bit (0x80000000 :: u32) n \<longleftrightarrow> n = 31" "bit (7 :: u32) n \<longleftrightarrow> n < 3" "bit (31 :: u8) n \<longleftrightarrow> n < 5" "bit (7 :: u8) n \<longleftrightarrow> n < 3"
  "bit (0xfc :: u8) n \<longleftrightarrow> 2 \<le> n \<and> n < 8"
proof -
  show "bit (0x80000000 :: u32) n \<longleftrightarrow> n = 31" using bit_exp_iff [of 31 n, where 'a = u32] by auto
  show "bit (7 :: u32) n \<longleftrightarrow> n < 3" using bit_mask_iff [of 3 n, where 'a = u32] by (auto simp: mask_eq_exp_minus_1)
  show "bit (31 :: u8) n \<longleftrightarrow> n < 5" using bit_mask_iff [of 5 n, where 'a = u8] by (auto simp: mask_eq_exp_minus_1)
  show "bit (7 :: u8) n \<longleftrightarrow> n < 3" using bit_mask_iff [of 3 n, where 'a = u8] by (auto simp: mask_eq_exp_minus_1)
  have "(0xfc :: u8) = push_bit 2 (mask 6)" by (simp add: mask_eq_exp_minus_1)
  then show "bit (0xfc :: u8) n \<longleftrightarrow> 2 \<le> n \<and> n < 8" by (auto simp only: bit_simps) auto
qed
lemmas field_bits = bit_or_iff bit_and_iff bit_push_bit_iff bit_drop_bit_eq bit_unsigned_iff possible_bit_word const_bits comp_def


lemma config_bus:
  assumes "bdf_valid b"
  shows "ucast (drop_bit 16 (config_address b off)) = bus b"
proof (rule bit_word_eqI)
  fix n assume n: "n < LENGTH(8)"
  have "\<not> bit (device b) (n + 5)" using assms high_bits_zero [of "device b" 5 "n + 5"] by (simp add: bdf_valid_def)
  then show "bit (ucast (drop_bit 16 (config_address b off)) :: u8) n = bit (bus b) n"
    using n unfolding config_address_def
    by (simp only: field_bits) (auto simp: add.commute dest: bit_imp_le_length)
qed

lemma config_device:
  assumes "bdf_valid b"
  shows "ucast (drop_bit 11 (config_address b off)) AND 31 = device b"
proof (rule bit_word_eqI)
  fix n assume n: "n < LENGTH(8)"
  have "\<not> bit (device b) n \<or> n < 5"
    using assms high_bits_zero [of "device b" 5 n] by (cases "n < 5") (auto simp: bdf_valid_def)
  then show "bit (ucast (drop_bit 11 (config_address b off)) AND 31 :: u8) n = bit (device b) n"
    using n unfolding config_address_def
    by (simp only: field_bits) (auto simp: add.commute not_less dest: bit_imp_le_length)
qed

lemma config_func:
  assumes "bdf_valid b"
  shows "ucast (drop_bit 8 (config_address b off)) AND 7 = func b"
proof (rule bit_word_eqI)
  fix n assume n: "n < LENGTH(8)"
  have "\<not> bit (func b) n \<or> n < 3"
    using assms high_bits_zero [of "func b" 3 n] by (cases "n < 3") (auto simp: bdf_valid_def)
  then show "bit (ucast (drop_bit 8 (config_address b off)) AND 7 :: u8) n = bit (func b) n"
    using n unfolding config_address_def
    by (simp only: field_bits) (auto simp: add.commute not_less dest: bit_imp_le_length)
qed

lemma config_offset: "ucast (config_address b off) AND 0xfc = off AND 0xfc"
proof (rule bit_word_eqI)
  fix n assume n: "n < LENGTH(8)"
  then show "bit (ucast (config_address b off) AND 0xfc :: u8) n = bit (off AND 0xfc) n"
    unfolding config_address_def
    by (simp only: field_bits) (auto simp: add.commute not_less dest: bit_imp_le_length)
qed

lemma config_address_inject:
  assumes "bdf_valid b" and "bdf_valid b'" and "config_address b off = config_address b' off'"
  shows "b = b' \<and> off AND 0xfc = off' AND 0xfc"
proof -
  have "bus b = bus b'" using config_bus [OF assms(1), of off] config_bus [OF assms(2), of off'] assms(3) by simp
  moreover have "device b = device b'"
    using config_device [OF assms(1), of off] config_device [OF assms(2), of off'] assms(3) by simp
  moreover have "func b = func b'"
    using config_func [OF assms(1), of off] config_func [OF assms(2), of off'] assms(3) by simp
  ultimately show ?thesis using config_offset [of b off] config_offset [of b' off'] assms(3) by simp
qed

definition cam_address :: "u8 \<Rightarrow> BusDeviceFunction \<Rightarrow> u16 \<Rightarrow> u32" where
  "cam_address d b off =
     push_bit 12 (push_bit 8 (ucast d) OR push_bit 3 (ucast (device b)) OR ucast (func b)) OR ucast off"

lemma cam_fields:
  assumes "bdf_valid b" and "off < 0x1000"
  shows "ucast (drop_bit 20 (cam_address d b off)) = d"
    and "ucast (drop_bit 15 (cam_address d b off)) AND 31 = device b"
    and "ucast (drop_bit 12 (cam_address d b off)) AND 7 = func b"
    and "ucast (cam_address d b off) AND 0xfff = off"
proof -
  have off: "\<not> bit off m" if "12 \<le> m" for m using assms(2) high_bits_zero [of off 12 m] that by simp
  have dev: "\<not> bit (device b) m" if "5 \<le> m" for m
    using assms(1) high_bits_zero [of "device b" 5 m] that by (simp add: bdf_valid_def)
  have fn: "\<not> bit (func b) m" if "3 \<le> m" for m
    using assms(1) high_bits_zero [of "func b" 3 m] that by (simp add: bdf_valid_def)
  have dev': "bit (device b) m \<Longrightarrow> m < 5" for m using dev [of m] by (cases "m < 5") auto
  have fn': "bit (func b) m \<Longrightarrow> m < 3" for m using fn [of m] by (cases "m < 3") auto
  have off': "bit off m \<Longrightarrow> m < 12" for m using off [of m] by (cases "m < 12") auto
  have m12: "bit (0xfff :: u16) n \<longleftrightarrow> n < 12" for n
    using bit_mask_iff [of 12 n, where 'a = u16] by (auto simp: mask_eq_exp_minus_1)
  note bits = field_bits m12
  show "ucast (drop_bit 20 (cam_address d b off)) = d"
    unfolding cam_address_def
    by (rule bit_word_eqI, simp only: bits) (auto simp: add.commute dest: dev' fn' off' bit_imp_le_length)
  show "ucast (drop_bit 15 (cam_address d b off)) AND 31 = device b"
    unfolding cam_address_def
    by (rule bit_word_eqI, simp only: bits) (auto simp: add.commute dest: dev' fn' off' bit_imp_le_length)
  show "ucast (drop_bit 12 (cam_address d b off)) AND 7 = func b"
    unfolding cam_address_def
    by (rule bit_word_eqI, simp only: bits) (auto simp: add.commute dest: dev' fn' off' bit_imp_le_length)
  show "ucast (cam_address d b off) AND 0xfff = off"
    unfolding cam_address_def
    by (rule bit_word_eqI, simp only: bits) (auto simp: add.commute dest: dev' fn' off' bit_imp_le_length)
qed

lemma cam_offset_eq:
  "cam_offset r b off = Inr a \<longleftrightarrow>
     bdf_valid b \<and> bus_begin r \<le> bus b \<and> a = cam_address (bus b - bus_begin r) b off \<and> a AND 3 = 0"
  by (auto simp: cam_offset_def cam_address_def word_sub_def Let_def result_simps assert_that_def split: if_splits)

lemma cam_offset_inject:
  assumes "cam_offset r b off = Inr a" and "cam_offset r b' off' = Inr a" and "off < 0x1000" and "off' < 0x1000"
  shows "b = b' \<and> off = off'"
proof -
  from assms(1,2) have v: "bdf_valid b" "bdf_valid b'" and
    a: "a = cam_address (bus b - bus_begin r) b off" "a = cam_address (bus b' - bus_begin r) b' off'"
    by (simp_all add: cam_offset_eq)
  note f = cam_fields [OF v(1) assms(3), of "bus b - bus_begin r", folded a(1)]
  note f' = cam_fields [OF v(2) assms(4), of "bus b' - bus_begin r", folded a(2)]
  have "bus b = bus b'" using f(1) f'(1) by simp
  moreover have "device b = device b'" using f(2) f'(2) by simp
  moreover have "func b = func b'" using f(3) f'(3) by simp
  moreover have "off = off'" using f(4) f'(4) by simp
  ultimately show ?thesis by simp
qed

text \<open>The mapped address of a register determines the offset: both are multiples of four.\<close>

lemma cam_word_inject:
  assumes "a AND 3 = 0" and "a' AND 3 = 0" and "drop_bit 2 a = drop_bit 2 a'"
  shows "a = (a' :: u32)"
proof (rule bit_word_eqI)
  fix n assume "n < LENGTH(32)"
  have m: "bit (3 :: u32) n \<longleftrightarrow> n < 2" using bit_mask_iff [of 2 n, where 'a = u32] by (auto simp: mask_eq_exp_minus_1)
  show "bit a n = bit a' n"
  proof (cases "n < 2")
    case True
    have "bit (a AND 3) n = False" "bit (a' AND 3) n = False" using assms(1,2) by simp_all
    then show ?thesis using m True by (simp only: bit_and_iff) simp
  next
    case False
    then obtain k where "n = 2 + k" by (metis le_add_diff_inverse not_less)
    moreover have "bit (drop_bit 2 a) k = bit (drop_bit 2 a') k" using assms(3) by simp
    ultimately show ?thesis by (simp only: bit_drop_bit_eq comp_def)
  qed
qed

section \<open>The configuration ports\<close>

text \<open>
  The documented behaviour of the two ports: a write to the address port selects a register,
  a read of the data port returns the selected register and changes nothing, a write to the
  data port changes the selected register only, to a value the function behind it decides.
\<close>

locale config_ports =
  fixes io :: "'w port_io"
    and cfg :: "'w \<Rightarrow> u32 \<Rightarrow> u32"
    and stored :: "u32 \<Rightarrow> u32 \<Rightarrow> u32 \<Rightarrow> u32"
  assumes data_read: "in32 io PORT_PCI_CONFIG_DATA (out32 io PORT_PCI_CONFIG_ADDRESS a w) = (v, w') \<Longrightarrow>
      v = cfg w a \<and> cfg w' = cfg w"
    and data_write: "cfg (out32 io PORT_PCI_CONFIG_DATA d (out32 io PORT_PCI_CONFIG_ADDRESS a w)) =
      (cfg w)(a := stored a (cfg w a) d)"
begin

lemma read_config:
  "fst (x86_read_config io b off w) = cfg w (config_address b off)"
  "cfg (snd (x86_read_config io b off w)) = cfg w"
proof -
  have "in32 io PORT_PCI_CONFIG_DATA (out32 io PORT_PCI_CONFIG_ADDRESS (config_address b off) w) =
      (fst (x86_read_config io b off w), snd (x86_read_config io b off w))"
    unfolding x86_read_config_def by (rule prod.collapse [symmetric])
  from data_read [OF this] show "fst (x86_read_config io b off w) = cfg w (config_address b off)"
    and "cfg (snd (x86_read_config io b off w)) = cfg w" by blast+
qed

lemma write_config:
  "cfg (x86_write_config io b off d w) =
     (cfg w)(config_address b off := stored (config_address b off) (cfg w (config_address b off)) d)"
  by (simp add: x86_write_config_def data_write)

lemma write_isolated:
  assumes "bdf_valid b" and "bdf_valid b'" and "b \<noteq> b' \<or> off AND 0xfc \<noteq> off' AND 0xfc"
  shows "arch_read (x86_arch io) b' off' (arch_write (x86_arch io) b off d w) = arch_read (x86_arch io) b' off' w"
proof -
  have "config_address b' off' \<noteq> config_address b off"
    using config_address_inject [OF assms(1,2), of off off'] assms(3) by metis
  then show ?thesis by (simp add: x86_arch_def read_config write_config)
qed

lemma write_here:
  "arch_read (x86_arch io) b off (arch_write (x86_arch io) b off d w) =
     stored (config_address b off) (arch_read (x86_arch io) b off w) d"
  by (simp add: x86_arch_def read_config write_config)

end

text \<open>Ports with an address latch over a bank of registers, all of whose bits are writable.\<close>

record port_bank =
  latch :: u32
  bank :: "u32 \<Rightarrow> u32"

definition bank_io :: "port_bank port_io" where
  "bank_io = \<lparr>
     out32 = \<lambda>p v w. if p = PORT_PCI_CONFIG_ADDRESS then w\<lparr>latch := v\<rparr>
       else if p = PORT_PCI_CONFIG_DATA then w\<lparr>bank := (bank w)(latch w := v)\<rparr> else w,
     in32 = \<lambda>p w. (if p = PORT_PCI_CONFIG_DATA then bank w (latch w) else latch w, w)\<rparr>"

interpretation bank: config_ports bank_io bank "\<lambda>_ _ d. d"
  by unfold_locales (auto simp: bank_io_def PORT_PCI_CONFIG_ADDRESS_def PORT_PCI_CONFIG_DATA_def)

section \<open>Properties\<close>

text \<open>
  Configuration accesses through the ports address exactly one register: after a write to a
  register of a valid function, reading any other register, of the same or of another valid
  function, returns what it returned before, and reading that register returns what its
  function made of the value.
\<close>

theorem port_config_isolated:
  assumes "config_ports io cfg stored" and "bdf_valid b" and "bdf_valid b'"
  shows "arch_read (x86_arch io) b' off' (arch_write (x86_arch io) b off d w) =
    (if b = b' \<and> off AND 0xfc = off' AND 0xfc
     then stored (config_address b off) (arch_read (x86_arch io) b off w) d
     else arch_read (x86_arch io) b' off' w)"
proof (cases "b = b' \<and> off AND 0xfc = off' AND 0xfc")
  case True
  then have "config_address b off = config_address b' off'" by (auto simp: config_address_def)
  then show ?thesis using True config_ports.read_config [OF assms(1)] config_ports.write_config [OF assms(1)]
    by (simp add: x86_arch_def)
next
  case False
  then show ?thesis using config_ports.write_isolated [OF assms] by auto
qed

theorem port_config_isolated_witness:
  "let b = \<lparr>bus = 3, device = 31, func = 7\<rparr>; b' = \<lparr>bus = 4, device = 0, func = 0\<rparr>; w = \<lparr>latch = 0, bank = \<lambda>_. 9\<rparr> in
   arch_read (x86_arch bank_io) b' 0x10 (arch_write (x86_arch bank_io) b 0x10 5 w) = 9 \<and>
   arch_read (x86_arch bank_io) b 0x13 (arch_write (x86_arch bank_io) b 0x10 5 w) = 5"
proof -
  let ?b = "\<lparr>bus = 3, device = 31, func = 7\<rparr> :: BusDeviceFunction" and ?b' = "\<lparr>bus = 4, device = 0, func = 0\<rparr> :: BusDeviceFunction"
  have v: "bdf_valid ?b" "bdf_valid ?b'" by (simp_all add: bdf_valid_def)
  show ?thesis
    using port_config_isolated [OF bank.config_ports_axioms v, of "0x10" "0x10" 5 "\<lparr>latch = 0, bank = \<lambda>_. 9\<rparr>"]
      port_config_isolated [OF bank.config_ports_axioms v(1) v(1), of "0x13" "0x10" 5 "\<lparr>latch = 0, bank = \<lambda>_. 9\<rparr>"]
    by (simp add: Let_def x86_arch_def bank.read_config)
qed

text \<open>
  The memory-mapped mechanism is a faithful window: a register written through it reads back,
  and no other register of any function changes, for all aligned register offsets below 4096.
\<close>

theorem ecam_read_write:
  assumes "root_write_config mem r b off d = Inr mem'" and "root_read_config mem r b' off' = Inr v"
    and "off < 0x1000" and "off' < 0x1000"
  shows "root_read_config mem' r b' off' = Inr (if b = b' \<and> off = off' then d else v)"
proof -
  from assms(1) obtain a base where a: "cam_offset r b off = Inr a" "mmio_base r = Some base"
    "mem' = mem(base + 4 * unat (drop_bit 2 a) := d)" by (auto simp: root_write_config_def result_simps)
  from assms(2) a(2) obtain a' where a': "cam_offset r b' off' = Inr a'" "v = mem (base + 4 * unat (drop_bit 2 a'))"
    by (auto simp: root_read_config_def result_simps)
  have al: "a AND 3 = 0" "a' AND 3 = 0" using a(1) a'(1) by (auto simp: cam_offset_eq)
  have "a = a' \<longleftrightarrow> b = b' \<and> off = off'"
  proof
    assume "a = a'"
    then show "b = b' \<and> off = off'" using cam_offset_inject [OF a(1) _ assms(3,4)] a'(1) by blast
  next
    assume "b = b' \<and> off = off'"
    then show "a = a'" using a(1) a'(1) by simp
  qed
  moreover have "a = a'" if "base + 4 * unat (drop_bit 2 a') = base + 4 * unat (drop_bit 2 a)"
    using cam_word_inject [OF al] that word_unat_eq_iff [of "drop_bit 2 a" "drop_bit 2 a'"] by simp
  ultimately have "base + 4 * unat (drop_bit 2 a') = base + 4 * unat (drop_bit 2 a) \<longleftrightarrow> b = b' \<and> off = off'"
    by blast
  moreover have "root_read_config mem' r b' off' = Inr (mem' (base + 4 * unat (drop_bit 2 a')))"
    by (simp only: root_read_config_def a'(1) a(2) and_then_Inr unwrap_simps)
  ultimately show ?thesis unfolding a(3) a'(2) fun_upd_apply by simp
qed

definition demo_root :: PciRoot where
  "demo_root = \<lparr>physical_address_base = 0xb0000000, mmio_base = Some 0xb0000000, segement_group_number = 0,
     bus_begin = 0, bus_end = 3\<rparr>"

theorem ecam_read_write_witness:
  "\<exists>mem'. root_write_config (\<lambda>_. 7) demo_root \<lparr>bus = 1, device = 2, func = 0\<rparr> 0x100 5 = Inr mem' \<and>
     root_read_config mem' demo_root \<lparr>bus = 1, device = 2, func = 0\<rparr> 0x100 = Inr 5 \<and>
     root_read_config mem' demo_root \<lparr>bus = 1, device = 2, func = 1\<rparr> 0x100 = Inr 7"
proof -
  let ?b = "\<lparr>bus = 1, device = 2, func = 0\<rparr> :: BusDeviceFunction" and ?c = "\<lparr>bus = 1, device = 2, func = 1\<rparr> :: BusDeviceFunction"
  obtain mem' where w: "root_write_config (\<lambda>_. 7) demo_root ?b 0x100 5 = Inr mem'"
    by (simp add: root_write_config_def cam_offset_def demo_root_def bdf_valid_def word_sub_def)
  have r: "root_read_config (\<lambda>_. 7) demo_root ?b 0x100 = Inr 7" "root_read_config (\<lambda>_. 7) demo_root ?c 0x100 = Inr 7"
    by (simp_all add: root_read_config_def cam_offset_def demo_root_def bdf_valid_def word_sub_def)
  show ?thesis using w ecam_read_write [OF w r(1)] ecam_read_write [OF w r(2)] by simp
qed

text \<open>
  \<open>PciRoot::map\<close> computes the number of buses in \<open>u8\<close>: for the segment of all 256 buses, and
  for every segment of 255, it panics.
\<close>

theorem pci_root_map_overflow:
  assumes "bus_begin r \<le> bus_end r" and "254 \<le> unat (bus_end r) - unat (bus_begin r)"
  shows "pci_root_map x offset r = Inl Overflow"
proof -
  let ?d = "bus_end r - bus_begin r"
  have d: "unat ?d = unat (bus_end r) - unat (bus_begin r)" using assms(1) by (simp add: unat_sub_if' word_le_nat_alt)
  have "unat ?d < 256" using unsigned_less [of ?d] by simp
  with d assms(2) consider "unat ?d = 254" | "unat ?d = 255" by linarith
  then show ?thesis
  proof cases
    case 1
    then have "unat (?d + 1) = 255" by (simp add: unat_word_ariths)
    with 1 assms(1) show ?thesis by (simp add: pci_root_map_def word_sub_def word_add_def)
  next
    case 2
    with assms(1) show ?thesis by (simp add: pci_root_map_def word_sub_def word_add_def)
  qed
qed

theorem pci_root_map_overflow_witness:
  "pci_root_map x86_model 0 (demo_root\<lparr>bus_end := 255\<rparr>) = Inl Overflow"
  by (rule pci_root_map_overflow) (simp_all add: demo_root_def)

text \<open>The virtual pages that the loop of \<open>PciRoot::map\<close> maps.\<close>

lemma map_page_list:
  assumes "x86_addr x" "for_each (map_page x vaddr paddr) is acc = Inr pages"
  shows "fst ` set pages \<subseteq> fst ` set acc \<union> (\<lambda>i. page_containing x (vaddr + i * 4096)) ` set is"
  using assms(2)
proof (induction "is" arbitrary: acc)
  case (Cons i "is")
  then obtain acc' where a: "map_page x vaddr paddr i acc = Inr acc'" "for_each (map_page x vaddr paddr) is acc' = Inr pages"
    by (auto simp: and_then_eq_Inr)
  then have "fst ` set acc' = insert (page_containing x (vaddr + i * 4096)) (fst ` set acc)"
    by (auto simp: map_page_def result_simps x86_addr.virt_addr_new [OF assms(1)] split: if_splits)
  with Cons.IH [OF a(2)] show ?case by auto
qed simp

text \<open>
  C40. \<open>PciRoot::map\<close> maps one page of 4 KiB for every two buses, where their registers take 2 MiB: whatever
  the segment, the registers of the last function of its first bus lie outside the pages it maps.
\<close>

theorem ecam_window_short:
  assumes "x86_addr x" "pci_root_map x offset r = Inr (pages, r')"
  shows "\<exists>b a base. bdf_valid b \<and> bus b = bus_begin r \<and> cam_offset r' b 0 = Inr a \<and> mmio_base r' = Some base \<and>
    page_containing x (base + unat a) \<notin> fst ` set pages"
proof -
  obtain b1 :: u8 and paddr vaddr where m: "map_pages x vaddr paddr (unat b1 div 2) = Inr pages" "r' = r\<lparr>mmio_base := Some vaddr\<rparr>"
    using assms(2) by (auto simp: pci_root_map_def Let_def result_simps)
  let ?b = "\<lparr>bus = bus_begin r, device = 31, func = 7\<rparr>"
  have a: "cam_offset r' ?b 0 = Inr 0xFF000" by (simp add: m(2) cam_offset_def bdf_valid_def assert_that_def word_sub_def)
  have "page_containing x (vaddr + 0xFF000) \<notin> fst ` set pages"
  proof
    assume "page_containing x (vaddr + 0xFF000) \<in> fst ` set pages"
    then obtain i where i: "i < unat b1 div 2" "page_containing x (vaddr + 0xFF000) = page_containing x (vaddr + i * 4096)"
      using map_page_list [OF assms(1) m(1) [unfolded map_pages_def]] by auto
    have "unat b1 < 256" using unsigned_less [of b1] by simp
    then have "i * 4096 + 4096 \<le> 0xFF000" using i(1) by linarith
    moreover have "vaddr + 0xFF000 - (vaddr + 0xFF000) mod 4096 = vaddr + i * 4096 - (vaddr + i * 4096) mod 4096"
      using i(2) by (simp only: x86_addr.page_containing [OF assms(1)])
    moreover have "(vaddr + 0xFF000) mod 4096 < 4096" by simp
    ultimately show False by linarith
  qed
  then show ?thesis using a by (intro exI [of _ ?b] exI [of _ "0xFF000"] exI [of _ vaddr]) (simp add: m(2) bdf_valid_def)
qed

theorem ecam_window_short_witness:
  "\<exists>pages r'. pci_root_map x86_model 0 demo_root = Inr (pages, r') \<and>
    (\<exists>b a base. bdf_valid b \<and> cam_offset r' b 0 = Inr a \<and> mmio_base r' = Some base \<and>
       page_containing x86_model (base + unat a) \<notin> fst ` set pages)"
proof -
  have "\<exists>pages r'. pci_root_map x86_model 0 demo_root = Inr (pages, r')"
    by (simp add: pci_root_map_def demo_root_def word_sub_def word_add_def x86_model_def convert_physical_to_virtual_def
        usize_add_def usize_max_def canonical_def map_pages_def map_page_def upt_rec)
  then obtain pages r' where r: "pci_root_map x86_model 0 demo_root = Inr (pages, r')" by blast
  from ecam_window_short [OF x86_model.x86_addr_axioms r] r show ?thesis by blast
qed

section \<open>Reading the capability lists\<close>

text \<open>
  The layout of the list in the configuration space, as its bytes \<open>cfg\<close>: at the offset of a capability its identifier, the
  offset of the next one, and two bytes of its own.  A next offset in the header (below 64, so also 0) or
  one that is not aligned ends the list.
\<close>

fun capability_chain :: "(nat \<Rightarrow> u8) \<Rightarrow> CapabilityInfo list \<Rightarrow> bool" where
  "capability_chain cfg [] \<longleftrightarrow> True"
| "capability_chain cfg (c # cs) \<longleftrightarrow>
     (let at = unat (cap_offset c); next_at = unat (cfg (at + 1)) in
      cfg at = cap_id c \<and> unat (cfg (at + 2)) + 256 * unat (cfg (at + 3)) = unat (private_header c) \<and>
      (case cs of [] \<Rightarrow> next_at < 64 \<or> next_at mod 4 \<noteq> 0
       | c' # _ \<Rightarrow> next_at = unat (cap_offset c') \<and> 64 \<le> next_at \<and> next_at mod 4 = 0) \<and>
      capability_chain cfg cs)"

text \<open>What a read of an aligned register returns: its four bytes, the lowest first.\<close>

definition config_bytes :: "'w pci_arch \<Rightarrow> BusDeviceFunction \<Rightarrow> 'w \<Rightarrow> (nat \<Rightarrow> u8) \<Rightarrow> bool" where
  "config_bytes arch b w cfg \<longleftrightarrow> (\<forall>off. unat off mod 4 = 0 \<longrightarrow>
     unat (arch_read arch b off w) = le_bytes [cfg (unat off), cfg (unat off + 1), cfg (unat off + 2), cfg (unat off + 3)])"

text \<open>The results of a number of calls of \<open>next\<close> on an iterator with the given \<open>next_capability_offset\<close>.\<close>

primrec next_calls :: "'w pci_arch \<Rightarrow> BusDeviceFunction \<Rightarrow> 'w \<Rightarrow> nat \<Rightarrow> u8 option \<Rightarrow> CapabilityInfo option list" where
  "next_calls arch b w 0 off = []"
| "next_calls arch b w (Suc n) off = (case capability_next arch b w off of
     None \<Rightarrow> None # next_calls arch b w n off | Some (c, off') \<Rightarrow> Some c # next_calls arch b w n off')"

lemma register_bytes:
  fixes v :: u32
  assumes "unat v = le_bytes [b0, b1, b2, b3]"
  shows "ucast v = b0" "(ucast (drop_bit 8 v) :: u8) = b1" "(ucast (drop_bit 16 v) :: u8) = b2"
    "unat (ucast (drop_bit 16 v) :: u16) = unat b2 + 256 * unat b3"
proof -
  note small = unat_byte_less [of b0] unat_byte_less [of b1] unat_byte_less [of b2] unat_byte_less [of b3]
  have v: "unat v = unat b0 + 256 * (unat b1 + 256 * (unat b2 + 256 * unat b3))" using assms by simp
  have shift: "unat (drop_bit k v) = unat v div 2 ^ k" for k
    using unsigned_less [of v, where 'a = nat] by (simp add: unsigned_drop_bit_eq take_bit_nat_eq_self) (simp only: drop_bit_eq_div)
  have byte: "unat (ucast (drop_bit k v) :: u8) = unat v div 2 ^ k mod 256" for k
    by (simp add: unsigned_ucast_eq shift) (simp add: take_bit_eq_mod)
  have "unat v mod 256 = unat b0" by (simp only: v mod_mult_self2 mod_less small(1))
  then show "ucast v = b0" using byte [of 0] by (intro word_unat_eq_iff [THEN iffD2]) simp
  have "unat v div 256 = unat b1 + 256 * (unat b2 + 256 * unat b3)" using v small(1) by simp
  then have "unat v div 256 mod 256 = unat b1" by (simp only: mod_mult_self2 mod_less small(2))
  then show "(ucast (drop_bit 8 v) :: u8) = b1" using byte [of 8] small(2) by (intro word_unat_eq_iff [THEN iffD2]) simp
  have high: "unat v div 65536 = unat b2 + 256 * unat b3" using v small(1,2) by (simp add: div_mult2_eq [of _ 256 256, simplified])
  then show "(ucast (drop_bit 16 v) :: u8) = b2" using byte [of 16] small(3) by (intro word_unat_eq_iff [THEN iffD2]) simp
  have "unat (ucast (drop_bit 16 v) :: u16) = unat v div 65536 mod 65536"
    by (simp add: unsigned_ucast_eq shift) (simp add: take_bit_eq_mod)
  then show "unat (ucast (drop_bit 16 v) :: u16) = unat b2 + 256 * unat b3" using high small(3,4) by simp
qed

lemma low_two_bits: "unat (n AND 3) = unat n mod 4" for n :: u8
  using take_bit_eq_mask [of 2 n] unsigned_take_bit_eq [of 2 n, where 'a = nat]
  by (simp add: mask_eq_exp_minus_1 take_bit_eq_mod)

lemma low_two_bits_aligned: "n AND 3 = 0 \<longleftrightarrow> unat n mod 4 = 0" for n :: u8
  by (simp add: low_two_bits flip: unat_eq_0)

lemma high_bits: "unat (n AND 0xFC) = unat n div 4 * 4" for n :: u8
proof -
  have "n - (n AND 3) = n AND NOT (n AND 3)" by (rule disjunctive_diff) (simp add: bit_and_iff)
  also have "\<dots> = n AND NOT 3" by (rule bit_word_eqI) (auto simp: bit_and_iff bit_or_iff bit_not_iff)
  also have "NOT 3 = (0xFC :: u8)" by simp
  finally have "n AND 0xFC = n - (n AND 3)" by (rule sym)
  moreover have "n AND 3 \<le> n" by (simp add: word_and_le2)
  ultimately have "unat (n AND 0xFC) = unat n - unat n mod 4" by (simp add: unat_sub low_two_bits)
  then show ?thesis by (simp add: minus_mod_eq_div_mult)
qed

text \<open>One call at a capability of the list.\<close>

lemma next_in_chain:
  assumes "config_bytes arch b w cfg" "capability_chain cfg (c # cs)" "unat (cap_offset c) mod 4 = 0"
  shows "capability_next arch b w (Some (cap_offset c)) = Some (c, case cs of [] \<Rightarrow> None | c' # _ \<Rightarrow> Some (cap_offset c'))"
proof -
  let ?at = "unat (cap_offset c)" and ?v = "arch_read arch b (cap_offset c) w"
  have "unat ?v = le_bytes [cfg ?at, cfg (?at + 1), cfg (?at + 2), cfg (?at + 3)]" using assms(1,3) by (simp add: config_bytes_def)
  note v = register_bytes [OF this]
  have c: "\<lparr>cap_offset = cap_offset c, cap_id = ucast ?v, private_header = ucast (drop_bit 16 ?v)\<rparr> = c"
    using assms(2) v(1,4) by (cases c) (auto simp: Let_def word_unat_eq_iff)
  have "(if ucast (drop_bit 8 ?v) = (0 :: u8) then None
      else if ucast (drop_bit 8 ?v) < (64 :: u8) \<or> ucast (drop_bit 8 ?v) AND (3 :: u8) \<noteq> 0 then None else Some (ucast (drop_bit 8 ?v))) =
    (case cs of [] \<Rightarrow> None | c' # _ \<Rightarrow> Some (cap_offset c'))"
    unfolding v(2) low_two_bits_aligned using assms(2)
    by (cases cs) (auto simp: Let_def word_unat_eq_iff word_less_nat_alt)
  then show ?thesis using c by (simp add: capability_next_def Let_def)
qed

lemma next_calls_None: "next_calls arch b w n None = replicate n None"
  by (induction n) (simp_all add: capability_next_def)

lemma chain_read:
  assumes "config_bytes arch b w cfg"
  shows "capability_chain cfg (c # cs) \<Longrightarrow> unat (cap_offset c) mod 4 = 0 \<Longrightarrow>
    next_calls arch b w (length (c # cs) + n) (Some (cap_offset c)) = map Some (c # cs) @ replicate n None"
proof (induction cs arbitrary: c)
  case Nil
  then show ?case using next_in_chain [OF assms, of c "[]"] by (simp add: next_calls_None)
next
  case (Cons c' cs)
  have "capability_chain cfg (c' # cs)" "unat (cap_offset c') mod 4 = 0" using Cons.prems(1) by (auto simp: Let_def)
  from Cons.IH [OF this] next_in_chain [OF assms Cons.prems] show ?case by simp
qed

text \<open>
  C33. Reading the capability list of a device: when the configuration space holds the list \<open>cs\<close> in the layout of the
  specification, starting where the pointer at 0x34 says (its two lowest bits do not count), the calls of
  \<open>next\<close> return the capabilities of the list in order, each with its offset, identifier and private bytes, and after
  the last one they return nothing, however often they are repeated.  A device whose status says that it has no
  list gives nothing at all.
\<close>

theorem capability_list_read:
  assumes "config_bytes arch b w cfg" and "capability_chain cfg (c # cs)" and "unat (cap_offset c) = unat (cfg 0x34) div 4 * 4"
  shows "next_calls arch b w (length (c # cs) + n) (capabilities_offset arch b w) =
    (if bit (cfg 6) 4 then map Some (c # cs) @ replicate n None else replicate (length (c # cs) + n) None)"
proof -
  have u: "unat (0x04 :: u8) = 4" "unat (0x34 :: u8) = 0x34" by simp_all
  have "unat (arch_read arch b 0x04 w) = le_bytes [cfg 4, cfg 5, cfg 6, cfg 7]"
    using assms(1) [unfolded config_bytes_def, rule_format, of "0x04"] u by simp
  note r4 = register_bytes [OF this]
  have "unat (arch_read arch b 0x34 w) = le_bytes [cfg 0x34, cfg 0x35, cfg 0x36, cfg 0x37]"
    using assms(1) [unfolded config_bytes_def, rule_format, of "0x34"] u by simp
  note r34 = register_bytes [OF this]
  have "bit (ucast (drop_bit 16 (arch_read arch b 0x04 w)) :: u16) 4 \<longleftrightarrow> bit (ucast (drop_bit 16 (arch_read arch b 0x04 w)) :: u8) 4"
    by (simp add: bit_ucast_iff)
  then have st: "bit (ucast (drop_bit 16 (arch_read arch b 0x04 w)) :: u16) 4 \<longleftrightarrow> bit (cfg 6) 4" using r4(3) by simp
  have "(cfg 0x34 AND 0xFC) = cap_offset c" using assms(3) high_bits by (simp add: word_unat_eq_iff)
  then have "capabilities_offset arch b w = (if bit (cfg 6) 4 then Some (cap_offset c) else None)"
    unfolding capabilities_offset_def Let_def st r34(1) by simp
  then show ?thesis using chain_read [OF assms(1,2)] assms(3) by (simp add: next_calls_None del: next_calls.simps)
qed

text \<open>A configuration space with two capabilities, message signalled interrupts at 0x50 behind power management at 0x40.\<close>

definition demo_config :: "nat \<Rightarrow> u8" where
  "demo_config i = (if i = 6 then 0x10 else if i = 0x34 then 0x42 else if i = 0x40 then 1 else if i = 0x41 then 0x50
     else if i = 0x42 then 3 else if i = 0x50 then 5 else if i = 0x53 then 0x80 else 0)"

definition demo_arch :: "unit pci_arch" where
  "demo_arch = \<lparr>arch_read = \<lambda>_ off _. of_nat (le_bytes (map (\<lambda>i. demo_config (unat off + i)) [0..<4])), arch_write = \<lambda>_ _ _ w. w\<rparr>"

lemma demo_arch_bytes: "config_bytes demo_arch b () demo_config"
proof -
  have "unat (of_nat (le_bytes [c0, c1, c2, c3]) :: u32) = le_bytes [c0, c1, c2, c3]" for c0 c1 c2 c3
    using le_bytes_less [of "[c0, c1, c2, c3]"] by (intro unat_of_nat_small) simp
  moreover have "[0..<4] = [0, 1, 2, 3 :: nat]" by (simp add: upt_rec eval_nat_numeral)
  ultimately show ?thesis by (simp add: config_bytes_def demo_arch_def)
qed

theorem capability_list_read_witness:
  "next_calls demo_arch \<lparr>bus = 0, device = 0, func = 0\<rparr> () 4 (capabilities_offset demo_arch \<lparr>bus = 0, device = 0, func = 0\<rparr> ()) =
     [Some \<lparr>cap_offset = 0x40, cap_id = 1, private_header = 3\<rparr>, Some \<lparr>cap_offset = 0x50, cap_id = 5, private_header = 0x8000\<rparr>, None, None]"
proof -
  let ?c = "\<lparr>cap_offset = 0x40, cap_id = 1, private_header = 3\<rparr>" and ?d = "\<lparr>cap_offset = 0x50, cap_id = 5, private_header = 0x8000\<rparr>"
  have chain: "capability_chain demo_config [?c, ?d]" by (simp add: demo_config_def)
  have at: "unat (cap_offset ?c) = unat (demo_config 0x34) div 4 * 4" by (simp add: demo_config_def)
  have st: "bit (demo_config 6) 4" by (simp add: demo_config_def)
  have four: "length [?c, ?d] + 2 = 4" by simp
  show ?thesis using capability_list_read [OF demo_arch_bytes chain at, of "\<lparr>bus = 0, device = 0, func = 0\<rparr>" 2, unfolded four] st
    by (simp add: numeral_2_eq_2 del: next_calls.simps)
qed

text \<open>
  Nothing in the iterator counts or remembers offsets: at a capability whose next offset is its own, every call returns it again.
\<close>

theorem capability_self_loop:
  assumes "64 \<le> off" and "off AND 3 = 0" and "ucast (drop_bit 8 (arch_read arch b off w)) = off"
  shows "next_calls arch b w n (Some off) = replicate n (Some \<lparr>cap_offset = off, cap_id = ucast (arch_read arch b off w),
    private_header = ucast (drop_bit 16 (arch_read arch b off w))\<rparr>)"
proof -
  have "off \<noteq> 0" "\<not> off < 64" using assms(1) by auto
  then show ?thesis using assms(2,3) by (induction n) (simp_all add: capability_next_def Let_def)
qed

end
