(* ===== verification/PciDevices.thy ===== *)
theory PciDevices
  imports PciConfig
begin

text \<open>
  PCI functions as \<open>drivers/pci.rs\<close> represents them: the three header layouts, reading a header
  out of configuration space, the list of devices found, the command register, and the
  enumeration of buses, devices and functions.

  The device list of the driver is the list argument of the operations that extend it.  Bus
  enumeration recurses from a bridge to its secondary bus; \<open>pci_check_bus\<close> takes the depth it may
  recurse to as fuel, and \<open>None\<close> means that the recursion went deeper.
\<close>

datatype HeaderType = Standard | PciPciBridge | PciCardbusBridge | Unrecognised u8

definition header_type_from :: "u8 \<Rightarrow> HeaderType" where
  "header_type_from value =
     (if value = 0x00 then Standard
      else if value = 0x01 then PciPciBridge
      else if value = 0x02 then PciCardbusBridge
      else Unrecognised value)"

datatype MemoryBarType = Width32 | Below1MiB | Width64

datatype BarInfo =
    Memory (address_type: MemoryBarType) (prefetchable: bool) (mem_address: u64) (mem_size: u32) (virtaddress: nat)
  | IO (io_address: u32) (io_size: u32)
  | Unused

record PciStandardDeviceBar =
  bar0 :: BarInfo
  bar1 :: BarInfo
  bar2 :: BarInfo
  bar3 :: BarInfo
  bar4 :: BarInfo
  bar5 :: BarInfo

definition bar_default :: PciStandardDeviceBar where
  "bar_default = \<lparr>bar0 = Unused, bar1 = Unused, bar2 = Unused, bar3 = Unused, bar4 = Unused, bar5 = Unused\<rparr>"

record PciDeviceStructureHeader =
  msix_mmio_vaddr :: u64
  msix_mmio_size :: u64
  msix_offset :: u32
  msix_table_size :: u16
  bus_device_function :: BusDeviceFunction
  vendor_id :: u16
  device_id :: u16
  pci_command :: u16
  pci_status :: u16
  revision_id :: u8
  prog_if :: u8
  sub_class :: u8
  class_code :: u8
  cache_line_size :: u8
  latency_timer :: u8
  header_type :: u8
  bist :: u8

record PciDeviceStructureGeneralDevice =
  gd_header :: PciDeviceStructureHeader
  standard_device_bar :: PciStandardDeviceBar
  cardbus_cis_pointer :: u32
  gd_subsystem_vendor_id :: u16
  gd_subsystem_id :: u16
  gd_expansion_rom_base_address :: u32
  capabilities_pointer :: u8
  gd_reserved0 :: u8
  gd_reserved1 :: u16
  gd_reserved2 :: u32
  gd_interrupt_line :: u8
  gd_interrupt_pin :: u8
  min_grant :: u8
  max_latency :: u8

record PciDeviceStructurePciToPciBridge =
  br_header :: PciDeviceStructureHeader
  br_bar0 :: u32
  br_bar1 :: u32
  primary_bus_number :: u8
  secondary_bus_number :: u8
  br_subordinate_bus_number :: u8
  secondary_latency_timer :: u8
  io_base :: u8
  io_limit :: u8
  br_secondary_status :: u16
  memory_base :: u16
  memory_limit :: u16
  prefetchable_memory_base :: u16
  prefetchable_memory_limit :: u16
  prefetchable_base_upper_32_bits :: u32
  prefetchable_limit_upper_32_bits :: u32
  io_base_upper_16_bits :: u16
  io_limit_upper_16_bits :: u16
  capability_pointer :: u8
  br_reserved0 :: u8
  br_reserved1 :: u16
  br_expansion_rom_base_address :: u32
  br_interrupt_line :: u8
  br_interrupt_pin :: u8
  br_bridge_control :: u16

record PciDeviceStructurePciToCardbusBridge =
  cb_header :: PciDeviceStructureHeader
  cardbus_socket_ex_ca_base_address :: u32
  offset_of_capabilities_list :: u8
  cb_reserved :: u8
  cb_secondary_status :: u16
  pci_bus_number :: u8
  card_bus_bus_number :: u8
  cb_subordinate_bus_number :: u8
  card_bus_latency_timer :: u8
  memory_base_address0 :: u32
  memory_limit0 :: u32
  memory_base_address1 :: u32
  memory_limit1 :: u32
  io_base_address0 :: u32
  io_limit0 :: u32
  io_base_address1 :: u32
  io_limit1 :: u32
  cb_interrupt_line :: u8
  cb_interrupt_pin :: u8
  cb_bridge_control :: u16
  subsystem_device_id :: u16
  cb_subsystem_vendor_id :: u16
  pc_card_legacy_mode_base_address_16_bit :: u32

text \<open>\<open>Box<dyn PciDeviceStructure>\<close>, with the methods of the trait.\<close>

datatype PciDevice =
    General PciDeviceStructureGeneralDevice
  | Bridge PciDeviceStructurePciToPciBridge
  | Cardbus PciDeviceStructurePciToCardbusBridge

fun dev_header_type :: "PciDevice \<Rightarrow> HeaderType" where
  "dev_header_type (General _) = Standard"
| "dev_header_type (Bridge _) = PciPciBridge"
| "dev_header_type (Cardbus _) = PciCardbusBridge"

fun common_header :: "PciDevice \<Rightarrow> PciDeviceStructureHeader" where
  "common_header (General d) = gd_header d"
| "common_header (Bridge d) = br_header d"
| "common_header (Cardbus d) = cb_header d"

fun set_common_header :: "PciDevice \<Rightarrow> PciDeviceStructureHeader \<Rightarrow> PciDevice" where
  "set_common_header (General d) h = General (d\<lparr>gd_header := h\<rparr>)"
| "set_common_header (Bridge d) h = Bridge (d\<lparr>br_header := h\<rparr>)"
| "set_common_header (Cardbus d) h = Cardbus (d\<lparr>cb_header := h\<rparr>)"

fun as_standard_device :: "PciDevice \<Rightarrow> PciDeviceStructureGeneralDevice option" where
  "as_standard_device (General d) = Some d"
| "as_standard_device _ = None"

fun as_pci_to_pci_bridge_device :: "PciDevice \<Rightarrow> PciDeviceStructurePciToPciBridge option" where
  "as_pci_to_pci_bridge_device (Bridge d) = Some d"
| "as_pci_to_pci_bridge_device _ = None"

fun as_pci_to_carbus_bridge_device :: "PciDevice \<Rightarrow> PciDeviceStructurePciToCardbusBridge option" where
  "as_pci_to_carbus_bridge_device (Cardbus d) = Some d"
| "as_pci_to_carbus_bridge_device _ = None"

fun dev_capabilities :: "PciDevice \<Rightarrow> (BusDeviceFunction \<times> u8 option) option" where
  "dev_capabilities (General d) = Some (bus_device_function (gd_header d), Some (capabilities_pointer d))"
| "dev_capabilities _ = None"

text \<open>The flags the two registers define; \<open>from_bits_truncate\<close> drops the others.\<close>

definition Status_all :: u16 where
  "Status_all = 0xF9B8"

definition Command_all :: u16 where
  "Command_all = 0x077F"

definition status_command :: "PciDevice \<Rightarrow> u16 \<times> u16" where
  "status_command d =
     (pci_status (common_header d) AND Status_all, pci_command (common_header d) AND Command_all)"

definition set_command :: "'w pci_arch \<Rightarrow> PciDevice \<Rightarrow> u16 \<Rightarrow> 'w \<Rightarrow> PciDevice \<times> 'w" where
  "set_command arch d command w =
     (let h = (common_header d)\<lparr>pci_command := command\<rparr> in
      (set_common_header d h, arch_write arch (bus_device_function h) 0x04 (ucast command) w))"

definition enable_master :: "'w pci_arch \<Rightarrow> PciDevice \<Rightarrow> 'w \<Rightarrow> PciDevice \<times> 'w" where
  "enable_master arch d w = set_command arch d (1 OR 2 OR 4) w"

text \<open>\<open>get_pci_device_structure\<close> and its mutable variant: the devices of a class.\<close>

definition get_pci_device_structure :: "PciDevice list \<Rightarrow> u8 \<Rightarrow> u8 \<Rightarrow> PciDevice list" where
  "get_pci_device_structure devs class sub =
     filter (\<lambda>d. class_code (common_header d) = class \<and> sub_class (common_header d) = sub) devs"

section \<open>Reading a header\<close>

text \<open>The casts of a register: \<open>result as u16\<close>, \<open>(result >> 16) as u16\<close>, and the four bytes.\<close>

definition lo16 :: "u32 \<Rightarrow> u16" where "lo16 r = ucast r"
definition hi16 :: "u32 \<Rightarrow> u16" where "hi16 r = ucast (drop_bit 16 r)"
definition byte0 :: "u32 \<Rightarrow> u8" where "byte0 r = ucast r"
definition byte1 :: "u32 \<Rightarrow> u8" where "byte1 r = ucast (drop_bit 8 r)"
definition byte2 :: "u32 \<Rightarrow> u8" where "byte2 r = ucast (drop_bit 16 r)"
definition byte3 :: "u32 \<Rightarrow> u8" where "byte3 r = ucast (drop_bit 24 r)"

definition pci_read_general_device_header ::
  "(u8 \<Rightarrow> u32) \<Rightarrow> PciDeviceStructureHeader \<Rightarrow> PciDeviceStructureGeneralDevice" where
  "pci_read_general_device_header reg h = \<lparr>
     gd_header = h,
     standard_device_bar = bar_default,
     cardbus_cis_pointer = reg 0x28,
     gd_subsystem_vendor_id = lo16 (reg 0x2c),
     gd_subsystem_id = hi16 (reg 0x2c),
     gd_expansion_rom_base_address = reg 0x30,
     capabilities_pointer = byte0 (reg 0x34),
     gd_reserved0 = byte1 (reg 0x34),
     gd_reserved1 = hi16 (reg 0x34),
     gd_reserved2 = reg 0x38,
     gd_interrupt_line = byte0 (reg 0x3c),
     gd_interrupt_pin = byte1 (reg 0x3c),
     min_grant = byte2 (reg 0x3c),
     max_latency = byte3 (reg 0x3c)\<rparr>"

definition pci_read_pci_to_pci_bridge_header ::
  "(u8 \<Rightarrow> u32) \<Rightarrow> PciDeviceStructureHeader \<Rightarrow> PciDeviceStructurePciToPciBridge" where
  "pci_read_pci_to_pci_bridge_header reg h = \<lparr>
     br_header = h,
     br_bar0 = reg 0x10,
     br_bar1 = reg 0x14,
     primary_bus_number = byte0 (reg 0x18),
     secondary_bus_number = byte1 (reg 0x18),
     br_subordinate_bus_number = byte2 (reg 0x18),
     secondary_latency_timer = byte3 (reg 0x18),
     io_base = byte0 (reg 0x1c),
     io_limit = byte1 (reg 0x1c),
     br_secondary_status = hi16 (reg 0x1c),
     memory_base = lo16 (reg 0x20),
     memory_limit = hi16 (reg 0x20),
     prefetchable_memory_base = lo16 (reg 0x24),
     prefetchable_memory_limit = hi16 (reg 0x24),
     prefetchable_base_upper_32_bits = reg 0x28,
     prefetchable_limit_upper_32_bits = reg 0x2c,
     io_base_upper_16_bits = lo16 (reg 0x30),
     io_limit_upper_16_bits = hi16 (reg 0x30),
     capability_pointer = byte0 (reg 0x34),
     br_reserved0 = byte1 (reg 0x34),
     br_reserved1 = hi16 (reg 0x34),
     br_expansion_rom_base_address = reg 0x38,
     br_interrupt_line = byte0 (reg 0x3c),
     br_interrupt_pin = byte1 (reg 0x3c),
     br_bridge_control = hi16 (reg 0x3c)\<rparr>"

definition pci_read_pci_to_cardbus_bridge_header ::
  "(u8 \<Rightarrow> u32) \<Rightarrow> PciDeviceStructureHeader \<Rightarrow> PciDeviceStructurePciToCardbusBridge" where
  "pci_read_pci_to_cardbus_bridge_header reg h = \<lparr>
     cb_header = h,
     cardbus_socket_ex_ca_base_address = reg 0x10,
     offset_of_capabilities_list = byte0 (reg 0x14),
     cb_reserved = byte1 (reg 0x14),
     cb_secondary_status = hi16 (reg 0x14),
     pci_bus_number = byte0 (reg 0x18),
     card_bus_bus_number = byte1 (reg 0x18),
     cb_subordinate_bus_number = byte2 (reg 0x18),
     card_bus_latency_timer = byte3 (reg 0x18),
     memory_base_address0 = reg 0x1c,
     memory_limit0 = reg 0x20,
     memory_base_address1 = reg 0x24,
     memory_limit1 = reg 0x28,
     io_base_address0 = reg 0x2c,
     io_limit0 = reg 0x30,
     io_base_address1 = reg 0x34,
     io_limit1 = reg 0x38,
     cb_interrupt_line = byte0 (reg 0x3c),
     cb_interrupt_pin = byte1 (reg 0x3c),
     cb_bridge_control = hi16 (reg 0x3c),
     subsystem_device_id = lo16 (reg 0x40),
     cb_subsystem_vendor_id = hi16 (reg 0x40),
     pc_card_legacy_mode_base_address_16_bit = reg 0x44\<rparr>"

text \<open>\<open>cs b off\<close> is \<open>PciArch::read_config(&b, off)\<close> at the time of the call.\<close>

type_synonym config_space = "BusDeviceFunction \<Rightarrow> u8 \<Rightarrow> u32"

definition read_common_header :: "config_space \<Rightarrow> BusDeviceFunction \<Rightarrow> PciDeviceStructureHeader" where
  "read_common_header cs b = \<lparr>
     msix_mmio_vaddr = 0, msix_mmio_size = 0, msix_offset = 0, msix_table_size = 0,
     bus_device_function = b,
     vendor_id = lo16 (cs b 0x00), device_id = hi16 (cs b 0x00),
     pci_command = lo16 (cs b 0x04), pci_status = hi16 (cs b 0x04),
     revision_id = byte0 (cs b 0x08), prog_if = byte1 (cs b 0x08), sub_class = byte2 (cs b 0x08), class_code = byte3 (cs b 0x08),
     cache_line_size = byte0 (cs b 0x0c), latency_timer = byte1 (cs b 0x0c), header_type = byte2 (cs b 0x0c), bist = byte3 (cs b 0x0c)\<rparr>"

definition read_device :: "config_space \<Rightarrow> BusDeviceFunction \<Rightarrow> PciError + PciDevice" where
  "read_device cs b =
     (let h = read_common_header cs b in
      if vendor_id h = 0xffff then Inl GetWrongHeader
      else case header_type_from (header_type h AND 0x7f) of
        Standard \<Rightarrow> Inr (General (pci_read_general_device_header (cs b) h))
      | PciPciBridge \<Rightarrow> Inr (Bridge (pci_read_pci_to_pci_bridge_header (cs b) h))
      | PciCardbusBridge \<Rightarrow> Inr (Cardbus (pci_read_pci_to_cardbus_bridge_header (cs b) h))
      | Unrecognised _ \<Rightarrow> Inl UnrecognisedHeaderType)"

definition pci_read_header ::
  "config_space \<Rightarrow> BusDeviceFunction \<Rightarrow> bool \<Rightarrow> PciDevice list \<Rightarrow> (PciError + PciDevice) \<times> PciDevice list" where
  "pci_read_header cs b add_to_list devs =
     (case read_device cs b of
        Inl e \<Rightarrow> (Inl e, devs)
      | Inr d \<Rightarrow> (Inr d, if add_to_list then devs @ [d] else devs))"

section \<open>Enumeration\<close>

text \<open>
  A step of the enumeration returns \<open>Result<u8, PciError>\<close> and the extended list; the list keeps
  what was found before an error.
\<close>

type_synonym scan = "((PciError + u8) \<times> PciDevice list) option"

fun scan_each :: "('a \<Rightarrow> PciDevice list \<Rightarrow> scan) \<Rightarrow> 'a list \<Rightarrow> PciDevice list \<Rightarrow> scan" where
  "scan_each f [] devs = Some (Inr 0, devs)"
| "scan_each f (x # xs) devs =
     (case f x devs of
        None \<Rightarrow> None
      | Some (Inl e, devs') \<Rightarrow> Some (Inl e, devs')
      | Some (Inr _, devs') \<Rightarrow> scan_each f xs devs')"

definition pci_check_function ::
  "config_space \<Rightarrow> (u8 \<Rightarrow> PciDevice list \<Rightarrow> scan) \<Rightarrow> BusDeviceFunction \<Rightarrow> PciDevice list \<Rightarrow> scan" where
  "pci_check_function cs check_bus b devs =
     (case pci_read_header cs b True devs of
        (Inl e, devs') \<Rightarrow> if e = GetWrongHeader then Some (Inr 255, devs') else Some (Inl e, devs')
      | (Inr d, devs') \<Rightarrow>
          let h = common_header d in
          if class_code h = 0x06 \<and> (sub_class h = 0x04 \<or> sub_class h = 0x09) then
            (case as_pci_to_pci_bridge_device d of
               None \<Rightarrow> Some (Inl PciDeviceStructureTransformError, devs')
             | Some br \<Rightarrow>
                 (case check_bus (secondary_bus_number br) devs' of
                    None \<Rightarrow> None
                  | Some (Inl e, devs'') \<Rightarrow> Some (Inl e, devs'')
                  | Some (Inr _, devs'') \<Rightarrow> Some (Inr 0, devs'')))
          else Some (Inr 0, devs'))"

definition pci_check_device ::
  "config_space \<Rightarrow> (u8 \<Rightarrow> PciDevice list \<Rightarrow> scan) \<Rightarrow> u8 \<Rightarrow> u8 \<Rightarrow> PciDevice list \<Rightarrow> scan" where
  "pci_check_device cs check_bus bs dv devs =
     (let b = \<lparr>bus = bs, device = dv, func = 0\<rparr> in
      case pci_read_header cs b False devs of
        (Inl e, devs') \<Rightarrow> if e = GetWrongHeader then Some (Inr 255, devs') else Some (Inl e, devs')
      | (Inr d, devs') \<Rightarrow>
          (case pci_check_function cs check_bus b devs' of
             None \<Rightarrow> None
           | Some (Inl e, devs'') \<Rightarrow> Some (Inl e, devs'')
           | Some (Inr _, devs'') \<Rightarrow>
               if header_type (common_header d) AND 0x80 \<noteq> 0
               then scan_each (\<lambda>f. pci_check_function cs check_bus \<lparr>bus = bs, device = dv, func = f\<rparr>)
                      (map of_nat [1..<8]) devs''
               else Some (Inr 0, devs'')))"

primrec pci_check_bus :: "nat \<Rightarrow> config_space \<Rightarrow> u8 \<Rightarrow> PciDevice list \<Rightarrow> scan" where
  "pci_check_bus 0 cs bs devs = None"
| "pci_check_bus (Suc depth) cs bs devs =
     scan_each (pci_check_device cs (pci_check_bus depth cs) bs) (map of_nat [0..<32]) devs"

definition pci_check_all_buses :: "nat \<Rightarrow> config_space \<Rightarrow> PciDevice list \<Rightarrow> scan" where
  "pci_check_all_buses depth cs devs =
     (case pci_read_header cs \<lparr>bus = 0, device = 0, func = 0\<rparr> False devs of
        (Inl e, devs') \<Rightarrow> Some (Inl e, devs')
      | (Inr d, devs') \<Rightarrow>
          (case pci_check_bus depth cs 0 devs' of
             None \<Rightarrow> None
           | Some (Inl e, devs'') \<Rightarrow> Some (Inl e, devs'')
           | Some (Inr _, devs'') \<Rightarrow>
               if header_type (common_header d) AND 0x80 \<noteq> 0
               then scan_each (pci_check_bus depth cs) (map of_nat [1..<8]) devs''
               else Some (Inr 0, devs'')))"

text \<open>\<open>init\<close>: the enumeration, and a log message for every device in the list.\<close>

datatype PciMessage =
    Initializing
  | Init_failed PciError
  | Device_total nat
  | Found_with_capabilities u8 u8 u16 u8 u16 u16
  | Found HeaderType u8 u8 u16
  | Initialized

definition device_message :: "PciDevice \<Rightarrow> PciMessage list result" where
  "device_message d =
     (let h = common_header d in
      case dev_header_type d of
        Standard \<Rightarrow>
          if pci_status h AND 0x10 \<noteq> 0
          then and_then (unwrap (as_standard_device d)) (\<lambda>g.
            Inr [Found_with_capabilities (class_code h) (sub_class h) (pci_status h) (capabilities_pointer g) (vendor_id h) (device_id h)])
          else Inr [Found Standard (class_code h) (sub_class h) (pci_status h)]
      | PciPciBridge \<Rightarrow> Inr [Found PciPciBridge (class_code h) (sub_class h) (pci_status h)]
      | PciCardbusBridge \<Rightarrow> Inr [Found PciCardbusBridge (class_code h) (sub_class h) (pci_status h)]
      | Unrecognised _ \<Rightarrow> Inr [])"

definition pci_init :: "nat \<Rightarrow> config_space \<Rightarrow> PciDevice list \<Rightarrow> (PciDevice list \<times> PciMessage list) outcome" where
  "pci_init depth cs devs =
     (case pci_check_all_buses depth cs devs of
        None \<Rightarrow> None
      | Some (Inl e, devs) \<Rightarrow> Some (Inr (devs, [Initializing, Init_failed e]))
      | Some (Inr _, devs) \<Rightarrow>
          Some (and_then (for_each (\<lambda>d ls. and_then (device_message d) (\<lambda>l. Inr (ls @ l))) devs [Initializing, Device_total (length devs)])
            (\<lambda>ls. Inr (devs, ls @ [Initialized]))))"

lemma device_message_ok: "\<exists>l. device_message d = Inr [l]"
  by (cases d) (simp_all add: device_message_def Let_def)

lemma device_messages_ok:
  "\<exists>ms. length ms = length devs \<and> for_each (\<lambda>d ls. and_then (device_message d) (\<lambda>l. Inr (ls @ l))) devs ls = Inr (ls @ ms)"
proof (induction devs arbitrary: ls)
  case Nil
  then show ?case by simp
next
  case (Cons d devs)
  obtain l where l: "device_message d = Inr [l]" using device_message_ok by blast
  obtain ms where "length ms = length devs" "for_each (\<lambda>d ls. and_then (device_message d) (\<lambda>l. Inr (ls @ l))) devs (ls @ [l]) = Inr ((ls @ [l]) @ ms)"
    using Cons.IH by blast
  with l show ?case by (intro exI [of _ "l # ms"]) simp
qed

text \<open>\<open>init\<close> never panics: it reports a failed enumeration, or one line for every device found.\<close>

lemma pci_init_reports:
  assumes "pci_check_all_buses depth cs devs = Some (r, devs')"
  shows "\<exists>ms. pci_init depth cs devs = Some (Inr (devs', ms)) \<and>
    (case r of Inl e \<Rightarrow> ms = [Initializing, Init_failed e] | Inr _ \<Rightarrow> length ms = length devs' + 3)"
proof (cases r)
  case (Inr n)
  obtain ms where "length ms = length devs'" "for_each (\<lambda>d ls. and_then (device_message d) (\<lambda>l. Inr (ls @ l))) devs' [Initializing, Device_total (length devs')] =
      Inr ([Initializing, Device_total (length devs')] @ ms)" using device_messages_ok by blast
  then show ?thesis using assms Inr by (simp add: pci_init_def)
qed (use assms in \<open>simp add: pci_init_def\<close>)

section \<open>What the enumeration finds\<close>

text \<open>
  The functions of a device slot that are looked at, the bus behind a function if it is a
  bridge, and the devices in the order they are found (the reference the enumeration is compared
  with).
\<close>

definition slot_funcs :: "config_space \<Rightarrow> u8 \<Rightarrow> u8 \<Rightarrow> BusDeviceFunction list" where
  "slot_funcs cs bs dv =
     (case read_device cs \<lparr>bus = bs, device = dv, func = 0\<rparr> of
        Inl _ \<Rightarrow> []
      | Inr d \<Rightarrow> \<lparr>bus = bs, device = dv, func = 0\<rparr> #
          (if header_type (common_header d) AND 0x80 \<noteq> 0
           then map (\<lambda>f. \<lparr>bus = bs, device = dv, func = f\<rparr>) (map of_nat [1..<8]) else []))"

definition bus_behind :: "PciDevice \<Rightarrow> u8 option" where
  "bus_behind d =
     (if class_code (common_header d) = 0x06 \<and> (sub_class (common_header d) = 0x04 \<or> sub_class (common_header d) = 0x09)
      then map_option secondary_bus_number (as_pci_to_pci_bridge_device d) else None)"

definition func_list :: "config_space \<Rightarrow> (u8 \<Rightarrow> PciDevice list) \<Rightarrow> BusDeviceFunction \<Rightarrow> PciDevice list" where
  "func_list cs below b =
     (case read_device cs b of
        Inl _ \<Rightarrow> []
      | Inr d \<Rightarrow> d # (case bus_behind d of None \<Rightarrow> [] | Some s \<Rightarrow> below s))"

definition slot_list :: "config_space \<Rightarrow> (u8 \<Rightarrow> PciDevice list) \<Rightarrow> u8 \<Rightarrow> u8 \<Rightarrow> PciDevice list" where
  "slot_list cs below bs dv = concat (map (func_list cs below) (slot_funcs cs bs dv))"

primrec bus_list :: "nat \<Rightarrow> config_space \<Rightarrow> u8 \<Rightarrow> PciDevice list" where
  "bus_list 0 cs bs = []"
| "bus_list (Suc n) cs bs = concat (map (slot_list cs (bus_list n cs) bs) (map of_nat [0..<32]))"

text \<open>\<open>yields f g\<close>: whenever step \<open>f x\<close> succeeds it appends exactly \<open>g x\<close>.\<close>

definition yields :: "('a \<Rightarrow> PciDevice list \<Rightarrow> scan) \<Rightarrow> ('a \<Rightarrow> PciDevice list) \<Rightarrow> bool" where
  "yields f g \<longleftrightarrow> (\<forall>x devs r devs'. f x devs = Some (Inr r, devs') \<longrightarrow> devs' = devs @ g x)"

lemma yieldsD: "yields f g \<Longrightarrow> f x devs = Some (Inr r, devs') \<Longrightarrow> devs' = devs @ g x"
  by (simp add: yields_def)

lemma scan_each_yields:
  assumes "yields f g" and "scan_each f xs devs = Some (Inr r, devs')"
  shows "devs' = devs @ concat (map g xs)"
  using assms(2)
proof (induction xs arbitrary: devs)
  case Nil
  then show ?case by simp
next
  case (Cons x xs)
  then obtain r1 devs1 where "f x devs = Some (Inr r1, devs1)" "scan_each f xs devs1 = Some (Inr r, devs')"
    by (auto split: option.splits sum.splits prod.splits)
  with Cons.IH yieldsD [OF assms(1)] show ?case by fastforce
qed

lemma scan_each_all:
  assumes "scan_each f xs devs = Some (Inr r, devs')" and "x \<in> set xs"
  shows "\<exists>devs1 r1 devs2. f x devs1 = Some (Inr r1, devs2)"
  using assms by (induction xs arbitrary: devs) (auto split: option.splits sum.splits prod.splits)

lemma scan_each_total:
  assumes "\<And>x devs. x \<in> set xs \<Longrightarrow> f x devs \<noteq> None"
  shows "scan_each f xs devs \<noteq> None"
  using assms by (induction xs arbitrary: devs) (auto split: option.splits sum.splits prod.splits)

lemma check_function_yields:
  assumes "yields check_bus below"
  shows "yields (pci_check_function cs check_bus) (func_list cs below)"
  unfolding yields_def
proof (intro allI impI)
  fix b devs r devs'
  assume ok: "pci_check_function cs check_bus b devs = Some (Inr r, devs')"
  show "devs' = devs @ func_list cs below b"
  proof (cases "read_device cs b")
    case (Inl e)
    with ok show ?thesis by (auto simp: pci_check_function_def pci_read_header_def func_list_def split: if_splits)
  next
    case (Inr d)
    with ok show ?thesis
      by (auto simp: pci_check_function_def pci_read_header_def func_list_def bus_behind_def Let_def
          split: if_splits option.splits sum.splits prod.splits dest!: yieldsD [OF assms])
  qed
qed

lemma check_device_yields:
  assumes "yields check_bus below"
  shows "yields (pci_check_device cs check_bus bs) (slot_list cs below bs)"
  unfolding yields_def
proof (intro allI impI)
  fix dv devs r devs'
  assume ok: "pci_check_device cs check_bus bs dv devs = Some (Inr r, devs')"
  let ?b = "\<lambda>f. \<lparr>bus = bs, device = dv, func = f\<rparr> :: BusDeviceFunction"
  note fy = check_function_yields [OF assms, of cs]
  have fy': "yields (\<lambda>f. pci_check_function cs check_bus (?b f)) (\<lambda>f. func_list cs below (?b f))"
    using fy by (simp add: yields_def)
  show "devs' = devs @ slot_list cs below bs dv"
  proof (cases "read_device cs (?b 0)")
    case (Inl e)
    with ok show ?thesis
      by (auto simp: pci_check_device_def pci_read_header_def slot_list_def slot_funcs_def split: if_splits)
  next
    case (Inr d)
    with ok obtain r1 devs1 where f0: "pci_check_function cs check_bus (?b 0) devs = Some (Inr r1, devs1)"
      and more: "(if header_type (common_header d) AND 0x80 \<noteq> 0
        then scan_each (\<lambda>f. pci_check_function cs check_bus (?b f)) (map of_nat [1..<8]) devs1
        else Some (Inr 0, devs1)) = Some (Inr r, devs')"
      by (auto simp: pci_check_device_def pci_read_header_def Let_def split: option.splits sum.splits prod.splits)
    have d1: "devs1 = devs @ func_list cs below (?b 0)" using yieldsD [OF fy f0] .
    show ?thesis
    proof (cases "header_type (common_header d) AND 0x80 = 0")
      case True
      with more d1 Inr show ?thesis by (simp add: slot_list_def slot_funcs_def)
    next
      case False
      with more have "scan_each (\<lambda>f. pci_check_function cs check_bus (?b f)) (map of_nat [1..<8]) devs1 = Some (Inr r, devs')"
        by simp
      from scan_each_yields [OF fy' this] d1 False Inr show ?thesis
        by (simp add: slot_list_def slot_funcs_def comp_def del: upt_rec_numeral)
    qed
  qed
qed

lemma check_bus_yields: "yields (pci_check_bus n cs) (bus_list n cs)"
proof (induction n)
  case 0
  then show ?case by (simp add: yields_def)
next
  case (Suc n)
  show ?case unfolding yields_def pci_check_bus.simps bus_list.simps
    using scan_each_yields [OF check_device_yields [OF Suc.IH, of cs]] by blast
qed

text \<open>The functions that exist for the enumeration, and the buses it reaches from a bus.\<close>

definition visible :: "config_space \<Rightarrow> BusDeviceFunction \<Rightarrow> PciDevice \<Rightarrow> bool" where
  "visible cs b d \<longleftrightarrow> (\<exists>i < 32. device b = of_nat i) \<and> b \<in> set (slot_funcs cs (bus b) (device b)) \<and> read_device cs b = Inr d"

inductive reaches :: "config_space \<Rightarrow> u8 \<Rightarrow> u8 \<Rightarrow> bool" for cs bs where
  here: "reaches cs bs bs"
| behind: "reaches cs bs (bus b) \<Longrightarrow> visible cs b d \<Longrightarrow> bus_behind d = Some s \<Longrightarrow> reaches cs bs s"

lemma slot_funcs_fields: "b \<in> set (slot_funcs cs bs dv) \<Longrightarrow> bus b = bs \<and> device b = dv"
  by (auto simp: slot_funcs_def split: sum.splits if_splits)

lemma in_bus_list:
  "d \<in> set (bus_list (Suc n) cs bs) \<longleftrightarrow>
     (\<exists>b e. bus b = bs \<and> visible cs b e \<and> (d = e \<or> (\<exists>s. bus_behind e = Some s \<and> d \<in> set (bus_list n cs s))))"
proof
  assume "d \<in> set (bus_list (Suc n) cs bs)"
  then obtain i b where b: "i < 32" "b \<in> set (slot_funcs cs bs (of_nat i))" "d \<in> set (func_list cs (bus_list n cs) b)"
    by (auto simp: slot_list_def simp del: upt_rec_numeral)
  from b(3) obtain e where e: "read_device cs b = Inr e" by (cases "read_device cs b") (auto simp: func_list_def)
  have e2: "d = e \<or> (\<exists>s. bus_behind e = Some s \<and> d \<in> set (bus_list n cs s))"
    using b(3) e by (cases "bus_behind e") (auto simp: func_list_def)
  have "bus b = bs \<and> visible cs b e" using slot_funcs_fields [OF b(2)] b(1,2) e by (auto simp: visible_def)
  with e2 show "\<exists>b e. bus b = bs \<and> visible cs b e \<and> (d = e \<or> (\<exists>s. bus_behind e = Some s \<and> d \<in> set (bus_list n cs s)))"
    by blast
next
  assume "\<exists>b e. bus b = bs \<and> visible cs b e \<and> (d = e \<or> (\<exists>s. bus_behind e = Some s \<and> d \<in> set (bus_list n cs s)))"
  then obtain b e where b: "bus b = bs" "visible cs b e" "d = e \<or> (\<exists>s. bus_behind e = Some s \<and> d \<in> set (bus_list n cs s))"
    by blast
  then obtain i where i: "i < 32" "device b = of_nat i" "b \<in> set (slot_funcs cs bs (of_nat i))" "read_device cs b = Inr e"
    by (auto simp: visible_def)
  have "d \<in> set (func_list cs (bus_list n cs) b)" using b(3) i(4) by (auto simp: func_list_def)
  with i show "d \<in> set (bus_list (Suc n) cs bs)" by (auto simp: slot_list_def simp del: upt_rec_numeral)
qed

lemma bus_list_sound:
  "d \<in> set (bus_list n cs s) \<Longrightarrow> reaches cs bs s \<Longrightarrow> \<exists>b. reaches cs bs (bus b) \<and> visible cs b d"
proof (induction n arbitrary: s)
  case 0
  then show ?case by simp
next
  case (Suc n)
  from Suc.prems(1) obtain b e where b: "bus b = s" "visible cs b e"
    "d = e \<or> (\<exists>t. bus_behind e = Some t \<and> d \<in> set (bus_list n cs t))" unfolding in_bus_list by blast
  then show ?case using Suc.IH Suc.prems(2) reaches.behind [of cs bs b e] by blast
qed

lemma check_bus_below:
  assumes "pci_check_bus (Suc n) cs bs devs = Some (Inr r, devs')" and "bus b = bs" and "visible cs b d"
    and "bus_behind d = Some s"
  shows "\<exists>devs1 r1 devs2. pci_check_bus n cs s devs1 = Some (Inr r1, devs2)"
proof -
  from assms(2,3) obtain i where i: "i < 32" "device b = of_nat i" "b \<in> set (slot_funcs cs bs (of_nat i))" "read_device cs b = Inr d"
    by (auto simp: visible_def)
  have "of_nat i \<in> set (map of_nat [0..<32])" using i(1) by (auto simp del: upt_rec_numeral)
  with scan_each_all [of "pci_check_device cs (pci_check_bus n cs) bs"] assms(1) obtain devs1 r1 devs2 where
    dv: "pci_check_device cs (pci_check_bus n cs) bs (of_nat i) devs1 = Some (Inr r1, devs2)"
    by (metis pci_check_bus.simps(2))
  have "\<exists>devs3 r3 devs4. pci_check_function cs (pci_check_bus n cs) b devs3 = Some (Inr r3, devs4)"
  proof (cases "func b = 0")
    case True
    then have "b = \<lparr>bus = bs, device = of_nat i, func = 0\<rparr>" using assms(2) i(2) by simp
    with dv i(3) show ?thesis
      by (auto simp: pci_check_device_def pci_read_header_def slot_funcs_def Let_def
          split: option.splits sum.splits prod.splits if_splits simp del: upt_rec_numeral)
  next
    case False
    obtain d0 where d0: "read_device cs \<lparr>bus = bs, device = of_nat i, func = 0\<rparr> = Inr d0"
      using i(3) by (cases "read_device cs \<lparr>bus = bs, device = of_nat i, func = 0\<rparr>") (auto simp: slot_funcs_def)
    then have multi: "header_type (common_header d0) AND 0x80 \<noteq> 0"
      and f: "func b \<in> set (map of_nat [1..<8])" "b = \<lparr>bus = bs, device = of_nat i, func = func b\<rparr>"
      using i(3) False by (auto simp: slot_funcs_def split: if_splits simp del: upt_rec_numeral)
    from dv d0 multi obtain devs3 where
      "scan_each (\<lambda>f. pci_check_function cs (pci_check_bus n cs) \<lparr>bus = bs, device = of_nat i, func = f\<rparr>)
         (map of_nat [1..<8]) devs3 = Some (Inr r1, devs2)"
      by (auto simp: pci_check_device_def pci_read_header_def Let_def
          split: option.splits sum.splits prod.splits simp del: upt_rec_numeral)
    from scan_each_all [OF this f(1)] f(2) show ?thesis by metis
  qed
  then obtain devs3 r3 devs4 where fn: "pci_check_function cs (pci_check_bus n cs) b devs3 = Some (Inr r3, devs4)" by blast
  from assms(4) obtain br where br: "as_pci_to_pci_bridge_device d = Some br" "s = secondary_bus_number br"
    "class_code (common_header d) = 0x06 \<and> (sub_class (common_header d) = 0x04 \<or> sub_class (common_header d) = 0x09)"
    by (auto simp: bus_behind_def split: if_splits)
  obtain a l where below: "pci_check_bus n cs s (devs3 @ [d]) = Some (a, l)"
    using fn i(4) br by (cases "pci_check_bus n cs s (devs3 @ [d])") (auto simp: pci_check_function_def pci_read_header_def Let_def)
  with fn i(4) br show ?thesis
    by (cases a) (auto simp: pci_check_function_def pci_read_header_def Let_def)
qed

lemma bus_list_complete:
  assumes "reaches cs bs c" and "pci_check_bus n cs bs devs = Some (Inr r, devs')"
  shows "\<exists>m devs1 r1 devs2. m \<le> n \<and> pci_check_bus m cs c devs1 = Some (Inr r1, devs2) \<and>
    set (bus_list m cs c) \<subseteq> set (bus_list n cs bs)"
  using assms
proof (induction rule: reaches.induct)
  case here
  then show ?case by blast
next
  case (behind b d s)
  then obtain m devs1 r1 devs2 where m: "pci_check_bus m cs (bus b) devs1 = Some (Inr r1, devs2)"
    "set (bus_list m cs (bus b)) \<subseteq> set (bus_list n cs bs)" "m \<le> n" by blast
  then obtain k where k: "m = Suc k" by (cases m) auto
  from check_bus_below [OF m(1) [unfolded k] refl behind.hyps(2,3)] obtain devs3 r3 devs4
    where "pci_check_bus k cs s devs3 = Some (Inr r3, devs4)" by blast
  moreover have "set (bus_list k cs s) \<subseteq> set (bus_list m cs (bus b))"
    unfolding k using in_bus_list [of _ k cs "bus b"] behind.hyps(2,3) by blast
  ultimately show ?case using m(2,3) k by (intro exI [of _ k]) auto
qed

lemma bus_list_reached:
  assumes "pci_check_bus n cs bs devs = Some (Inr r, devs')"
  shows "set (bus_list n cs bs) = {d. \<exists>b. reaches cs bs (bus b) \<and> visible cs b d}"
proof
  show "set (bus_list n cs bs) \<subseteq> {d. \<exists>b. reaches cs bs (bus b) \<and> visible cs b d}"
    using bus_list_sound reaches.here by blast
next
  show "{d. \<exists>b. reaches cs bs (bus b) \<and> visible cs b d} \<subseteq> set (bus_list n cs bs)"
  proof clarify
    fix d b
    assume "reaches cs bs (bus b)" and v: "visible cs b d"
    from bus_list_complete [OF this(1) assms] obtain m devs1 r1 devs2 where
      "pci_check_bus m cs (bus b) devs1 = Some (Inr r1, devs2)" "set (bus_list m cs (bus b)) \<subseteq> set (bus_list n cs bs)" by blast
    moreover from this(1) obtain k where "m = Suc k" by (cases m) auto
    ultimately show "d \<in> set (bus_list n cs bs)" using in_bus_list [of d k cs "bus b"] v by blast
  qed
qed

lemma check_bus_total:
  assumes up: "\<forall>b d s. visible cs b d \<and> bus_behind d = Some s \<longrightarrow> bus b < s"
  shows "256 - unat bs \<le> depth \<Longrightarrow> pci_check_bus depth cs bs devs \<noteq> None"
proof (induction depth arbitrary: bs devs)
  case 0
  moreover have "unat bs < 2 ^ LENGTH(8)" by (rule unsigned_less)
  ultimately show ?case by simp
next
  case (Suc n)
  have fn: "pci_check_function cs (pci_check_bus n cs) b devs \<noteq> None"
    if b: "b \<in> set (slot_funcs cs bs (of_nat i))" "i < 32" for b i devs
  proof (cases "read_device cs b")
    case (Inl e)
    then show ?thesis by (simp add: pci_check_function_def pci_read_header_def)
  next
    case (Inr d)
    have bb: "bus b = bs" "visible cs b d" using slot_funcs_fields [OF b(1)] b Inr by (auto simp: visible_def)
    show ?thesis
    proof (cases "bus_behind d")
      case None
      then show ?thesis using Inr
        by (auto simp: pci_check_function_def pci_read_header_def bus_behind_def Let_def split: if_splits)
    next
      case (Some s)
      have "bs < s" using up bb Some by blast
      then have "256 - unat s \<le> n" using Suc.prems by (simp add: word_less_nat_alt)
      from Suc.IH [OF this] obtain a l where "pci_check_bus n cs s (devs @ [d]) = Some (a, l)" by fast
      then show ?thesis using Inr Some
        by (cases a) (auto simp: pci_check_function_def pci_read_header_def bus_behind_def Let_def split: if_splits)
    qed
  qed
  have "pci_check_device cs (pci_check_bus n cs) bs (of_nat i) devs \<noteq> None" if i: "i < 32" for i devs
  proof (cases "read_device cs \<lparr>bus = bs, device = of_nat i, func = 0\<rparr>")
    case (Inl e)
    then show ?thesis by (simp add: pci_check_device_def pci_read_header_def)
  next
    case (Inr d)
    let ?b = "\<lambda>f. \<lparr>bus = bs, device = of_nat i, func = f\<rparr> :: BusDeviceFunction"
    have f0: "pci_check_function cs (pci_check_bus n cs) (?b 0) devs \<noteq> None" for devs
      using Inr i by (intro fn) (auto simp: slot_funcs_def)
    have "scan_each (\<lambda>f. pci_check_function cs (pci_check_bus n cs) (?b f)) (map of_nat [1..<8]) devs1 \<noteq> None"
      if "header_type (common_header d) AND 0x80 \<noteq> 0" for devs1
      using Inr i that by (intro scan_each_total fn [of _ i]) (auto simp: slot_funcs_def simp del: upt_rec_numeral)
    moreover obtain a l where "pci_check_function cs (pci_check_bus n cs) (?b 0) devs = Some (a, l)" using f0 by fast
    ultimately show ?thesis using Inr
      by (cases a) (auto simp: pci_check_device_def pci_read_header_def Let_def simp del: upt_rec_numeral)
  qed
  then show ?case unfolding pci_check_bus.simps
    by (intro scan_each_total) (auto simp del: upt_rec_numeral)
qed

section \<open>Encoding of headers\<close>

text \<open>
  The register image of a device: the layout of configuration space that the reading functions
  invert.  A device is well formed when its header type agrees with its variant, its vendor
  exists, and the fields that are not read from registers have their initial values.
\<close>

definition pack16 :: "u16 \<Rightarrow> u16 \<Rightarrow> u32" where
  "pack16 lo hi = push_bit 16 (ucast hi) OR ucast lo"

definition pack8 :: "u8 \<Rightarrow> u8 \<Rightarrow> u8 \<Rightarrow> u8 \<Rightarrow> u32" where
  "pack8 a b c d = push_bit 24 (ucast d) OR push_bit 16 (ucast c) OR push_bit 8 (ucast b) OR ucast a"

definition pack8_16 :: "u8 \<Rightarrow> u8 \<Rightarrow> u16 \<Rightarrow> u32" where
  "pack8_16 a b hi = push_bit 16 (ucast hi) OR push_bit 8 (ucast b) OR ucast a"

lemma unpack [simp]:
  "lo16 (pack16 lo hi) = lo" "hi16 (pack16 lo hi) = hi"
  "byte0 (pack8 a b c d) = a" "byte1 (pack8 a b c d) = b" "byte2 (pack8 a b c d) = c" "byte3 (pack8 a b c d) = d"
  "byte0 (pack8_16 a b h) = a" "byte1 (pack8_16 a b h) = b" "hi16 (pack8_16 a b h) = h"
  unfolding lo16_def hi16_def byte0_def byte1_def byte2_def byte3_def pack16_def pack8_def pack8_16_def
  by (rule bit_word_eqI, simp only: bit_or_iff bit_push_bit_iff bit_drop_bit_eq bit_unsigned_iff possible_bit_word comp_def,
      auto simp: add.commute dest: bit_imp_le_length)+

definition encode_common :: "PciDeviceStructureHeader \<Rightarrow> u8 \<Rightarrow> u32" where
  "encode_common h off =
     (if off = 0x00 then pack16 (vendor_id h) (device_id h)
      else if off = 0x04 then pack16 (pci_command h) (pci_status h)
      else if off = 0x08 then pack8 (revision_id h) (prog_if h) (sub_class h) (class_code h)
      else if off = 0x0c then pack8 (cache_line_size h) (latency_timer h) (header_type h) (bist h)
      else 0)"

fun encode_device :: "PciDevice \<Rightarrow> u8 \<Rightarrow> u32" where
  "encode_device (General d) off =
     (if off = 0x28 then cardbus_cis_pointer d
      else if off = 0x2c then pack16 (gd_subsystem_vendor_id d) (gd_subsystem_id d)
      else if off = 0x30 then gd_expansion_rom_base_address d
      else if off = 0x34 then pack8_16 (capabilities_pointer d) (gd_reserved0 d) (gd_reserved1 d)
      else if off = 0x38 then gd_reserved2 d
      else if off = 0x3c then pack8 (gd_interrupt_line d) (gd_interrupt_pin d) (min_grant d) (max_latency d)
      else encode_common (gd_header d) off)"
| "encode_device (Bridge d) off =
     (if off = 0x10 then br_bar0 d
      else if off = 0x14 then br_bar1 d
      else if off = 0x18 then pack8 (primary_bus_number d) (secondary_bus_number d) (br_subordinate_bus_number d) (secondary_latency_timer d)
      else if off = 0x1c then pack8_16 (io_base d) (io_limit d) (br_secondary_status d)
      else if off = 0x20 then pack16 (memory_base d) (memory_limit d)
      else if off = 0x24 then pack16 (prefetchable_memory_base d) (prefetchable_memory_limit d)
      else if off = 0x28 then prefetchable_base_upper_32_bits d
      else if off = 0x2c then prefetchable_limit_upper_32_bits d
      else if off = 0x30 then pack16 (io_base_upper_16_bits d) (io_limit_upper_16_bits d)
      else if off = 0x34 then pack8_16 (capability_pointer d) (br_reserved0 d) (br_reserved1 d)
      else if off = 0x38 then br_expansion_rom_base_address d
      else if off = 0x3c then pack8_16 (br_interrupt_line d) (br_interrupt_pin d) (br_bridge_control d)
      else encode_common (br_header d) off)"
| "encode_device (Cardbus d) off =
     (if off = 0x10 then cardbus_socket_ex_ca_base_address d
      else if off = 0x14 then pack8_16 (offset_of_capabilities_list d) (cb_reserved d) (cb_secondary_status d)
      else if off = 0x18 then pack8 (pci_bus_number d) (card_bus_bus_number d) (cb_subordinate_bus_number d) (card_bus_latency_timer d)
      else if off = 0x1c then memory_base_address0 d
      else if off = 0x20 then memory_limit0 d
      else if off = 0x24 then memory_base_address1 d
      else if off = 0x28 then memory_limit1 d
      else if off = 0x2c then io_base_address0 d
      else if off = 0x30 then io_limit0 d
      else if off = 0x34 then io_base_address1 d
      else if off = 0x38 then io_limit1 d
      else if off = 0x3c then pack8_16 (cb_interrupt_line d) (cb_interrupt_pin d) (cb_bridge_control d)
      else if off = 0x40 then pack16 (subsystem_device_id d) (cb_subsystem_vendor_id d)
      else if off = 0x44 then pc_card_legacy_mode_base_address_16_bit d
      else encode_common (cb_header d) off)"

definition wf_device :: "PciDevice \<Rightarrow> bool" where
  "wf_device d \<longleftrightarrow>
     (let h = common_header d in
      msix_mmio_vaddr h = 0 \<and> msix_mmio_size h = 0 \<and> msix_offset h = 0 \<and> msix_table_size h = 0 \<and>
      vendor_id h \<noteq> 0xffff \<and> header_type_from (header_type h AND 0x7f) = dev_header_type d \<and>
      (case as_standard_device d of Some g \<Rightarrow> standard_device_bar g = bar_default | None \<Rightarrow> True))"

lemma read_common_encoded:
  fixes h :: PciDeviceStructureHeader
  assumes "\<And>off. off \<in> {0x00, 0x04, 0x08, 0x0c} \<Longrightarrow> cs b off = encode_common h off"
    and "bus_device_function h = b"
    and "msix_mmio_vaddr h = 0" "msix_mmio_size h = 0" "msix_offset h = 0" "msix_table_size h = 0"
  shows "read_common_header cs b = h"
  using assms by (cases h) (simp add: read_common_header_def encode_common_def)

section \<open>Properties\<close>

text \<open>Concrete spaces: a host bridge with several functions, a bridge to bus 1, a controller behind it.\<close>

definition demo_space :: "(BusDeviceFunction \<times> u32 \<times> u32 \<times> u32) list \<Rightarrow> config_space" where
  "demo_space funcs b off =
     (case map_of funcs b of
        None \<Rightarrow> 0xffffffff
      | Some (cls, ht, buses) \<Rightarrow>
          if off = 0 then 0x12341234 else if off = 8 then cls else if off = 0xc then ht
          else if off = 0x18 then buses else 0)"

definition demo_cs :: config_space where
  "demo_cs = demo_space
     [(\<lparr>bus = 0, device = 0, func = 0\<rparr>, 0x06000000, 0x00800000, 0),
      (\<lparr>bus = 0, device = 1, func = 0\<rparr>, 0x06040000, 0x00010000, 0x00010100),
      (\<lparr>bus = 1, device = 0, func = 0\<rparr>, 0x01080200, 0, 0)]"

lemma demo_scan:
  "(case pci_check_bus 2 demo_cs 0 [] of
      Some (Inr _, devs) \<Rightarrow> map (\<lambda>d. bus_device_function (common_header d)) devs =
        [\<lparr>bus = 0, device = 0, func = 0\<rparr>, \<lparr>bus = 0, device = 1, func = 0\<rparr>, \<lparr>bus = 1, device = 0, func = 0\<rparr>]
    | _ \<Rightarrow> False)"
  by code_simp

lemma demo_scan_all:
  "(case pci_check_all_buses 2 demo_cs [] of
      Some (Inr _, devs) \<Rightarrow> map (\<lambda>d. bus_device_function (common_header d)) devs =
        [\<lparr>bus = 0, device = 0, func = 0\<rparr>, \<lparr>bus = 0, device = 1, func = 0\<rparr>, \<lparr>bus = 1, device = 0, func = 0\<rparr>, \<lparr>bus = 1, device = 0, func = 0\<rparr>]
    | _ \<Rightarrow> False)"
  by code_simp

lemmas read_eval = read_device_def read_common_header_def header_type_from_def bus_behind_def
  pci_read_general_device_header_def pci_read_pci_to_pci_bridge_header_def
  lo16_def hi16_def byte0_def byte1_def byte2_def byte3_def demo_space_def Let_def

lemma demo_space_absent: "map_of fs b = None \<Longrightarrow> read_device (demo_space fs) b = Inl GetWrongHeader"
  by (simp add: read_eval)

lemma demo_host: "\<exists>d. read_device demo_cs \<lparr>bus = 0, device = 0, func = 0\<rparr> = Inr d \<and> bus_behind d = None \<and>
    header_type (common_header d) AND 0x80 \<noteq> 0"
  by (simp add: demo_cs_def read_eval)

lemma demo_bridge: "\<exists>d. read_device demo_cs \<lparr>bus = 0, device = 1, func = 0\<rparr> = Inr d \<and> bus_behind d = Some 1"
  by (simp add: demo_cs_def read_eval)

lemma demo_endpoint: "\<exists>d. read_device demo_cs \<lparr>bus = 1, device = 0, func = 0\<rparr> = Inr d \<and> bus_behind d = None"
  by (simp add: demo_cs_def read_eval)

lemma visible_slot:
  "read_device cs \<lparr>bus = bs, device = of_nat i, func = 0\<rparr> = Inr d \<Longrightarrow> i < 32 \<Longrightarrow>
     visible cs \<lparr>bus = bs, device = of_nat i, func = 0\<rparr> d"
  by (auto simp: visible_def slot_funcs_def)

lemma demo_reaches: "reaches demo_cs 0 1"
proof -
  obtain d where d: "read_device demo_cs \<lparr>bus = 0, device = of_nat 1, func = 0\<rparr> = Inr d" "bus_behind d = Some 1"
    using demo_bridge by auto
  have "visible demo_cs \<lparr>bus = 0, device = of_nat 1, func = 0\<rparr> d" by (rule visible_slot [OF d(1)]) simp
  from reaches.behind [OF _ this d(2)] reaches.here show ?thesis by simp
qed

text \<open>
  C22. When the enumeration of a bus succeeds it has found exactly the functions that are visible
  on the buses reachable from it through bridges: it appends them to the device list and
  appends nothing else.
\<close>

theorem enumeration_exact:
  assumes "pci_check_bus depth cs bs devs = Some (Inr r, devs')"
  shows "\<exists>found. devs' = devs @ found \<and> set found = {d. \<exists>b. reaches cs bs (bus b) \<and> visible cs b d}"
  using yieldsD [OF check_bus_yields assms] bus_list_reached [OF assms] by blast

theorem enumeration_exact_witness:
  "\<exists>r devs. pci_check_bus 2 demo_cs 0 [] = Some (Inr r, devs) \<and> length devs = 3 \<and>
     set devs = {d. \<exists>b. reaches demo_cs 0 (bus b) \<and> visible demo_cs b d}"
proof -
  obtain r devs where ok: "pci_check_bus 2 demo_cs 0 [] = Some (Inr r, devs)"
    and bdfs: "map (\<lambda>d. bus_device_function (common_header d)) devs =
      [\<lparr>bus = 0, device = 0, func = 0\<rparr>, \<lparr>bus = 0, device = 1, func = 0\<rparr>, \<lparr>bus = 1, device = 0, func = 0\<rparr>]"
    using demo_scan by (auto split: option.splits prod.splits sum.splits)
  from arg_cong [OF bdfs, of length] have "length devs = 3" by simp
  then show ?thesis using ok enumeration_exact [OF ok] by auto
qed

text \<open>
  C23. The recursion ends when every bridge leads to a bus with a larger number, as the firmware
  assigns them: from bus \<open>bs\<close> at most \<open>256 - bs\<close> nested buses are visited.
\<close>

theorem enumeration_terminates:
  assumes "\<forall>b d s. visible cs b d \<and> bus_behind d = Some s \<longrightarrow> bus b < s"
  shows "\<exists>res. pci_check_bus (256 - unat bs) cs bs devs = Some res"
  using check_bus_total [OF assms, of bs "256 - unat bs" devs] by blast

theorem enumeration_terminates_witness:
  "\<exists>res. pci_check_bus (256 - unat (0 :: u8)) demo_cs 0 [] = Some res"
proof (rule enumeration_terminates, intro allI impI)
  fix b d s
  assume "visible demo_cs b d \<and> bus_behind d = Some s"
  then have d: "read_device demo_cs b = Inr d" "bus_behind d = Some s" by (auto simp: visible_def)
  let ?here = "{\<lparr>bus = 0, device = 0, func = 0\<rparr>, \<lparr>bus = 0, device = 1, func = 0\<rparr>, \<lparr>bus = 1, device = 0, func = 0\<rparr>}"
  have "b \<in> ?here"
  proof (rule ccontr)
    assume "b \<notin> ?here"
    then have "read_device demo_cs b = Inl GetWrongHeader" unfolding demo_cs_def by (intro demo_space_absent) simp
    with d(1) show False by simp
  qed
  then show "bus b < s" using d demo_host demo_bridge demo_endpoint by auto
qed

text \<open>
  A bridge that leads back to a bus from which it is reached makes the enumeration of its own
  bus impossible: to no recursion depth does it return success.
\<close>

theorem enumeration_cycle:
  assumes "visible cs b d" and "bus_behind d = Some s" and "reaches cs s (bus b)"
  shows "pci_check_bus depth cs (bus b) devs \<noteq> Some (Inr r, devs')"
proof
  assume "pci_check_bus depth cs (bus b) devs = Some (Inr r, devs')"
  then show False
  proof (induction depth arbitrary: devs r devs' rule: less_induct)
    case (less n)
    then obtain k where k: "n = Suc k" by (cases n) auto
    from check_bus_below [OF less.prems [unfolded k] refl assms(1,2)] obtain devs1 r1 devs2 where
      "pci_check_bus k cs s devs1 = Some (Inr r1, devs2)" by blast
    from bus_list_complete [OF assms(3) this] obtain m devs3 r3 devs4 where
      "m \<le> k" "pci_check_bus m cs (bus b) devs3 = Some (Inr r3, devs4)" by blast
    with less.IH [of m] k show False by auto
  qed
qed

theorem enumeration_cycle_witness:
  "pci_check_bus 100 (demo_space [(\<lparr>bus = 0, device = 0, func = 0\<rparr>, 0x06040000, 0x00010000, 0)]) 0 [] \<noteq> Some (Inr 0, [])"
proof -
  let ?cs = "demo_space [(\<lparr>bus = 0, device = 0, func = 0\<rparr>, 0x06040000, 0x00010000, 0)]"
  obtain d where d: "read_device ?cs \<lparr>bus = 0, device = of_nat 0, func = 0\<rparr> = Inr d" "bus_behind d = Some 0"
    by (simp add: read_eval)
  have "visible ?cs \<lparr>bus = 0, device = of_nat 0, func = 0\<rparr> d" by (rule visible_slot [OF d(1)]) simp
  from enumeration_cycle [OF this d(2)] reaches.here show ?thesis by simp
qed

text \<open>
  When the host bridge at 00:00.0 reports several functions, buses 1 to 7 are scanned again
  after bus 0: a device that is reachable from bus 0 and from one of them is listed twice.
\<close>

theorem enumeration_duplicates:
  assumes "pci_check_all_buses depth cs [] = Some (Inr r, devs)"
    and "read_device cs \<lparr>bus = 0, device = 0, func = 0\<rparr> = Inr host" and "header_type (common_header host) AND 0x80 \<noteq> 0"
    and "visible cs b d" and "reaches cs 0 (bus b)" and "reaches cs (of_nat k) (bus b)" and "1 \<le> k" and "k < 8"
  shows "2 \<le> count_list devs d"
proof -
  from assms(1-3) obtain r1 devs1 where zero: "pci_check_bus depth cs 0 [] = Some (Inr r1, devs1)"
    and more: "scan_each (pci_check_bus depth cs) (map of_nat [1..<8]) devs1 = Some (Inr r, devs)"
    by (auto simp: pci_check_all_buses_def pci_read_header_def simp del: upt_rec_numeral
        split: option.splits sum.splits prod.splits)
  have devs: "devs = bus_list depth cs 0 @ concat (map (bus_list depth cs) (map of_nat [1..<8]))"
    using yieldsD [OF check_bus_yields zero] scan_each_yields [OF check_bus_yields more] by simp
  have kin: "(of_nat k :: u8) \<in> set (map of_nat [1..<8])" using assms(7,8) by (auto simp del: upt_rec_numeral)
  from scan_each_all [OF more this] obtain devs2 r2 devs3 where
    "pci_check_bus depth cs (of_nat k) devs2 = Some (Inr r2, devs3)" by blast
  from bus_list_reached [OF this] assms(4,6) have "d \<in> set (bus_list depth cs (of_nat k))" by blast
  then have "d \<in> set (concat (map (bus_list depth cs) (map of_nat [1..<8])))"
    using kin unfolding set_concat set_map by blast
  moreover have "d \<in> set (bus_list depth cs 0)" using bus_list_reached [OF zero] assms(4,5) by blast
  ultimately show ?thesis unfolding devs count_list_append
    by (metis add_mono count_list_0_iff less_one linorder_not_le one_add_one)
qed

theorem enumeration_duplicates_witness:
  "\<exists>r devs d. pci_check_all_buses 2 demo_cs [] = Some (Inr r, devs) \<and> length devs = 4 \<and> 2 \<le> count_list devs d \<and>
     read_device demo_cs \<lparr>bus = 1, device = 0, func = 0\<rparr> = Inr d"
proof -
  obtain r devs where ok: "pci_check_all_buses 2 demo_cs [] = Some (Inr r, devs)"
    and bdfs: "map (\<lambda>d. bus_device_function (common_header d)) devs =
      [\<lparr>bus = 0, device = 0, func = 0\<rparr>, \<lparr>bus = 0, device = 1, func = 0\<rparr>, \<lparr>bus = 1, device = 0, func = 0\<rparr>, \<lparr>bus = 1, device = 0, func = 0\<rparr>]"
    using demo_scan_all by (auto split: option.splits prod.splits sum.splits)
  from arg_cong [OF bdfs, of length] have len: "length devs = 4" by simp
  obtain host where host: "read_device demo_cs \<lparr>bus = 0, device = 0, func = 0\<rparr> = Inr host"
    "header_type (common_header host) AND 0x80 \<noteq> 0" using demo_host by blast
  obtain d where d: "read_device demo_cs \<lparr>bus = 1, device = of_nat 0, func = 0\<rparr> = Inr d" using demo_endpoint by auto
  have "visible demo_cs \<lparr>bus = 1, device = of_nat 0, func = 0\<rparr> d" by (rule visible_slot [OF d]) simp
  from enumeration_duplicates [OF ok host this, of 1] demo_reaches reaches.here
  have "2 \<le> count_list devs d" by simp
  with ok len d show ?thesis by auto
qed

text \<open>
  C32. Reading a header inverts the register layout: from a configuration space that holds the
  image of a well-formed device, of any of the three kinds, \<open>pci_read_header\<close> returns that device
  with every field in place.
\<close>

theorem header_roundtrip:
  assumes "wf_device d" and "b = bus_device_function (common_header d)" and "cs b = encode_device d"
  shows "pci_read_header cs b add devs = (Inr d, if add then devs @ [d] else devs)"
proof -
  have "read_common_header cs b = common_header d"
    using assms by (intro read_common_encoded) (cases d; auto simp: wf_device_def Let_def)+
  moreover have "read_device cs b = Inr d" if "read_common_header cs b = common_header d"
    using assms that
    by (cases d)
      (simp_all add: read_device_def wf_device_def Let_def pci_read_general_device_header_def
        pci_read_pci_to_pci_bridge_header_def pci_read_pci_to_cardbus_bridge_header_def)
  ultimately show ?thesis by (simp add: pci_read_header_def)
qed

theorem header_roundtrip_witness:
  "\<exists>d. read_device demo_cs \<lparr>bus = 0, device = 1, func = 0\<rparr> = Inr d \<and>
     pci_read_header (\<lambda>_. encode_device d) \<lparr>bus = 0, device = 1, func = 0\<rparr> True [] = (Inr d, [d])"
proof -
  have "\<exists>d. read_device demo_cs \<lparr>bus = 0, device = 1, func = 0\<rparr> = Inr d \<and> wf_device d \<and>
      bus_device_function (common_header d) = \<lparr>bus = 0, device = 1, func = 0\<rparr>"
    by (simp add: demo_cs_def read_eval wf_device_def)
  then obtain d where d: "read_device demo_cs \<lparr>bus = 0, device = 1, func = 0\<rparr> = Inr d" "wf_device d"
    "bus_device_function (common_header d) = \<lparr>bus = 0, device = 1, func = 0\<rparr>" by blast
  from header_roundtrip [OF d(2) d(3) [symmetric], of "\<lambda>_. encode_device d" True "[]"] d(1) show ?thesis by simp
qed

end
