(* ===== verification/PciBar.thy ===== *)
theory PciBar
  imports PciDevices
begin

text \<open>
  Base address registers (\<open>pci_bar_init\<close> and the BAR types of \<open>drivers/pci.rs\<close>): probing the
  size of each register, decoding its kind and address, and mapping memory regions.

  Locale \<open>bar_registers\<close> states how the base address registers of a function behave: which bits
  can be written, and that the others read as constants.
\<close>

definition bar_type_to :: "MemoryBarType \<Rightarrow> u8" where
  "bar_type_to t = (case t of Width32 \<Rightarrow> 0 | Below1MiB \<Rightarrow> 1 | Width64 \<Rightarrow> 2)"

definition bar_type_try_from :: "u8 \<Rightarrow> PciError + MemoryBarType" where
  "bar_type_try_from value =
     (if value = 0 then Inr Width32
      else if value = 1 then Inr Below1MiB
      else if value = 2 then Inr Width64
      else Inl InvalidBarType)"

fun memory_address_size :: "BarInfo \<Rightarrow> (u64 \<times> u32) option" where
  "memory_address_size (Memory _ _ address sz _) = Some (address, sz)"
| "memory_address_size _ = None"

fun virtual_address :: "BarInfo \<Rightarrow> nat option" where
  "virtual_address (Memory _ _ _ _ virtaddr) = Some virtaddr"
| "virtual_address _ = None"

definition get_bar :: "PciStandardDeviceBar \<Rightarrow> nat \<Rightarrow> PciError + BarInfo" where
  "get_bar bars bar_index =
     (if bar_index = 0 then Inr (bar0 bars) else if bar_index = 1 then Inr (bar1 bars)
      else if bar_index = 2 then Inr (bar2 bars) else if bar_index = 3 then Inr (bar3 bars)
      else if bar_index = 4 then Inr (bar4 bars) else if bar_index = 5 then Inr (bar5 bars)
      else Inl InvalidBarType)"

definition put_bar :: "PciStandardDeviceBar \<Rightarrow> nat \<Rightarrow> BarInfo \<Rightarrow> PciStandardDeviceBar" where
  "put_bar bars bar_index info =
     (if bar_index = 0 then bars\<lparr>bar0 := info\<rparr> else if bar_index = 1 then bars\<lparr>bar1 := info\<rparr>
      else if bar_index = 2 then bars\<lparr>bar2 := info\<rparr> else if bar_index = 3 then bars\<lparr>bar3 := info\<rparr>
      else if bar_index = 4 then bars\<lparr>bar4 := info\<rparr> else if bar_index = 5 then bars\<lparr>bar5 := info\<rparr>
      else bars)"

text \<open>
  The state of the loop: the BARs found, the index to skip, the pages mapped so far (virtual and
  physical page addresses) and the machine.
\<close>

record 'w bar_state =
  found_bars :: PciStandardDeviceBar
  bar_index_ignore :: nat
  mapped :: "(nat \<times> nat) list"
  machine :: 'w

definition bar_reg :: "nat \<Rightarrow> u8" where
  "bar_reg i = 0x10 + 4 * of_nat i"

definition bar_size :: "u32 \<Rightarrow> u32" where
  "bar_size size_mask = NOT (size_mask AND 0xfffffff0) + 1"

text \<open>Reading, sizing and restoring one register: its value, its size, and the machine after.\<close>

definition probe_bar :: "'w pci_arch \<Rightarrow> BusDeviceFunction \<Rightarrow> nat \<Rightarrow> 'w \<Rightarrow> u32 \<times> u32 \<times> 'w" where
  "probe_bar arch b i w =
     (let bar_orig = arch_read arch b (bar_reg i) w;
          w1 = arch_write arch b (bar_reg i) 0xffffffff w;
          size_mask = arch_read arch b (bar_reg i) w1;
          w2 = arch_write arch b (bar_reg i) bar_orig w1 in
      (bar_orig, bar_size size_mask, w2))"

text \<open>One pass of the loop; the first component is the error it returns with, if any.\<close>

definition bar_step ::
  "'w pci_arch \<Rightarrow> x86_api \<Rightarrow> nat \<Rightarrow> BusDeviceFunction \<Rightarrow> nat \<Rightarrow> 'w bar_state \<Rightarrow> (PciError option \<times> 'w bar_state) result" where
  "bar_step arch x offset b i st =
     (if i = bar_index_ignore st then Inr (None, st)
      else
        let (bar_orig, sz, w) = probe_bar arch b i (machine st); st1 = st\<lparr>machine := w\<rparr> in
        if sz = 0 then Inr (None, st1)
        else if bar_orig AND 1 = 1 then
          Inr (None, st1\<lparr>found_bars := put_bar (found_bars st1) i (IO (bar_orig AND 0xfffffffc) sz)\<rparr>)
        else
          let low = ucast (bar_orig AND 0xfffffff0) :: u64; pref = (bar_orig AND 8 \<noteq> 0) in
          case bar_type_try_from (ucast (drop_bit 1 (bar_orig AND 6))) of
            Inl e \<Rightarrow> Inr (Some e, st1)
          | Inr ty \<Rightarrow>
              if ty = Width64 \<and> 5 \<le> i then Inr (Some InvalidBarType, st1)
              else
                let address = (if ty = Width64
                      then low OR push_bit 32 (ucast (arch_read arch b (bar_reg (i + 1)) w)) else low);
                    ignore = (if ty = Width64 then i + 1 else bar_index_ignore st1) in
                and_then (phys_addr_new x (unat address)) (\<lambda>paddr.
                and_then (convert_physical_to_virtual x offset paddr) (\<lambda>vaddr.
                and_then (map_pages x vaddr paddr (unat sz div 4096)) (\<lambda>pages.
                Inr (None, st1\<lparr>bar_index_ignore := ignore, mapped := mapped st1 @ pages,
                  found_bars := put_bar (found_bars st1) i (Memory ty pref address sz vaddr)\<rparr>)))))"

fun bar_loop ::
  "'w pci_arch \<Rightarrow> x86_api \<Rightarrow> nat \<Rightarrow> BusDeviceFunction \<Rightarrow> nat list \<Rightarrow> 'w bar_state \<Rightarrow> (PciError option \<times> 'w bar_state) result" where
  "bar_loop arch x offset b [] st = Inr (None, st)"
| "bar_loop arch x offset b (i # is) st =
     and_then (bar_step arch x offset b i st) (\<lambda>(e, st').
     case e of Some err \<Rightarrow> Inr (Some err, st') | None \<Rightarrow> bar_loop arch x offset b is st')"

definition pci_bar_init ::
  "'w pci_arch \<Rightarrow> x86_api \<Rightarrow> nat \<Rightarrow> BusDeviceFunction \<Rightarrow> 'w \<Rightarrow>
     ((PciError + PciStandardDeviceBar) \<times> (nat \<times> nat) list \<times> 'w) result" where
  "pci_bar_init arch x offset b w =
     and_then (bar_loop arch x offset b [0..<6]
       \<lparr>found_bars = bar_default, bar_index_ignore = 255, mapped = [], machine = w\<rparr>) (\<lambda>(e, st).
     Inr (case e of Some err \<Rightarrow> Inl err | None \<Rightarrow> Inr (found_bars st), mapped st, machine st))"

text \<open>\<open>PciDeviceStructureGeneralDevice::bar_init\<close>; the other kinds of device return \<open>None\<close>.\<close>

definition bar_init ::
  "'w pci_arch \<Rightarrow> x86_api \<Rightarrow> nat \<Rightarrow> PciDevice \<Rightarrow> 'w \<Rightarrow>
     ((PciError + u8) option \<times> PciDevice \<times> (nat \<times> nat) list \<times> 'w) result" where
  "bar_init arch x offset d w =
     (case d of
        General g \<Rightarrow>
          and_then (pci_bar_init arch x offset (bus_device_function (gd_header g)) w) (\<lambda>(r, pages, w').
          case r of
            Inr bars \<Rightarrow> Inr (Some (Inr 0), General (g\<lparr>standard_device_bar := bars\<rparr>), pages, w')
          | Inl e \<Rightarrow> Inr (Some (Inl e), d, pages, w'))
      | _ \<Rightarrow> Inr (None, d, [], w))"

section \<open>Registers\<close>

text \<open>
  The base address registers of function \<open>b\<close>: register \<open>i\<close> has the writable bits \<open>writable i\<close> and
  reads the bits \<open>hardwired i\<close> elsewhere; writing one of them changes no other.  \<open>consistent\<close> machines
  are those whose registers hold values such registers can hold.
\<close>

locale bar_registers =
  fixes arch :: "'w pci_arch" and b :: BusDeviceFunction
    and writable :: "nat \<Rightarrow> u32" and hardwired :: "nat \<Rightarrow> u32" and consistent :: "'w \<Rightarrow> bool"
  assumes write_read: "i < 6 \<Longrightarrow> arch_read arch b (bar_reg i) (arch_write arch b (bar_reg i) v w) = v AND writable i OR hardwired i"
    and write_other: "i < 6 \<Longrightarrow> j < 6 \<Longrightarrow> i \<noteq> j \<Longrightarrow>
      arch_read arch b (bar_reg j) (arch_write arch b (bar_reg i) v w) = arch_read arch b (bar_reg j) w"
    and disjoint: "i < 6 \<Longrightarrow> writable i AND hardwired i = 0"
    and held: "consistent w \<Longrightarrow> i < 6 \<Longrightarrow> arch_read arch b (bar_reg i) w AND NOT (writable i) = hardwired i"
    and consistent_write: "consistent w \<Longrightarrow> i < 6 \<Longrightarrow> consistent (arch_write arch b (bar_reg i) v w)"
begin

lemma same_registers_restored:
  assumes "consistent w" and "i < 6" and "j < 6" and "probe_bar arch b i w = (orig, sz, w')"
  shows "arch_read arch b (bar_reg j) w' = arch_read arch b (bar_reg j) w"
proof -
  let ?w1 = "arch_write arch b (bar_reg i) 0xffffffff w" and ?orig = "arch_read arch b (bar_reg i) w"
  have w': "w' = arch_write arch b (bar_reg i) ?orig ?w1" using assms(4) by (auto simp: probe_bar_def Let_def)
  show ?thesis
  proof (cases "i = j")
    case True
    have "(?orig AND writable i) OR (?orig AND NOT (writable i)) = ?orig"
      by (rule bit_word_eqI) (auto simp: bit_simps)
    then show ?thesis using True w' write_read [OF assms(2)] held [OF assms(1,2)] by simp
  next
    case False
    then show ?thesis using w' write_other [OF assms(2,3)] by simp
  qed
qed

lemma probe_consistent:
  assumes "consistent w" and "i < 6" and "probe_bar arch b i w = (orig, sz, w')"
  shows "consistent w' \<and> orig = arch_read arch b (bar_reg i) w \<and> sz = bar_size (writable i OR hardwired i)"
proof -
  have "(0xffffffff :: u32) = mask 32" by (simp add: mask_eq_exp_minus_1)
  then have "(0xffffffff :: u32) AND writable i = writable i" by (simp add: bit_eq_iff bit_simps)
  then show ?thesis using assms consistent_write write_read [OF assms(2)] by (auto simp: probe_bar_def Let_def)
qed

lemma bar_step_registers:
  assumes "consistent (machine st)" and "i < 6" and "bar_step arch x offset b i st = Inr (e, st')"
  shows "consistent (machine st') \<and> (\<forall>j < 6. arch_read arch b (bar_reg j) (machine st') = arch_read arch b (bar_reg j) (machine st))"
proof -
  obtain orig sz w where p: "probe_bar arch b i (machine st) = (orig, sz, w)" by (metis prod_cases3)
  have w: "consistent w" "\<forall>j < 6. arch_read arch b (bar_reg j) w = arch_read arch b (bar_reg j) (machine st)"
    using probe_consistent [OF assms(1,2) p] same_registers_restored [OF assms(1,2) _ p] by auto
  have "machine st' = machine st \<or> machine st' = w"
    using assms(3) unfolding bar_step_def p
    by (auto simp: Let_def result_simps split: if_splits sum.splits)
  with w assms(1) show ?thesis by auto
qed

lemma bar_loop_registers:
  assumes "consistent (machine st)" and "set is \<subseteq> {..<6}" and "bar_loop arch x offset b is st = Inr (e, st')"
  shows "consistent (machine st') \<and> (\<forall>j < 6. arch_read arch b (bar_reg j) (machine st') = arch_read arch b (bar_reg j) (machine st))"
  using assms
proof (induction "is" arbitrary: st)
  case Nil
  then show ?case by simp
next
  case (Cons i "is")
  from Cons.prems(3) obtain e1 st1 where s1: "bar_step arch x offset b i st = Inr (e1, st1)"
    "(case e1 of Some err \<Rightarrow> Inr (Some err, st1) | None \<Rightarrow> bar_loop arch x offset b is st1) = Inr (e, st')"
    by (auto simp: result_simps split: prod.splits)
  have "i < 6" using Cons.prems(2) by simp
  note st1 = bar_step_registers [OF Cons.prems(1) this s1(1)]
  show ?case
  proof (cases e1)
    case None
    with Cons.IH [of st1] st1 s1(2) Cons.prems(2) show ?thesis by auto
  next
    case (Some err)
    with st1 s1(2) show ?thesis by simp
  qed
qed

end

section \<open>Sizes\<close>

lemma bar_size_mask:
  assumes "k < 32" and "f AND NOT (mask 4) = 0"
  shows "bar_size (NOT (mask k) OR f) = 2 ^ max k 4"
proof -
  have m: "(0xfffffff0 :: u32) = NOT (mask 4)" by (simp add: mask_eq_exp_minus_1)
  have "(NOT (mask k) OR f) AND NOT (mask 4) = NOT (mask (max k 4)) OR (f AND NOT (mask 4))"
    by (rule bit_word_eqI) (auto simp: bit_simps)
  then have "bar_size (NOT (mask k) OR f) = mask (max k 4) + 1"
    unfolding bar_size_def m using assms(2) by simp
  then show ?thesis by (simp add: mask_eq_exp_minus_1)
qed

lemma size_nonzero: "k < 32 \<Longrightarrow> (2 ^ k :: u32) \<noteq> 0 \<and> unat (2 ^ k :: u32) = 2 ^ k"
proof -
  assume "k < 32"
  then have "(2 :: nat) ^ k < 2 ^ 32" by (intro power_strict_increasing) auto
  then have "unat (2 ^ k :: u32) = 2 ^ k" using unat_of_nat [of "2 ^ k", where 'a = 32] by simp
  then show ?thesis by (metis power_not_zero unat_0 zero_neq_numeral)
qed

text \<open>The kinds of 32-bit registers: absent, memory or I/O of \<open>2^k\<close> bytes.\<close>

datatype bar_kind = NoBar | Mem32 nat bool | IoBar nat

fun kind_bits :: "bar_kind \<Rightarrow> u32 \<Rightarrow> u32 \<Rightarrow> bool" where
  "kind_bits NoBar wr hw \<longleftrightarrow> wr = 0 \<and> hw = 0"
| "kind_bits (Mem32 k pref) wr hw \<longleftrightarrow> 4 \<le> k \<and> k < 32 \<and> wr = NOT (mask k) \<and> hw = (if pref then 8 else 0)"
| "kind_bits (IoBar k) wr hw \<longleftrightarrow> 2 \<le> k \<and> k < 32 \<and> wr = NOT (mask k) \<and> hw = 1"

fun kind_info :: "nat \<Rightarrow> bar_kind \<Rightarrow> u32 \<Rightarrow> BarInfo" where
  "kind_info offset NoBar v = Unused"
| "kind_info offset (Mem32 k pref) v =
     Memory Width32 pref (ucast (v AND 0xfffffff0)) (2 ^ k) (unat (v AND 0xfffffff0) + offset)"
| "kind_info offset (IoBar k) v = IO (v AND 0xfffffffc) (2 ^ max k 4)"

lemma get_put_bar:
  "i < 6 \<Longrightarrow> j < 6 \<Longrightarrow> get_bar (put_bar bars i info) j = (if i = j then Inr info else get_bar bars j)"
  by (auto simp: get_bar_def put_bar_def)

lemma map_pages_ok:
  assumes "x86_addr x" and "\<forall>i < n. canonical (v + i * 4096) \<and> p + i * 4096 < 2 ^ 52"
  shows "\<exists>pages. map_pages x v p n = Inr pages"
proof -
  have "\<exists>s'. for_each (map_page x v p) [0..<n] [] = Inr s' \<and> length s' = n"
    by (rule for_each_upt_rule [where I = "\<lambda>i s. length s = i"])
      (use assms(2) in \<open>auto simp: map_page_def x86_addr.virt_addr_new [OF assms(1)] x86_addr.phys_addr_new [OF assms(1)]\<close>)
  then show ?thesis by (auto simp: map_pages_def)
qed

lemma low_bits:
  fixes v m :: u32
  assumes "v AND mask k = hw" and "m AND NOT (mask k) = 0"
  shows "v AND m = hw AND m"
proof -
  have "(m AND mask k) OR (m AND NOT (mask k)) = m" by (rule bit_word_eqI) (auto simp: bit_simps)
  then have "m AND mask k = m" using assms(2) by simp
  then show ?thesis using assms(1) by (metis and.assoc and.commute)
qed

lemma small_masks:
  "2 \<le> k \<Longrightarrow> (1 :: u32) AND NOT (mask k) = 0"
  "4 \<le> k \<Longrightarrow> (6 :: u32) AND NOT (mask k) = 0"
  "4 \<le> k \<Longrightarrow> (8 :: u32) AND NOT (mask k) = 0"
proof -
  have in4: "(c :: u32) AND NOT (mask k) = 0" if "c < 2 ^ j" "j \<le> k" for c j k
  proof (rule bit_word_eqI)
    fix n
    have "\<not> (bit c n \<and> k \<le> n)" using high_bits_zero [OF that(1), of n] that(2) by auto
    then show "bit (c AND NOT (mask k)) n = bit 0 n" by (auto simp: bit_simps not_less)
  qed
  show "2 \<le> k \<Longrightarrow> (1 :: u32) AND NOT (mask k) = 0" by (rule in4 [of 1 1]) auto
  show "4 \<le> k \<Longrightarrow> (6 :: u32) AND NOT (mask k) = 0" by (rule in4 [of 6 4]) auto
  show "4 \<le> k \<Longrightarrow> (8 :: u32) AND NOT (mask k) = 0" by (rule in4 [of 8 4]) auto
qed

lemma window_maps:
  assumes "x86_addr x" and "\<forall>a < 2 ^ 33. canonical (a + offset)" and "k < 32"
  shows "phys_addr_new x (unat (ucast v :: u64)) = Inr (unat (v :: u32))"
    and "convert_physical_to_virtual x offset (unat v) = Inr (unat v + offset)"
    and "\<exists>pages. map_pages x (unat v + offset) (unat v) (unat (2 ^ k :: u32) div 4096) = Inr pages"
proof -
  have v: "unat v < 2 ^ 32" using unsigned_less [where w = v and 'a = nat] by simp
  then have "unat v < 2 ^ 64" by simp
  then have u: "unat (ucast v :: u64) = unat v" by (simp add: unsigned_ucast_eq take_bit_nat_eq_self)
  show "phys_addr_new x (unat (ucast v :: u64)) = Inr (unat v)"
    using v by (simp add: u x86_addr.phys_addr_new [OF assms(1)])
  have can: "canonical (unat v + offset)" using assms(2) v by simp
  then have "unat v + offset \<le> usize_max" by (auto simp: canonical_def usize_max_def)
  with can show "convert_physical_to_virtual x offset (unat v) = Inr (unat v + offset)"
    by (simp add: convert_physical_to_virtual_def usize_add_def x86_addr.virt_addr_new [OF assms(1)])
  have "(2 :: nat) ^ k \<le> 2 ^ 31" using assms(3) by (intro power_increasing) auto
  with size_nonzero [OF assms(3)] have sz: "unat (2 ^ k :: u32) = 2 ^ k" "(2 :: nat) ^ k \<le> 2 ^ 31" by auto
  show "\<exists>pages. map_pages x (unat v + offset) (unat v) (unat (2 ^ k :: u32) div 4096) = Inr pages"
  proof (rule map_pages_ok [OF assms(1)], intro allI impI)
    fix i
    assume "i < unat (2 ^ k :: u32) div 4096"
    then have "i * 4096 < 2 ^ k div 4096 * 4096" using sz(1) by simp
    also have "\<dots> \<le> 2 ^ k" by simp
    also note sz(2)
    finally have "i * 4096 < 2 ^ 31" .
    then have "unat v + i * 4096 < 2 ^ 33" using v by simp
    then show "canonical (unat v + offset + i * 4096) \<and> unat v + i * 4096 < 2 ^ 52"
      using assms(2) by (auto simp: algebra_simps)
  qed
qed

context bar_registers
begin

lemma bar_step_kind:
  assumes "x86_addr x" and "consistent (machine st)" and "i < 6" and "bar_index_ignore st = 255"
    and "kind_bits kd (writable i) (hardwired i)" and "\<forall>a < 2 ^ 33. canonical (a + offset)"
    and "v = arch_read arch b (bar_reg i) (machine st)"
  shows "\<exists>st'. bar_step arch x offset b i st = Inr (None, st') \<and> bar_index_ignore st' = 255 \<and>
    found_bars st' = (if kd = NoBar then found_bars st else put_bar (found_bars st) i (kind_info offset kd v))"
proof -
  obtain orig sz w where p: "probe_bar arch b i (machine st) = (orig, sz, w)" by (metis prod_cases3)
  have o: "orig = v" and sz: "sz = bar_size (writable i OR hardwired i)"
    using probe_consistent [OF assms(2,3) p] assms(7) by auto
  have h: "v AND NOT (writable i) = hardwired i" using held [OF assms(2,3)] assms(7) by simp
  have go: "i \<noteq> bar_index_ignore st" using assms(3,4) by simp
  show ?thesis
  proof (cases kd)
    case NoBar
    then have "sz = 0" using assms(5) sz by (simp add: bar_size_def)
    then show ?thesis using go p NoBar assms(4) by (simp add: bar_step_def)
  next
    case (Mem32 k pref)
    with assms(5) have k: "4 \<le> k" "k < 32" "writable i = NOT (mask k)" "hardwired i = (if pref then 8 else 0)" by auto
    have hw: "hardwired i AND NOT (mask 4) = 0" unfolding k(4) using small_masks(3) [of 4] by simp
    have size: "sz = 2 ^ k" using bar_size_mask [OF k(2) hw] k(1,3) sz by (simp add: max_def)
    have vm: "v AND mask k = hardwired i" using h k(3) by simp
    have v1: "v AND 1 \<noteq> 1" using low_bits [OF vm small_masks(1)] k by (simp split: if_splits)
    have v6: "v AND 6 = 0" using low_bits [OF vm small_masks(2)] k by (simp split: if_splits)
    have v8: "v AND 8 \<noteq> 0 \<longleftrightarrow> pref" using low_bits [OF vm small_masks(3)] k by (simp split: if_splits)
    obtain pages where "map_pages x (unat (v AND 0xfffffff0) + offset) (unat (v AND 0xfffffff0)) (unat (2 ^ k :: u32) div 4096) = Inr pages"
      using window_maps(3) [OF assms(1,6) k(2)] by blast
    then show ?thesis
      using go p o size size_nonzero [OF k(2)] v1 v6 v8 Mem32 assms(4) window_maps(1,2) [OF assms(1,6) k(2), of "v AND 0xfffffff0"]
      by (simp add: bar_step_def Let_def bar_type_try_from_def)
  next
    case (IoBar k)
    with assms(5) have k: "2 \<le> k" "k < 32" "writable i = NOT (mask k)" "hardwired i = 1" by auto
    have hw: "hardwired i AND NOT (mask 4) = 0" unfolding k(4) using small_masks(1) [of 4] by simp
    have size: "sz = 2 ^ max k 4" using bar_size_mask [OF k(2) hw] k(3) sz by simp
    have vm: "v AND mask k = hardwired i" using h k(3) by simp
    have v1: "v AND 1 = 1" using low_bits [OF vm small_masks(1)] k by simp
    have nz: "(2 ^ max k 4 :: u32) \<noteq> 0" using size_nonzero [of "max k 4"] k(2) by simp
    show ?thesis using go p o size nz v1 IoBar assms(4) by (simp add: bar_step_def)
  qed
qed

lemma bar_loop_kinds:
  assumes "x86_addr x" and "consistent (machine st)" and "distinct is" and "set is \<subseteq> {..<6}" and "bar_index_ignore st = 255"
    and "\<forall>i < 6. kind_bits (kind i) (writable i) (hardwired i)" and "\<forall>a < 2 ^ 33. canonical (a + offset)"
    and "\<forall>i \<in> set is. get_bar (found_bars st) i = Inr Unused"
  shows "\<exists>st'. bar_loop arch x offset b is st = Inr (None, st') \<and>
    (\<forall>i < 6. get_bar (found_bars st') i =
       (if i \<in> set is then Inr (kind_info offset (kind i) (arch_read arch b (bar_reg i) (machine st)))
        else get_bar (found_bars st) i))"
  using assms
proof (induction "is" arbitrary: st)
  case Nil
  then show ?case by simp
next
  case (Cons i "is")
  let ?v = "arch_read arch b (bar_reg i) (machine st)"
  have i: "i < 6" "i \<notin> set is" "get_bar (found_bars st) i = Inr Unused" using Cons.prems(3,4,8) by auto
  obtain st1 where s1: "bar_step arch x offset b i st = Inr (None, st1)" "bar_index_ignore st1 = 255"
    "found_bars st1 = (if kind i = NoBar then found_bars st else put_bar (found_bars st) i (kind_info offset (kind i) ?v))"
    using bar_step_kind [OF Cons.prems(1,2) i(1) Cons.prems(5) _ Cons.prems(7) refl, of "kind i"] Cons.prems(6) i(1) by blast
  note reg = bar_step_registers [OF Cons.prems(2) i(1) s1(1)]
  have get1: "get_bar (found_bars st1) j = (if j = i then Inr (kind_info offset (kind i) ?v) else get_bar (found_bars st) j)"
    if "j < 6" for j
    using get_put_bar [OF i(1) that] s1(3) i(3) by auto
  have "\<forall>j \<in> set is. get_bar (found_bars st1) j = Inr Unused"
  proof
    fix j assume "j \<in> set is"
    then have "j < 6" "j \<noteq> i" "get_bar (found_bars st) j = Inr Unused" using Cons.prems(3,4,8) by auto
    then show "get_bar (found_bars st1) j = Inr Unused" using get1 by simp
  qed
  from Cons.IH [OF Cons.prems(1) _ _ _ s1(2) Cons.prems(6,7) this] reg Cons.prems(3,4) obtain st' where
    st': "bar_loop arch x offset b is st1 = Inr (None, st')"
    "\<forall>j < 6. get_bar (found_bars st') j =
       (if j \<in> set is then Inr (kind_info offset (kind j) (arch_read arch b (bar_reg j) (machine st1)))
        else get_bar (found_bars st1) j)" by auto
  have "\<forall>j < 6. get_bar (found_bars st') j =
       (if j \<in> set (i # is) then Inr (kind_info offset (kind j) (arch_read arch b (bar_reg j) (machine st)))
        else get_bar (found_bars st) j)"
    using st'(2) get1 reg i(2) by auto
  with st'(1) s1(1) show ?case by auto
qed

end

section \<open>Functions with given registers\<close>

text \<open>A function whose base address registers have given writable and hardwired bits.\<close>

definition masked_arch :: "(nat \<Rightarrow> u32) \<Rightarrow> (nat \<Rightarrow> u32) \<Rightarrow> (nat \<Rightarrow> u32) pci_arch" where
  "masked_arch wr hw = \<lparr>
     arch_read = \<lambda>b off w. w (unat off),
     arch_write = \<lambda>b off v w. let i = (unat off - 16) div 4 in w(unat off := v AND wr i OR hw i)\<rparr>"

definition masked_consistent :: "(nat \<Rightarrow> u32) \<Rightarrow> (nat \<Rightarrow> u32) \<Rightarrow> (nat \<Rightarrow> u32) \<Rightarrow> bool" where
  "masked_consistent wr hw w \<longleftrightarrow> (\<forall>i < 6. w (16 + 4 * i) AND NOT (wr i) = hw i)"

lemma unat_bar_reg: "i < 6 \<Longrightarrow> unat (bar_reg i) = 16 + 4 * i"
proof -
  assume "i < 6"
  have "bar_reg i = of_nat (16 + 4 * i)" by (simp add: bar_reg_def)
  then show ?thesis using \<open>i < 6\<close> by (simp only: unat_of_nat) simp
qed

lemma masked_stored:
  fixes v wr hw :: u32
  assumes "wr AND hw = 0"
  shows "(v AND wr OR hw) AND NOT wr = hw"
proof (rule bit_word_eqI)
  fix n
  have "bit (wr AND hw) n = False" by (simp add: assms)
  then show "bit ((v AND wr OR hw) AND NOT wr) n = bit hw n" by (auto simp: bit_simps dest: bit_imp_le_length)
qed

lemma masked_registers:
  assumes dis: "\<forall>i < 6. wr i AND hw i = 0"
  shows "bar_registers (masked_arch wr hw) b wr hw (masked_consistent wr hw)"
proof unfold_locales
  fix i j v w
  assume i: "i < (6 :: nat)"
  show "arch_read (masked_arch wr hw) b (bar_reg i) (arch_write (masked_arch wr hw) b (bar_reg i) v w) = v AND wr i OR hw i"
    using unat_bar_reg [OF i] by (simp add: masked_arch_def Let_def)
  show "wr i AND hw i = 0" using dis i by simp
  show "arch_read (masked_arch wr hw) b (bar_reg j) (arch_write (masked_arch wr hw) b (bar_reg i) v w) =
      arch_read (masked_arch wr hw) b (bar_reg j) w" if "j < 6" "i \<noteq> j"
    using unat_bar_reg [OF i] unat_bar_reg [OF that(1)] that(2) by (simp add: masked_arch_def Let_def)
  assume w: "masked_consistent wr hw w"
  show "arch_read (masked_arch wr hw) b (bar_reg i) w AND NOT (wr i) = hw i"
    using w i unat_bar_reg [OF i] by (simp add: masked_arch_def masked_consistent_def)
  show "masked_consistent wr hw (arch_write (masked_arch wr hw) b (bar_reg i) v w)"
    using w unat_bar_reg [OF i] masked_stored dis by (auto simp: masked_arch_def masked_consistent_def Let_def)
qed

text \<open>Register 0 is a memory BAR of 16 KiB, register 1 an I/O BAR of 8 bytes, the others are absent.\<close>

definition two_kind :: "nat \<Rightarrow> bar_kind" where
  "two_kind i = (if i = 0 then Mem32 14 False else if i = 1 then IoBar 3 else NoBar)"

definition two_writable :: "nat \<Rightarrow> u32" where
  "two_writable i = (if i = 0 then NOT (mask 14) else if i = 1 then NOT (mask 3) else 0)"

definition two_hardwired :: "nat \<Rightarrow> u32" where
  "two_hardwired i = (if i = 1 then 1 else 0)"

definition two_machine :: "nat \<Rightarrow> u32" where
  "two_machine a = (if a = 16 then 0xfebf0000 else if a = 20 then 0xc041 else 0)"

interpretation two: bar_registers "masked_arch two_writable two_hardwired" b two_writable two_hardwired
  "masked_consistent two_writable two_hardwired" for b
proof (rule masked_registers)
  have "NOT (mask 3) AND (1 :: u32) = 0" using small_masks(1) [of 3] by (simp add: and.commute)
  then show "\<forall>i < 6. two_writable i AND two_hardwired i = 0" by (simp add: two_writable_def two_hardwired_def)
qed

lemma two_machine_consistent: "masked_consistent two_writable two_hardwired two_machine"
  by (auto simp: masked_consistent_def two_machine_def two_writable_def two_hardwired_def mask_eq_exp_minus_1)

lemma two_kinds: "\<forall>i < 6. kind_bits (two_kind i) (two_writable i) (two_hardwired i)"
  by (simp add: two_kind_def two_writable_def two_hardwired_def)

text \<open>Register 0 is the low half of a 64-bit BAR of 4 GiB.\<close>

interpretation large: bar_registers "masked_arch (\<lambda>_. 0) (\<lambda>i. if i = 0 then 4 else 0)" b "\<lambda>_. 0" "\<lambda>i. if i = 0 then 4 else 0"
  "masked_consistent (\<lambda>_. 0) (\<lambda>i. if i = 0 then 4 else 0)" for b
  by (rule masked_registers) simp

section \<open>Properties\<close>

text \<open>
  Probing leaves the device as it found it: whatever \<open>pci_bar_init\<close> returns, an error included,
  every base address register reads the value it had before.
\<close>

theorem bar_init_restores:
  assumes "bar_registers arch b writable hardwired consistent" and "consistent w"
    and "pci_bar_init arch x offset b w = Inr (r, pages, w')"
  shows "\<forall>j < 6. arch_read arch b (bar_reg j) w' = arch_read arch b (bar_reg j) w"
proof -
  let ?st = "\<lparr>found_bars = bar_default, bar_index_ignore = 255, mapped = [], machine = w\<rparr>"
  from assms(3) obtain e st where st: "bar_loop arch x offset b [0..<6] ?st = Inr (e, st)" "w' = machine st"
    by (auto simp: pci_bar_init_def result_simps split: prod.splits)
  have "set [0..<6] \<subseteq> {..<6 :: nat}" by auto
  from bar_registers.bar_loop_registers [OF assms(1) _ this st(1)] assms(2) st(2) show ?thesis by simp
qed

theorem bar_init_restores_witness:
  "\<exists>r pages w'. pci_bar_init (masked_arch two_writable two_hardwired) x86_model 0 \<lparr>bus = 0, device = 3, func = 0\<rparr> two_machine =
       Inr (r, pages, w') \<and>
     arch_read (masked_arch two_writable two_hardwired) \<lparr>bus = 0, device = 3, func = 0\<rparr> (bar_reg 0) w' = 0xfebf0000"
proof -
  have can: "\<forall>a < 2 ^ 33. canonical (a + 0)" by (auto simp: canonical_def)
  let ?st = "\<lparr>found_bars = bar_default, bar_index_ignore = 255, mapped = [], machine = two_machine\<rparr>"
  have "\<forall>i \<in> set [0..<6]. get_bar (found_bars ?st) i = Inr Unused" by (auto simp: get_bar_def bar_default_def)
  from two.bar_loop_kinds [OF x86_model.x86_addr_axioms _ _ _ _ two_kinds can this,
      of "\<lparr>bus = 0, device = 3, func = 0\<rparr>"] two_machine_consistent
  obtain st' where st': "bar_loop (masked_arch two_writable two_hardwired) x86_model 0 \<lparr>bus = 0, device = 3, func = 0\<rparr> [0..<6] ?st = Inr (None, st')"
    by fastforce
  then obtain r pages w' where ok: "pci_bar_init (masked_arch two_writable two_hardwired) x86_model 0 \<lparr>bus = 0, device = 3, func = 0\<rparr> two_machine =
       Inr (r, pages, w')" by (simp add: pci_bar_init_def)
  from bar_init_restores [OF two.bar_registers_axioms, OF two_machine_consistent ok] have
    "arch_read (masked_arch two_writable two_hardwired) \<lparr>bus = 0, device = 3, func = 0\<rparr> (bar_reg 0) w' =
     arch_read (masked_arch two_writable two_hardwired) \<lparr>bus = 0, device = 3, func = 0\<rparr> (bar_reg 0) two_machine" by simp
  also have "\<dots> = 0xfebf0000" by (simp add: masked_arch_def unat_bar_reg two_machine_def)
  finally show ?thesis using ok by blast
qed

text \<open>
  C31. For a function whose registers are absent, 32-bit memory or I/O BARs, with the kernel's
  window covering their addresses, \<open>pci_bar_init\<close> succeeds and reports for each register its kind,
  its address with the flag bits cleared, its prefetchable flag, its virtual address and its
  size; the size is the true one except that I/O regions smaller than 16 bytes are reported
  as 16.
\<close>

theorem bar_init_decodes:
  assumes "bar_registers arch b writable hardwired consistent" and "x86_addr x" and "consistent w"
    and "\<forall>i < 6. kind_bits (kind i) (writable i) (hardwired i)" and "\<forall>a < 2 ^ 33. canonical (a + offset)"
  shows "\<exists>bars pages w'. pci_bar_init arch x offset b w = Inr (Inr bars, pages, w') \<and>
    (\<forall>i < 6. get_bar bars i = Inr (kind_info offset (kind i) (arch_read arch b (bar_reg i) w)))"
proof -
  let ?st = "\<lparr>found_bars = bar_default, bar_index_ignore = 255, mapped = [], machine = w\<rparr>"
  have "\<forall>i \<in> set [0..<6]. get_bar (found_bars ?st) i = Inr Unused" by (auto simp: get_bar_def bar_default_def)
  from bar_registers.bar_loop_kinds [OF assms(1,2) _ _ _ _ assms(4,5) this] assms(3) obtain st' where
    "bar_loop arch x offset b [0..<6] ?st = Inr (None, st')"
    "\<forall>i < 6. get_bar (found_bars st') i =
       (if i \<in> set [0..<6] then Inr (kind_info offset (kind i) (arch_read arch b (bar_reg i) w))
        else get_bar (found_bars ?st) i)" by fastforce
  then show ?thesis by (simp add: pci_bar_init_def)
qed

theorem bar_init_decodes_witness:
  "\<exists>bars pages w'. pci_bar_init (masked_arch two_writable two_hardwired) x86_model 0 \<lparr>bus = 0, device = 3, func = 0\<rparr> two_machine =
       Inr (Inr bars, pages, w') \<and>
     get_bar bars 0 = Inr (Memory Width32 False 0xfebf0000 16384 0xfebf0000) \<and> get_bar bars 1 = Inr (IO 0xc040 16) \<and>
     get_bar bars 2 = Inr Unused"
proof -
  have can: "\<forall>a < 2 ^ 33. canonical (a + 0)" by (auto simp: canonical_def)
  from bar_init_decodes [OF two.bar_registers_axioms [of "\<lparr>bus = 0, device = 3, func = 0\<rparr>"] x86_model.x86_addr_axioms,
      OF two_machine_consistent two_kinds can] obtain bars pages w' where
    ok: "pci_bar_init (masked_arch two_writable two_hardwired) x86_model 0 \<lparr>bus = 0, device = 3, func = 0\<rparr> two_machine =
       Inr (Inr bars, pages, w')"
    and bars: "\<forall>i < 6. get_bar bars i = Inr (kind_info 0 (two_kind i) (two_machine (unat (bar_reg i))))"
    by (auto simp: masked_arch_def)
  have "get_bar bars 0 = Inr (Memory Width32 False 0xfebf0000 16384 0xfebf0000)"
    "get_bar bars 1 = Inr (IO 0xc040 16)" "get_bar bars 2 = Inr Unused"
    using bars by (simp_all add: unat_bar_reg two_kind_def two_machine_def)
  with ok show ?thesis by blast
qed

text \<open>
  A 64-bit memory BAR of 4 GiB or more has no writable bit in its low register, so its probed
  size is 0 and the loop passes over it as if the register were absent: no BAR is recorded and
  the upper half is not skipped.
\<close>

theorem bar_64_large_ignored:
  assumes "bar_registers arch b writable hardwired consistent" and "consistent (machine st)" and "i < 6"
    and "bar_index_ignore st = 255" and "writable i = 0" and "hardwired i = 4 \<or> hardwired i = 12"
  shows "\<exists>w. bar_step arch x offset b i st = Inr (None, st\<lparr>machine := w\<rparr>)"
proof -
  obtain orig sz w where p: "probe_bar arch b i (machine st) = (orig, sz, w)" by (metis prod_cases3)
  have "sz = bar_size (writable i OR hardwired i)"
    using bar_registers.probe_consistent [OF assms(1-3) p] by simp
  then have "sz = 0" using assms(5,6) by (auto simp: bar_size_def)
  then show ?thesis using p assms(3,4) by (auto simp: bar_step_def)
qed

theorem bar_64_large_ignored_witness:
  "\<exists>w. bar_step (masked_arch (\<lambda>_. 0) (\<lambda>i. if i = 0 then 4 else 0)) x86_model 0 \<lparr>bus = 0, device = 3, func = 0\<rparr> 0
      \<lparr>found_bars = bar_default, bar_index_ignore = 255, mapped = [], machine = \<lambda>a. if a = 16 then 4 else 0\<rparr> =
     Inr (None, \<lparr>found_bars = bar_default, bar_index_ignore = 255, mapped = [], machine = w\<rparr>)"
proof -
  have "masked_consistent (\<lambda>_. 0) (\<lambda>i. if i = 0 then 4 else 0) (\<lambda>a. if a = 16 then 4 else 0)"
    by (auto simp: masked_consistent_def)
  then show ?thesis
    using bar_64_large_ignored [OF large.bar_registers_axioms [of "\<lparr>bus = 0, device = 3, func = 0\<rparr>"],
      of "\<lparr>found_bars = bar_default, bar_index_ignore = 255, mapped = [], machine = \<lambda>a. if a = 16 then 4 else 0\<rparr>" 0 x86_model 0]
    by simp
qed

end
