(* ===== verification/NvmeDisks.thy ===== *)
theory NvmeDisks
  imports NvmeDevice PciBar
begin

text \<open>
  The NVMe drives of the machine (\<open>drivers/nvme/mod.rs\<close>): \<open>init\<close> looks for controllers among the PCI
  functions, initialises each and records its capacity, and the rest of the kernel addresses
  drives by number.  It composes the base address registers of \<open>PciBar\<close> with the driver of
  \<open>NvmeDevice\<close>.
\<close>

section \<open>Finding the drives\<close>

text \<open>The statics \<open>NVME_CONS\<close> and \<open>NVME_SIZES\<close>, the counter of the loop, and the state of the machine.\<close>

record ('w, 'd) disks =
  config :: 'w
  device_memory :: "'d machine"
  frames :: BitmapFrameAllocator
  bar_pages :: "(nat \<times> nat) list"
  NVME_CONS :: "NvmeDevice list"
  NVME_SIZES :: "nat \<rightharpoonup> nat"
  idx :: nat

record ('w, 'd) disk_env =
  de_arch :: "'w pci_arch"
  de_bf :: bit_field_api
  de_x86 :: x86_api
  de_offset :: nat
  de_hw :: "'d nvme_hw"

definition add_capacity :: "('w, 'd) disk_env \<Rightarrow> u32 \<Rightarrow> nat \<times> NvmeDevice \<times> 'd machine \<Rightarrow> (nat \<times> NvmeDevice \<times> 'd machine) outcome" where
  "add_capacity env n st =
     (let (nvmcap, v, m) = st in
      out_then (identify_namespace (de_hw env) n v m) (\<lambda>((_, cap), v, m).
      out_then (Some (usize_add nvmcap cap)) (\<lambda>nvmcap. Some (Inr (nvmcap, v, m)))))"

text \<open>A controller whose registers are at \<open>header\<close>: initialisation, identification, and its capacity.\<close>

definition open_drive ::
  "('w, 'd) disk_env \<Rightarrow> nat \<Rightarrow> nat \<Rightarrow> BitmapFrameAllocator \<Rightarrow> 'd machine \<Rightarrow> (NvmeDevice \<times> nat \<times> BitmapFrameAllocator \<times> 'd machine) outcome" where
  "open_drive env header len a m =
     out_then (nvme_init (de_bf env) (de_x86 env) (de_offset env) (de_hw env) header len a m) (\<lambda>(r, a, m).
     out_then (Some (case r of Inl _ \<Rightarrow> Inl (ExpectFailed ''Cannot init NVMe device'') | Inr v \<Rightarrow> Inr v)) (\<lambda>v.
     out_then (identify_controller (de_hw env) v m) (\<lambda>(_, v, m).
     out_then (identify_namespace_list (de_hw env) 0 v m) (\<lambda>(ns, v, m).
     out_then (out_for_each (add_capacity env) ns (0, v, m)) (\<lambda>(nvmcap, v, m).
     Some (Inr (v, nvmcap, a, m)))))))"

text \<open>The body of the loop over the PCI functions of the class.\<close>

definition probe_drive ::
  "('w, 'd) disk_env \<Rightarrow> PciDevice \<Rightarrow> ('w, 'd) disks \<Rightarrow> (PciDevice \<times> ('w, 'd) disks) outcome" where
  "probe_drive env pci_device s =
     out_then (Some (bar_init (de_arch env) (de_x86 env) (de_offset env) pci_device (config s))) (\<lambda>(r, d, pages, w).
     let s = s\<lparr>config := w, bar_pages := bar_pages s @ pages\<rparr> in
     case r of
       None \<Rightarrow> Some (Inr (d, s))
     | Some _ \<Rightarrow>
         out_then (Some (unwrap (as_standard_device d))) (\<lambda>g.
         case get_bar (standard_device_bar g) 0 of
           Inl _ \<Rightarrow> Some (Inr (d, s\<lparr>idx := idx s + 1\<rparr>))
         | Inr bar \<Rightarrow>
             (case memory_address_size bar of
                None \<Rightarrow> Some (Inr (d, s\<lparr>idx := idx s + 1\<rparr>))
              | Some (_, len) \<Rightarrow>
                  out_then (Some (unwrap (virtual_address bar))) (\<lambda>header.
                  let (d, w) = enable_master (de_arch env) d (config s) in
                  out_then (open_drive env header (unat len) (frames s) (device_memory s)) (\<lambda>(v, nvmcap, a, m).
                  Some (Inr (d, s\<lparr>config := w, frames := a, device_memory := m, NVME_CONS := NVME_CONS s @ [v],
                    NVME_SIZES := (NVME_SIZES s)(idx s \<mapsto> nvmcap), idx := idx s + 1\<rparr>)))))))"

definition is_nvme :: "PciDevice \<Rightarrow> bool" where
  "is_nvme d \<longleftrightarrow> class_code (common_header d) = 0x01 \<and> sub_class (common_header d) = 0x08"

text \<open>\<open>init\<close> changes the devices in the list it was given; the others stay.\<close>

fun disks_init ::
  "('w, 'd) disk_env \<Rightarrow> PciDevice list \<Rightarrow> ('w, 'd) disks \<Rightarrow> (PciDevice list \<times> ('w, 'd) disks) outcome" where
  "disks_init env [] s = Some (Inr ([], s))"
| "disks_init env (d # ds) s =
     out_then (if is_nvme d then probe_drive env d s else Some (Inr (d, s))) (\<lambda>(d, s).
     out_then (disks_init env ds s) (\<lambda>(ds, s). Some (Inr (d # ds, s))))"

definition get_hd_num :: "('w, 'd) disks \<Rightarrow> nat" where
  "get_hd_num s = length (NVME_CONS s)"

definition get_hd_size :: "('w, 'd) disks \<Rightarrow> nat \<Rightarrow> nat option" where
  "get_hd_size s drive = NVME_SIZES s drive"

section \<open>The numbers of the drives\<close>

text \<open>
  \<open>opened\<close> tells for every NVMe function with base address registers whether its first one is a memory
  window, so that it became a drive.  The size of a drive is stored under the number of such
  functions before it, but its controller under the number of drives before it.
\<close>

definition drives_numbered :: "bool list \<Rightarrow> ('w, 'd) disks \<Rightarrow> bool" where
  "drives_numbered opened s \<longleftrightarrow> idx s = length opened \<and> dom (NVME_SIZES s) = {i. i < length opened \<and> opened ! i} \<and>
     length (NVME_CONS s) = length (filter id opened)"

lemma numbered_skip: "drives_numbered opened s \<Longrightarrow> drives_numbered (opened @ [False]) (s\<lparr>idx := idx s + 1\<rparr>)"
  by (auto simp: drives_numbered_def nth_append less_Suc_eq)

lemma numbered_open:
  "drives_numbered opened s \<Longrightarrow>
   drives_numbered (opened @ [True]) (s\<lparr>config := w, frames := a, device_memory := m, NVME_CONS := NVME_CONS s @ [v],
     NVME_SIZES := (NVME_SIZES s)(idx s \<mapsto> c), idx := idx s + 1\<rparr>)"
  by (auto simp: drives_numbered_def nth_append less_Suc_eq)

lemma bar_init_general:
  assumes "bar_init arch x offset (General g) w = Inr (r, d, pages, w')"
  shows "\<exists>q g'. r = Some q \<and> d = General g'"
proof (cases "pci_bar_init arch x offset (bus_device_function (gd_header g)) w")
  case (Inr p)
  obtain a pg w1 where "p = (a, pg, w1)" by (cases p)
  then show ?thesis using Inr assms by (cases a) (auto simp: bar_init_def)
qed (use assms in \<open>simp add: bar_init_def\<close>)

lemma probe_numbered:
  assumes "probe_drive env d s = Some (Inr (d', s'))" "drives_numbered opened s"
  shows "\<exists>more. drives_numbered (opened @ more) s' \<and> length more = (case d of General _ \<Rightarrow> 1 | _ \<Rightarrow> 0)"
proof -
  obtain r d1 pages w where b: "bar_init (de_arch env) (de_x86 env) (de_offset env) d (config s) = Inr (r, d1, pages, w)"
    using assms(1) by (auto simp: probe_drive_def result_simps)
  let ?s = "s\<lparr>config := w, bar_pages := bar_pages s @ pages\<rparr>"
  have n: "drives_numbered opened ?s" using assms(2) by (simp add: drives_numbered_def)
  show ?thesis
  proof (cases d)
    case (General g)
    then obtain q g1 where q: "r = Some q" "d1 = General g1" using bar_init_general [OF b [unfolded General]] by blast
    show ?thesis
    proof (cases "get_bar (standard_device_bar g1) 0")
      case (Inl e)
      then have "s' = ?s\<lparr>idx := idx ?s + 1\<rparr>" using assms(1) b q by (simp add: probe_drive_def)
      then show ?thesis using numbered_skip [OF n] General by (intro exI [of _ "[False]"]) simp
    next
      case (Inr bar)
      show ?thesis
      proof (cases "memory_address_size bar")
        case None
        then have "s' = ?s\<lparr>idx := idx ?s + 1\<rparr>" using assms(1) b q Inr by (simp add: probe_drive_def)
        then show ?thesis using numbered_skip [OF n] General by (intro exI [of _ "[False]"]) simp
      next
        case (Some al)
        obtain d2 w2 where em: "enable_master (de_arch env) (General g1) w = (d2, w2)" by fastforce
        obtain v c a m where "s' = ?s\<lparr>config := w2, frames := a, device_memory := m, NVME_CONS := NVME_CONS ?s @ [v],
            NVME_SIZES := (NVME_SIZES ?s)(idx ?s \<mapsto> c), idx := idx ?s + 1\<rparr>"
          using assms(1) b q Inr Some em by (cases al) (auto simp: probe_drive_def result_simps intro: that)
        then show ?thesis using numbered_open [OF n] General by (intro exI [of _ "[True]"]) auto
      qed
    qed
  qed (use assms b n in \<open>auto simp: probe_drive_def bar_init_def\<close>)
qed

text \<open>
  When \<open>init\<close> returns, the number of drives is that of the NVMe functions with a memory window, and
  sizes are known for exactly their positions among the NVMe functions: the numbers agree with
  those of \<open>read_block\<close> if and only if no function without a window comes before a drive.
\<close>

theorem drives_recorded:
  assumes "disks_init env ds s = Some (Inr (ds', s'))" "NVME_CONS s = []" "NVME_SIZES s = Map.empty" "idx s = 0"
  shows "\<exists>opened. length opened = length (filter (\<lambda>d. is_nvme d \<and> as_standard_device d \<noteq> None) ds) \<and>
    get_hd_num s' = length (filter id opened) \<and> (\<forall>i. get_hd_size s' i \<noteq> None \<longleftrightarrow> i < length opened \<and> opened ! i) \<and>
    length ds' = length ds"
proof -
  have "\<exists>more. drives_numbered (opened @ more) s' \<and> length more = length (filter (\<lambda>d. is_nvme d \<and> as_standard_device d \<noteq> None) ds) \<and>
      length ds' = length ds" if "disks_init env ds s = Some (Inr (ds', s'))" "drives_numbered opened s" for opened ds ds' s s'
    using that
  proof (induction ds arbitrary: opened s ds')
    case Nil
    then show ?case by (intro exI [of _ "[]"]) simp
  next
    case (Cons d ds)
    from Cons.prems(1) obtain d1 s1 ds1 where 1: "(if is_nvme d then probe_drive env d s else Some (Inr (d, s))) = Some (Inr (d1, s1))"
      "disks_init env ds s1 = Some (Inr (ds1, s'))" "ds' = d1 # ds1" by (auto simp: result_simps)
    obtain more where m: "drives_numbered (opened @ more) s1"
      "length more = length (filter (\<lambda>d. is_nvme d \<and> as_standard_device d \<noteq> None) [d])"
      using probe_numbered [of env d s d1 s1 opened] 1(1) Cons.prems(2)
      by (cases "is_nvme d"; cases d) (auto intro: that [of "[]"] that)
    from Cons.IH [OF 1(2) m(1)] obtain more2 where "drives_numbered (opened @ more @ more2) s'"
      "length more2 = length (filter (\<lambda>d. is_nvme d \<and> as_standard_device d \<noteq> None) ds)" "length ds1 = length ds" by auto
    then show ?case using m(2) 1(3) by (intro exI [of _ "more @ more2"]) (auto split: if_splits)
  qed
  from this [OF assms(1), of "[]"] obtain opened where "drives_numbered opened s'"
    "length opened = length (filter (\<lambda>d. is_nvme d \<and> as_standard_device d \<noteq> None) ds)" "length ds' = length ds"
    using assms(2-4) by (auto simp: drives_numbered_def)
  then show ?thesis by (intro exI [of _ opened]) (auto simp: drives_numbered_def get_hd_num_def get_hd_size_def)
qed

end
