(* ===== verification/Clock.thy ===== *)
theory Clock
  imports Prelude
begin

text \<open>
  The two clocks: the CMOS real-time clock of \<open>drivers/rtc.rs\<close>, read through the ports 0x70 and
  0x71, and the high precision event timer of \<open>drivers/hpet.rs\<close>, read through memory-mapped
  registers.  The hardware is a world \<open>'w\<close> that every access may change; the calendar types of
  the \<open>time\<close> crate are the fields of the parameter record \<open>time_api\<close>.
\<close>

section \<open>The real-time clock\<close>

record 'w byte_ports =
  out8 :: "u16 \<Rightarrow> u8 \<Rightarrow> 'w \<Rightarrow> 'w"
  in8 :: "u16 \<Rightarrow> 'w \<Rightarrow> u8 \<times> 'w"

record RtcDateTime =
  second :: u8
  minute :: u8
  hour :: u8
  day :: u8
  month :: u8
  year :: u8

definition get_rtc_register :: "'w byte_ports \<Rightarrow> u8 \<Rightarrow> 'w \<Rightarrow> u8 \<times> 'w" where
  "get_rtc_register io idx w = in8 io 0x71 (out8 io 0x70 idx w)"

definition rtc_bcd_to_bin :: "u8 \<Rightarrow> u8" where
  "rtc_bcd_to_bin bcd =
     (let msb = bcd AND 0x80;
          msb_masked = bcd AND NOT 0x80 in
      ((msb_masked div 16) * 10 + msb_masked mod 16) OR msb)"

definition rtc_from_bcd :: "RtcDateTime \<Rightarrow> RtcDateTime" where
  "rtc_from_bcd r = \<lparr>second = rtc_bcd_to_bin (second r), minute = rtc_bcd_to_bin (minute r),
     hour = rtc_bcd_to_bin (hour r), day = rtc_bcd_to_bin (day r),
     month = rtc_bcd_to_bin (month r), year = rtc_bcd_to_bin (year r)\<rparr>"

definition rtc_from_12_hour :: "u8 \<Rightarrow> u8" where
  "rtc_from_12_hour h =
     (let is_pm = (h AND 0x80 \<noteq> 0) in ((h AND NOT 0x80) mod 12) + 12 * of_bool is_pm)"

definition rtc_new :: "'w byte_ports \<Rightarrow> 'w \<Rightarrow> RtcDateTime \<times> 'w" where
  "rtc_new io w =
     (let (s, w) = get_rtc_register io 0x00 w;
          (m, w) = get_rtc_register io 0x02 w;
          (h, w) = get_rtc_register io 0x04 w;
          (d, w) = get_rtc_register io 0x07 w;
          (mo, w) = get_rtc_register io 0x08 w;
          (y, w) = get_rtc_register io 0x09 w;
          rtc_time = \<lparr>second = s, minute = m, hour = h, day = d, month = mo, year = y\<rparr>;
          (format, w) = get_rtc_register io 0x0b w;
          is_24_hour = (format AND push_bit 1 1 \<noteq> 0);
          is_binary = (format AND push_bit 2 1 \<noteq> 0);
          rtc_time = (if \<not> is_binary then rtc_from_bcd rtc_time else rtc_time);
          rtc_time = (if \<not> is_24_hour then rtc_time\<lparr>hour := rtc_from_12_hour (hour rtc_time)\<rparr> else rtc_time) in
      (rtc_time, w))"

text \<open>\<open>to_datetime\<close> with the constructors of the \<open>time\<close> crate as parameters.\<close>

record ('e, 'm, 'd, 't, 'dt) time_api =
  month_try_from :: "u8 \<Rightarrow> 'e + 'm"
  from_calendar_date :: "int \<Rightarrow> 'm \<Rightarrow> u8 \<Rightarrow> 'e + 'd"
  from_hms :: "u8 \<Rightarrow> u8 \<Rightarrow> u8 \<Rightarrow> 'e + 't"
  utc_date_time :: "'d \<Rightarrow> 't \<Rightarrow> 'dt"

definition to_datetime :: "('e, 'm, 'd, 't, 'dt) time_api \<Rightarrow> RtcDateTime \<Rightarrow> 'e + 'dt" where
  "to_datetime api r =
     and_then (month_try_from api (month r)) (\<lambda>mo.
     and_then (from_calendar_date api (uint (year r) + 2000) mo (day r)) (\<lambda>date.
     and_then (from_hms api (hour r) (minute r) (second r)) (\<lambda>time.
     Inr (utc_date_time api date time))))"

section \<open>The event timer\<close>

record 'w mmio =
  read32 :: "nat \<Rightarrow> 'w \<Rightarrow> u32 \<times> 'w"
  read64 :: "nat \<Rightarrow> 'w \<Rightarrow> u64 \<times> 'w"
  write64 :: "nat \<Rightarrow> u64 \<Rightarrow> 'w \<Rightarrow> 'w"

record Hpet =
  base_addr :: nat

definition hpet_uninit :: Hpet where
  "hpet_uninit = \<lparr>base_addr = 0\<rparr>"

definition hpet_init :: "nat \<Rightarrow> Hpet \<Rightarrow> Hpet" where
  "hpet_init a h = h\<lparr>base_addr := a\<rparr>"

definition clock_speed :: "'w mmio \<Rightarrow> Hpet \<Rightarrow> 'w \<Rightarrow> u32 \<times> 'w" where
  "clock_speed io h w = (let (v, w) = read64 io (base_addr h) w in (ucast (drop_bit 32 v), w))"

definition timers_count :: "'w mmio \<Rightarrow> Hpet \<Rightarrow> 'w \<Rightarrow> u32 \<times> 'w" where
  "timers_count io h w =
     (let (v, w) = read64 io (base_addr h) w in (ucast ((drop_bit 8 v AND 0b11111) + 1), w))"

definition enable_counter :: "'w mmio \<Rightarrow> Hpet \<Rightarrow> 'w \<Rightarrow> 'w result" where
  "enable_counter io h w =
     and_then (usize_add (base_addr h) 0x10) (\<lambda>configuration_addr.
     let (old, w) = read64 io configuration_addr w in
     Inr (write64 io configuration_addr (old OR 1) w))"

partial_function (option) get_counter_loop :: "'w mmio \<Rightarrow> nat \<Rightarrow> nat \<Rightarrow> 'w \<Rightarrow> (u64 \<times> 'w) option" where
  "get_counter_loop io counter_l_addr counter_h_addr w =
     (let (high1, w) = read32 io counter_h_addr w;
          (low, w) = read32 io counter_l_addr w;
          (high2, w) = read32 io counter_h_addr w in
      if high1 = high2 then Some (push_bit 32 (ucast high1) OR ucast low, w)
      else get_counter_loop io counter_l_addr counter_h_addr w)"

definition get_counter :: "'w mmio \<Rightarrow> Hpet \<Rightarrow> 'w \<Rightarrow> (u64 \<times> 'w) outcome" where
  "get_counter io h w =
     out_then (Some (usize_add (base_addr h) 0xf0)) (\<lambda>counter_l_addr.
     out_then (Some (usize_add (base_addr h) 0xf4)) (\<lambda>counter_h_addr.
     map_option Inr (get_counter_loop io counter_l_addr counter_h_addr w)))"

definition get_time_elapsed :: "'w mmio \<Rightarrow> Hpet \<Rightarrow> 'w \<Rightarrow> (u64 \<times> 'w) outcome" where
  "get_time_elapsed io h w =
     out_then (get_counter io h w) (\<lambda>(c, w).
     let (speed, w) = clock_speed io h w in
     Some (and_then (word_mul c (ucast speed div 1000000)) (\<lambda>t. Inr (t, w))))"

text \<open>
  \<open>init\<close> takes the base address from ACPI, maps it into the kernel's window (the parameter
  \<open>to_virtual\<close>), enables the counter and sets the flag \<open>HPET_INIT\<close>.
\<close>

definition hpet_start ::
  "(nat \<Rightarrow> nat result) \<Rightarrow> (nat \<Rightarrow> nat result) \<Rightarrow> 'w mmio \<Rightarrow> nat option \<Rightarrow> Hpet \<Rightarrow> 'w \<Rightarrow> (Hpet \<times> bool \<times> 'w) result" where
  "hpet_start phys_new to_virtual io hpet_base h w =
     and_then (unwrap hpet_base) (\<lambda>b.
     and_then (phys_new b) (\<lambda>physical_address.
     and_then (to_virtual physical_address) (\<lambda>va.
     let h = hpet_init va h in
     and_then (enable_counter io h w) (\<lambda>w.
     let (_, w) = clock_speed io h w;
         (_, w) = timers_count io h w in
     Inr (h, True, w)))))"

section \<open>Reading the calendar\<close>

text \<open>
  What the registers of a clock hold at a civil time, in any of its four formats: binary or
  binary-coded decimal, with 24 hours or with 12 and an afternoon flag.
\<close>

record civil =
  c_year :: nat
  c_month :: nat
  c_day :: nat
  c_hour :: nat
  c_minute :: nat
  c_second :: nat

definition civil_ok :: "civil \<Rightarrow> bool" where
  "civil_ok t \<longleftrightarrow> c_year t < 100 \<and> c_month t < 13 \<and> c_day t < 32 \<and> c_hour t < 24 \<and> c_minute t < 60 \<and> c_second t < 60"

definition field_image :: "bool \<Rightarrow> nat \<Rightarrow> u8" where
  "field_image binary n = (if binary then of_nat n else of_nat (n div 10 * 16 + n mod 10))"

definition hour_image :: "bool \<Rightarrow> bool \<Rightarrow> nat \<Rightarrow> u8" where
  "hour_image binary h24 h =
     (if h24 then field_image binary h
      else field_image binary (if h mod 12 = 0 then 12 else h mod 12) OR (if 12 \<le> h then 0x80 else 0))"

definition format_image :: "bool \<Rightarrow> bool \<Rightarrow> u8 \<Rightarrow> u8" where
  "format_image binary h24 other = (other AND NOT 6) OR (if h24 then 2 else 0) OR (if binary then 4 else 0)"

definition cmos_image :: "bool \<Rightarrow> bool \<Rightarrow> u8 \<Rightarrow> civil \<Rightarrow> u8 \<Rightarrow> u8" where
  "cmos_image binary h24 other t i =
     (if i = 0x00 then field_image binary (c_second t)
      else if i = 0x02 then field_image binary (c_minute t)
      else if i = 0x04 then hour_image binary h24 (c_hour t)
      else if i = 0x07 then field_image binary (c_day t)
      else if i = 0x08 then field_image binary (c_month t)
      else if i = 0x09 then field_image binary (c_year t)
      else if i = 0x0b then format_image binary h24 other
      else 0)"

lemma bcd_table:
  "list_all (\<lambda>n. rtc_bcd_to_bin (field_image False n) = of_nat (if n < 80 then n else n + 48)) [0..<100]"
  by code_simp

lemma bcd_field: "n < 80 \<Longrightarrow> rtc_bcd_to_bin (field_image False n) = of_nat n"
  and bcd_year: "n < 100 \<Longrightarrow> rtc_bcd_to_bin (field_image False n) = of_nat (if n < 80 then n else n + 48)"
  using bcd_table by (simp_all add: list_all_iff)

lemma hour_table:
  "list_all (\<lambda>h. rtc_from_12_hour (hour_image True False h) = of_nat h \<and>
     rtc_from_12_hour (rtc_bcd_to_bin (hour_image False False h)) = of_nat h) [0..<24]"
  by code_simp

lemma hour_12:
  assumes "h < 24"
  shows "rtc_from_12_hour (hour_image True False h) = of_nat h"
    and "rtc_from_12_hour (rtc_bcd_to_bin (hour_image False False h)) = of_nat h"
  using assms hour_table by (simp_all add: list_all_iff)

lemma format_bits:
  "format_image binary h24 other AND 2 \<noteq> 0 \<longleftrightarrow> h24"
  "format_image binary h24 other AND 4 \<noteq> 0 \<longleftrightarrow> binary"
proof -
  have "format_image binary h24 other AND 2 = (if h24 then 2 else 0)"
    and "format_image binary h24 other AND 4 = (if binary then 4 else 0)"
    by (simp_all add: format_image_def bit.conj_disj_distrib2 and.assoc)
  then show "format_image binary h24 other AND 2 \<noteq> 0 \<longleftrightarrow> h24"
    and "format_image binary h24 other AND 4 \<noteq> 0 \<longleftrightarrow> binary" by simp_all
qed

text \<open>
  The contract of the ports: selecting a register and reading the data port returns it, and the
  registers do not change during the reading.
\<close>

locale cmos_ports =
  fixes io :: "'w byte_ports" and regs :: "'w \<Rightarrow> u8 \<Rightarrow> u8"
  assumes selected: "fst (in8 io 0x71 (out8 io 0x70 i w)) = regs w i"
    and stable: "regs (snd (in8 io 0x71 (out8 io 0x70 i w))) = regs w"
begin

lemma register: obtains w' where "get_rtc_register io i w = (regs w i, w')" "regs w' = regs w"
  using selected [of i w] stable [of i w]
  by (metis get_rtc_register_def prod.collapse)

lemma rtc_new_result:
  "fst (rtc_new io w) =
     (let r = \<lparr>second = regs w 0, minute = regs w 2, hour = regs w 4, day = regs w 7, month = regs w 8, year = regs w 9\<rparr>;
          r = (if regs w 0x0b AND 4 \<noteq> 0 then r else rtc_from_bcd r) in
      if regs w 0x0b AND 2 \<noteq> 0 then r else r\<lparr>hour := rtc_from_12_hour (hour r)\<rparr>)"
proof -
  obtain w1 where 1: "get_rtc_register io 0x00 w = (regs w 0x00, w1)" "regs w1 = regs w" by (rule register)
  obtain w2 where 2: "get_rtc_register io 0x02 w1 = (regs w1 0x02, w2)" "regs w2 = regs w1" by (rule register)
  obtain w3 where 3: "get_rtc_register io 0x04 w2 = (regs w2 0x04, w3)" "regs w3 = regs w2" by (rule register)
  obtain w4 where 4: "get_rtc_register io 0x07 w3 = (regs w3 0x07, w4)" "regs w4 = regs w3" by (rule register)
  obtain w5 where 5: "get_rtc_register io 0x08 w4 = (regs w4 0x08, w5)" "regs w5 = regs w4" by (rule register)
  obtain w6 where 6: "get_rtc_register io 0x09 w5 = (regs w5 0x09, w6)" "regs w6 = regs w5" by (rule register)
  obtain w7 where 7: "get_rtc_register io 0x0b w6 = (regs w6 0x0b, w7)" "regs w7 = regs w6" by (rule register)
  show ?thesis by (simp add: rtc_new_def 1 2 3 4 5 6 7 Let_def)
qed

lemma rtc_new_civil:
  assumes ok: "civil_ok t" and image: "regs w = cmos_image binary h24 other t"
  shows "fst (rtc_new io w) =
    \<lparr>second = of_nat (c_second t), minute = of_nat (c_minute t), hour = of_nat (c_hour t), day = of_nat (c_day t),
     month = of_nat (c_month t), year = of_nat (if binary \<or> c_year t < 80 then c_year t else c_year t + 48)\<rparr>"
proof -
  have r: "regs w 0 = field_image binary (c_second t)" "regs w 2 = field_image binary (c_minute t)"
    "regs w 4 = hour_image binary h24 (c_hour t)" "regs w 7 = field_image binary (c_day t)"
    "regs w 8 = field_image binary (c_month t)" "regs w 9 = field_image binary (c_year t)"
    "regs w 0x0b = format_image binary h24 other"
    by (simp_all add: image cmos_image_def)
  have b: "c_second t < 80" "c_minute t < 80" "c_hour t < 80" "c_day t < 80" "c_month t < 80" "c_year t < 100" "c_hour t < 24"
    using ok by (simp_all add: civil_ok_def)
  note conv = bcd_field [OF b(1)] bcd_field [OF b(2)] bcd_field [OF b(3)] bcd_field [OF b(4)] bcd_field [OF b(5)]
    bcd_year [OF b(6)] hour_12 [OF b(7)]
  have f: "field_image True n = of_nat n" "hour_image binary True n = field_image binary n" for n binary
    by (simp_all add: field_image_def hour_image_def)
  show ?thesis
    unfolding rtc_new_result Let_def r format_bits
    by (cases binary; cases h24) (simp_all add: rtc_from_bcd_def conv f)
qed

end

text \<open>A clock as a register file behind an index register.\<close>

definition bank_ports :: "(u8 \<times> (u8 \<Rightarrow> u8)) byte_ports" where
  "bank_ports = \<lparr>out8 = (\<lambda>p v (i, r). if p = 0x70 then (v, r) else (i, r)), in8 = (\<lambda>p (i, r). (r i, (i, r)))\<rparr>"

interpretation bank: cmos_ports bank_ports snd
  by unfold_locales (auto simp: bank_ports_def)

text \<open>
  C37. Reading the clock recovers the civil time it holds, in each of its four formats, and hands
  it to the calendar constructors; the exception are the years 80 to 99 in binary-coded decimal,
  whose top bit the conversion keeps, so that 2080 is read as 2128.
\<close>

theorem rtc_reads_civil_time:
  assumes "cmos_ports io regs" and "civil_ok t" and "regs w = cmos_image binary h24 other t"
    and "y = (if binary \<or> c_year t < 80 then c_year t else c_year t + 48)"
  shows "to_datetime api (fst (rtc_new io w)) =
    and_then (month_try_from api (of_nat (c_month t))) (\<lambda>mo.
    and_then (from_calendar_date api (2000 + int y) mo (of_nat (c_day t))) (\<lambda>date.
    and_then (from_hms api (of_nat (c_hour t)) (of_nat (c_minute t)) (of_nat (c_second t))) (\<lambda>time.
    Inr (utc_date_time api date time))))"
proof -
  have "y < 256" using assms(2,4) by (simp add: civil_ok_def split: if_splits)
  then have "uint (of_nat y :: u8) = int y" by (simp add: uint_nat unat_of_nat_small)
  then show ?thesis
    using cmos_ports.rtc_new_civil [OF assms(1-3)] assms(4) by (simp add: to_datetime_def add.commute)
qed

definition tuple_api :: "(unit, nat, int \<times> nat \<times> nat, nat \<times> nat \<times> nat, (int \<times> nat \<times> nat) \<times> nat \<times> nat \<times> nat) time_api" where
  "tuple_api = \<lparr>month_try_from = (\<lambda>m. if 1 \<le> m \<and> m \<le> 12 then Inr (unat m) else Inl ()),
     from_calendar_date = (\<lambda>y m d. if 1 \<le> d \<and> d \<le> 31 then Inr (y, m, unat d) else Inl ()),
     from_hms = (\<lambda>h m s. if h < 24 \<and> m < 60 \<and> s < 60 then Inr (unat h, unat m, unat s) else Inl ()),
     utc_date_time = Pair\<rparr>"

theorem rtc_reads_civil_time_witness:
  "to_datetime tuple_api (fst (rtc_new bank_ports (0, cmos_image False False 0
     \<lparr>c_year = 24, c_month = 4, c_day = 14, c_hour = 20, c_minute = 45, c_second = 59\<rparr>))) =
   Inr ((2024, 4, 14), (20, 45, 59))"
  using rtc_reads_civil_time [OF bank.cmos_ports_axioms,
      of "\<lparr>c_year = 24, c_month = 4, c_day = 14, c_hour = 20, c_minute = 45, c_second = 59\<rparr>"
         "(0, cmos_image False False 0 \<lparr>c_year = 24, c_month = 4, c_day = 14, c_hour = 20, c_minute = 45, c_second = 59\<rparr>)"
         False False 0 24 tuple_api]
  by (simp add: civil_ok_def tuple_api_def word_less_nat_alt word_le_nat_alt)

section \<open>Reading the counter\<close>

text \<open>
  The counter is 64 bits wide and is read in halves.  It counts on between the reads, by less
  than \<open>2^29\<close> ticks per access.
\<close>

locale hpet_counter =
  fixes io :: "'w mmio" and l h :: nat and ticks :: "'w \<Rightarrow> nat"
  assumes high: "fst (read32 io h w) = of_nat (ticks w div 2 ^ 32)"
    and low: "fst (read32 io l w) = of_nat (ticks w mod 2 ^ 32)"
    and advance_high: "ticks w \<le> ticks (snd (read32 io h w))" "ticks (snd (read32 io h w)) < ticks w + 2 ^ 29"
    and advance_low: "ticks w \<le> ticks (snd (read32 io l w))" "ticks (snd (read32 io l w)) < ticks w + 2 ^ 29"
begin

definition after :: "'w \<Rightarrow> 'w" where
  "after w = snd (read32 io h (snd (read32 io l (snd (read32 io h w)))))"

lemma combined:
  assumes "n < 2 ^ 64"
  shows "unat (push_bit 32 (ucast (of_nat (n div 2 ^ 32) :: u32)) OR ucast (of_nat (n mod 2 ^ 32) :: u32) :: u64) = n"
proof -
  have hi: "n div 2 ^ 32 < 2 ^ 32" using assms by (simp add: less_mult_imp_div_less)
  have "(ucast (of_nat (n div 2 ^ 32) :: u32) :: u64) = of_nat (n div 2 ^ 32)"
    and "(ucast (of_nat (n mod 2 ^ 32) :: u32) :: u64) = of_nat (n mod 2 ^ 32)"
    using hi by (simp_all add: word_eq_iff_unsigned unsigned_ucast_eq unsigned_of_nat take_bit_nat_eq_self)
  moreover have "push_bit 32 (of_nat (n div 2 ^ 32) :: u64) OR of_nat (n mod 2 ^ 32) = of_nat n"
  proof (rule bit_word_eqI)
    fix k assume k: "k < LENGTH(64)"
    have "bit (n div 2 ^ 32) (k - 32) = bit n k" if "32 \<le> k"
      using that by (simp only: flip: drop_bit_eq_div) (simp add: bit_drop_bit_eq)
    moreover have "bit (n mod 2 ^ 32) k \<longleftrightarrow> k < 32 \<and> bit n k"
      by (simp only: flip: take_bit_eq_mod) (simp only: bit_take_bit_iff)
    ultimately show "bit (push_bit 32 (of_nat (n div 2 ^ 32) :: u64) OR of_nat (n mod 2 ^ 32)) k = bit (of_nat n :: u64) k"
      using k by (simp only: bit_or_iff bit_push_bit_iff bit_of_nat_iff possible_bit_def) auto
  qed
  ultimately show ?thesis using assms by (simp add: unat_of_nat_small)
qed

text \<open>A round that sees the same upper half twice returns the value of the counter at its middle read.\<close>

lemma round_result:
  fixes w
  defines "m \<equiv> ticks (snd (read32 io h w))"
  assumes "ticks (after w) < 2 ^ 64"
  shows "ticks w \<le> m" "m \<le> ticks (after w)" "ticks (after w) < ticks w + 3 * 2 ^ 29"
    "ticks w div 2 ^ 32 = ticks (snd (read32 io l (snd (read32 io h w)))) div 2 ^ 32 \<Longrightarrow>
      \<exists>c. get_counter_loop io l h w = Some (c, after w) \<and> unat c = m"
    "ticks w div 2 ^ 32 \<noteq> ticks (snd (read32 io l (snd (read32 io h w)))) div 2 ^ 32 \<Longrightarrow>
      get_counter_loop io l h w = get_counter_loop io l h (after w) \<and> ticks (after w) mod 2 ^ 32 < 3 * 2 ^ 29"
proof -
  obtain w1 w2 w3 where w: "w1 = snd (read32 io h w)" "w2 = snd (read32 io l w1)" "w3 = snd (read32 io h w2)" by simp
  have after: "after w = w3" by (simp add: after_def w)
  note adv = advance_high [of w, folded w] advance_low [of w1, folded w] advance_high [of w2, folded w]
  show t: "ticks w \<le> m" "m \<le> ticks (after w)" "ticks (after w) < ticks w + 3 * 2 ^ 29"
    using adv by (simp_all add: m_def after flip: w)
  have r: "read32 io h w = (of_nat (ticks w div 2 ^ 32), w1)" "read32 io l w1 = (of_nat (ticks w1 mod 2 ^ 32), w2)"
    "read32 io h w2 = (of_nat (ticks w2 div 2 ^ 32), w3)"
    using high [of w] low [of w1] high [of w2] by (simp_all add: w prod_eq_iff)
  have lt: "ticks w < 2 ^ 64" "ticks w1 < 2 ^ 64" "ticks w2 < 2 ^ 64" using assms(2) adv after by auto
  have small: "unat (of_nat (ticks w div 2 ^ 32) :: u32) = ticks w div 2 ^ 32"
    "unat (of_nat (ticks w2 div 2 ^ 32) :: u32) = ticks w2 div 2 ^ 32"
    using lt by (simp_all add: unat_of_nat_small less_mult_imp_div_less)
  have eq: "(of_nat (ticks w div 2 ^ 32) :: u32) = of_nat (ticks w2 div 2 ^ 32) \<longleftrightarrow> ticks w div 2 ^ 32 = ticks w2 div 2 ^ 32"
    using small by metis
  have step: "get_counter_loop io l h w =
      (if ticks w div 2 ^ 32 = ticks w2 div 2 ^ 32
       then Some (push_bit 32 (ucast (of_nat (ticks w div 2 ^ 32) :: u32)) OR ucast (of_nat (ticks w1 mod 2 ^ 32) :: u32), w3)
       else get_counter_loop io l h w3)"
    by (subst get_counter_loop.simps) (simp only: Let_def r prod.case eq)
  show "\<exists>c. get_counter_loop io l h w = Some (c, after w) \<and> unat c = m"
    if "ticks w div 2 ^ 32 = ticks (snd (read32 io l (snd (read32 io h w)))) div 2 ^ 32"
  proof -
    have e: "ticks w div 2 ^ 32 = ticks w2 div 2 ^ 32" using that by (simp add: w)
    have "ticks w div 2 ^ 32 \<le> ticks w1 div 2 ^ 32" "ticks w1 div 2 ^ 32 \<le> ticks w2 div 2 ^ 32"
      using adv by (simp_all add: div_le_mono)
    with e have "ticks w div 2 ^ 32 = ticks w1 div 2 ^ 32" by linarith
    with e have e1: "ticks w1 div 2 ^ 32 = ticks w2 div 2 ^ 32" by simp
    have "get_counter_loop io l h w = Some (push_bit 32 (ucast (of_nat (ticks w1 div 2 ^ 32) :: u32)) OR
        ucast (of_nat (ticks w1 mod 2 ^ 32) :: u32), w3)"
      by (simp only: step e e1 refl if_True)
    with combined [OF lt(2)] after w(1) m_def show ?thesis by blast
  qed
  show "get_counter_loop io l h w = get_counter_loop io l h (after w) \<and> ticks (after w) mod 2 ^ 32 < 3 * 2 ^ 29"
    if "ticks w div 2 ^ 32 \<noteq> ticks (snd (read32 io l (snd (read32 io h w)))) div 2 ^ 32"
  proof -
    from that have ne: "ticks w div 2 ^ 32 \<noteq> ticks w2 div 2 ^ 32" by (simp add: w)
    have "ticks w3 mod 2 ^ 32 < 3 * 2 ^ 29"
    proof -
      define q q3 where "q = ticks w div 2 ^ 32" and "q3 = ticks w3 div 2 ^ 32"
      have "ticks w div 2 ^ 32 \<le> ticks w2 div 2 ^ 32" "ticks w2 div 2 ^ 32 \<le> ticks w3 div 2 ^ 32"
        using adv by (simp_all add: div_le_mono)
      with ne have "q < q3" by (simp add: q_def q3_def)
      moreover have "ticks w = q * 2 ^ 32 + ticks w mod 2 ^ 32" "ticks w3 = q3 * 2 ^ 32 + ticks w3 mod 2 ^ 32"
        by (simp_all add: q_def q3_def)
      moreover have "ticks w mod 2 ^ 32 < 2 ^ 32" by simp
      ultimately show ?thesis using t(3) after by (simp add: algebra_simps)
    qed
    with ne step after show ?thesis by simp
  qed
qed

lemma counter_read:
  assumes "ticks w + 6 * 2 ^ 29 \<le> 2 ^ 64"
  shows "\<exists>c w'. get_counter_loop io l h w = Some (c, w') \<and> ticks w \<le> unat c \<and> unat c \<le> ticks w' \<and>
    (w' = after w \<or> w' = after (after w))"
proof -
  have a: "ticks (after w) < ticks w + 3 * 2 ^ 29" for w
    using advance_high [of w] advance_low [of "snd (read32 io h w)"]
      advance_high [of "snd (read32 io l (snd (read32 io h w)))"] by (simp add: after_def)
  have l1: "ticks (after w) < 2 ^ 64" and l2: "ticks (after (after w)) < 2 ^ 64"
    using a [of w] a [of "after w"] assms by auto
  note one = round_result [OF l1] and two = round_result [OF l2]
  let ?e = "\<lambda>w. ticks w div 2 ^ 32 = ticks (snd (read32 io l (snd (read32 io h w)))) div 2 ^ 32"
  show ?thesis
  proof (cases "?e w")
    case True
    with one show ?thesis by metis
  next
    case False
    have "?e (after w)"
    proof (rule ccontr)
      assume "\<not> ?e (after w)"
      moreover define w' where "w' = after w"
      moreover define w2 where "w2 = snd (read32 io l (snd (read32 io h w')))"
      ultimately have ne: "ticks w' div 2 ^ 32 \<noteq> ticks w2 div 2 ^ 32" by simp
      have "ticks w2 < ticks w' + 2 * 2 ^ 29" "ticks w' \<le> ticks w2"
        using advance_high [of w'] advance_low [of "snd (read32 io h w')"] by (simp_all add: w2_def)
      moreover have "ticks w' mod 2 ^ 32 < 3 * 2 ^ 29" using one(5) [OF False] by (simp add: w'_def)
      moreover obtain q r where q: "q = ticks w' div 2 ^ 32" "r = ticks w' mod 2 ^ 32" by simp
      moreover from q have "ticks w' = q * 2 ^ 32 + r" by simp
      ultimately have "q * 2 ^ 32 \<le> ticks w2" "ticks w2 < q * 2 ^ 32 + 2 ^ 32"
        unfolding q [symmetric] by simp_all
      then have "ticks w2 div 2 ^ 32 = q"
        by (intro div_nat_eqI) (simp_all add: algebra_simps)
      with ne show False by (simp add: q)
    qed
    with one(1,2,5) two(1,2,4) False show ?thesis by (metis order_trans)
  qed
qed

end

text \<open>A machine whose counter advances by one tick per access.\<close>

definition tick_mmio :: "nat mmio" where
  "tick_mmio = \<lparr>read32 = (\<lambda>a n. (if a = 0xf4 then of_nat (n div 2 ^ 32) else of_nat (n mod 2 ^ 32), n + 1)),
     read64 = (\<lambda>a n. (push_bit 32 10000000, n + 1)), write64 = (\<lambda>a v n. n + 1)\<rparr>"

interpretation tick: hpet_counter tick_mmio "0xf0" "0xf4" id
  by unfold_locales (simp_all add: tick_mmio_def)

text \<open>
  C36. \<open>get_counter\<close> returns although the counter counts on, and what it returns is a value the
  counter had during the call: the two halves never belong to different moments.
\<close>

theorem get_counter_consistent:
  assumes "base_addr hp + 0xf4 \<le> usize_max"
    and "hpet_counter io (base_addr hp + 0xf0) (base_addr hp + 0xf4) ticks"
    and "ticks w + 6 * 2 ^ 29 \<le> 2 ^ 64"
  shows "\<exists>c w'. get_counter io hp w = Some (Inr (c, w')) \<and> ticks w \<le> unat c \<and> unat c \<le> ticks w'"
  using hpet_counter.counter_read [OF assms(2,3)] assms(1)
  by (auto simp: get_counter_def usize_add_def)

theorem get_counter_consistent_witness:
  "\<exists>c w'. get_counter tick_mmio hpet_uninit (2 ^ 32 - 1) = Some (Inr (c, w')) \<and> 2 ^ 32 - 1 \<le> unat c \<and> unat c \<le> w'"
  using get_counter_consistent [of hpet_uninit tick_mmio id "2 ^ 32 - 1"] tick.hpet_counter_axioms
  by (simp add: hpet_uninit_def usize_max_def)

end
