(* ===== verification/Apic.thy ===== *)
theory Apic
  imports Clock Address
begin

text \<open>
  The interrupt controllers (\<open>arch/apic.rs\<close>): building the local APIC, routing the keyboard and
  mouse lines through the I/O APIC, and calibrating the local timer against the event timer.

  The \<open>x2apic\<close> crate is the parameter record \<open>apic_api\<close>; its devices live in the world \<open>'w\<close>.
  What the ACPI tables say of the controllers is the record \<open>ApicInfo\<close>, absent before
  \<open>arch/acpi.rs\<close> has run.
\<close>

section \<open>Vectors and lines\<close>

datatype InterruptIndex = TimerIndex | ApicErrorIndex | ApicSpuriousIndex | KeyboardIndex | MouseIndex

definition INTERRUPT_INDEX_OFFSET :: u8 where "INTERRUPT_INDEX_OFFSET = 32"

fun interrupt_index :: "InterruptIndex \<Rightarrow> u8" where
  "interrupt_index TimerIndex = INTERRUPT_INDEX_OFFSET"
| "interrupt_index ApicErrorIndex = INTERRUPT_INDEX_OFFSET + 1"
| "interrupt_index ApicSpuriousIndex = INTERRUPT_INDEX_OFFSET + 2"
| "interrupt_index KeyboardIndex = INTERRUPT_INDEX_OFFSET + 3"
| "interrupt_index MouseIndex = INTERRUPT_INDEX_OFFSET + 4"

datatype IrqVector = KeyboardIrq | MouseIrq

fun irq_vector :: "IrqVector \<Rightarrow> u8" where
  "irq_vector KeyboardIrq = 1"
| "irq_vector MouseIrq = 12"

definition TIMER_FREQUENCY_HZ :: u32 where "TIMER_FREQUENCY_HZ = 200"
definition TIMER_CALIBRATION_ITERATION :: u32 where "TIMER_CALIBRATION_ITERATION = 100"
definition IOAPIC_INTERRUPT_INDEX_OFFSET :: u8 where "IOAPIC_INTERRUPT_INDEX_OFFSET = 32"

section \<open>The controllers\<close>

datatype TimerMode = OneShot | Periodic

datatype IrqMode = Fixed

record lapic_config =
  timer_vector :: u8
  timer_mode :: TimerMode
  timer_initial :: u32
  error_vector :: u8
  spurious_vector :: u8
  xapic_base :: nat

record ('l, 'i, 'r, 'w) apic_api =
  lapic_build :: "lapic_config \<Rightarrow> string + 'l"
  lapic_end_of_interrupt :: "'l \<Rightarrow> 'w \<Rightarrow> 'w"
  lapic_id :: "'l \<Rightarrow> 'w \<Rightarrow> u32"
  set_timer_initial :: "'l \<Rightarrow> u32 \<Rightarrow> 'w \<Rightarrow> 'w"
  set_timer_mode :: "'l \<Rightarrow> TimerMode \<Rightarrow> 'w \<Rightarrow> 'w"
  timer_current :: "'l \<Rightarrow> 'w \<Rightarrow> u32 \<times> 'w"
  ioapic_new :: "nat \<Rightarrow> 'i"
  ioapic_setup :: "'i \<Rightarrow> u8 \<Rightarrow> 'w \<Rightarrow> 'w"
  ioapic_set_table_entry :: "'i \<Rightarrow> u8 \<Rightarrow> 'r \<Rightarrow> 'w \<Rightarrow> 'w"
  ioapic_enable_irq :: "'i \<Rightarrow> u8 \<Rightarrow> 'w \<Rightarrow> 'w"
  entry_default :: 'r
  entry_set_mode :: "IrqMode \<Rightarrow> 'r \<Rightarrow> 'r"
  entry_set_dest :: "u8 \<Rightarrow> 'r \<Rightarrow> 'r"
  entry_set_vector :: "u8 \<Rightarrow> 'r \<Rightarrow> 'r"

record ApicInfo =
  local_apic_address :: nat
  io_apics :: "nat list"

definition get_lapic_addr :: "x86_api \<Rightarrow> nat \<Rightarrow> ApicInfo option \<Rightarrow> nat result" where
  "get_lapic_addr x offset acpi =
     and_then (unwrap acpi) (\<lambda>info.
     and_then (phys_addr_new x (local_apic_address info)) (convert_physical_to_virtual x offset))"

definition get_lapic :: "('l, 'i, 'r, 'w) apic_api \<Rightarrow> x86_api \<Rightarrow> nat \<Rightarrow> ApicInfo option \<Rightarrow> 'l result" where
  "get_lapic api x offset acpi =
     and_then (get_lapic_addr x offset acpi) (\<lambda>addr.
     case lapic_build api
         \<lparr>timer_vector = interrupt_index TimerIndex, timer_mode = OneShot, timer_initial = 0,
          error_vector = interrupt_index ApicErrorIndex, spurious_vector = interrupt_index ApicSpuriousIndex,
          xapic_base = addr\<rparr> of
       Inl err \<Rightarrow> Inl (ExplicitPanic (''Failed to build local APIC: '' @ err))
     | Inr l \<Rightarrow> Inr l)"

definition get_lapic_id ::
  "('l, 'i, 'r, 'w) apic_api \<Rightarrow> x86_api \<Rightarrow> nat \<Rightarrow> ApicInfo option \<Rightarrow> 'w \<Rightarrow> u32 result" where
  "get_lapic_id api x offset acpi w = and_then (get_lapic api x offset acpi) (\<lambda>l. Inr (lapic_id api l w))"

definition end_of_interrupt ::
  "('l, 'i, 'r, 'w) apic_api \<Rightarrow> x86_api \<Rightarrow> nat \<Rightarrow> ApicInfo option \<Rightarrow> 'w \<Rightarrow> 'w result" where
  "end_of_interrupt api x offset acpi w =
     and_then (get_lapic api x offset acpi) (\<lambda>l. Inr (lapic_end_of_interrupt api l w))"

definition disable_pic :: "'w byte_ports \<Rightarrow> 'w \<Rightarrow> 'w" where
  "disable_pic io w = out8 io 0xa1 0xff (out8 io 0x21 0xff w)"

text \<open>\<open>ioapic\<close> is the cell \<open>IOAPIC\<close>.\<close>

definition ioapic_add_entry ::
  "('l, 'i, 'r, 'w) apic_api \<Rightarrow> x86_api \<Rightarrow> nat \<Rightarrow> ApicInfo option \<Rightarrow> 'i option \<Rightarrow> IrqVector \<Rightarrow> InterruptIndex \<Rightarrow> 'w \<Rightarrow>
   'w result" where
  "ioapic_add_entry api x offset acpi ioapic irq vector w =
     and_then (get_lapic api x offset acpi) (\<lambda>lapic.
     and_then (unwrap ioapic) (\<lambda>io.
     let entry = entry_default api;
         entry = entry_set_mode api Fixed entry;
         entry = entry_set_dest api (ucast (lapic_id api lapic w)) entry;
         entry = entry_set_vector api (interrupt_index vector) entry;
         w = ioapic_set_table_entry api io (irq_vector irq) entry w in
     Inr (ioapic_enable_irq api io (irq_vector irq) w)))"

definition init_ioapic ::
  "('l, 'i, 'r, 'w) apic_api \<Rightarrow> x86_api \<Rightarrow> nat \<Rightarrow> ApicInfo option \<Rightarrow> 'i option \<Rightarrow> 'w \<Rightarrow> ('i option \<times> 'w) result" where
  "init_ioapic api x offset acpi cell w =
     and_then (unwrap acpi) (\<lambda>info.
     and_then (index (io_apics info) 0) (\<lambda>address.
     and_then (phys_addr_new x address) (\<lambda>physical_address.
     and_then (convert_physical_to_virtual x offset physical_address) (\<lambda>virtual_address.
     let io = ioapic_new api virtual_address;
         w = ioapic_setup api io IOAPIC_INTERRUPT_INDEX_OFFSET w;
         cell = (case cell of None \<Rightarrow> Some io | Some old \<Rightarrow> Some old) in
     and_then (ioapic_add_entry api x offset acpi cell KeyboardIrq KeyboardIndex w) (\<lambda>w.
     and_then (ioapic_add_entry api x offset acpi cell MouseIrq MouseIndex w) (\<lambda>w.
     Inr (cell, w)))))))"

definition apic_init ::
  "('l, 'i, 'r, 'w) apic_api \<Rightarrow> 'w byte_ports \<Rightarrow> x86_api \<Rightarrow> nat \<Rightarrow> ApicInfo option \<Rightarrow> 'i option \<Rightarrow> 'w \<Rightarrow>
   ('i option \<times> 'w) result" where
  "apic_init api ports x offset acpi cell w = init_ioapic api x offset acpi cell (disable_pic ports w)"

section \<open>Calibration\<close>

text \<open>The loop \<open>while HPET.get_counter() < next_ms {}\<close>.\<close>

partial_function (option) wait_counter :: "'w mmio \<Rightarrow> Hpet \<Rightarrow> u64 \<Rightarrow> 'w \<Rightarrow> 'w outcome" where
  "wait_counter io hp next_ms w =
     (case get_counter io hp w of
        None \<Rightarrow> None
      | Some r \<Rightarrow> (case r of
          Inl e \<Rightarrow> Some (Inl e)
        | Inr cw \<Rightarrow> if fst cw < next_ms then wait_counter io hp next_ms (snd cw) else Some (Inr (snd cw))))"

definition calibration_round ::
  "('l, 'i, 'r, 'w) apic_api \<Rightarrow> 'l \<Rightarrow> 'w mmio \<Rightarrow> Hpet \<Rightarrow> u64 \<Rightarrow> u32 \<times> 'w \<Rightarrow> (u32 \<times> 'w) outcome" where
  "calibration_round api lapic io hp hpet_tick_per_ms st =
     (let (lapic_total_ticks, w) = st in
      out_then (get_counter io hp w) (\<lambda>(c, w).
      out_then (Some (word_add c hpet_tick_per_ms)) (\<lambda>next_ms.
      let w = set_timer_initial api lapic (- 1) w in
      out_then (wait_counter io hp next_ms w) (\<lambda>w.
      let (current, w) = timer_current api lapic w in
      out_then (Some (word_sub (- 1) current)) (\<lambda>elapsed.
      out_then (Some (word_add lapic_total_ticks elapsed)) (\<lambda>total. Some (Inr (total, w))))))))"

definition calibrate_timer ::
  "('l, 'i, 'r, 'w) apic_api \<Rightarrow> 'l \<Rightarrow> 'w mmio \<Rightarrow> Hpet \<Rightarrow> 'w \<Rightarrow> 'w outcome" where
  "calibrate_timer api lapic io hp w =
     (let (speed, w) = clock_speed io hp w in
      out_then (Some (word_div 1000000000000 (ucast speed))) (\<lambda>hpet_tick_per_ms.
      out_then (out_for_each (\<lambda>_. calibration_round api lapic io hp hpet_tick_per_ms)
                  [0..<unat TIMER_CALIBRATION_ITERATION] (0, w)) (\<lambda>(lapic_total_ticks, w).
      let average_clock_per_ms = lapic_total_ticks div TIMER_CALIBRATION_ITERATION;
          w = set_timer_mode api lapic Periodic w in
      out_then (Some (word_mul average_clock_per_ms 1000)) (\<lambda>per_s.
      Some (Inr (set_timer_initial api lapic (per_s div TIMER_FREQUENCY_HZ) w))))))"

section \<open>The timer's contract\<close>

text \<open>
  \<open>ticks\<close> is the event timer's counter; an access to either timer takes at most \<open>d\<close> of its
  ticks and a read of the low half takes at least one.  The local timer counts by the function
  \<open>rate\<close> of the same clock: between \<open>lo t\<close> and \<open>hi t\<close> counts in \<open>t\<close> ticks.  \<open>initial\<close> and \<open>start\<close>
  are the initial count it was last given and its clock at that moment, and \<open>tmode\<close> is its mode.
\<close>

locale paced_timers = hpet_counter io l h ticks for io :: "'w mmio" and l h ticks +
  fixes api :: "('l, 'i, 'r, 'w) apic_api" and lapic :: 'l and d :: nat and rate lo hi :: "nat \<Rightarrow> nat"
    and initial :: "'w \<Rightarrow> u32" and start :: "'w \<Rightarrow> nat" and tmode :: "'w \<Rightarrow> TimerMode"
  assumes pace: "ticks (snd (read32 io a w)) \<le> ticks w + d"
    and progress: "ticks w < ticks (snd (read32 io l w))"
    and keeps: "start (snd (read32 io a w)) = start w" "initial (snd (read32 io a w)) = initial w"
    and speed: "ticks w \<le> ticks (snd (read64 io a w))" "ticks (snd (read64 io a w)) \<le> ticks w + d"
    and set_ticks: "ticks w \<le> ticks (set_timer_initial api lapic v w)" "ticks (set_timer_initial api lapic v w) \<le> ticks w + d"
    and set_start: "start (set_timer_initial api lapic v w) = rate (ticks (set_timer_initial api lapic v w))"
    and set_initial: "initial (set_timer_initial api lapic v w) = v"
    and set_mode: "tmode (set_timer_mode api lapic m w) = m" "tmode (set_timer_initial api lapic v w) = tmode w"
    and current: "fst (timer_current api lapic w) = of_nat (unat (initial w) - (rate (ticks w) - start w))"
    and current_ticks: "ticks w \<le> ticks (snd (timer_current api lapic w))" "ticks (snd (timer_current api lapic w)) \<le> ticks w + d"
    and rate_lo: "a + t \<le> b \<Longrightarrow> rate a + lo t \<le> rate b"
    and rate_hi: "a \<le> b \<Longrightarrow> b \<le> a + t \<Longrightarrow> rate b \<le> rate a + hi t"
begin

lemma after_paced:
  "ticks w < ticks (after w)" "ticks (after w) \<le> ticks w + 3 * d" "start (after w) = start w" "initial (after w) = initial w"
  using pace [of h w] pace [of l "snd (read32 io h w)"] pace [of h "snd (read32 io l (snd (read32 io h w)))"]
    advance_high(1) [of w] progress [of "snd (read32 io h w)"] advance_high(1) [of "snd (read32 io l (snd (read32 io h w)))"]
  by (simp_all add: after_def keeps)

lemma counter_paced:
  assumes "base_addr hp + 0xf4 \<le> usize_max" "l = base_addr hp + 0xf0" "h = base_addr hp + 0xf4"
    "ticks w + 6 * 2 ^ 29 \<le> 2 ^ 64"
  obtains c w' where "get_counter io hp w = Some (Inr (c, w'))" "ticks w \<le> unat c" "unat c \<le> ticks w'"
    "ticks w < ticks w'" "ticks w' \<le> ticks w + 6 * d" "start w' = start w" "initial w' = initial w"
proof -
  from counter_read [OF assms(4)] obtain c w' where r: "get_counter_loop io l h w = Some (c, w')" "ticks w \<le> unat c"
    "unat c \<le> ticks w'" "w' = after w \<or> w' = after (after w)" by blast
  have "ticks w < ticks w' \<and> ticks w' \<le> ticks w + 6 * d \<and> start w' = start w \<and> initial w' = initial w"
    using r(4) after_paced [of w] after_paced [of "after w"] by auto
  moreover have "get_counter io hp w = Some (Inr (c, w'))"
    using r(1) assms(1-3) by (simp add: get_counter_def usize_add_def)
  ultimately show thesis using that r(2,3) by blast
qed

text \<open>The waiting loop ends, once the counter has reached the mark and at most two reads later.\<close>

lemma wait_ends:
  assumes "base_addr hp + 0xf4 \<le> usize_max" "l = base_addr hp + 0xf0" "h = base_addr hp + 0xf4"
    and "unat mark + 6 * d + 6 * 2 ^ 29 \<le> 2 ^ 64" and "ticks w \<le> unat mark + 6 * d"
  shows "\<exists>w'. wait_counter io hp mark w = Some (Inr w') \<and> unat mark \<le> ticks w' \<and> ticks w \<le> ticks w' \<and>
    ticks w' \<le> unat mark + 12 * d \<and> start w' = start w \<and> initial w' = initial w"
  using assms(5)
proof (induction "unat mark + 6 * d - ticks w" arbitrary: w rule: less_induct)
  case less
  from less.prems assms(4) have room: "ticks w + 6 * 2 ^ 29 \<le> 2 ^ 64" by linarith
  obtain c w1 where c: "get_counter io hp w = Some (Inr (c, w1))" "ticks w \<le> unat c" "unat c \<le> ticks w1"
    "ticks w < ticks w1" "ticks w1 \<le> ticks w + 6 * d" "start w1 = start w" "initial w1 = initial w"
    using counter_paced [OF assms(1-3) room] .
  have step: "wait_counter io hp mark w = (if c < mark then wait_counter io hp mark w1 else Some (Inr w1))"
    by (subst wait_counter.simps) (simp add: c(1))
  show ?case
  proof (cases "c < mark")
    case False
    then have "unat mark \<le> unat c" by (simp add: word_less_nat_alt)
    then show ?thesis using False step c less.prems by auto
  next
    case True
    then have "unat c < unat mark" by (simp add: word_less_nat_alt)
    then have up: "ticks w1 \<le> unat mark + 6 * d" using c(2,5) by linarith
    have "unat mark + 6 * d - ticks w1 < unat mark + 6 * d - ticks w" using c(4) up by linarith
    from less.hyps [OF this up] show ?thesis using True step c(4,6,7) by fastforce
  qed
qed

text \<open>One round measures the local timer's counts in a millisecond, up to 13 accesses.\<close>

lemma round_measures:
  assumes hp: "base_addr hp + 0xf4 \<le> usize_max" "l = base_addr hp + 0xf0" "h = base_addr hp + 0xf4"
    and t: "d \<le> unat t" "hi (unat t + 13 * d) < 2 ^ 32" "unat acc + hi (unat t + 13 * d) < 2 ^ 32"
    and room: "ticks w + unat t + 20 * d + 6 * 2 ^ 29 \<le> 2 ^ 64"
  obtains e w' where "calibration_round api lapic io hp t (acc, w) = Some (Inr (acc + e, w'))"
    "lo (unat t - 13 * d) \<le> unat e" "unat e \<le> hi (unat t + 13 * d)" "ticks w' \<le> ticks w + unat t + 20 * d"
proof -
  have r0: "ticks w + 6 * 2 ^ 29 \<le> 2 ^ 64" using room by linarith
  obtain c w1 where c: "get_counter io hp w = Some (Inr (c, w1))" "ticks w \<le> unat c" "unat c \<le> ticks w1"
    "ticks w < ticks w1" "ticks w1 \<le> ticks w + 6 * d" "start w1 = start w" "initial w1 = initial w"
    using counter_paced [OF hp r0] .
  define mark where "mark = c + t"
  have ct: "unat c + unat t < 2 ^ 64" using room c by linarith
  then have mark: "unat mark = unat c + unat t" using unat_add_lem [of c t] by (simp add: mark_def)
  have add: "word_add c t = Inr mark" using ct by (simp add: word_add_def mark_def)
  define w2 where "w2 = set_timer_initial api lapic (- 1) w1"
  have w2: "ticks w1 \<le> ticks w2" "ticks w2 \<le> ticks w1 + d" "start w2 = rate (ticks w2)" "initial w2 = - 1"
    by (simp_all only: w2_def set_ticks set_start set_initial)
  have "unat mark + 6 * d + 6 * 2 ^ 29 \<le> 2 ^ 64" "ticks w2 \<le> unat mark + 6 * d"
    using mark c w2 t(1) room by linarith+
  from wait_ends [OF hp this] obtain w3 where w3: "wait_counter io hp mark w2 = Some (Inr w3)" "unat mark \<le> ticks w3"
    "ticks w2 \<le> ticks w3" "ticks w3 \<le> unat mark + 12 * d" "start w3 = start w2" "initial w3 = initial w2" by blast
  define n where "n = rate (ticks w3) - rate (ticks w2)"
  have "ticks w3 \<le> ticks w2 + (unat t + 13 * d)" using w3(4) mark c(3) w2(1) by linarith
  from rate_hi [OF w3(3) this] have n_hi: "n \<le> hi (unat t + 13 * d)" by (simp add: n_def)
  have "ticks w2 + (unat t - 13 * d) \<le> ticks w3" using w3(2,3) mark c w2 by linarith
  from rate_lo [OF this] have n_lo: "lo (unat t - 13 * d) \<le> n" by (simp add: n_def)
  obtain v w4 where v: "timer_current api lapic w3 = (v, w4)" by (cases "timer_current api lapic w3")
  have "v = of_nat (unat (- 1 :: u32) - n)"
    using current [of w3] v w2 w3(5,6) by (simp add: n_def)
  moreover have m1: "unat (- 1 :: u32) = 2 ^ 32 - 1" by (simp add: unsigned_minus_1_eq_mask mask_eq_exp_minus_1)
  ultimately have nv: "unat v = 2 ^ 32 - 1 - n" by (simp only:) (rule unat_of_nat_small, simp)
  have e: "unat (- 1 - v) = n" using nv n_hi t(2) by (simp add: unat_sub_if_size m1)
  have w4: "ticks w4 \<le> ticks w3 + d" using current_ticks [of w3] v by simp
  have sum: "word_add acc (- 1 - v) = Inr (acc + (- 1 - v))" using e n_hi t(3) by (simp add: word_add_def)
  have "calibration_round api lapic io hp t (acc, w) = Some (Inr (acc + (- 1 - v), w4))"
    using sum by (simp add: calibration_round_def c(1) add w2_def [symmetric] w3(1) v word_sub_def)
  moreover have "ticks w4 \<le> ticks w + unat t + 20 * d" using w4 w3(4) mark c(3,5) by linarith
  ultimately show thesis using that e n_lo n_hi by simp
qed

lemma rounds_measure:
  assumes hp: "base_addr hp + 0xf4 \<le> usize_max" "l = base_addr hp + 0xf0" "h = base_addr hp + 0xf4"
    and t: "d \<le> unat t" "unat acc + length is * hi (unat t + 13 * d) < 2 ^ 32"
    and room: "ticks w + length is * (unat t + 20 * d) + 6 * 2 ^ 29 \<le> 2 ^ 64"
  shows "\<exists>acc' w'. out_for_each (\<lambda>_. calibration_round api lapic io hp t) is (acc, w) = Some (Inr (acc', w')) \<and>
    unat acc + length is * lo (unat t - 13 * d) \<le> unat acc' \<and>
    unat acc' \<le> unat acc + length is * hi (unat t + 13 * d)"
  using t(2) room
proof (induction "is" arbitrary: acc w)
  case Nil
  then show ?case by simp
next
  case (Cons i "is")
  have "hi (unat t + 13 * d) < 2 ^ 32" "unat acc + hi (unat t + 13 * d) < 2 ^ 32"
    "ticks w + unat t + 20 * d + 6 * 2 ^ 29 \<le> 2 ^ 64"
    using Cons.prems by (simp_all add: algebra_simps)
  from round_measures [OF hp t(1) this] obtain e w1 where 1:
    "calibration_round api lapic io hp t (acc, w) = Some (Inr (acc + e, w1))"
    "lo (unat t - 13 * d) \<le> unat e" "unat e \<le> hi (unat t + 13 * d)" "ticks w1 \<le> ticks w + unat t + 20 * d" .
  have s: "unat (acc + e) = unat acc + unat e"
  proof -
    have "unat acc + unat e < 2 ^ LENGTH(32)" using 1(3) Cons.prems(1) by simp
    then show ?thesis by (simp only: unat_add_lem)
  qed
  have "unat (acc + e) + length is * hi (unat t + 13 * d) < 2 ^ 32"
    "ticks w1 + length is * (unat t + 20 * d) + 6 * 2 ^ 29 \<le> 2 ^ 64"
    using Cons.prems 1(3,4) s by (simp_all add: algebra_simps)
  from Cons.IH [OF this] obtain acc' w' where
    "out_for_each (\<lambda>_. calibration_round api lapic io hp t) is (acc + e, w1) = Some (Inr (acc', w'))"
    "unat (acc + e) + length is * lo (unat t - 13 * d) \<le> unat acc'"
    "unat acc' \<le> unat (acc + e) + length is * hi (unat t + 13 * d)" by blast
  then show ?case using 1 s by (intro exI [of _ acc'] exI [of _ w']) simp
qed

lemma calibrated:
  assumes hp: "base_addr hp + 0xf4 \<le> usize_max" "l = base_addr hp + 0xf0" "h = base_addr hp + 0xf4"
    and period: "p = fst (clock_speed io hp w)" "p \<noteq> 0" and t: "t = 10 ^ 12 div unat p" "d \<le> t"
    and fits: "1000 * hi (t + 13 * d) < 2 ^ 32" and room: "ticks w + d + 100 * (t + 20 * d) + 6 * 2 ^ 29 \<le> 2 ^ 64"
  shows "\<exists>w'. calibrate_timer api lapic io hp w = Some (Inr w') \<and> tmode w' = Periodic \<and>
    5 * lo (t - 13 * d) \<le> unat (initial w') \<and> unat (initial w') \<le> 5 * hi (t + 13 * d)"
proof -
  obtain w1 where w1: "clock_speed io hp w = (p, w1)" "ticks w1 \<le> ticks w + d"
    using period(1) speed [where a = "base_addr hp" and w = w] by (auto simp: clock_speed_def split: prod.splits)
  define tw :: u64 where "tw = 1000000000000 div ucast p"
  have up: "unat (ucast p :: u64) = unat p"
    by (simp add: unsigned_ucast_eq take_bit_nat_eq_self less_le_trans [OF unsigned_less])
  then have tw: "unat tw = t" by (simp add: tw_def t unat_div)
  have pc: "(ucast p :: u64) \<noteq> 0" using period(2) up by (metis unat_eq_0)
  have "d \<le> unat tw" "unat (0 :: u32) + length [0..<100] * hi (unat tw + 13 * d) < 2 ^ 32"
    "ticks w1 + length [0..<100] * (unat tw + 20 * d) + 6 * 2 ^ 29 \<le> 2 ^ 64"
    using t(2) fits room w1(2) by (simp_all add: tw)
  from rounds_measure [OF hp this] obtain acc w2 where r:
    "out_for_each (\<lambda>_. calibration_round api lapic io hp tw) [0..<100] (0, w1) = Some (Inr (acc, w2))"
    "100 * lo (t - 13 * d) \<le> unat acc" "unat acc \<le> 100 * hi (t + 13 * d)" by (auto simp: tw)
  define avg where "avg = acc div 100"
  have avg: "unat avg = unat acc div 100" by (simp add: avg_def unat_div)
  have b: "lo (t - 13 * d) \<le> unat avg" "unat avg \<le> hi (t + 13 * d)" using r(2,3) avg by linarith+
  have m: "unat (avg * 1000) = unat avg * 1000" using b(2) fits by (simp add: unat_mult_lem [THEN iffD1])
  have "unat (avg * 1000 div 200) = 5 * unat avg" using m by (simp add: unat_div)
  then show ?thesis
    using b fits by (simp add: calibrate_timer_def w1(1) word_div_def pc TIMER_CALIBRATION_ITERATION_def
        TIMER_FREQUENCY_HZ_def r(1) [unfolded tw_def] word_mul_def set_initial set_mode avg_def [symmetric])
qed

end

text \<open>
  A machine for the witnesses: every access takes one tick of a counter with a period of
  1 microsecond, and the local timer counts three times as fast.
\<close>

record bench =
  b_ticks :: nat
  b_start :: nat
  b_initial :: u32
  b_mode :: TimerMode

definition bench_mmio :: "bench mmio" where
  "bench_mmio = \<lparr>read32 = (\<lambda>a w. (if a = 0xf4 then of_nat (b_ticks w div 2 ^ 32) else of_nat (b_ticks w mod 2 ^ 32),
       w\<lparr>b_ticks := b_ticks w + 1\<rparr>)),
     read64 = (\<lambda>a w. (push_bit 32 1000000000, w\<lparr>b_ticks := b_ticks w + 1\<rparr>)), write64 = (\<lambda>a v w. w)\<rparr>"

definition bench_apic :: "(unit, unit, unit, bench) apic_api" where
  "bench_apic = \<lparr>lapic_build = (\<lambda>_. Inr ()), lapic_end_of_interrupt = (\<lambda>_ w. w), lapic_id = (\<lambda>_ _. 0),
     set_timer_initial = (\<lambda>_ v w. w\<lparr>b_initial := v, b_ticks := b_ticks w + 1, b_start := 3 * (b_ticks w + 1)\<rparr>),
     set_timer_mode = (\<lambda>_ m w. w\<lparr>b_mode := m\<rparr>),
     timer_current = (\<lambda>_ w. (of_nat (unat (b_initial w) - (3 * b_ticks w - b_start w)), w\<lparr>b_ticks := b_ticks w + 1\<rparr>)),
     ioapic_new = (\<lambda>_. ()), ioapic_setup = (\<lambda>_ _ w. w), ioapic_set_table_entry = (\<lambda>_ _ _ w. w),
     ioapic_enable_irq = (\<lambda>_ _ w. w), entry_default = (), entry_set_mode = (\<lambda>_ _. ()), entry_set_dest = (\<lambda>_ _. ()),
     entry_set_vector = (\<lambda>_ _. ())\<rparr>"

interpretation bench: paced_timers bench_mmio "0xf0" "0xf4" b_ticks bench_apic "()" 1 "(*) 3" "(*) 3" "(*) 3" b_initial b_start b_mode
  by unfold_locales (simp_all add: bench_mmio_def bench_apic_def)

text \<open>
  C26. The calibration ends with the timer in periodic mode, at 200 interrupts a second: with \<open>t\<close> event
  timer ticks in a millisecond, the initial count is at least five times the counts of
  \<open>t - 13 d\<close> ticks and at most five times those of \<open>t + 13 d\<close>, where \<open>d\<close> bounds the ticks an
  access to a timer takes.  It needs a local timer of less than \<open>2^32 / 1000\<close> counts in a
  millisecond, beyond which the arithmetic of the average overflows.
\<close>

theorem calibrate_timer_200_hz:
  assumes "paced_timers io (base_addr hp + 0xf0) (base_addr hp + 0xf4) ticks api lapic d rate lo hi initial start tmode"
    and "base_addr hp + 0xf4 \<le> usize_max" and "p = fst (clock_speed io hp w)" and "p \<noteq> 0"
    and "t = 10 ^ 12 div unat p" and "d \<le> t" and "1000 * hi (t + 13 * d) < 2 ^ 32"
    and "ticks w + d + 100 * (t + 20 * d) + 6 * 2 ^ 29 \<le> 2 ^ 64"
  shows "\<exists>w'. calibrate_timer api lapic io hp w = Some (Inr w') \<and> tmode w' = Periodic \<and>
    5 * lo (t - 13 * d) \<le> unat (initial w') \<and> unat (initial w') \<le> 5 * hi (t + 13 * d)"
  by (rule paced_timers.calibrated [OF assms(1,2) refl refl assms(3-8)])

theorem calibrate_timer_200_hz_witness:
  "\<exists>w'. calibrate_timer bench_apic () bench_mmio hpet_uninit \<lparr>b_ticks = 0, b_start = 0, b_initial = 0, b_mode = OneShot\<rparr> =
      Some (Inr w') \<and> b_mode w' = Periodic \<and> 14805 \<le> unat (b_initial w') \<and> unat (b_initial w') \<le> 15195"
  using calibrate_timer_200_hz [of bench_mmio hpet_uninit b_ticks bench_apic "()" 1 "(*) 3" "(*) 3" "(*) 3" b_initial b_start b_mode
      1000000000 "\<lparr>b_ticks = 0, b_start = 0, b_initial = 0, b_mode = OneShot\<rparr>" 1000]
    bench.paced_timers_axioms
  by (simp add: hpet_uninit_def usize_max_def clock_speed_def bench_mmio_def)

end
