(* ===== verification/Mouse.thy ===== *)
theory Mouse
  imports Prelude
begin

text \<open>
  The PS/2 mouse driver (\<open>drivers/mouse.rs\<close>): the state machine that assembles packets from the
  bytes of the interrupt handler, and the initialisation protocol over the controller's ports.

  The completion handler is observed through the states it is called with.  The ports are a
  parameter: a record of functions on the state of the controller.
\<close>

datatype MouseAdditionalFlags = FirstButton | SecondButton | ScrollUp | ScrollDown | NoFlags

datatype MouseType = StandardMouse | OnlyScroll | FiveButton

record MouseState =
  mouse_flags :: u8
  additional_flags :: MouseAdditionalFlags
  move_x :: "16 word"
  move_y :: "16 word"

definition mouse_state_new :: MouseState where
  "mouse_state_new = \<lparr>mouse_flags = 0, additional_flags = NoFlags, move_x = 0, move_y = 0\<rparr>"

record Mouse =
  current_packet_index :: nat
  current_state :: MouseState
  mouse_type :: MouseType
  complete_handler :: bool

definition mouse_new :: Mouse where
  "mouse_new = \<lparr>current_packet_index = 0, current_state = mouse_state_new, mouse_type = StandardMouse,
     complete_handler = False\<rparr>"

definition set_complete_handler :: "Mouse \<Rightarrow> Mouse" where
  "set_complete_handler ms = ms\<lparr>complete_handler := True\<rparr>"

definition packet_length :: "MouseType \<Rightarrow> nat" where
  "packet_length t = (if t = StandardMouse then 3 else 4)"

definition additional_from :: "u8 \<Rightarrow> MouseAdditionalFlags" where
  "additional_from packet =
     (if packet = 0x41 then FirstButton
      else if packet = 0x7f then SecondButton
      else if packet = 0x01 then ScrollUp
      else if packet = 0xff then ScrollDown
      else if packet = 0x0f then ScrollDown
      else NoFlags)"

text \<open>
  The effect of one byte on the state, by its position in the packet; \<open>None\<close> is the early return of
  a first byte without the bit that is always one.
\<close>

definition absorb :: "nat \<Rightarrow> u8 \<Rightarrow> MouseState \<Rightarrow> MouseState option result" where
  "absorb pos packet s =
     (if pos = 0 then Inr (if \<not> bit packet 3 then None else Some (s\<lparr>mouse_flags := packet\<rparr>))
      else if pos = 1 then
        Inr (Some (if bit (mouse_flags s) 6 then s
          else s\<lparr>move_x := if bit (mouse_flags s) 4 then ucast packet OR 0xFF00 else ucast packet\<rparr>))
      else if pos = 2 then
        Inr (Some (if bit (mouse_flags s) 7 then s
          else s\<lparr>move_y := if bit (mouse_flags s) 5 then ucast packet OR 0xFF00 else ucast packet\<rparr>))
      else if pos = 3 then Inr (Some (s\<lparr>additional_flags := additional_from packet\<rparr>))
      else Inl Unreachable)"

text \<open>\<open>process_packet\<close>: the mouse after the byte and the state handed to the handler, if it is called.\<close>

definition process_packet :: "Mouse \<Rightarrow> u8 \<Rightarrow> (MouseState option \<times> Mouse) result" where
  "process_packet ms packet =
     (let modulo = packet_length (mouse_type ms) in
      and_then (absorb (current_packet_index ms mod modulo) packet (current_state ms)) (\<lambda>r.
      case r of
        None \<Rightarrow> Inr (None, ms)
      | Some s \<Rightarrow>
          let called = (if current_packet_index ms mod modulo = modulo - 1 \<and> complete_handler ms then Some s else None) in
          Inr (called, ms\<lparr>current_state := s, current_packet_index := (current_packet_index ms + 1) mod modulo\<rparr>)))"

fun process_bytes :: "Mouse \<Rightarrow> u8 list \<Rightarrow> (MouseState list \<times> Mouse) result" where
  "process_bytes ms [] = Inr ([], ms)"
| "process_bytes ms (b # bs) =
     and_then (process_packet ms b) (\<lambda>(r, ms1).
     and_then (process_bytes ms1 bs) (\<lambda>(rs, ms2).
     Inr (case r of None \<Rightarrow> rs | Some s \<Rightarrow> s # rs, ms2)))"

section \<open>Initialisation\<close>

record 'w ps2 =
  inb :: "u16 \<Rightarrow> 'w \<Rightarrow> u8 \<times> 'w"
  outb :: "u16 \<Rightarrow> u8 \<Rightarrow> 'w \<Rightarrow> 'w"

definition PORT_READ_TRY_TIMES :: nat where
  "PORT_READ_TRY_TIMES = 10000"

fun wait_for_read :: "nat \<Rightarrow> 'w ps2 \<Rightarrow> 'w \<Rightarrow> (string + unit) \<times> 'w" where
  "wait_for_read 0 io w = (Inl ''Tried too many times to wait command port to be ready to read!'', w)"
| "wait_for_read (Suc n) io w =
     (let (v, w1) = inb io 0x64 w in if v AND 1 = 1 then (Inr (), w1) else wait_for_read n io w1)"

fun wait_for_write :: "nat \<Rightarrow> 'w ps2 \<Rightarrow> 'w \<Rightarrow> (string + unit) \<times> 'w" where
  "wait_for_write 0 io w = (Inl ''Tried too many times to wait command port to be ready to write!'', w)"
| "wait_for_write (Suc n) io w =
     (let (v, w1) = inb io 0x64 w in if v AND 2 = 0 then (Inr (), w1) else wait_for_write n io w1)"

text \<open>Sequencing of the fallible port operations.\<close>

definition io_then :: "('e + 'a) \<times> 'w \<Rightarrow> ('a \<Rightarrow> 'w \<Rightarrow> ('e + 'b) \<times> 'w) \<Rightarrow> ('e + 'b) \<times> 'w" where
  "io_then m f = (case m of (Inl e, w) \<Rightarrow> (Inl e, w) | (Inr x, w) \<Rightarrow> f x w)"

definition read_data_port :: "'w ps2 \<Rightarrow> 'w \<Rightarrow> (string + u8) \<times> 'w" where
  "read_data_port io w =
     io_then (wait_for_read PORT_READ_TRY_TIMES io w) (\<lambda>_ w1. let (v, w2) = inb io 0x60 w1 in (Inr v, w2))"

definition write_command_port :: "'w ps2 \<Rightarrow> u8 \<Rightarrow> 'w \<Rightarrow> (string + unit) \<times> 'w" where
  "write_command_port io v w =
     io_then (wait_for_write PORT_READ_TRY_TIMES io w) (\<lambda>_ w1. (Inr (), outb io 0x64 v w1))"

definition write_data_port :: "'w ps2 \<Rightarrow> u8 \<Rightarrow> 'w \<Rightarrow> (string + unit) \<times> 'w" where
  "write_data_port io v w =
     io_then (wait_for_write PORT_READ_TRY_TIMES io w) (\<lambda>_ w1. (Inr (), outb io 0x60 v w1))"

fun await_ack :: "nat \<Rightarrow> 'w ps2 \<Rightarrow> 'w \<Rightarrow> (string + unit) \<times> 'w" where
  "await_ack 0 io w = (Inl ''Did not receive ack response from mouse!'', w)"
| "await_ack (Suc n) io w =
     io_then (read_data_port io w) (\<lambda>v w1. if v = 0xfa then (Inr (), w1) else await_ack n io w1)"

definition send_command :: "'w ps2 \<Rightarrow> u8 \<Rightarrow> 'w \<Rightarrow> (string + unit) \<times> 'w" where
  "send_command io command w =
     io_then (write_command_port io 0xd4 w) (\<lambda>_ w1.
     io_then (write_data_port io command w1) (\<lambda>_ w2.
     await_ack PORT_READ_TRY_TIMES io w2))"

fun send_commands :: "'w ps2 \<Rightarrow> u8 list \<Rightarrow> 'w \<Rightarrow> (string + unit) \<times> 'w" where
  "send_commands io [] w = (Inr (), w)"
| "send_commands io (c # cs) w = io_then (send_command io c w) (\<lambda>_ w1. send_commands io cs w1)"

definition enable_packet_streaming :: "'w ps2 \<Rightarrow> 'w \<Rightarrow> (string + unit) \<times> 'w" where
  "enable_packet_streaming io w = send_command io 0xf4 w"

text \<open>The mouse is changed in place: what was found before an error stays.\<close>

definition identify :: "'w ps2 \<Rightarrow> u8 list \<Rightarrow> u8 \<Rightarrow> MouseType \<Rightarrow> Mouse \<Rightarrow> 'w \<Rightarrow> (string + unit) \<times> Mouse \<times> 'w" where
  "identify io commands reply t ms w =
     (case io_then (send_commands io commands w) (\<lambda>_ w1. read_data_port io w1) of
        (Inl e, w2) \<Rightarrow> (Inl e, ms, w2)
      | (Inr v, w2) \<Rightarrow> (Inr (), if v = reply then ms\<lparr>mouse_type := t\<rparr> else ms, w2))"

definition enable_scroll_wheel :: "'w ps2 \<Rightarrow> Mouse \<Rightarrow> 'w \<Rightarrow> (string + unit) \<times> Mouse \<times> 'w" where
  "enable_scroll_wheel io ms w = identify io [0xf3, 200, 0xf3, 100, 0xf3, 80, 0xf2] 3 OnlyScroll ms w"

definition enable_additional_button :: "'w ps2 \<Rightarrow> Mouse \<Rightarrow> 'w \<Rightarrow> (string + unit) \<times> Mouse \<times> 'w" where
  "enable_additional_button io ms w = identify io [0xf3, 200, 0xf3, 200, 0xf3, 80, 0xf2] 4 FiveButton ms w"

definition mouse_init :: "'w ps2 \<Rightarrow> Mouse \<Rightarrow> 'w \<Rightarrow> (string + unit) \<times> Mouse \<times> 'w" where
  "mouse_init io ms w =
     (case enable_packet_streaming io w of
        (Inl e, w1) \<Rightarrow> (Inl e, ms, w1)
      | (Inr _, w1) \<Rightarrow>
          (case enable_scroll_wheel io ms w1 of
             (Inl e, ms1, w2) \<Rightarrow> (Inl e, ms1, w2)
           | (Inr _, ms1, w2) \<Rightarrow> enable_additional_button io ms1 w2))"

text \<open>\<open>init\<close> of the module sets the completion handler when the mouse answered, and logs the outcome.\<close>

definition mouse_start :: "'w ps2 \<Rightarrow> Mouse \<Rightarrow> 'w \<Rightarrow> (string + unit) \<times> Mouse \<times> 'w" where
  "mouse_start io ms w =
     (let (r, ms, w) = mouse_init io ms w in
      case r of Inr _ \<Rightarrow> (Inr (), set_complete_handler ms, w) | Inl err \<Rightarrow> (Inl err, ms, w))"

section \<open>Decoding a stream\<close>

text \<open>
  The reference: skip bytes until one has the always-one bit, then take a whole packet and apply
  its bytes in order; an incomplete packet at the end yields nothing.
\<close>

definition packet_state :: "u8 list \<Rightarrow> MouseState \<Rightarrow> MouseState" where
  "packet_state p s =
     (let s0 = s\<lparr>mouse_flags := p ! 0\<rparr>;
          s1 = (if bit (p ! 0) 6 then s0 else s0\<lparr>move_x := if bit (p ! 0) 4 then ucast (p ! 1) OR 0xFF00 else ucast (p ! 1)\<rparr>);
          s2 = (if bit (p ! 0) 7 then s1 else s1\<lparr>move_y := if bit (p ! 0) 5 then ucast (p ! 2) OR 0xFF00 else ucast (p ! 2)\<rparr>) in
      if length p = 4 then s2\<lparr>additional_flags := additional_from (p ! 3)\<rparr> else s2)"

function decode :: "nat \<Rightarrow> u8 list \<Rightarrow> MouseState \<Rightarrow> MouseState list" where
  "decode n bs s =
     (if bs = [] \<or> n = 0 then []
      else if \<not> bit (hd bs) 3 then decode n (tl bs) s
      else if length bs < n then []
      else let s' = packet_state (take n bs) s in s' # decode n (drop n bs) s')"
  by auto
termination by (relation "measure (\<lambda>(_, bs, _). length bs)") auto

declare decode.simps [simp del]

lemmas byte_simps = process_packet_def absorb_def packet_length_def packet_state_def Let_def

lemma bytes_standard:
  assumes "current_packet_index ms = 0" and "mouse_type ms = StandardMouse" and "complete_handler ms" and "bit b0 3"
  shows "process_bytes ms (b0 # b1 # b2 # bs) =
    (let s = packet_state [b0, b1, b2] (current_state ms) in
     and_then (process_bytes (ms\<lparr>current_state := s\<rparr>) bs) (\<lambda>(rs, ms'). Inr (s # rs, ms')))"
  using assms by (cases ms) (simp add: byte_simps)

lemma bytes_extended:
  assumes "current_packet_index ms = 0" and "mouse_type ms \<noteq> StandardMouse" and "complete_handler ms" and "bit b0 3"
  shows "process_bytes ms (b0 # b1 # b2 # b3 # bs) =
    (let s = packet_state [b0, b1, b2, b3] (current_state ms) in
     and_then (process_bytes (ms\<lparr>current_state := s\<rparr>) bs) (\<lambda>(rs, ms'). Inr (s # rs, ms')))"
  using assms by (cases ms) (simp add: byte_simps)

lemma bytes_skipped:
  assumes "current_packet_index ms = 0" and "\<not> bit b 3"
  shows "process_bytes ms (b # bs) = process_bytes ms bs"
  using assms by (auto simp: byte_simps and_then_def split: sum.splits)

lemma bytes_incomplete:
  assumes "current_packet_index ms = 0" and "bs \<noteq> []" and "bit (hd bs) 3" and "length bs < packet_length (mouse_type ms)"
  shows "\<exists>ms'. process_bytes ms bs = Inr ([], ms')"
proof -
  consider a where "bs = [a]" | a b where "bs = [a, b]" | a b c where "bs = [a, b, c]" "mouse_type ms \<noteq> StandardMouse"
    using assms(2,4) by (cases bs; cases "tl bs"; cases "tl (tl bs)"; cases "tl (tl (tl bs))")
      (auto simp: packet_length_def split: if_splits)
  then show ?thesis
    by cases (use assms in \<open>simp_all add: byte_simps\<close>)
qed

section \<open>Properties\<close>

text \<open>
  C34. Fed with any sequence of bytes between packets, the driver never panics and calls its
  handler with exactly the states of the reference decoding: it skips bytes without the
  always-one bit where a packet should start, and each complete packet updates the state once.
\<close>

theorem mouse_decodes:
  assumes "current_packet_index ms = 0" and "complete_handler ms"
  shows "\<exists>ms'. process_bytes ms bs = Inr (decode (packet_length (mouse_type ms)) bs (current_state ms), ms')"
  using assms
proof (induction "length bs" arbitrary: bs ms rule: less_induct)
  case less
  let ?n = "packet_length (mouse_type ms)" and ?s = "current_state ms"
  have n: "?n = 3 \<and> mouse_type ms = StandardMouse \<or> ?n = 4 \<and> mouse_type ms \<noteq> StandardMouse" by (simp add: packet_length_def)
  show ?case
  proof (cases bs)
    case Nil
    then show ?thesis by (simp add: decode.simps)
  next
    case (Cons b0 rest1)
    show ?thesis
    proof (cases "bit b0 3")
      case False
      then have "decode ?n bs ?s = decode ?n rest1 ?s" using n Cons by (subst decode.simps) auto
      then show ?thesis using less.hyps [of rest1 ms] less.prems bytes_skipped [OF less.prems(1) False] Cons by simp
    next
      case first: True
      show ?thesis
      proof (cases "length bs < ?n")
        case True
        then have "decode ?n bs ?s = []" using Cons first by (subst decode.simps) auto
        with bytes_incomplete [OF less.prems(1) _ _ True] Cons first show ?thesis by simp
      next
        case False
        let ?p = "packet_state (take ?n bs) ?s"
        have dec: "decode ?n bs ?s = ?p # decode ?n (drop ?n bs) ?p"
          using False Cons first n by (subst decode.simps) (auto simp: Let_def)
        have "length (drop ?n bs) < length bs" using n Cons by auto
        from less.hyps [OF this, of "ms\<lparr>current_state := ?p\<rparr>"] less.prems obtain ms' where
          ms': "process_bytes (ms\<lparr>current_state := ?p\<rparr>) (drop ?n bs) = Inr (decode ?n (drop ?n bs) ?p, ms')" by auto
        have "process_bytes ms bs =
            and_then (process_bytes (ms\<lparr>current_state := ?p\<rparr>) (drop ?n bs)) (\<lambda>(rs, ms'). Inr (?p # rs, ms'))"
        proof (cases "mouse_type ms = StandardMouse")
          case True
          then obtain b1 b2 bs' where "bs = b0 # b1 # b2 # bs'"
            using False Cons n by (cases rest1; cases "tl rest1") auto
          then show ?thesis using bytes_standard [OF less.prems(1) True less.prems(2) first] True
            by (simp add: packet_length_def Let_def)
        next
          case ext: False
          then obtain b1 b2 b3 bs' where "bs = b0 # b1 # b2 # b3 # bs'"
            using False Cons n by (cases rest1; cases "tl rest1"; cases "tl (tl rest1)") auto
          then show ?thesis using bytes_extended [OF less.prems(1) ext less.prems(2) first] ext
            by (simp add: packet_length_def Let_def)
        qed
        with ms' dec show ?thesis by simp
      qed
    qed
  qed
qed

theorem mouse_decodes_witness:
  "\<exists>ms'. process_bytes (set_complete_handler mouse_new) [0x00, 0x18, 0xfe, 0x05, 0x08, 0x01, 0x02, 0x28] =
     Inr ([\<lparr>mouse_flags = 0x18, additional_flags = NoFlags, move_x = 0xfffe, move_y = 0x0005\<rparr>,
           \<lparr>mouse_flags = 0x08, additional_flags = NoFlags, move_x = 0x0001, move_y = 0x0002\<rparr>], ms')"
proof -
  let ?bs = "[0x00, 0x18, 0xfe, 0x05, 0x08, 0x01, 0x02, 0x28]"
  have "decode 3 ?bs mouse_state_new =
    [\<lparr>mouse_flags = 0x18, additional_flags = NoFlags, move_x = 0xfffe, move_y = 0x0005\<rparr>,
     \<lparr>mouse_flags = 0x08, additional_flags = NoFlags, move_x = 0x0001, move_y = 0x0002\<rparr>]"
    by (simp add: decode.simps packet_state_def mouse_state_new_def)
  then show ?thesis
    using mouse_decodes [of "set_complete_handler mouse_new" ?bs]
    by (simp add: set_complete_handler_def mouse_new_def packet_length_def)
qed

text \<open>
  The movement of a packet is the signed nine-bit number its sign flag and its byte encode:
  between -256 and 255, whatever the byte.
\<close>

theorem mouse_movement_signed:
  assumes "\<not> bit b0 6" and "\<not> bit b0 7"
  shows "sint (move_x (packet_state [b0, b1, b2] s)) = (if bit b0 4 then int (unat b1) - 256 else int (unat b1)) \<and>
    sint (move_y (packet_state [b0, b1, b2] s)) = (if bit b0 5 then int (unat b2) - 256 else int (unat b2))"
proof -
  have ext: "sint (ucast b OR 0xFF00 :: 16 word) = int (unat b) - 256" "sint (ucast b :: 16 word) = int (unat b)" for b :: u8
  proof -
    have b: "uint b < 256" "0 \<le> uint b" using uint_lt2p [of b] by auto
    have "(ucast b OR 0xFF00 :: 16 word) = ucast b + 0xFF00"
    proof (rule disjunctive_add_eq_or [symmetric])
      show "ucast b AND (0xFF00 :: 16 word) = 0"
      proof (rule bit_word_eqI)
        fix n
        have "(0xFF00 :: 16 word) = push_bit 8 (mask 8)" by (simp add: mask_eq_exp_minus_1)
        then show "bit (ucast b AND (0xFF00 :: 16 word)) n = bit 0 n"
          by (simp only: bit_and_iff bit_push_bit_iff bit_unsigned_iff) (auto dest: bit_imp_le_length)
      qed
    qed
    moreover have "sint (ucast b + 0xFF00 :: 16 word) = int (unat b) - 256"
    proof -
      have t: "take_bit 16 (uint b) = uint b" using b by (simp add: take_bit_int_eq_self)
      have "uint (ucast b + 0xFF00 :: 16 word) = uint b + 0xFF00"
        using b by (simp add: uint_word_ariths unsigned_ucast_eq t)
      moreover have "(uint b + 0xFF00) div 2 ^ 15 = 1"
        by (rule int_div_pos_eq [where r = "uint b + 0x7F00"]) (use b in simp_all)
      then have "bit (uint b + 0xFF00) 15" by (simp add: bit_iff_odd)
      moreover have "take_bit 16 (uint b + 0xFF00) = uint b + 0xFF00" using b by (simp add: take_bit_int_eq_self)
      ultimately show ?thesis by (simp add: sint_uint signed_take_bit_eq_take_bit_minus)
    qed
    ultimately show "sint (ucast b OR 0xFF00 :: 16 word) = int (unat b) - 256" by simp
    have "take_bit 16 (uint b) = uint b" "\<not> bit (uint b) 15"
      using b by (simp_all add: take_bit_int_eq_self bit_iff_odd)
    then show "sint (ucast b :: 16 word) = int (unat b)"
      by (simp add: sint_uint signed_take_bit_eq_take_bit_minus unsigned_ucast_eq)
  qed
  show ?thesis using assms ext by (simp add: packet_state_def)
qed

theorem mouse_movement_signed_witness:
  "sint (move_x (packet_state [0x18, 0xfe, 0x05] mouse_state_new)) = -2 \<and>
   sint (move_y (packet_state [0x18, 0xfe, 0x05] mouse_state_new)) = 5"
  using mouse_movement_signed [where ?b0.0 = "0x18" and ?b1.0 = "0xfe" and ?b2.0 = "0x05" and s = mouse_state_new] by simp

section \<open>Detecting the mouse\<close>

text \<open>
  A controller with a mouse behind it: \<open>queue\<close> are the bytes waiting at the data port, \<open>sent\<close> the commands the
  mouse has got.  It is always ready, acknowledges every command, and answers the request for its
  identification with a byte that depends on the commands before.
\<close>

locale ps2_mouse =
  fixes io :: "'w ps2" and queue :: "'w \<Rightarrow> u8 list" and sent :: "'w \<Rightarrow> u8 list" and selected :: "'w \<Rightarrow> bool" and ident :: "u8 list \<Rightarrow> u8"
  assumes status: "\<exists>v w'. inb io 0x64 w = (v, w') \<and> (v AND 1 = 1 \<longleftrightarrow> queue w \<noteq> []) \<and> v AND 2 = 0 \<and>
      queue w' = queue w \<and> sent w' = sent w \<and> selected w' = selected w"
    and data: "queue w = b # bs \<Longrightarrow> \<exists>w'. inb io 0x60 w = (b, w') \<and> queue w' = bs \<and> sent w' = sent w \<and> selected w' = selected w"
    and to_mouse: "queue (outb io 0x64 0xd4 w) = queue w" "sent (outb io 0x64 0xd4 w) = sent w" "selected (outb io 0x64 0xd4 w)"
    and command: "selected w \<Longrightarrow> queue (outb io 0x60 c w) = queue w @ 0xfa # (if c = 0xf2 then [ident (sent w)] else [])"
      "selected w \<Longrightarrow> sent (outb io 0x60 c w) = sent w @ [c]"
begin

lemma ready_write: "0 < n \<Longrightarrow> \<exists>w'. wait_for_write n io w = (Inr (), w') \<and> queue w' = queue w \<and> sent w' = sent w \<and> selected w' = selected w"
  using status [of w] by (cases n) auto

lemma ready_read: "0 < n \<Longrightarrow> queue w \<noteq> [] \<Longrightarrow>
    \<exists>w'. wait_for_read n io w = (Inr (), w') \<and> queue w' = queue w \<and> sent w' = sent w \<and> selected w' = selected w"
  using status [of w] by (cases n) auto

lemma byte_read:
  assumes "queue w = b # bs"
  obtains w' where "read_data_port io w = (Inr b, w')" "queue w' = bs" "sent w' = sent w"
proof -
  obtain w1 where w1: "wait_for_read PORT_READ_TRY_TIMES io w = (Inr (), w1)" "queue w1 = queue w" "sent w1 = sent w"
    using ready_read [of PORT_READ_TRY_TIMES w] assms by (auto simp: PORT_READ_TRY_TIMES_def)
  obtain w2 where "inb io 0x60 w1 = (b, w2)" "queue w2 = bs" "sent w2 = sent w1" using data [of w1 b bs] w1(2) assms by auto
  then show thesis using that w1 by (simp add: read_data_port_def io_then_def)
qed

lemma command_sent:
  assumes "queue w = []"
  obtains w' where "send_command io c w = (Inr (), w')" "sent w' = sent w @ [c]" "queue w' = (if c = 0xf2 then [ident (sent w)] else [])"
proof -
  have n: "0 < PORT_READ_TRY_TIMES" by (simp add: PORT_READ_TRY_TIMES_def)
  obtain w1 where w1: "wait_for_write PORT_READ_TRY_TIMES io w = (Inr (), w1)" "queue w1 = []" "sent w1 = sent w"
    using ready_write [OF n, of w] assms by auto
  let ?w2 = "outb io 0x64 0xd4 w1"
  obtain w3 where w3: "wait_for_write PORT_READ_TRY_TIMES io ?w2 = (Inr (), w3)" "queue w3 = []" "sent w3 = sent w" "selected w3"
    using ready_write [OF n, of ?w2] to_mouse [of w1] w1 by auto
  let ?w4 = "outb io 0x60 c w3"
  have q: "queue ?w4 = 0xfa # (if c = 0xf2 then [ident (sent w)] else [])" "sent ?w4 = sent w @ [c]"
    using command [OF w3(4)] w3 by simp_all
  obtain w5 where w5: "read_data_port io ?w4 = (Inr 0xfa, w5)" "queue w5 = (if c = 0xf2 then [ident (sent w)] else [])" "sent w5 = sent ?w4"
    by (rule byte_read [OF q(1)])
  obtain k where k: "PORT_READ_TRY_TIMES = Suc k" using n gr0_implies_Suc by blast
  have "await_ack PORT_READ_TRY_TIMES io ?w4 = (Inr (), w5)" unfolding k using w5(1) by (simp add: io_then_def)
  then have "send_command io c w = (Inr (), w5)"
    using w1(1) w3(1) by (simp add: send_command_def write_command_port_def write_data_port_def io_then_def)
  then show thesis using that w5(2,3) q(2) by simp
qed

lemma commands_sent:
  assumes "queue w = []" "0xf2 \<notin> set cs"
  shows "\<exists>w'. send_commands io cs w = (Inr (), w') \<and> sent w' = sent w @ cs \<and> queue w' = []"
  using assms
proof (induction cs arbitrary: w)
  case Nil
  then show ?case by simp
next
  case (Cons c cs)
  obtain w1 where w1: "send_command io c w = (Inr (), w1)" "sent w1 = sent w @ [c]" "queue w1 = []"
    using command_sent [OF Cons.prems(1), of c] Cons.prems(2) by auto
  then show ?case using Cons.IH [of w1] Cons.prems(2) by (auto simp: io_then_def)
qed

lemma send_commands_append: "send_commands io (cs @ ds) w = io_then (send_commands io cs w) (\<lambda>_. send_commands io ds)"
  by (induction cs arbitrary: w) (auto simp: io_then_def split: prod.splits sum.splits)

lemma identified:
  assumes "queue w = []" "0xf2 \<notin> set cs"
  obtains w' where "identify io (cs @ [0xf2]) reply t ms w = (Inr (), if ident (sent w @ cs) = reply then ms\<lparr>mouse_type := t\<rparr> else ms, w')"
    "queue w' = []" "sent w' = sent w @ cs @ [0xf2]"
proof -
  obtain w1 where w1: "send_commands io cs w = (Inr (), w1)" "sent w1 = sent w @ cs" "queue w1 = []"
    using commands_sent [OF assms] by auto
  obtain w2 where w2: "send_command io 0xf2 w1 = (Inr (), w2)" "sent w2 = sent w1 @ [0xf2]" "queue w2 = [ident (sent w1)]"
    using command_sent [OF w1(3), of "0xf2"] by auto
  obtain w3 where w3: "read_data_port io w2 = (Inr (ident (sent w1)), w3)" "queue w3 = []" "sent w3 = sent w2" by (rule byte_read [OF w2(3)])
  show thesis
    by (rule that [of w3]) (use w1 w2 w3 in \<open>simp_all add: identify_def send_commands_append io_then_def\<close>)
qed

abbreviation scroll_probe :: "u8 list" where "scroll_probe \<equiv> [0xf3, 200, 0xf3, 100, 0xf3, 80]"
abbreviation button_probe :: "u8 list" where "button_probe \<equiv> [0xf3, 200, 0xf3, 200, 0xf3, 80]"

lemma detected:
  assumes "queue w = []"
  shows "\<exists>w'. mouse_start io ms w = (Inr (), ms\<lparr>complete_handler := True, mouse_type :=
      (if ident (sent w @ 0xf4 # scroll_probe @ 0xf2 # button_probe) = 4 then FiveButton
       else if ident (sent w @ 0xf4 # scroll_probe) = 3 then OnlyScroll else mouse_type ms)\<rparr>, w') \<and>
    queue w' = [] \<and> sent w' = sent w @ 0xf4 # scroll_probe @ 0xf2 # button_probe @ [0xf2]"
proof -
  obtain w1 where w1: "send_command io 0xf4 w = (Inr (), w1)" "sent w1 = sent w @ [0xf4]" "queue w1 = []"
    using command_sent [OF assms, of "0xf4"] by auto
  have n: "0xf2 \<notin> set scroll_probe" "0xf2 \<notin> set button_probe" by simp_all
  obtain w2 where w2: "identify io (scroll_probe @ [0xf2]) 3 OnlyScroll ms w1 =
      (Inr (), if ident (sent w1 @ scroll_probe) = 3 then ms\<lparr>mouse_type := OnlyScroll\<rparr> else ms, w2)"
    "queue w2 = []" "sent w2 = sent w1 @ scroll_probe @ [0xf2]" by (rule identified [OF w1(3) n(1)])
  let ?ms = "if ident (sent w1 @ scroll_probe) = 3 then ms\<lparr>mouse_type := OnlyScroll\<rparr> else ms"
  obtain w3 where w3: "identify io (button_probe @ [0xf2]) 4 FiveButton ?ms w2 =
      (Inr (), if ident (sent w2 @ button_probe) = 4 then ?ms\<lparr>mouse_type := FiveButton\<rparr> else ?ms, w3)"
    "queue w3 = []" "sent w3 = sent w2 @ button_probe @ [0xf2]" by (rule identified [OF w2(2) n(2)])
  have "mouse_init io ms w = (Inr (), if ident (sent w2 @ button_probe) = 4 then ?ms\<lparr>mouse_type := FiveButton\<rparr> else ?ms, w3)"
    using w1(1) w2(1) w3(1) by (simp add: mouse_init_def enable_packet_streaming_def enable_scroll_wheel_def enable_additional_button_def)
  then show ?thesis using w1(2) w2(3) w3(2,3) by (intro exI [of _ w3]) (simp add: mouse_start_def set_complete_handler_def)
qed

end

text \<open>A wheel mouse: it identifies itself with 3 after the first probe, and keeps doing so.\<close>

record wheel_mouse =
  wm_queue :: "u8 list"
  wm_sent :: "u8 list"
  wm_selected :: bool

definition wheel_ident :: "u8 list \<Rightarrow> u8" where
  "wheel_ident cs = (if take 6 (rev cs) = [80, 0xf3, 100, 0xf3, 200, 0xf3] then 3 else 0)"

definition wheel_io :: "wheel_mouse ps2" where
  "wheel_io = \<lparr>inb = (\<lambda>port w. if port = 0x64 then (if wm_queue w = [] then 0 else 1, w)
       else (case wm_queue w of [] \<Rightarrow> (0, w) | b # bs \<Rightarrow> (b, w\<lparr>wm_queue := bs\<rparr>))),
     outb = (\<lambda>port v w. if port = 0x64 then w\<lparr>wm_selected := True\<rparr>
       else w\<lparr>wm_queue := wm_queue w @ 0xfa # (if v = 0xf2 then [wheel_ident (wm_sent w)] else []), wm_sent := wm_sent w @ [v]\<rparr>)\<rparr>"

interpretation wheel: ps2_mouse wheel_io wm_queue wm_sent wm_selected wheel_ident
  by unfold_locales (auto simp: wheel_io_def)

text \<open>
  C35. With a mouse that acknowledges its commands, \<open>init\<close> succeeds, sends exactly the two probes of the protocol,
  takes the type from the answers (a five button mouse if it answers 4 to the second probe, a
  wheel mouse if it answers 3 to the first) and installs the completion handler.
\<close>

theorem mouse_detected:
  assumes "ps2_mouse io queue sent selected ident" "queue w = []"
  shows "\<exists>w'. mouse_start io ms w = (Inr (), ms\<lparr>complete_handler := True, mouse_type :=
      (if ident (sent w @ [0xf4, 0xf3, 200, 0xf3, 100, 0xf3, 80, 0xf2, 0xf3, 200, 0xf3, 200, 0xf3, 80]) = 4 then FiveButton
       else if ident (sent w @ [0xf4, 0xf3, 200, 0xf3, 100, 0xf3, 80]) = 3 then OnlyScroll else mouse_type ms)\<rparr>, w') \<and>
    queue w' = [] \<and> sent w' = sent w @ [0xf4, 0xf3, 200, 0xf3, 100, 0xf3, 80, 0xf2, 0xf3, 200, 0xf3, 200, 0xf3, 80, 0xf2]"
  using ps2_mouse.detected [OF assms] by simp

theorem mouse_detected_witness:
  "\<exists>w'. mouse_start wheel_io mouse_new \<lparr>wm_queue = [], wm_sent = [], wm_selected = False\<rparr> =
    (Inr (), mouse_new\<lparr>complete_handler := True, mouse_type := OnlyScroll\<rparr>, w')"
  using mouse_detected [OF wheel.ps2_mouse_axioms, of "\<lparr>wm_queue = [], wm_sent = [], wm_selected = False\<rparr>" mouse_new]
  by (auto simp: wheel_ident_def)

end
