(* ===== verification/Interrupts.thy ===== *)
theory Interrupts
  imports Apic Mouse Sched
begin

text \<open>
  Interrupt dispatch (\<open>arch/interrupts.rs\<close>): the interrupt descriptor table, the handlers and the
  replaceable handler for device interrupts; and the keyboard buffer (\<open>drivers/keyboard.rs\<close>) that
  the keyboard interrupt fills.

  The bounded queue of the \<open>crossbeam_queue\<close> crate is the parameter record \<open>array_queue_api\<close>.
  Log output is kept as a list of messages, and \<open>hlt\<close> as a flag of the result.
\<close>

section \<open>The keyboard buffer\<close>

record ('q, 'a) array_queue_api =
  aq_new :: "nat \<Rightarrow> 'q"
  aq_push :: "'q \<Rightarrow> 'a \<Rightarrow> ('a + unit) \<times> 'q"
  aq_pop :: "'q \<Rightarrow> 'a option \<times> 'q"
  aq_is_empty :: "'q \<Rightarrow> bool"

definition SCANCODE_QUEUE_SIZE :: nat where "SCANCODE_QUEUE_SIZE = 128"

definition scancode_queue :: "('q, u8) array_queue_api \<Rightarrow> 'q" where
  "scancode_queue aq = aq_new aq SCANCODE_QUEUE_SIZE"

text \<open>\<open>add_scancode\<close>: the flag says that the code was dropped, with a message on the console.\<close>

definition add_scancode :: "('q, u8) array_queue_api \<Rightarrow> u8 \<Rightarrow> 'q \<Rightarrow> bool \<times> 'q" where
  "add_scancode aq scancode q =
     (case aq_push aq q scancode of (Inl _, q) \<Rightarrow> (True, q) | (Inr _, q) \<Rightarrow> (False, q))"

definition get_scancode :: "('q, u8) array_queue_api \<Rightarrow> 'q \<Rightarrow> u8 option \<times> 'q" where
  "get_scancode aq q = aq_pop aq q"

definition has_scancode :: "('q, u8) array_queue_api \<Rightarrow> 'q \<Rightarrow> bool" where
  "has_scancode aq q = (\<not> aq_is_empty aq q)"

section \<open>The descriptor table\<close>

datatype handler =
    breakpoint | segment_not_present | invalid_opcode | page_fault | general_protection_fault | double_fault
  | default_irq nat | timer | lapic_error | spurious_interrupt | keyboard_interrupt | mouse_interrupt

record idt_entry =
  entry_handler :: handler
  stack_index :: "nat option"

type_synonym idt = "nat \<rightharpoonup> idt_entry"

definition set_handler_fn :: "nat \<Rightarrow> handler \<Rightarrow> idt \<Rightarrow> idt" where
  "set_handler_fn vec h idt = idt(vec \<mapsto> \<lparr>entry_handler = h, stack_index = None\<rparr>)"

definition set_stack_index :: "nat \<Rightarrow> nat \<Rightarrow> idt \<Rightarrow> idt" where
  "set_stack_index vec i idt = (case idt vec of None \<Rightarrow> idt | Some e \<Rightarrow> idt(vec \<mapsto> e\<lparr>stack_index := Some i\<rparr>))"

text \<open>
  The macro \<open>interrupt_handler10!\<close>: ten entries, whose handlers all carry the number \<open>$k * 10 + 0\<close>.
\<close>

definition interrupt_handler10 :: "nat \<Rightarrow> idt \<Rightarrow> idt" where
  "interrupt_handler10 k idt =
     fold (\<lambda>i. set_handler_fn (k * 10 + i + unat INTERRUPT_INDEX_OFFSET) (default_irq (k * 10 + 0))) [0..<10] idt"

definition DOUBLE_FAULT_IST_INDEX :: nat where "DOUBLE_FAULT_IST_INDEX = 0"

text \<open>The exception vectors of the named fields are the processor's.\<close>

definition IDT :: idt where
  "IDT =
     (let idt = Map.empty;
          idt = set_handler_fn 3 breakpoint idt;
          idt = set_handler_fn 11 segment_not_present idt;
          idt = set_handler_fn 6 invalid_opcode idt;
          idt = set_handler_fn 14 page_fault idt;
          idt = set_handler_fn 13 general_protection_fault idt;
          idt = fold interrupt_handler10 [0..<22] idt;
          idt = set_handler_fn (unat (interrupt_index TimerIndex)) timer idt;
          idt = set_handler_fn (unat (interrupt_index ApicErrorIndex)) lapic_error idt;
          idt = set_handler_fn (unat (interrupt_index ApicSpuriousIndex)) spurious_interrupt idt;
          idt = set_handler_fn (unat (interrupt_index KeyboardIndex)) keyboard_interrupt idt;
          idt = set_handler_fn (unat (interrupt_index MouseIndex)) mouse_interrupt idt;
          idt = set_stack_index 8 DOUBLE_FAULT_IST_INDEX (set_handler_fn 8 double_fault idt) in
      idt)"

section \<open>The handlers\<close>

datatype level = LogError | LogWarn | LogDebug | Print

datatype message = Message level string "u64 list"

record ('q, 'w) irq_state =
  scancodes :: 'q
  mouse :: Mouse
  mouse_reports :: "MouseState list"  \<comment> \<open>what the completion handler was called with\<close>
  irq_handler :: "nat \<Rightarrow> 'w \<Rightarrow> 'w"
  messages :: "message list"
  kernel :: Kernel
  resume_at :: "u64 option"  \<comment> \<open>the context the timer handler chose\<close>
  world :: 'w

text \<open>\<open>default_irq_handler\<close> and \<open>register_irq_handler\<close>; \<open>warn\<close> is the log call.\<close>

definition default_irq_handler :: "(string \<Rightarrow> 'w \<Rightarrow> 'w) \<Rightarrow> nat \<Rightarrow> 'w \<Rightarrow> 'w" where
  "default_irq_handler warn irq w = warn ''Unhandled IRQ!'' w"

definition register_irq_handler :: "(nat \<Rightarrow> 'w \<Rightarrow> 'w) \<Rightarrow> ('q, 'w) irq_state \<Rightarrow> ('q, 'w) irq_state" where
  "register_irq_handler f s = s\<lparr>irq_handler := f\<rparr>"

definition log_message :: "level \<Rightarrow> string \<Rightarrow> u64 list \<Rightarrow> ('q, 'w) irq_state \<Rightarrow> ('q, 'w) irq_state" where
  "log_message l text args s = s\<lparr>messages := messages s @ [Message l text args]\<rparr>"

text \<open>What the handlers use: the interrupt controller, the ports and the queue.\<close>

record ('q, 'l, 'i, 'r, 'w) irq_env =
  env_apic :: "('l, 'i, 'r, 'w) apic_api"
  env_ports :: "'w byte_ports"
  env_queue :: "('q, u8) array_queue_api"
  env_x86 :: x86_api
  env_offset :: nat
  env_acpi :: "ApicInfo option"
  env_context_addr :: "nat \<Rightarrow> u64"

text \<open>What the processor hands to a handler, with the memory the saved registers are in.\<close>

record irq_frame =
  fault_code :: u64
  fault_address :: "u64 + u64"
  saved_at :: u64
  frame_memory :: "u64 \<Rightarrow> u64"

definition eoi :: "('q, 'l, 'i, 'r, 'w) irq_env \<Rightarrow> ('q, 'w) irq_state \<Rightarrow> ('q, 'w) irq_state result" where
  "eoi env s =
     and_then (end_of_interrupt (env_apic env) (env_x86 env) (env_offset env) (env_acpi env) (world s)) (\<lambda>w.
     Inr (s\<lparr>world := w\<rparr>))"

definition handle_keyboard :: "('q, 'l, 'i, 'r, 'w) irq_env \<Rightarrow> ('q, 'w) irq_state \<Rightarrow> ('q, 'w) irq_state result" where
  "handle_keyboard env s =
     (let (scancode, w) = in8 (env_ports env) 0x60 (world s);
          (dropped, q) = add_scancode (env_queue env) scancode (scancodes s);
          s = s\<lparr>world := w, scancodes := q\<rparr>;
          s = (if dropped then log_message Print ''Scancode queue full, dropping keyboard input!'' [] s else s) in
      eoi env s)"

definition handle_mouse :: "('q, 'l, 'i, 'r, 'w) irq_env \<Rightarrow> ('q, 'w) irq_state \<Rightarrow> ('q, 'w) irq_state result" where
  "handle_mouse env s =
     (let (packet, w) = in8 (env_ports env) 0x60 (world s) in
      and_then (process_packet (mouse s) packet) (\<lambda>(report, ms).
      eoi env (s\<lparr>world := w, mouse := ms,
                 mouse_reports := mouse_reports s @ (case report of None \<Rightarrow> [] | Some r \<Rightarrow> [r])\<rparr>)))"

definition handle_general_protection_fault :: "u64 \<Rightarrow> ('q, 'w) irq_state \<Rightarrow> ('q, 'w) irq_state" where
  "handle_general_protection_fault error_code s =
     (let s = log_message LogError ''Exception: General Protection Fault'' [] s;
          s = log_message LogError ''Error Code: '' [error_code] s;
          s = (if error_code AND 0x1 \<noteq> 0
               then log_message LogError ''The exception occurred during delivery of an event external to the program,such as an interrupt or an earlier exception.'' [] s
               else s);
          s = (if error_code AND 0x2 \<noteq> 0 then log_message LogError ''Refers to a gate descriptor in the IDT'' [] s
               else if error_code AND 0x4 \<noteq> 0
               then log_message LogError ''Refers to a segment or gate descriptor in the LDT'' [] s
               else log_message LogError ''Refers to a segment or gate descriptor in the LDT'' [] s) in
      log_message LogError ''Segment Selector Index: '' [error_code AND 0xfff8] s)"

definition handle_page_fault ::
  "('q, 'l, 'i, 'r, 'w) irq_env \<Rightarrow> u64 \<Rightarrow> u64 + u64 \<Rightarrow> ('q, 'w) irq_state \<Rightarrow> ('q, 'w) irq_state result" where
  "handle_page_fault env error_code cr2 s =
     and_then (get_lapic_id (env_apic env) (env_x86 env) (env_offset env) (env_acpi env) (world s)) (\<lambda>i.
     let s = log_message LogWarn ''Processor: '' [ucast i] s;
         s = log_message LogWarn ''Exception: Page Fault'' [] s;
         s = log_message LogWarn ''Error Code: '' [error_code] s in
     Inr (case cr2 of
            Inr address \<Rightarrow> log_message LogWarn ''Fault Address: '' [address] s
          | Inl invalid \<Rightarrow> log_message LogWarn ''Invalid virtual address: '' [invalid] s))"

text \<open>The Rust part of the timer interrupt; its assembly is in the theory of context switching.\<close>

definition timer_handler ::
  "('q, 'l, 'i, 'r, 'w) irq_env \<Rightarrow> (u64 \<Rightarrow> u64) \<Rightarrow> u64 \<Rightarrow> Kernel \<Rightarrow> 'w \<Rightarrow> (u64 \<times> Kernel \<times> 'w) result" where
  "timer_handler env m context k w =
     and_then (end_of_interrupt (env_apic env) (env_x86 env) (env_offset env) (env_acpi env) w) (\<lambda>w.
     and_then (get_lapic_id (env_apic env) (env_x86 env) (env_offset env) (env_acpi env) w) (\<lambda>i.
     and_then (schedule (env_context_addr env) i (from_address m context) k) (\<lambda>(address, k).
     Inr (address, k, w))))"

text \<open>
  One interrupt through the table.  \<open>None\<close> for a vector without a handler, which
  the processor turns into a fault; the flag of the result says that the handler executed \<open>hlt\<close>.
\<close>

definition run_handler ::
  "('q, 'l, 'i, 'r, 'w) irq_env \<Rightarrow> irq_frame \<Rightarrow> handler \<Rightarrow> ('q, 'w) irq_state \<Rightarrow> (bool \<times> ('q, 'w) irq_state) result" where
  "run_handler env fr h s =
     (case h of
        breakpoint \<Rightarrow> Inr (False, log_message LogDebug ''Exception: Breakpoint'' [] s)
      | segment_not_present \<Rightarrow> Inl (ExplicitPanic ''Unrecoverable fault occured, halting!'')
      | invalid_opcode \<Rightarrow> Inr (True, log_message LogError ''Exception: Invalid Opcode'' [] s)
      | page_fault \<Rightarrow> and_then (handle_page_fault env (fault_code fr) (fault_address fr) s) (\<lambda>s. Inr (True, s))
      | general_protection_fault \<Rightarrow> Inr (True, handle_general_protection_fault (fault_code fr) s)
      | double_fault \<Rightarrow> Inl (ExplicitPanic ''Unrecoverable fault occured, halting!'')
      | default_irq k \<Rightarrow> Inr (False, s\<lparr>world := irq_handler s k (world s)\<rparr>)
      | timer \<Rightarrow>
          and_then (timer_handler env (frame_memory fr) (saved_at fr) (kernel s) (world s)) (\<lambda>(address, k, w).
          Inr (False, s\<lparr>kernel := k, world := w, resume_at := Some address\<rparr>))
      | lapic_error \<Rightarrow>
          and_then (eoi env (log_message LogError ''Local APIC error!'' [] s)) (\<lambda>s. Inr (False, s))
      | spurious_interrupt \<Rightarrow>
          and_then (eoi env (log_message LogDebug ''Received spurious interrupt!'' [] s)) (\<lambda>s. Inr (False, s))
      | keyboard_interrupt \<Rightarrow> and_then (handle_keyboard env s) (\<lambda>s. Inr (False, s))
      | mouse_interrupt \<Rightarrow> and_then (handle_mouse env s) (\<lambda>s. Inr (False, s)))"

definition interrupt ::
  "('q, 'l, 'i, 'r, 'w) irq_env \<Rightarrow> nat \<Rightarrow> irq_frame \<Rightarrow> ('q, 'w) irq_state \<Rightarrow>
   (bool \<times> ('q, 'w) irq_state) result option" where
  "interrupt env vec fr s =
     map_option (\<lambda>e. run_handler env fr (entry_handler e) s) (IDT vec)"

section \<open>The table\<close>

lemma handler10_lookup:
  "interrupt_handler10 k idt v =
     (if 10 * k + 32 \<le> v \<and> v < 10 * k + 42 then Some \<lparr>entry_handler = default_irq (10 * k), stack_index = None\<rparr> else idt v)"
proof -
  have "fold (\<lambda>i. set_handler_fn (k * 10 + i + 32) h) [0..<n] idt v =
      (if 10 * k + 32 \<le> v \<and> v < 10 * k + 32 + n then Some \<lparr>entry_handler = h, stack_index = None\<rparr> else idt v)" for h n
    by (induction n) (auto simp: set_handler_fn_def)
  then show ?thesis by (simp add: interrupt_handler10_def INTERRUPT_INDEX_OFFSET_def mult.commute)
qed

lemma handlers10_lookup:
  "fold interrupt_handler10 [0..<n] idt v =
     (if 32 \<le> v \<and> v < 32 + 10 * n
      then Some \<lparr>entry_handler = default_irq (10 * ((v - 32) div 10)), stack_index = None\<rparr> else idt v)"
proof (induction n)
  case (Suc n)
  have "(v - 32) div 10 = n" if "10 * n + 32 \<le> v" "v < 10 * n + 42" using that by (intro div_nat_eqI) auto
  with Suc show ?case by (auto simp: handler10_lookup)
qed auto

lemma IDT_lookup:
  "IDT v =
     (if v = 8 then Some \<lparr>entry_handler = double_fault, stack_index = Some 0\<rparr>
      else map_option (\<lambda>h. \<lparr>entry_handler = h, stack_index = None\<rparr>)
        (if v = 3 then Some breakpoint else if v = 6 then Some invalid_opcode else if v = 11 then Some segment_not_present
         else if v = 13 then Some general_protection_fault else if v = 14 then Some page_fault
         else if v = 32 then Some timer else if v = 33 then Some lapic_error else if v = 34 then Some spurious_interrupt
         else if v = 35 then Some keyboard_interrupt else if v = 36 then Some mouse_interrupt
         else if 37 \<le> v \<and> v < 252 then Some (default_irq (10 * ((v - 32) div 10))) else None))"
  by (simp add: IDT_def Let_def set_stack_index_def set_handler_fn_def handlers10_lookup INTERRUPT_INDEX_OFFSET_def
      DOUBLE_FAULT_IST_INDEX_def)

text \<open>
  The table has a handler for the breakpoint, invalid opcode, double fault, segment-not-present,
  general protection and page faults and for every vector from 32 to 251, and for no other; the
  double fault alone switches to an interrupt stack; the timer, the APIC's errors and spurious
  interrupts, the keyboard and the mouse have their own handlers.  Every other device vector calls the
  registered handler with the number of the first vector of its group of ten, so the handler
  cannot tell the ten apart.
\<close>

theorem idt_dispatch:
  "(\<forall>v. (IDT v = None) = (v \<notin> {3, 6, 8, 11, 13, 14} \<and> v \<notin> {32..251})) \<and>
   (\<forall>v e. (IDT v = Some e \<and> stack_index e \<noteq> None) = (v = 8 \<and> e = \<lparr>entry_handler = double_fault, stack_index = Some 0\<rparr>)) \<and>
   map (\<lambda>i. map_option entry_handler (IDT (unat (interrupt_index i))))
     [TimerIndex, ApicErrorIndex, ApicSpuriousIndex, KeyboardIndex, MouseIndex] =
   map Some [timer, lapic_error, spurious_interrupt, keyboard_interrupt, mouse_interrupt] \<and>
   (\<forall>n < 215. interrupt env (37 + n) fr s = Some (Inr (False, s\<lparr>world := irq_handler s (10 * ((n + 5) div 10)) (world s)\<rparr>)))"
proof (intro conjI allI impI)
  fix n :: nat assume "n < 215"
  then show "interrupt env (37 + n) fr s = Some (Inr (False, s\<lparr>world := irq_handler s (10 * ((n + 5) div 10)) (world s)\<rparr>))"
    by (simp add: interrupt_def IDT_lookup run_handler_def add.commute)
qed (auto simp: IDT_lookup INTERRUPT_INDEX_OFFSET_def)

text \<open>A queue as a capacity and a list, and a machine with a single data port.\<close>

definition list_queue :: "(nat \<times> 'a list, 'a) array_queue_api" where
  "list_queue = \<lparr>aq_new = (\<lambda>n. (n, [])),
     aq_push = (\<lambda>(n, xs) a. if length xs < n then (Inr (), (n, xs @ [a])) else (Inl a, (n, xs))),
     aq_pop = (\<lambda>(n, xs). case xs of [] \<Rightarrow> (None, (n, [])) | a # as \<Rightarrow> (Some a, (n, as))),
     aq_is_empty = (\<lambda>(n, xs). xs = [])\<rparr>"

record bench_world =
  port60 :: u8
  eois :: nat
  calls :: "nat list"
  lines :: "u8 \<Rightarrow> (u8 \<times> u8 \<times> bool)"

definition bench_ports :: "bench_world byte_ports" where
  "bench_ports = \<lparr>out8 = (\<lambda>p v w. w), in8 = (\<lambda>p w. (port60 w, w))\<rparr>"

definition bench_lapic :: "(unit, unit, u8 \<times> u8 \<times> bool, bench_world) apic_api" where
  "bench_lapic = \<lparr>lapic_build = (\<lambda>_. Inr ()), lapic_end_of_interrupt = (\<lambda>_ w. w\<lparr>eois := eois w + 1\<rparr>), lapic_id = (\<lambda>_ _. 0),
     set_timer_initial = (\<lambda>_ v w. w), set_timer_mode = (\<lambda>_ m w. w), timer_current = (\<lambda>_ w. (0, w)),
     ioapic_new = (\<lambda>_. ()), ioapic_setup = (\<lambda>_ b w. w\<lparr>lines := (\<lambda>i. (i + b, 0, False))\<rparr>),
     ioapic_set_table_entry = (\<lambda>_ i r w. w\<lparr>lines := (lines w)(i := r)\<rparr>),
     ioapic_enable_irq = (\<lambda>_ i w. w\<lparr>lines := (lines w)(i := (fst (lines w i), fst (snd (lines w i)), True))\<rparr>),
     entry_default = (0, 0, False), entry_set_mode = (\<lambda>_ r. r), entry_set_dest = (\<lambda>d (v, _, e). (v, d, e)),
     entry_set_vector = (\<lambda>v (_, d, e). (v, d, e))\<rparr>"

definition bench_env :: "(nat \<times> u8 list, unit, unit, u8 \<times> u8 \<times> bool, bench_world) irq_env" where
  "bench_env = \<lparr>env_apic = bench_lapic, env_ports = bench_ports, env_queue = list_queue, env_x86 = x86_model, env_offset = 0,
     env_acpi = Some \<lparr>local_apic_address = 0xfee00000, io_apics = [0xfec00000]\<rparr>, env_context_addr = (\<lambda>t. of_nat t * 256)\<rparr>"

definition bench_irq_state :: "(nat \<times> u8 list, bench_world) irq_state" where
  "bench_irq_state = \<lparr>scancodes = scancode_queue list_queue, mouse = mouse_new, mouse_reports = [],
     irq_handler = (\<lambda>i w. w\<lparr>calls := calls w @ [i]\<rparr>), messages = [], kernel = demo_kernel, resume_at = None,
     world = \<lparr>port60 = 0, eois = 0, calls = [], lines = (\<lambda>_. (0, 0, False))\<rparr>\<rparr>"

definition bench_frame :: irq_frame where
  "bench_frame = \<lparr>fault_code = 0, fault_address = Inr 0, saved_at = 0, frame_memory = (\<lambda>_. 0)\<rparr>"

theorem idt_dispatch_witness:
  "map_option (map_sum id (\<lambda>(h, s). calls (world s))) (interrupt bench_env 49 bench_frame bench_irq_state) = Some (Inr [10])"
  using idt_dispatch [of bench_env bench_frame bench_irq_state]
  by (auto dest!: spec [of _ "12 :: nat"] simp: bench_irq_state_def)

section \<open>The keyboard as a bounded queue\<close>

locale array_queue =
  fixes aq :: "('q, 'a) array_queue_api" and contents :: "'q \<Rightarrow> 'a list" and bound :: "'q \<Rightarrow> nat"
  assumes new: "0 < n \<Longrightarrow> contents (aq_new aq n) = [] \<and> bound (aq_new aq n) = n"
    and push_room: "length (contents q) < bound q \<Longrightarrow>
      \<exists>q'. aq_push aq q a = (Inr (), q') \<and> contents q' = contents q @ [a] \<and> bound q' = bound q"
    and push_full: "length (contents q) = bound q \<Longrightarrow>
      \<exists>q'. aq_push aq q a = (Inl a, q') \<and> contents q' = contents q \<and> bound q' = bound q"
    and pop_some: "contents q = a # as \<Longrightarrow> \<exists>q'. aq_pop aq q = (Some a, q') \<and> contents q' = as \<and> bound q' = bound q"
    and pop_none: "contents q = [] \<Longrightarrow> \<exists>q'. aq_pop aq q = (None, q') \<and> contents q' = [] \<and> bound q' = bound q"
    and is_empty: "aq_is_empty aq q = (contents q = [])"

interpretation list_queue: array_queue list_queue snd fst
  by unfold_locales (auto simp: list_queue_def)

text \<open>Keys pressed and codes read, in any order; \<open>press\<close> puts a code into the keyboard's data port.\<close>

datatype key_event = Press u8 | Read

fun keyboard_run ::
  "('q, 'l, 'i, 'r, 'w) irq_env \<Rightarrow> (u8 \<Rightarrow> 'w \<Rightarrow> 'w) \<Rightarrow> irq_frame \<Rightarrow> key_event list \<Rightarrow> ('q, 'w) irq_state \<Rightarrow>
   (u8 option list \<times> ('q, 'w) irq_state) result option" where
  "keyboard_run env press fr [] s = Some (Inr ([], s))"
| "keyboard_run env press fr (Press c # es) s =
     out_then (interrupt env (unat (interrupt_index KeyboardIndex)) fr (s\<lparr>world := press c (world s)\<rparr>)) (\<lambda>(_, s).
     keyboard_run env press fr es s)"
| "keyboard_run env press fr (Read # es) s =
     (let (r, q) = get_scancode (env_queue env) (scancodes s) in
      out_then (keyboard_run env press fr es (s\<lparr>scancodes := q\<rparr>)) (\<lambda>(rs, s). Some (Inr (r # rs, s))))"

text \<open>The specification: a queue of at most \<open>n\<close> codes that drops what does not fit.\<close>

fun fifo_run :: "nat \<Rightarrow> key_event list \<Rightarrow> u8 list \<Rightarrow> u8 option list \<times> u8 list" where
  "fifo_run n [] buf = ([], buf)"
| "fifo_run n (Press c # es) buf = fifo_run n es (if length buf < n then buf @ [c] else buf)"
| "fifo_run n (Read # es) buf =
     (case buf of
        [] \<Rightarrow> apfst (Cons None) (fifo_run n es [])
      | c # cs \<Rightarrow> apfst (Cons (Some c)) (fifo_run n es cs))"

fun presses :: "key_event list \<Rightarrow> nat" where
  "presses [] = 0"
| "presses (Press _ # es) = Suc (presses es)"
| "presses (Read # es) = presses es"

text \<open>
  The hardware as the handlers use it: the local APIC builds and counts acknowledgements, the
  data port returns the code of the last key, and neither disturbs the other.
\<close>

locale keyboard_machine = array_queue "env_queue env" contents bound
  for env :: "('q, 'l, 'i, 'r, 'w) irq_env" and contents :: "'q \<Rightarrow> u8 list" and bound :: "'q \<Rightarrow> nat" +
  fixes press :: "u8 \<Rightarrow> 'w \<Rightarrow> 'w" and acks :: "'w \<Rightarrow> nat" and l :: 'l
  assumes lapic: "get_lapic (env_apic env) (env_x86 env) (env_offset env) (env_acpi env) = Inr l"
    and data: "fst (in8 (env_ports env) 0x60 (press c w)) = c"
    and acks_press: "acks (press c w) = acks w" and acks_read: "acks (snd (in8 (env_ports env) p w)) = acks w"
    and acks_eoi: "acks (lapic_end_of_interrupt (env_apic env) l w) = Suc (acks w)"
begin

lemma keyboard_interrupt_step:
  assumes "length (contents (scancodes s)) \<le> bound (scancodes s)"
  obtains s' where "interrupt env (unat (interrupt_index KeyboardIndex)) fr (s\<lparr>world := press c (world s)\<rparr>) = Some (Inr (False, s'))"
    "contents (scancodes s') =
       (if length (contents (scancodes s)) < bound (scancodes s) then contents (scancodes s) @ [c] else contents (scancodes s))"
    "bound (scancodes s') = bound (scancodes s)" "acks (world s') = Suc (acks (world s))"
proof -
  obtain b w1 where in8: "in8 (env_ports env) 0x60 (press c (world s)) = (c, w1)" "acks w1 = acks (world s)"
    using data [of c "world s"] acks_read [of "0x60" "press c (world s)"] acks_press [of c "world s"]
    by (cases "in8 (env_ports env) 0x60 (press c (world s))") auto
  have irq: "interrupt env (unat (interrupt_index KeyboardIndex)) fr t =
      Some (and_then (handle_keyboard env t) (\<lambda>s. Inr (False, s)))" for t
    by (simp add: interrupt_def IDT_lookup INTERRUPT_INDEX_OFFSET_def run_handler_def)
  consider (room) "length (contents (scancodes s)) < bound (scancodes s)" | (full) "length (contents (scancodes s)) = bound (scancodes s)"
    using assms by linarith
  then show thesis
  proof cases
    case room
    obtain q where "aq_push (env_queue env) (scancodes s) c = (Inr (), q)" "contents q = contents (scancodes s) @ [c]"
      "bound q = bound (scancodes s)" using push_room [OF room, of c] by (elim exE conjE)
    then show thesis
      using room in8 that irq lapic acks_eoi
      by (simp add: handle_keyboard_def add_scancode_def eoi_def end_of_interrupt_def)
  next
    case full
    obtain q where "aq_push (env_queue env) (scancodes s) c = (Inl c, q)" "contents q = contents (scancodes s)"
      "bound q = bound (scancodes s)" using push_full [OF full, of c] by (elim exE conjE)
    then show thesis
      using full in8 that irq lapic acks_eoi
      by (simp add: handle_keyboard_def add_scancode_def eoi_def end_of_interrupt_def log_message_def)
  qed
qed

lemma keyboard_refines:
  assumes "length (contents (scancodes s)) \<le> bound (scancodes s)"
  shows "\<exists>s'. keyboard_run env press fr es s = Some (Inr (fst (fifo_run (bound (scancodes s)) es (contents (scancodes s))), s')) \<and>
    contents (scancodes s') = snd (fifo_run (bound (scancodes s)) es (contents (scancodes s))) \<and>
    acks (world s') = acks (world s) + presses es"
  using assms
proof (induction es arbitrary: s)
  case Nil
  then show ?case by simp
next
  case (Cons e es)
  show ?case
  proof (cases e)
    case (Press c)
    obtain s1 where s1: "interrupt env (unat (interrupt_index KeyboardIndex)) fr (s\<lparr>world := press c (world s)\<rparr>) = Some (Inr (False, s1))"
      "contents (scancodes s1) =
         (if length (contents (scancodes s)) < bound (scancodes s) then contents (scancodes s) @ [c] else contents (scancodes s))"
      "bound (scancodes s1) = bound (scancodes s)" "acks (world s1) = Suc (acks (world s))"
      using keyboard_interrupt_step [OF Cons.prems] .
    have "length (contents (scancodes s1)) \<le> bound (scancodes s1)" using s1(2,3) Cons.prems by auto
    from Cons.IH [OF this] show ?thesis using s1 Press by (auto simp del: interrupt_index.simps)
  next
    case Read
    obtain r q where q: "aq_pop (env_queue env) (scancodes s) = (r, q)" "bound q = bound (scancodes s)"
      "contents (scancodes s) = (case r of None \<Rightarrow> [] | Some c \<Rightarrow> c # contents q)" "r = None \<Longrightarrow> contents q = []"
    proof (cases "contents (scancodes s)")
      case Nil
      then show thesis using pop_none [OF Nil] that by (elim exE conjE) auto
    next
      case (Cons c cs)
      then show thesis using pop_some [OF Cons] that by (elim exE conjE) auto
    qed
    have "length (contents (scancodes (s\<lparr>scancodes := q\<rparr>))) \<le> bound (scancodes (s\<lparr>scancodes := q\<rparr>))"
      using Cons.prems q by (cases r) auto
    from Cons.IH [OF this] show ?thesis using q Read by (cases r) (auto simp: get_scancode_def)
  qed
qed

end

interpretation bench: keyboard_machine bench_env snd fst "\<lambda>c w. w\<lparr>port60 := c\<rparr>" eois "()"
  by unfold_locales (auto simp: bench_env_def bench_ports_def bench_lapic_def list_queue_def get_lapic_def get_lapic_addr_def
      x86_model_def convert_physical_to_virtual_def usize_add_def usize_max_def canonical_def)

text \<open>
  C24. From an empty buffer, any sequence of key presses and reads behaves as a first-in first-out
  queue of 128 codes that drops the codes pressed while it is full; every key press is
  acknowledged exactly once.
\<close>

theorem keyboard_fifo:
  assumes "keyboard_machine env contents bound press acks l" and "scancodes s = scancode_queue (env_queue env)"
  shows "\<exists>s'. keyboard_run env press fr es s = Some (Inr (fst (fifo_run 128 es []), s')) \<and>
    contents (scancodes s') = snd (fifo_run 128 es []) \<and> acks (world s') = acks (world s) + presses es"
proof -
  have "contents (scancodes s) = [] \<and> bound (scancodes s) = 128"
    using array_queue.new [OF keyboard_machine.axioms(1) [OF assms(1)], of 128] assms(2)
    by (simp add: scancode_queue_def SCANCODE_QUEUE_SIZE_def)
  with keyboard_machine.keyboard_refines [OF assms(1), of s fr es] show ?thesis by simp
qed

theorem keyboard_fifo_witness:
  "\<exists>s'. keyboard_run bench_env (\<lambda>c w. w\<lparr>port60 := c\<rparr>) bench_frame [Press 30, Press 48, Read, Press 46, Read, Read, Read] bench_irq_state =
      Some (Inr ([Some 30, Some 48, Some 46, None], s')) \<and> eois (world s') = 3"
proof -
  let ?es = "[Press 30, Press 48, Read, Press 46, Read, Read, Read]"
  have "scancodes bench_irq_state = scancode_queue (env_queue bench_env)" "eois (world bench_irq_state) = 0"
    by (simp_all add: bench_irq_state_def bench_env_def)
  moreover have "fst (fifo_run 128 ?es []) = [Some 30, Some 48, Some 46, None]" "presses ?es = 3" by simp_all
  ultimately show ?thesis
    using keyboard_fifo [OF bench.keyboard_machine_axioms, of bench_irq_state bench_frame ?es] by (metis add_0)
qed

section \<open>Routing of the device lines\<close>

text \<open>
  What the I/O APIC promises: a line's vector, destination and enable bit.  Setting it up
  disables every line.
\<close>

locale ioapic_lines =
  fixes api :: "('l, 'i, 'r, 'w) apic_api" and line_vector line_dest :: "'i \<Rightarrow> 'w \<Rightarrow> u8 \<Rightarrow> u8" and line_on :: "'i \<Rightarrow> 'w \<Rightarrow> u8 \<Rightarrow> bool"
    and vector_of dest_of :: "'r \<Rightarrow> u8"
  assumes all_off: "\<not> line_on io (ioapic_setup api io b w) j"
    and set_entry: "line_vector io (ioapic_set_table_entry api io i r w) j = (if j = i then vector_of r else line_vector io w j)"
      "line_dest io (ioapic_set_table_entry api io i r w) j = (if j = i then dest_of r else line_dest io w j)"
      "j \<noteq> i \<Longrightarrow> line_on io (ioapic_set_table_entry api io i r w) j = line_on io w j"
    and enable: "line_vector io (ioapic_enable_irq api io i w) j = line_vector io w j"
      "line_dest io (ioapic_enable_irq api io i w) j = line_dest io w j"
      "line_on io (ioapic_enable_irq api io i w) j = (j = i \<or> line_on io w j)"
    and entry: "vector_of (entry_set_vector api v r) = v" "dest_of (entry_set_vector api v r) = dest_of r"
      "dest_of (entry_set_dest api d r) = d"
    and id: "lapic_id api l (ioapic_set_table_entry api io i r w) = lapic_id api l w"
      "lapic_id api l (ioapic_enable_irq api io i w) = lapic_id api l w"
begin

lemma add_entry:
  assumes "get_lapic api x offset acpi = Inr l"
  obtains w' where "ioapic_add_entry api x offset acpi (Some io) irq vec w = Inr w'"
    "line_vector io w' = (line_vector io w)(irq_vector irq := interrupt_index vec)"
    "line_dest io w' = (line_dest io w)(irq_vector irq := ucast (lapic_id api l w))"
    "line_on io w' = (line_on io w)(irq_vector irq := True)" "lapic_id api l w' = lapic_id api l w"
proof -
  let ?e = "entry_set_vector api (interrupt_index vec) (entry_set_dest api (ucast (lapic_id api l w)) (entry_set_mode api Fixed (entry_default api)))"
  let ?w = "ioapic_enable_irq api io (irq_vector irq) (ioapic_set_table_entry api io (irq_vector irq) ?e w)"
  show thesis
    by (rule that [of ?w]) (auto simp: fun_eq_iff ioapic_add_entry_def assms set_entry enable entry id Let_def)
qed

lemma routed:
  assumes "get_lapic api x offset (Some info) = Inr l" and "io_apics info \<noteq> []"
    and "phys_addr_new x (hd (io_apics info)) = Inr pa" and "convert_physical_to_virtual x offset pa = Inr va"
  shows "\<exists>w'. apic_init api ports x offset (Some info) None w = Inr (Some (ioapic_new api va), w') \<and>
    (\<forall>j. line_on (ioapic_new api va) w' j = (j = 1 \<or> j = 12)) \<and>
    line_vector (ioapic_new api va) w' 1 = 35 \<and> line_vector (ioapic_new api va) w' 12 = 36 \<and>
    line_dest (ioapic_new api va) w' 1 = ucast (lapic_id api l w') \<and> line_dest (ioapic_new api va) w' 12 = ucast (lapic_id api l w')"
proof -
  let ?io = "ioapic_new api va" and ?w = "ioapic_setup api (ioapic_new api va) IOAPIC_INTERRUPT_INDEX_OFFSET (disable_pic ports w)"
  obtain w1 where 1: "ioapic_add_entry api x offset (Some info) (Some ?io) KeyboardIrq KeyboardIndex ?w = Inr w1"
    "line_vector ?io w1 = (line_vector ?io ?w)(irq_vector KeyboardIrq := interrupt_index KeyboardIndex)"
    "line_dest ?io w1 = (line_dest ?io ?w)(irq_vector KeyboardIrq := ucast (lapic_id api l ?w))"
    "line_on ?io w1 = (line_on ?io ?w)(irq_vector KeyboardIrq := True)" "lapic_id api l w1 = lapic_id api l ?w"
    using add_entry [OF assms(1)] .
  obtain w2 where 2: "ioapic_add_entry api x offset (Some info) (Some ?io) MouseIrq MouseIndex w1 = Inr w2"
    "line_vector ?io w2 = (line_vector ?io w1)(irq_vector MouseIrq := interrupt_index MouseIndex)"
    "line_dest ?io w2 = (line_dest ?io w1)(irq_vector MouseIrq := ucast (lapic_id api l w1))"
    "line_on ?io w2 = (line_on ?io w1)(irq_vector MouseIrq := True)" "lapic_id api l w2 = lapic_id api l w1"
    using add_entry [OF assms(1)] .
  have "apic_init api ports x offset (Some info) None w = Inr (Some ?io, w2)"
    using assms(2-4) 1(1) 2(1) by (simp add: apic_init_def init_ioapic_def index_def hd_conv_nth)
  moreover have "\<not> line_on ?io ?w j" for j by (rule all_off)
  ultimately show ?thesis using 1 2 by (simp add: INTERRUPT_INDEX_OFFSET_def)
qed

end

interpretation bench_lines: ioapic_lines bench_lapic "\<lambda>_ w i. fst (lines w i)" "\<lambda>_ w i. fst (snd (lines w i))"
  "\<lambda>_ w i. snd (snd (lines w i))" fst "\<lambda>r. fst (snd r)"
  by unfold_locales (auto simp: bench_lapic_def)

text \<open>
  C25. After \<open>apic::init\<close> exactly the lines of the keyboard and the mouse are enabled; both go to the
  processor that ran it, and the vectors they raise have the keyboard and the mouse handler in the
  descriptor table.
\<close>

theorem device_lines_routed:
  assumes "ioapic_lines api line_vector line_dest line_on vector_of dest_of"
    and "get_lapic api x offset (Some info) = Inr l" and "io_apics info \<noteq> []"
    and "phys_addr_new x (hd (io_apics info)) = Inr pa" and "convert_physical_to_virtual x offset pa = Inr va"
  shows "\<exists>io w'. apic_init api ports x offset (Some info) None w = Inr (Some io, w') \<and>
    (\<forall>j. line_on io w' j = (j = irq_vector KeyboardIrq \<or> j = irq_vector MouseIrq)) \<and>
    (\<forall>j. line_on io w' j \<longrightarrow> line_dest io w' j = ucast (lapic_id api l w')) \<and>
    map_option entry_handler (IDT (unat (line_vector io w' (irq_vector KeyboardIrq)))) = Some keyboard_interrupt \<and>
    map_option entry_handler (IDT (unat (line_vector io w' (irq_vector MouseIrq)))) = Some mouse_interrupt"
proof -
  from ioapic_lines.routed [OF assms, of ports w] obtain w' where
    r: "apic_init api ports x offset (Some info) None w = Inr (Some (ioapic_new api va), w')"
    "\<forall>j. line_on (ioapic_new api va) w' j = (j = 1 \<or> j = 12)" "line_vector (ioapic_new api va) w' 1 = 35"
    "line_vector (ioapic_new api va) w' 12 = 36" "line_dest (ioapic_new api va) w' 1 = ucast (lapic_id api l w')"
    "line_dest (ioapic_new api va) w' 12 = ucast (lapic_id api l w')" by blast
  then show ?thesis by (intro exI [of _ "ioapic_new api va"] exI [of _ w']) (auto simp: IDT_lookup)
qed

theorem device_lines_routed_witness:
  "\<exists>w'. apic_init bench_lapic bench_ports x86_model 0 (Some \<lparr>local_apic_address = 0xfee00000, io_apics = [0xfec00000]\<rparr>) None
      (world bench_irq_state) = Inr (Some (), w') \<and> snd (snd (lines w' 12)) \<and> \<not> snd (snd (lines w' 4))"
  using device_lines_routed [OF bench_lines.ioapic_lines_axioms, of x86_model 0
      "\<lparr>local_apic_address = 0xfee00000, io_apics = [0xfec00000]\<rparr>" "()" "0xfec00000" "0xfec00000" bench_ports "world bench_irq_state"]
  by (auto simp: get_lapic_def get_lapic_addr_def bench_lapic_def x86_model_def convert_physical_to_virtual_def
      usize_add_def usize_max_def canonical_def)

section \<open>Preemption\<close>

text \<open>The saved contexts of the threads, at their places in memory.\<close>

definition contexts_stored :: "(nat \<Rightarrow> u64) \<Rightarrow> Kernel \<Rightarrow> (u64 \<Rightarrow> u64) \<Rightarrow> bool" where
  "contexts_stored ca k m \<longleftrightarrow> (\<forall>t th. threads k t = Some th \<longrightarrow> from_address m (ca t) = thread_context th)"

text \<open>
  C12. A timer interrupt preempts: with a handler call \<open>h\<close> that behaves as \<open>timer_handler\<close> and leaves
  the threads' contexts in memory, the interrupt is acknowledged, the registers of the
  interrupted code are saved in the thread that was running, and the processor continues with
  exactly the saved registers of the next thread of the queue; without a queued thread it
  continues the interrupted code.
\<close>

theorem timer_preempts:
  assumes "live k" and "current_threads (sched k) c = Some cur" and "threads k cur = Some t"
    and "n = next_of cur (ready_threads (sched k))" and "threads k n = Some u"
    and "end_of_interrupt (env_apic env) (env_x86 env) (env_offset env) (env_acpi env) w = Inr w1"
    and "get_lapic_id (env_apic env) (env_x86 env) (env_offset env) (env_acpi env) w1 = Inr c"
    and call: "\<forall>e a k' w'. timer_handler env (memory e) (gpr e RDI) k w = Inr (a, k', w') \<longrightarrow>
      gpr (h e) RAX = a \<and> contexts_stored (env_context_addr env) k' (memory (h e))"
  shows "\<exists>k'. timer_handler env (memory (exec ([Cli] @ push_context @ [MovFromRsp RDI]) (deliver stk s))) (stk - 168) k w =
      Inr (env_context_addr env n, k', w1) \<and>
    threads k' = (threads k)(cur \<mapsto> t\<lparr>thread_context := context_of s\<rparr>) \<and> current_threads (sched k') c = Some n \<and>
    context_of (timer_interrupt h (deliver stk s)) = (if n = cur then context_of s else thread_context u)"
proof -
  define e where "e = exec ([Cli] @ push_context @ [MovFromRsp RDI]) (deliver stk s)"
  have e: "gpr e RDI = stk - 168" "from_address (memory e) (stk - 168) = context_of s"
    using saved_context [of stk s] by (simp_all add: e_def)
  from schedule_effect [OF assms(1-3), of "env_context_addr env" "context_of s"] obtain k' where
    k': "schedule (env_context_addr env) c (context_of s) k = Inr (env_context_addr env n, k')"
    "current_threads (sched k') = (current_threads (sched k))(c \<mapsto> n)"
    "threads k' = (threads k)(cur \<mapsto> t\<lparr>thread_context := context_of s\<rparr>)" unfolding assms(4) by (elim exE conjE)
  have th: "timer_handler env (memory e) (stk - 168) k w = Inr (env_context_addr env n, k', w1)"
    by (simp add: timer_handler_def assms(6,7) e(2) k'(1))
  then have rax: "gpr (h e) RAX = env_context_addr env n"
    and stored: "contexts_stored (env_context_addr env) k' (memory (h e))"
    using call [rule_format, of e] e(1) by simp_all
  have "context_of (timer_interrupt h (deliver stk s)) = from_address (memory (h e)) (env_context_addr env n)"
    by (simp only: timer_interrupt_def restored_context e_def [symmetric] rax)
  also have "\<dots> = (if n = cur then context_of s else thread_context u)"
    using stored k'(3) assms(5) unfolding contexts_stored_def by simp
  finally show ?thesis using th k'(2,3) by (intro exI [of _ k']) (simp add: e_def)
qed

text \<open>A memory that holds the contexts of the threads 256 bytes apart.\<close>

definition context_field :: "Context \<Rightarrow> nat \<Rightarrow> u64" where
  "context_field c i = [c_cr3 c, c_r15 c, c_r14 c, c_r13 c, c_r12 c, c_r11 c, c_r10 c, c_r9 c, c_r8 c, c_rbp c, c_rsi c,
     c_rdi c, c_rdx c, c_rcx c, c_rbx c, c_rax c, c_rip c, c_cs c, c_rflags c, c_rsp c, c_ss c] ! i"

definition thread_image :: "Kernel \<Rightarrow> u64 \<Rightarrow> u64" where
  "thread_image k a = (case threads k (unat a div 256) of None \<Rightarrow> 0 | Some th \<Rightarrow> context_field (thread_context th) (unat a mod 256 div 8))"

definition bench_call :: "cpu \<Rightarrow> cpu" where
  "bench_call e = (case timer_handler bench_env (memory e) (gpr e RDI) demo_kernel (world bench_irq_state) of
       Inl _ \<Rightarrow> e
     | Inr (a, k', _) \<Rightarrow> e\<lparr>gpr := (gpr e)(RAX := a), memory := thread_image k'\<rparr>)"

lemma thread_image_stored:
  assumes "threads k t = Some th" and "t < 2 ^ 50"
  shows "from_address (thread_image k) (of_nat t * 256) = thread_context th"
proof -
  have u: "unat (of_nat t * 256 + of_nat i :: u64) = t * 256 + i" if "i < 256" for i
  proof -
    have "of_nat t * 256 + of_nat i = (of_nat (t * 256 + i) :: u64)" by simp
    with that assms(2) show ?thesis by (simp only:) (rule unat_of_nat_small, simp)
  qed
  have f: "thread_image k (of_nat t * 256 + of_nat (8 * i)) = context_field (thread_context th) i" if "i < 32" for i
    using u [of "8 * i"] that assms(1) by (simp only: thread_image_def) simp
  show ?thesis
    using f [of 0] f [of 1] f [of 2] f [of 3] f [of 4] f [of 5] f [of 6] f [of 7] f [of 8] f [of 9] f [of 10] f [of 11]
      f [of 12] f [of 13] f [of 14] f [of 15] f [of 16] f [of 17] f [of 18] f [of 19] f [of 20]
    by (simp add: from_address_def context_field_def)
qed

lemma bench_call_stores:
  assumes "timer_handler bench_env (memory e) (gpr e RDI) demo_kernel (world bench_irq_state) = Inr (a, k', w')"
  shows "gpr (bench_call e) RAX = a \<and> contexts_stored (env_context_addr bench_env) k' (memory (bench_call e))"
proof -
  have cur: "current_threads (sched demo_kernel) 0 = Some 10" "threads demo_kernel 10 = Some (demo_thread 0)"
    by (simp_all add: demo_kernel_def)
  have i: "get_lapic_id (env_apic bench_env) (env_x86 bench_env) (env_offset bench_env) (env_acpi bench_env) w = Inr 0" for w
    by (simp add: get_lapic_id_def bench.lapic) (simp add: bench_env_def bench_lapic_def)
  have "schedule (env_context_addr bench_env) 0 (from_address (memory e) (gpr e RDI)) demo_kernel = Inr (a, k')"
    using assms by (auto simp: timer_handler_def i result_simps)
  with schedule_effect [OF demo_kernel_live cur, of "env_context_addr bench_env" "from_address (memory e) (gpr e RDI)"]
  have "threads k' = (threads demo_kernel)(10 \<mapsto> (demo_thread 0)\<lparr>thread_context := from_address (memory e) (gpr e RDI)\<rparr>)"
    by auto
  then have "dom (threads k') = {10, 11, 12}" by (auto simp: demo_kernel_def)
  then have small: "t < 2 ^ 50" if "threads k' t = Some th" for t th
  proof -
    from that have "t \<in> dom (threads k')" by blast
    then show ?thesis unfolding \<open>dom (threads k') = {10, 11, 12}\<close> by auto
  qed
  have ca: "env_context_addr bench_env t = of_nat t * 256" for t by (simp add: bench_env_def)
  show ?thesis
    unfolding contexts_stored_def ca using thread_image_stored [OF _ small] by (simp add: bench_call_def assms)
qed

definition running_cpu :: cpu where
  "running_cpu = \<lparr>gpr = (\<lambda>_. 7), cpu_rsp = 0x4000, cpu_cr3 = 0x1000, cpu_rip = 0x400000,
     cpu_cs = 0x23, cpu_rflags = 0x202, cpu_ss = 0x1B, interrupts_on = True, memory = (\<lambda>_. 0)\<rparr>"

theorem timer_preempts_witness:
  "context_of (timer_interrupt bench_call (deliver 0x8000 running_cpu)) = thread_context (demo_thread 1)"
proof -
  have eoi: "end_of_interrupt (env_apic bench_env) (env_x86 bench_env) (env_offset bench_env) (env_acpi bench_env) w =
      Inr (lapic_end_of_interrupt (env_apic bench_env) () w)" for w by (simp add: end_of_interrupt_def bench.lapic)
  have i: "get_lapic_id (env_apic bench_env) (env_x86 bench_env) (env_offset bench_env) (env_acpi bench_env) w = Inr 0" for w
    by (simp add: get_lapic_id_def bench.lapic) (simp add: bench_env_def bench_lapic_def)
  have k: "current_threads (sched demo_kernel) 0 = Some 10" "threads demo_kernel 10 = Some (demo_thread 0)"
    "11 = next_of 10 (ready_threads (sched demo_kernel))" "threads demo_kernel 11 = Some (demo_thread 1)"
    by (simp_all add: demo_kernel_def next_of_def)
  have call: "\<forall>e a k' w'. timer_handler bench_env (memory e) (gpr e RDI) demo_kernel (world bench_irq_state) = Inr (a, k', w') \<longrightarrow>
      gpr (bench_call e) RAX = a \<and> contexts_stored (env_context_addr bench_env) k' (memory (bench_call e))"
    using bench_call_stores by blast
  from timer_preempts [where h = bench_call and stk = "0x8000" and s = running_cpu and w = "world bench_irq_state",
      OF demo_kernel_live k eoi i call]
  show ?thesis by auto
qed

end
