(* ===== verification/Processors.thy ===== *)
theory Processors
  imports Sched Address
begin

text \<open>
  The processors: segments and task state (\<open>arch/gdt.rs\<close>), the table of processors and the start of
  the application processors (\<open>arch/smp.rs\<close>), and the system call registers and dispatch
  (\<open>user/syscall.rs\<close>).

  The descriptor table and the model specific registers belong to the \<open>x86_64\<close> crate: the
  parameter records \<open>gdt_api\<close> and \<open>msr_api\<close>.  The processor data extends the record of the scheduler
  theory, whose \<open>privilege_stack_table\<close> the scheduler updates.
\<close>

section \<open>Segments\<close>

datatype Descriptor =
    kernel_code_segment | kernel_data_segment | user_data_segment | user_code_segment | tss_segment nat

record 'g gdt_api =
  gdt_new :: 'g
  gdt_append :: "Descriptor \<Rightarrow> 'g \<Rightarrow> 'g \<times> u16"

record Selectors =
  code_selector :: u16
  data_selector :: u16
  user_code_selector :: u16
  user_data_selector :: u16
  tss_selector :: "u16 option"

definition COMMON_GDT :: "'g gdt_api \<Rightarrow> 'g \<times> Selectors" where
  "COMMON_GDT gd =
     (let gdt = gdt_new gd;
          (gdt, code) = gdt_append gd kernel_code_segment gdt;
          (gdt, data) = gdt_append gd kernel_data_segment gdt;
          (gdt, user_data) = gdt_append gd user_data_segment gdt;
          (gdt, user_code) = gdt_append gd user_code_segment gdt in
      (gdt, \<lparr>code_selector = code, data_selector = data, user_code_selector = user_code,
             user_data_selector = user_data, tss_selector = None\<rparr>))"

definition get_kernel_segments :: "'g gdt_api \<Rightarrow> u16 \<times> u16" where
  "get_kernel_segments gd = (let s = snd (COMMON_GDT gd) in (code_selector s, data_selector s))"

definition get_user_segments :: "'g gdt_api \<Rightarrow> u16 \<times> u16" where
  "get_user_segments gd = (let s = snd (COMMON_GDT gd) in (user_code_selector s, user_data_selector s))"

definition FAULT_STACK_SIZE :: nat where "FAULT_STACK_SIZE = 256"

text \<open>\<open>tss_at\<close> and \<open>fault_stack_at\<close> are where the box of the processor data puts these fields.\<close>

record 'g CpuData = CpuInfo +
  gdt :: 'g
  interrupt_stack_table :: "nat list"
  selectors :: "Selectors option"
  tss_at :: nat
  fault_stack_at :: nat

definition cpu_info_new :: "'g gdt_api \<Rightarrow> nat \<times> nat \<Rightarrow> 'g CpuData" where
  "cpu_info_new gd place =
     \<lparr>privilege_stack_table = replicate 3 0, gdt = gdt_new gd, interrupt_stack_table = replicate 7 0, selectors = None,
      tss_at = fst place, fault_stack_at = snd place\<rparr>"

definition cpu_info_init :: "'g gdt_api \<Rightarrow> x86_api \<Rightarrow> 'g CpuData \<Rightarrow> 'g CpuData result" where
  "cpu_info_init gd x c =
     (let (g, sels) = COMMON_GDT gd in
      and_then (usize_add (fault_stack_at c) FAULT_STACK_SIZE) (\<lambda>stack_end.
      and_then (virt_addr_new x stack_end) (\<lambda>stack_end.
      and_then (store (interrupt_stack_table c) 0 stack_end) (\<lambda>ist.
      let (g, tss) = gdt_append gd (tss_segment (tss_at c)) g in
      Inr (c\<lparr>interrupt_stack_table := ist, gdt := g, selectors := Some (sels\<lparr>tss_selector := Some tss\<rparr>)\<rparr>)))))"

text \<open>The segment registers of a processor, and \<open>load\<close>.\<close>

record 'g seg_regs =
  gdtr :: 'g
  seg_cs :: u16
  seg_ss :: u16
  task_register :: u16

definition cpu_info_load :: "'g CpuData \<Rightarrow> 'g seg_regs \<Rightarrow> 'g seg_regs result" where
  "cpu_info_load c r =
     (let r = r\<lparr>gdtr := gdt c\<rparr> in
      and_then (unwrap (selectors c)) (\<lambda>sels.
      let r = r\<lparr>seg_cs := code_selector sels, seg_ss := data_selector sels\<rparr> in
      and_then (unwrap (tss_selector sels)) (\<lambda>t. Inr (r\<lparr>task_register := t\<rparr>))))"

section \<open>The processors\<close>

record Cpu =
  cpu_id :: u32
  cpu_lapic_id :: u32

text \<open>\<open>Cpus\<close> with the set of processors whose \<open>goto_address\<close> was written.\<close>

record 'g Cpus =
  cpu_map :: "u32 \<rightharpoonup> 'g CpuData"
  started :: "u32 set"

definition cpus_new :: "'g gdt_api \<Rightarrow> nat \<times> nat \<Rightarrow> u32 \<Rightarrow> 'g Cpus" where
  "cpus_new gd place bsp_lapic_id = \<lparr>cpu_map = [bsp_lapic_id \<mapsto> cpu_info_new gd place], started = {}\<rparr>"

definition cpus_get_mut :: "u32 \<Rightarrow> 'g Cpus \<Rightarrow> 'g CpuData result" where
  "cpus_get_mut lapic_id cs = unwrap (cpu_map cs lapic_id)"

definition iter_id :: "'g Cpus \<Rightarrow> u32 set" where
  "iter_id cs = dom (cpu_map cs)"

definition cpus_len :: "'g Cpus \<Rightarrow> nat" where
  "cpus_len cs = card (dom (cpu_map cs))"

definition init_bsp ::
  "'g gdt_api \<Rightarrow> x86_api \<Rightarrow> u32 \<Rightarrow> 'g Cpus \<Rightarrow> 'g seg_regs \<Rightarrow> ('g Cpus \<times> 'g seg_regs) result" where
  "init_bsp gd x bsp_lapic_id cs r =
     and_then (cpus_get_mut bsp_lapic_id cs) (\<lambda>c.
     and_then (cpu_info_init gd x c) (\<lambda>c.
     and_then (cpu_info_load c r) (\<lambda>r.
     Inr (cs\<lparr>cpu_map := (cpu_map cs)(bsp_lapic_id \<mapsto> c)\<rparr>, r))))"

definition init_ap_step ::
  "'g gdt_api \<Rightarrow> x86_api \<Rightarrow> (u32 \<Rightarrow> nat \<times> nat) \<Rightarrow> u32 \<Rightarrow> Cpu \<Rightarrow> 'g Cpus \<Rightarrow> 'g Cpus result" where
  "init_ap_step gd x place bsp_lapic_id c cs =
     (if cpu_id c = bsp_lapic_id then Inr cs
      else and_then (cpu_info_init gd x (cpu_info_new gd (place (cpu_lapic_id c)))) (\<lambda>info.
        Inr (cs\<lparr>cpu_map := (cpu_map cs)(cpu_lapic_id c \<mapsto> info), started := insert (cpu_lapic_id c) (started cs)\<rparr>)))"

definition init_ap ::
  "'g gdt_api \<Rightarrow> x86_api \<Rightarrow> (u32 \<Rightarrow> nat \<times> nat) \<Rightarrow> u32 \<Rightarrow> Cpu list \<Rightarrow> 'g Cpus \<Rightarrow> 'g Cpus result" where
  "init_ap gd x place bsp_lapic_id response cs = for_each (init_ap_step gd x place bsp_lapic_id) response cs"

section \<open>System calls\<close>

record 'm msr_api =
  sfmask_write :: "u64 \<Rightarrow> 'm \<Rightarrow> 'm"
  lstar_write :: "nat \<Rightarrow> 'm \<Rightarrow> 'm"
  star_write :: "u16 \<Rightarrow> u16 \<Rightarrow> u16 \<Rightarrow> u16 \<Rightarrow> 'm \<Rightarrow> (string + unit) \<times> 'm"
  efer_read :: "'m \<Rightarrow> u64"
  efer_write :: "u64 \<Rightarrow> 'm \<Rightarrow> 'm"

definition INTERRUPT_FLAG :: u64 where "INTERRUPT_FLAG = push_bit 9 1"
definition SYSTEM_CALL_EXTENSIONS :: u64 where "SYSTEM_CALL_EXTENSIONS = 1"

definition syscall_init :: "'g gdt_api \<Rightarrow> 'm msr_api \<Rightarrow> x86_api \<Rightarrow> nat \<Rightarrow> 'm \<Rightarrow> 'm result" where
  "syscall_init gd msr x handler_addr m =
     (let m = sfmask_write msr INTERRUPT_FLAG m in
      and_then (virt_addr_new x handler_addr) (\<lambda>a.
      let m = lstar_write msr a m;
          (code, data) = get_kernel_segments gd;
          (user_code, user_data) = get_user_segments gd in
      (case star_write msr user_code user_data code data m of
         (Inl _, _) \<Rightarrow> Inl UnwrapNone
       | (Inr _, m) \<Rightarrow> Inr (efer_write msr (efer_read msr m OR SYSTEM_CALL_EXTENSIONS) m))))"

type_synonym SyscallHandlerFn = "u64 \<Rightarrow> u64 \<Rightarrow> u64 \<Rightarrow> u64 \<Rightarrow> u64 \<Rightarrow> u64 \<Rightarrow> u64 \<Rightarrow> u64"

definition tmp_syscall_handler :: SyscallHandlerFn where
  "tmp_syscall_handler idx arg1 arg2 arg3 arg4 arg5 arg6 = 0"

text \<open>The static \<open>SYSCALL_HANDLER\<close> and the function that replaces its contents.\<close>

definition regist_syscall_handler :: "SyscallHandlerFn \<Rightarrow> SyscallHandlerFn \<Rightarrow> SyscallHandlerFn" where
  "regist_syscall_handler handler old = handler"

text \<open>\<open>syscall_handle_fn\<close>: the arguments of the C calling convention, and the number from \<open>rax\<close>.\<close>

definition syscall_handle_fn :: "SyscallHandlerFn \<Rightarrow> cpu \<Rightarrow> u64" where
  "syscall_handle_fn registered e =
     (let syscall_number_raw = gpr e RAX in
      registered syscall_number_raw (gpr e RDI) (gpr e RSI) (gpr e RDX) (gpr e RCX) (gpr e R8) (gpr e R9))"

section \<open>The selectors\<close>

text \<open>
  The crate's table: a null entry first, every segment in the next free entry (a task state segment
  in two), and the selector of an entry is eight times its index with the segment's privilege level.
\<close>

fun entries :: "Descriptor \<Rightarrow> nat" where
  "entries (tss_segment _) = 2"
| "entries _ = 1"

fun privilege :: "Descriptor \<Rightarrow> u16" where
  "privilege user_data_segment = 3"
| "privilege user_code_segment = 3"
| "privilege _ = 0"

locale gdt_table =
  fixes gd :: "'g gdt_api" and used :: "'g \<Rightarrow> nat"
  assumes new: "used (gdt_new gd) = 1"
    and append: "used g + entries d \<le> 8 \<Longrightarrow>
      \<exists>g'. gdt_append gd d g = (g', of_nat (8 * used g) OR privilege d) \<and> used g' = used g + entries d"
begin

lemma common:
  obtains g where "COMMON_GDT gd = (g, \<lparr>code_selector = 0x08, data_selector = 0x10, user_code_selector = 0x23,
    user_data_selector = 0x1b, tss_selector = None\<rparr>)" "used g = 5"
proof -
  obtain g1 where g1: "gdt_append gd kernel_code_segment (gdt_new gd) = (g1, 8)" "used g1 = 2"
    using append [of "gdt_new gd" kernel_code_segment] new by auto
  obtain g2 where g2: "gdt_append gd kernel_data_segment g1 = (g2, 16)" "used g2 = 3"
    using append [of g1 kernel_data_segment] g1 by auto
  obtain g3 where g3: "gdt_append gd user_data_segment g2 = (g3, 27)" "used g3 = 4"
    using append [of g2 user_data_segment] g2 by auto
  obtain g4 where g4: "gdt_append gd user_code_segment g3 = (g4, 35)" "used g4 = 5"
    using append [of g3 user_code_segment] g3 by auto
  show thesis by (rule that [OF _ g4(2)]) (simp add: COMMON_GDT_def Let_def g1 g2 g3 g4)
qed

lemma segments: "get_kernel_segments gd = (0x08, 0x10)" "get_user_segments gd = (0x23, 0x1b)"
  by (rule common, simp add: get_kernel_segments_def get_user_segments_def)+

lemma initialised:
  assumes "virt_addr_new x (fault_stack_at c + 256) = Inr (fault_stack_at c + 256)" and "fault_stack_at c + 256 \<le> usize_max"
    and "length (interrupt_stack_table c) = 7"
  obtains c' where "cpu_info_init gd x c = Inr c'" "hd (interrupt_stack_table c') = fault_stack_at c + 256"
    "privilege_stack_table c' = privilege_stack_table c" "fault_stack_at c' = fault_stack_at c"
    "selectors c' = Some \<lparr>code_selector = 0x08, data_selector = 0x10, user_code_selector = 0x23,
       user_data_selector = 0x1b, tss_selector = Some 0x28\<rparr>"
proof -
  obtain g where g: "COMMON_GDT gd = (g, \<lparr>code_selector = 0x08, data_selector = 0x10, user_code_selector = 0x23,
    user_data_selector = 0x1b, tss_selector = None\<rparr>)" "used g = 5" by (rule common)
  obtain g' where g': "gdt_append gd (tss_segment (tss_at c)) g = (g', 40)"
    using append [of g "tss_segment (tss_at c)"] g(2) by auto
  obtain y ys where ist: "interrupt_stack_table c = y # ys" using assms(3) by (cases "interrupt_stack_table c") auto
  let ?s = "\<lparr>code_selector = 0x08, data_selector = 0x10, user_code_selector = 0x23, user_data_selector = 0x1b, tss_selector = Some 0x28\<rparr>"
  show thesis
    by (rule that [of "c\<lparr>interrupt_stack_table := (fault_stack_at c + 256) # ys, gdt := g', selectors := Some ?s\<rparr>"])
      (use assms in \<open>auto simp: cpu_info_init_def g(1) g' usize_add_def FAULT_STACK_SIZE_def store_def ist\<close>)
qed

end

text \<open>A table as the number of its entries, and the registers as a record.\<close>

definition counting_gdt :: "nat gdt_api" where
  "counting_gdt = \<lparr>gdt_new = 1, gdt_append = (\<lambda>d n. (n + entries d, of_nat (8 * n) OR privilege d))\<rparr>"

interpretation counting: gdt_table counting_gdt id
  by unfold_locales (simp_all add: counting_gdt_def)

text \<open>The same table with the segments it holds, in the order they were appended.\<close>

locale gdt_contents = gdt_table gd used for gd :: "'g gdt_api" and used :: "'g \<Rightarrow> nat" +
  fixes contents :: "'g \<Rightarrow> Descriptor list"
  assumes contents_new: "contents (gdt_new gd) = []"
    and contents_append: "used g + entries d \<le> 8 \<Longrightarrow> contents (fst (gdt_append gd d g)) = contents g @ [d]"
begin

lemma next_segment:
  assumes "used g = n" "n + entries d \<le> 8"
  obtains g' where "gdt_append gd d g = (g', of_nat (8 * n) OR privilege d)" "used g' = n + entries d" "contents g' = contents g @ [d]"
  using append [of g d] contents_append [of g d] assms by auto

lemma common_contents:
  obtains g where "COMMON_GDT gd = (g, \<lparr>code_selector = 0x08, data_selector = 0x10, user_code_selector = 0x23,
    user_data_selector = 0x1b, tss_selector = None\<rparr>)" "used g = 5"
    "contents g = [kernel_code_segment, kernel_data_segment, user_data_segment, user_code_segment]"
proof -
  obtain g1 where g1: "gdt_append gd kernel_code_segment (gdt_new gd) = (g1, 8)" "used g1 = 2" "contents g1 = [kernel_code_segment]"
    by (rule next_segment [OF new, of kernel_code_segment]) (simp_all add: contents_new)
  obtain g2 where g2: "gdt_append gd kernel_data_segment g1 = (g2, 16)" "used g2 = 3" "contents g2 = contents g1 @ [kernel_data_segment]"
    by (rule next_segment [OF g1(2), of kernel_data_segment]) simp_all
  obtain g3 where g3: "gdt_append gd user_data_segment g2 = (g3, 27)" "used g3 = 4" "contents g3 = contents g2 @ [user_data_segment]"
    by (rule next_segment [OF g2(2), of user_data_segment]) simp_all
  obtain g4 where g4: "gdt_append gd user_code_segment g3 = (g4, 35)" "used g4 = 5" "contents g4 = contents g3 @ [user_code_segment]"
    by (rule next_segment [OF g3(2), of user_code_segment]) simp_all
  show thesis by (rule that [OF _ g4(2)]) (simp_all add: COMMON_GDT_def Let_def g1 g2 g3 g4)
qed

end

definition listing_gdt :: "Descriptor list gdt_api" where
  "listing_gdt = \<lparr>gdt_new = [],
     gdt_append = (\<lambda>d ds. (ds @ [d], of_nat (8 * (1 + sum_list (map entries ds))) OR privilege d))\<rparr>"

interpretation listing: gdt_contents listing_gdt "\<lambda>ds. 1 + sum_list (map entries ds)" id
  by unfold_locales (simp_all add: listing_gdt_def)

section \<open>Starting the processors\<close>

definition place_ok :: "x86_api \<Rightarrow> nat \<times> nat \<Rightarrow> bool" where
  "place_ok x place \<longleftrightarrow> snd place + 256 \<le> usize_max \<and> virt_addr_new x (snd place + 256) = Inr (snd place + 256)"

definition ready_data :: "'g CpuData \<Rightarrow> bool" where
  "ready_data c \<longleftrightarrow> hd (interrupt_stack_table c) = fault_stack_at c + 256 \<and> length (privilege_stack_table c) = 3 \<and>
     selectors c = Some \<lparr>code_selector = 0x08, data_selector = 0x10, user_code_selector = 0x23, user_data_selector = 0x1b,
       tss_selector = Some 0x28\<rparr>"

definition others :: "u32 \<Rightarrow> Cpu list \<Rightarrow> u32 set" where
  "others bsp response = {cpu_lapic_id c | c. c \<in> set response \<and> cpu_id c \<noteq> bsp}"

context gdt_table
begin

lemma fresh_initialised:
  assumes "place_ok x place"
  obtains c where "cpu_info_init gd x (cpu_info_new gd place) = Inr c" "ready_data c"
proof -
  let ?c = "cpu_info_new gd place"
  have at: "fault_stack_at ?c = snd place" "length (interrupt_stack_table ?c) = 7" "length (privilege_stack_table ?c) = 3"
    by (simp_all add: cpu_info_new_def)
  obtain c' where c': "cpu_info_init gd x ?c = Inr c'" "hd (interrupt_stack_table c') = fault_stack_at ?c + 256"
    "privilege_stack_table c' = privilege_stack_table ?c" "fault_stack_at c' = fault_stack_at ?c"
    "selectors c' = Some \<lparr>code_selector = 0x08, data_selector = 0x10, user_code_selector = 0x23,
       user_data_selector = 0x1b, tss_selector = Some 0x28\<rparr>"
    using initialised [of x ?c] assms at by (auto simp: place_ok_def)
  then show thesis using that at by (simp add: ready_data_def)
qed

end

text \<open>
  The data of one processor, tied to the place of its box: its task state segment and its fault
  stack are there, and its descriptor table is the common one with that task state segment at the end.
\<close>

definition own_segments :: "nat \<times> nat \<Rightarrow> Descriptor list" where
  "own_segments place = [kernel_code_segment, kernel_data_segment, user_data_segment, user_code_segment, tss_segment (fst place)]"

definition own_data :: "('g \<Rightarrow> Descriptor list) \<Rightarrow> nat \<times> nat \<Rightarrow> 'g CpuData \<Rightarrow> bool" where
  "own_data contents place c \<longleftrightarrow> tss_at c = fst place \<and> fault_stack_at c = snd place \<and>
     interrupt_stack_table c = [snd place + 256, 0, 0, 0, 0, 0, 0] \<and> privilege_stack_table c = [0, 0, 0] \<and>
     contents (gdt c) = own_segments place \<and>
     selectors c = Some \<lparr>code_selector = 0x08, data_selector = 0x10, user_code_selector = 0x23, user_data_selector = 0x1b,
       tss_selector = Some 0x28\<rparr>"

text \<open>The registers of a processor that uses the descriptor table of its own data.\<close>

definition own_registers :: "('g \<Rightarrow> Descriptor list) \<Rightarrow> nat \<times> nat \<Rightarrow> 'g seg_regs \<Rightarrow> bool" where
  "own_registers contents place r \<longleftrightarrow> contents (gdtr r) = own_segments place \<and>
     seg_cs r = 0x08 \<and> seg_ss r = 0x10 \<and> task_register r = 0x28"

lemma own_data_load:
  assumes "own_data contents place c"
  shows "\<exists>r'. cpu_info_load c r = Inr r' \<and> own_registers contents place r'"
  using assms by (simp add: own_data_def own_registers_def cpu_info_load_def)

context gdt_contents
begin

lemma fresh_own:
  assumes "place_ok x place"
  obtains c where "cpu_info_init gd x (cpu_info_new gd place) = Inr c" "own_data contents place c"
proof -
  obtain g where g: "COMMON_GDT gd = (g, \<lparr>code_selector = 0x08, data_selector = 0x10, user_code_selector = 0x23,
      user_data_selector = 0x1b, tss_selector = None\<rparr>)" "used g = 5"
    "contents g = [kernel_code_segment, kernel_data_segment, user_data_segment, user_code_segment]" by (rule common_contents)
  obtain g' where g': "gdt_append gd (tss_segment (fst place)) g = (g', 40)" "contents g' = own_segments place"
    by (rule next_segment [OF g(2), of "tss_segment (fst place)"]) (simp_all add: g(3) own_segments_def)
  let ?s = "\<lparr>code_selector = 0x08, data_selector = 0x10, user_code_selector = 0x23, user_data_selector = 0x1b, tss_selector = Some 0x28\<rparr>"
  let ?c = "(cpu_info_new gd place)\<lparr>interrupt_stack_table := [snd place + 256, 0, 0, 0, 0, 0, 0], gdt := g', selectors := Some ?s\<rparr>"
  have "cpu_info_init gd x (cpu_info_new gd place) = Inr ?c"
    using assms by (simp add: cpu_info_init_def cpu_info_new_def g(1) g'(1) usize_add_def FAULT_STACK_SIZE_def store_def place_ok_def
        numeral_eq_Suc)
  moreover have "own_data contents place ?c" by (simp add: own_data_def cpu_info_new_def g'(2) numeral_eq_Suc)
  ultimately show thesis by (rule that)
qed

lemma init_ap_result:
  assumes "\<forall>c \<in> set response. place_ok x (place (cpu_lapic_id c))"
    and "\<forall>i c. cpu_map cs i = Some c \<longrightarrow> own_data contents (if i \<in> started cs then place i else bsp_place) c"
  shows "\<exists>cs'. init_ap gd x place bsp response cs = Inr cs' \<and> iter_id cs' = iter_id cs \<union> others bsp response \<and>
    started cs' = started cs \<union> others bsp response \<and>
    (\<forall>i c. cpu_map cs' i = Some c \<longrightarrow> own_data contents (if i \<in> started cs' then place i else bsp_place) c)"
  using assms
proof (induction response arbitrary: cs)
  case Nil
  then show ?case by (simp add: init_ap_def others_def)
next
  case (Cons a response)
  have o: "others bsp (a # response) = (if cpu_id a = bsp then {} else {cpu_lapic_id a}) \<union> others bsp response"
    by (auto simp: others_def)
  have p: "\<forall>c \<in> set response. place_ok x (place (cpu_lapic_id c))" using Cons.prems(1) by simp
  show ?case
  proof (cases "cpu_id a = bsp")
    case True
    then show ?thesis using Cons.IH [OF p Cons.prems(2)] o by (simp add: init_ap_def init_ap_step_def)
  next
    case False
    obtain c where c: "cpu_info_init gd x (cpu_info_new gd (place (cpu_lapic_id a))) = Inr c" "own_data contents (place (cpu_lapic_id a)) c"
      using fresh_own [of x "place (cpu_lapic_id a)"] Cons.prems(1) by auto
    let ?cs = "cs\<lparr>cpu_map := (cpu_map cs)(cpu_lapic_id a \<mapsto> c), started := insert (cpu_lapic_id a) (started cs)\<rparr>"
    have r: "\<forall>i c. cpu_map ?cs i = Some c \<longrightarrow> own_data contents (if i \<in> started ?cs then place i else bsp_place) c"
      using Cons.prems(2) c(2) by (auto split: if_splits)
    show ?thesis using Cons.IH [OF p r] c(1) False o by (simp add: init_ap_def init_ap_step_def iter_id_def)
  qed
qed

lemma init_bsp_result:
  assumes "place_ok x place"
  obtains cs r' where "init_bsp gd x bsp (cpus_new gd place bsp) r = Inr (cs, r')" "iter_id cs = {bsp}" "started cs = {}"
    "\<forall>i c. cpu_map cs i = Some c \<longrightarrow> own_data contents place c" "own_registers contents place r'"
proof -
  obtain c where c: "cpu_info_init gd x (cpu_info_new gd place) = Inr c" "own_data contents place c"
    using fresh_own [OF assms] .
  obtain r' where r': "cpu_info_load c r = Inr r'" "own_registers contents place r'" using own_data_load [OF c(2), of r] by blast
  show thesis
    by (rule that [of "\<lparr>cpu_map = [bsp \<mapsto> c], started = {}\<rparr>" r'])
      (use c r' in \<open>simp_all add: init_bsp_def cpus_get_mut_def cpus_new_def iter_id_def\<close>)
qed

end

text \<open>
  C27. \<open>init_bsp\<close> and \<open>init_ap\<close> succeed and give the boot processor and every started processor its own
  initialised data: the task state segment and the fault stack at the place of that processor's box,
  the fault stack's end in the first entry of the interrupt stack table, and a descriptor table with the four
  common segments and the processor's own task state segment.  The boot processor has its own table loaded,
  and \<open>load\<close> on any of the data loads that table, the kernel's segments and the task register.
  Started are the processors whose ACPI id differs from the local APIC id of the boot processor: these are
  the application processors when ids and APIC ids agree, and otherwise one of them may stay out
  of the table while the boot processor's data are replaced.
\<close>

theorem processors_started:
  assumes "gdt_contents gd used contents" and "place_ok x bsp_place" and "\<forall>c \<in> set response. place_ok x (place (cpu_lapic_id c))"
  shows "\<exists>cs r' cs'. init_bsp gd x bsp (cpus_new gd bsp_place bsp) r = Inr (cs, r') \<and> init_ap gd x place bsp response cs = Inr cs' \<and>
    own_registers contents bsp_place r' \<and>
    started cs' = {cpu_lapic_id c | c. c \<in> set response \<and> cpu_id c \<noteq> bsp} \<and>
    iter_id cs' = insert bsp (started cs') \<and>
    (\<forall>i c. cpu_map cs' i = Some c \<longrightarrow> own_data contents (if i \<in> started cs' then place i else bsp_place) c \<and>
       (\<forall>r0. \<exists>r1. cpu_info_load c r0 = Inr r1 \<and> own_registers contents (if i \<in> started cs' then place i else bsp_place) r1))"
proof -
  obtain cs r' where bsp: "init_bsp gd x bsp (cpus_new gd bsp_place bsp) r = Inr (cs, r')" "iter_id cs = {bsp}" "started cs = {}"
    "\<forall>i c. cpu_map cs i = Some c \<longrightarrow> own_data contents bsp_place c" "own_registers contents bsp_place r'"
    using gdt_contents.init_bsp_result [OF assms(1,2)] .
  have "\<forall>i c. cpu_map cs i = Some c \<longrightarrow> own_data contents (if i \<in> started cs then place i else bsp_place) c" using bsp(3,4) by simp
  from gdt_contents.init_ap_result [OF assms(1,3) this, of bsp] obtain cs' where
    ap: "init_ap gd x place bsp response cs = Inr cs'" "iter_id cs' = iter_id cs \<union> others bsp response"
    "started cs' = started cs \<union> others bsp response"
    "\<forall>i c. cpu_map cs' i = Some c \<longrightarrow> own_data contents (if i \<in> started cs' then place i else bsp_place) c"
    by (elim exE conjE)
  have "\<forall>i c. cpu_map cs' i = Some c \<longrightarrow> own_data contents (if i \<in> started cs' then place i else bsp_place) c \<and>
      (\<forall>r0. \<exists>r1. cpu_info_load c r0 = Inr r1 \<and> own_registers contents (if i \<in> started cs' then place i else bsp_place) r1)"
    using ap(4) own_data_load by blast
  then show ?thesis using bsp(1-3,5) ap(1-3) by (intro exI [of _ cs] exI [of _ r'] exI [of _ cs'] conjI) (auto simp: others_def)
qed

definition zero_regs :: "Descriptor list seg_regs" where
  "zero_regs = \<lparr>gdtr = [], seg_cs = 0, seg_ss = 0, task_register = 0\<rparr>"

definition boxes :: "u32 \<Rightarrow> nat \<times> nat" where
  "boxes i = (0x1000 * (1 + unat i), 0x1100 * (1 + unat i))"

theorem processors_started_witness:
  "\<exists>cs r' cs' c1 c2. init_bsp listing_gdt x86_model 0 (cpus_new listing_gdt (boxes 0) 0) zero_regs = Inr (cs, r') \<and>
     init_ap listing_gdt x86_model boxes 0
       [\<lparr>cpu_id = 0, cpu_lapic_id = 0\<rparr>, \<lparr>cpu_id = 1, cpu_lapic_id = 1\<rparr>, \<lparr>cpu_id = 2, cpu_lapic_id = 2\<rparr>] cs = Inr cs' \<and>
     started cs' = {1, 2} \<and> last (gdtr r') = tss_segment 0x1000 \<and>
     cpu_map cs' 1 = Some c1 \<and> last (gdt c1) = tss_segment 0x2000 \<and> hd (interrupt_stack_table c1) = 0x2300 \<and>
     cpu_map cs' 2 = Some c2 \<and> last (gdt c2) = tss_segment 0x3000 \<and> hd (interrupt_stack_table c2) = 0x3400"
proof -
  let ?r = "[\<lparr>cpu_id = 0, cpu_lapic_id = 0\<rparr>, \<lparr>cpu_id = 1, cpu_lapic_id = 1\<rparr>, \<lparr>cpu_id = 2, cpu_lapic_id = 2\<rparr>]"
  have "place_ok x86_model (a, b)" if "b < 0x10000" for a b
    using that by (simp add: place_ok_def x86_model_def usize_max_def canonical_def)
  then have p: "place_ok x86_model (boxes 0)" "\<forall>c \<in> set ?r. place_ok x86_model (boxes (cpu_lapic_id c))"
    by (simp_all add: boxes_def)
  from processors_started [OF listing.gdt_contents_axioms p, of 0 zero_regs] obtain cs r' cs' where
    i: "init_bsp listing_gdt x86_model 0 (cpus_new listing_gdt (boxes 0) 0) zero_regs = Inr (cs, r')"
    "init_ap listing_gdt x86_model boxes 0 ?r cs = Inr cs'" "own_registers id (boxes 0) r'"
    "started cs' = {cpu_lapic_id c | c. c \<in> set ?r \<and> cpu_id c \<noteq> 0}" "iter_id cs' = insert 0 (started cs')"
    and own: "\<forall>i c. cpu_map cs' i = Some c \<longrightarrow> own_data id (if i \<in> started cs' then boxes i else boxes 0) c \<and>
      (\<forall>r0. \<exists>r1. cpu_info_load c r0 = Inr r1 \<and> own_registers id (if i \<in> started cs' then boxes i else boxes 0) r1)"
    by (elim exE conjE)
  have st: "started cs' = {1, 2}" unfolding i(4) by force
  then have "1 \<in> dom (cpu_map cs')" "2 \<in> dom (cpu_map cs')" using i(5) by (simp_all add: iter_id_def)
  then obtain c1 c2 where c: "cpu_map cs' 1 = Some c1" "cpu_map cs' 2 = Some c2" by (auto simp only: dom_def mem_Collect_eq)
  have "own_data id (boxes 1) c1" "own_data id (boxes 2) c2" using own [rule_format, OF c(1)] own [rule_format, OF c(2)] st by simp_all
  then show ?thesis using i(1-3) st c
    by (intro exI [of _ cs] exI [of _ r'] exI [of _ cs'] exI [of _ c1] exI [of _ c2])
      (simp add: own_data_def own_registers_def own_segments_def boxes_def)
qed

section \<open>A system call\<close>

text \<open>
  The registers behind \<open>syscall\<close> and \<open>sysret\<close>.  \<open>Star::write\<close> accepts selectors at the offsets the
  instructions assume, with privilege level 3 for the user's and 0 for the kernel's.
\<close>

locale syscall_msrs =
  fixes msr :: "'m msr_api" and star :: "'m \<Rightarrow> u16 \<times> u16 \<times> u16 \<times> u16" and lstar :: "'m \<Rightarrow> nat" and sfmask efer :: "'m \<Rightarrow> u64"
  assumes star_ok: "cs_sysret = ss_sysret + 8 \<Longrightarrow> ss_syscall = cs_syscall + 8 \<Longrightarrow> 8 \<le> ss_sysret \<Longrightarrow> ss_sysret AND 3 = 3 \<Longrightarrow>
      ss_syscall AND 3 = 0 \<Longrightarrow> \<exists>m'. star_write msr cs_sysret ss_sysret cs_syscall ss_syscall m = (Inr (), m') \<and>
        star m' = (cs_sysret, ss_sysret, cs_syscall, ss_syscall) \<and> lstar m' = lstar m \<and> sfmask m' = sfmask m \<and> efer m' = efer m"
    and lstar_write: "lstar (lstar_write msr a m) = a" "sfmask (lstar_write msr a m) = sfmask m"
    and sfmask_write: "sfmask (sfmask_write msr v m) = v"
    and efer_read: "efer_read msr m = efer m"
    and efer_write: "efer (efer_write msr v m) = v" "star (efer_write msr v m) = star m" "lstar (efer_write msr v m) = lstar m"
      "sfmask (efer_write msr v m) = sfmask m"
begin

lemma initialised:
  assumes "gdt_table gd used" and "virt_addr_new x a = Inr a"
  obtains m' where "syscall_init gd msr x a m = Inr m'" "star m' = (0x23, 0x1b, 0x08, 0x10)" "lstar m' = a"
    "sfmask m' = INTERRUPT_FLAG" "efer m' AND SYSTEM_CALL_EXTENSIONS = SYSTEM_CALL_EXTENSIONS"
proof -
  let ?m = "lstar_write msr a (sfmask_write msr INTERRUPT_FLAG m)"
  have "\<exists>m'. star_write msr 0x23 0x1b 0x08 0x10 ?m = (Inr (), m') \<and> star m' = (0x23, 0x1b, 0x08, 0x10) \<and> lstar m' = lstar ?m \<and>
      sfmask m' = sfmask ?m \<and> efer m' = efer ?m"
    by (rule star_ok) simp_all
  then obtain m1 where m1: "star_write msr 0x23 0x1b 0x08 0x10 ?m = (Inr (), m1)" "star m1 = (0x23, 0x1b, 0x08, 0x10)"
    "lstar m1 = lstar ?m" "sfmask m1 = sfmask ?m" by (elim exE conjE)
  have e: "(efer m1 OR SYSTEM_CALL_EXTENSIONS) AND SYSTEM_CALL_EXTENSIONS = SYSTEM_CALL_EXTENSIONS"
    by (simp add: bit.conj_disj_distrib2)
  show thesis
  proof (rule that)
    show "syscall_init gd msr x a m = Inr (efer_write msr (efer_read msr m1 OR SYSTEM_CALL_EXTENSIONS) m1)"
      by (simp add: syscall_init_def gdt_table.segments [OF assms(1)] assms(2) m1(1))
  qed (simp_all add: efer_write efer_read lstar_write sfmask_write m1 e)
qed

end

text \<open>What the processor does for the two instructions, given \<open>star\<close>, \<open>lstar\<close> and \<open>sfmask\<close>.\<close>

definition do_syscall :: "u16 \<times> u16 \<times> u16 \<times> u16 \<Rightarrow> nat \<Rightarrow> u64 \<Rightarrow> cpu \<Rightarrow> cpu" where
  "do_syscall st target off s = (case st of (_, _, cs, ss) \<Rightarrow>
     s\<lparr>gpr := (gpr s)(RCX := cpu_rip s, R11 := cpu_rflags s), cpu_rip := of_nat target,
       cpu_rflags := cpu_rflags s AND NOT off, cpu_cs := ucast cs, cpu_ss := ucast ss\<rparr>)"

definition to_user :: "u16 \<times> u16 \<times> u16 \<times> u16 \<Rightarrow> cpu \<Rightarrow> cpu" where
  "to_user st s = (case st of (cs, ss, _, _) \<Rightarrow> s\<lparr>cpu_cs := ucast cs, cpu_ss := ucast ss\<rparr>)"

text \<open>The compiled \<open>syscall_handle_fn\<close>, as the calling convention of C constrains it.\<close>

definition compiled :: "(cpu \<Rightarrow> cpu) \<Rightarrow> (cpu \<Rightarrow> u64) \<Rightarrow> bool" where
  "compiled f g \<longleftrightarrow> (\<forall>e. gpr (f e) RAX = g e \<and> cpu_rsp (f e) = cpu_rsp e \<and>
     (\<forall>i < 8. memory (f e) (cpu_rsp e + 8 * of_nat i) = memory e (cpu_rsp e + 8 * of_nat i)))"

record bench_msrs =
  m_star :: "u16 \<times> u16 \<times> u16 \<times> u16"
  m_lstar :: nat
  m_sfmask :: u64
  m_efer :: u64

definition bench_msr :: "bench_msrs msr_api" where
  "bench_msr = \<lparr>sfmask_write = (\<lambda>v m. m\<lparr>m_sfmask := v\<rparr>), lstar_write = (\<lambda>v m. m\<lparr>m_lstar := v\<rparr>),
     star_write = (\<lambda>a b c d m. if a = b + 8 \<and> d = c + 8 \<and> 8 \<le> b \<and> b AND 3 = 3 \<and> d AND 3 = 0
       then (Inr (), m\<lparr>m_star := (a, b, c, d)\<rparr>) else (Inl ''offset'', m)),
     efer_read = m_efer, efer_write = (\<lambda>v m. m\<lparr>m_efer := v\<rparr>)\<rparr>"

interpretation bench_msr: syscall_msrs bench_msr m_star m_lstar m_sfmask m_efer
  by unfold_locales (simp_all add: bench_msr_def)

text \<open>
  C13. A system call from user code reaches the registered handler with the number from \<open>rax\<close> and the
  six arguments from \<open>rdi\<close>, \<open>rsi\<close>, \<open>rdx\<close>, \<open>r10\<close>, \<open>r8\<close> and \<open>r9\<close>, and returns behind the \<open>syscall\<close>
  instruction with the handler's result in \<open>rax\<close>: the user's segments, flags, stack pointer and
  callee-saved registers are as they were, and interrupts are masked in between.
\<close>

theorem system_call_roundtrip:
  assumes "gdt_table gd used" and "syscall_msrs msr star lstar sfmask efer" and "virt_addr_new x a = Inr a"
    and "compiled f (syscall_handle_fn (regist_syscall_handler handler old))"
    and "cpu_cs s = 0x23" and "cpu_ss s = 0x1b"
  shows "\<exists>m'. syscall_init gd msr x a m = Inr m' \<and>
    (let e = do_syscall (star m') (lstar m') (sfmask m') s; s' = to_user (star m') (syscall_handler f e) in
     cpu_rip e = of_nat a \<and> cpu_rflags e AND INTERRUPT_FLAG = 0 \<and> cpu_cs e = 0x08 \<and> cpu_ss e = 0x10 \<and>
     gpr s' RAX = handler (gpr s RAX) (gpr s RDI) (gpr s RSI) (gpr s RDX) (gpr s R10) (gpr s R8) (gpr s R9) \<and>
     map (gpr s') [RBX, RBP, R12, R13, R14, R15] = map (gpr s) [RBX, RBP, R12, R13, R14, R15] \<and>
     cpu_rip s' = cpu_rip s \<and> cpu_rflags s' = cpu_rflags s \<and> cpu_rsp s' = cpu_rsp s \<and> cpu_cs s' = cpu_cs s \<and> cpu_ss s' = cpu_ss s)"
proof -
  obtain m' where m': "syscall_init gd msr x a m = Inr m'" "star m' = (0x23, 0x1b, 0x08, 0x10)" "lstar m' = a" "sfmask m' = INTERRUPT_FLAG"
    using syscall_msrs.initialised [OF assms(2,1,3)] .
  let ?e = "do_syscall (star m') (lstar m') (sfmask m') s"
  have f: "cpu_rsp (f t) = cpu_rsp t" "k < 8 \<Longrightarrow> memory (f t) (cpu_rsp t + 8 * of_nat k) = memory t (cpu_rsp t + 8 * of_nat k)"
    "gpr (f t) RAX = syscall_handle_fn handler t" for t k
    using assms(4) by (simp_all add: compiled_def regist_syscall_handler_def)
  note r = syscall_handler_restores [of f, OF f(1,2), of ?e, unfolded Let_def]
  have "(cpu_rflags s AND NOT INTERRUPT_FLAG) AND INTERRUPT_FLAG = 0"
    by (metis and.assoc and.commute bit.conj_cancel_right and_zero_eq)
  then show ?thesis
    using r f(3) assms(5,6)
    by (intro exI [of _ m']) (simp add: do_syscall_def to_user_def m' Let_def syscall_handle_fn_def)
qed

definition adder :: SyscallHandlerFn where
  "adder idx a b c d e f = idx + a + b + c + d + e + f"

definition user_cpu :: cpu where
  "user_cpu = \<lparr>gpr = (\<lambda>r. if r = R10 then 5 else 1), cpu_rsp = 0x4000, cpu_cr3 = 0x1000, cpu_rip = 0x400002,
     cpu_cs = 0x23, cpu_rflags = 0x202, cpu_ss = 0x1b, interrupts_on = True, memory = (\<lambda>_. 0)\<rparr>"

theorem system_call_roundtrip_witness:
  "\<exists>m'. syscall_init counting_gdt bench_msr x86_model 0x100000 \<lparr>m_star = (0, 0, 0, 0), m_lstar = 0, m_sfmask = 0, m_efer = 0\<rparr> = Inr m' \<and>
     gpr (to_user (m_star m') (syscall_handler (\<lambda>e. e\<lparr>gpr := (gpr e)(RAX := syscall_handle_fn adder e)\<rparr>)
       (do_syscall (m_star m') (m_lstar m') (m_sfmask m') user_cpu))) RAX = 11"
proof -
  let ?f = "\<lambda>e. e\<lparr>gpr := (gpr e)(RAX := syscall_handle_fn adder e)\<rparr>"
  have a: "virt_addr_new x86_model 0x100000 = Inr 0x100000" by (simp add: x86_model_def canonical_def)
  have f: "compiled ?f (syscall_handle_fn (regist_syscall_handler adder tmp_syscall_handler))"
    by (simp add: compiled_def regist_syscall_handler_def)
  have u: "cpu_cs user_cpu = 0x23" "cpu_ss user_cpu = 0x1b" by (simp_all add: user_cpu_def)
  have "adder (gpr user_cpu RAX) (gpr user_cpu RDI) (gpr user_cpu RSI) (gpr user_cpu RDX) (gpr user_cpu R10) (gpr user_cpu R8)
      (gpr user_cpu R9) = 11" by (simp add: user_cpu_def adder_def)
  with system_call_roundtrip [OF counting.gdt_table_axioms bench_msr.syscall_msrs_axioms a f u,
      of "\<lparr>m_star = (0, 0, 0, 0), m_lstar = 0, m_sfmask = 0, m_efer = 0\<rparr>"]
  show ?thesis unfolding Let_def by auto
qed

end
