(* ===== verification/Boot.thy ===== *)
theory Boot
  imports Processors Clock
begin

text \<open>
  Start-up: \<open>init_framework\<close> and \<open>start_schedule\<close> on the boot processor (\<open>lib.rs\<close>) beside \<open>ap_entry\<close> on
  every application processor (\<open>arch/smp.rs\<close>), and the ACPI module they depend on (\<open>arch/acpi.rs\<close>).

  A processor runs a list of calls; one step of the machine is one call on one processor, in any
  order between processors.  The state holds what the calls share: the three flags the
  application processors wait for, the table of processors with its lock, and which parts of the kernel are set up.
  A call that needs a part which is not there panics; a wait or a lock that is taken leaves
  the processor spinning.  The calls \<open>init_bsp\<close>, \<open>init_ap\<close>, \<open>acpi::init\<close>, \<open>hpet::init\<close> and \<open>user::init\<close> run the
  definitions of their components; of the others, which other theories describe, a step has the part
  they set up.
\<close>

section \<open>ACPI\<close>

datatype 'apic InterruptModel = UnknownModel | ApicModel 'apic | OtherModel

text \<open>The \<open>acpi\<close> crate: the tables at the physical address of the RSDP, and what is read from them.\<close>

record ('t, 'apic, 'hpet, 'entry) acpi_api =
  from_rsdp :: "nat \<Rightarrow> 't option"
  interrupt_model :: "'t \<Rightarrow> 'apic InterruptModel option"
  hpet_table :: "'t \<Rightarrow> 'hpet option"
  mcfg_entries :: "'t \<Rightarrow> 'entry list option"

record ('apic, 'hpet, 'entry) Acpi =
  apic_info :: 'apic
  hpet_info :: 'hpet
  mcfg_info :: "'entry list"

record PhysicalMapping =
  physical_start :: nat
  virtual_start :: nat
  region_length :: nat
  mapped_length :: nat

definition map_physical_region :: "x86_api \<Rightarrow> nat \<Rightarrow> nat \<Rightarrow> nat \<Rightarrow> PhysicalMapping result" where
  "map_physical_region x offset phys_address size_of =
     and_then (phys_addr_new x phys_address) (\<lambda>pa.
     and_then (convert_physical_to_virtual x offset pa) (\<lambda>va.
     Inr \<lparr>physical_start = phys_address, virtual_start = va, region_length = size_of, mapped_length = size_of\<rparr>))"

definition apic_of_model :: "'apic InterruptModel \<Rightarrow> 'apic result" where
  "apic_of_model m = (case m of
       UnknownModel \<Rightarrow> Inl (ExplicitPanic ''No APIC support, cannot continue!'')
     | ApicModel apic \<Rightarrow> Inr apic
     | OtherModel \<Rightarrow> Inl (ExplicitPanic ''ACPI does not have interrupt model info!''))"

text \<open>\<open>cell\<close> is the static \<open>ACPI\<close>, which keeps the first value it is given.\<close>

definition acpi_init ::
  "('t, 'apic, 'hpet, 'entry) acpi_api \<Rightarrow> x86_api \<Rightarrow> nat \<Rightarrow> nat option \<Rightarrow> ('apic, 'hpet, 'entry) Acpi option \<Rightarrow>
   ('apic, 'hpet, 'entry) Acpi option result" where
  "acpi_init ac x offset rsdp_response cell =
     and_then (unwrap rsdp_response) (\<lambda>address.
     and_then (virt_addr_new x address) (\<lambda>rsdp_addr.
     and_then (convert_virtual_to_physical x offset rsdp_addr) (\<lambda>rsdp.
     and_then (unwrap (from_rsdp ac rsdp)) (\<lambda>tables.
     and_then (expect ''Failed to get platform info!'' (interrupt_model ac tables)) (\<lambda>model.
     and_then (apic_of_model model) (\<lambda>apic.
     and_then (expect ''Failed to get HPET info!'' (hpet_table ac tables)) (\<lambda>hpet.
     and_then (expect ''Cannot get MCFG'' (mcfg_entries ac tables)) (\<lambda>entries.
     Inr (case cell of Some _ \<Rightarrow> cell
          | None \<Rightarrow> Some \<lparr>apic_info = apic, hpet_info = hpet, mcfg_info = fold (\<lambda>entry v. v @ [entry]) entries []\<rparr>)))))))))"

section \<open>The programs of the processors\<close>

datatype BootOp =
    Memory_init | Console_init | Init_bsp | Idt_load | Acpi_init | Hpet_init
  | Cpus_write | Start_ap Cpu | Cpus_release
  | Lapic_enable | Calibrate_timer | Enable_timer
  | Apic_init | Mouse_init | Pci_init | Nvme_init | User_init | Scheduler_init
  | Store_start_schedule | Enable_interrupts
  | Cpus_get_load | Wait_hpet_init | Wait_scheduler_init | Wait_start_schedule

definition init_ap_ops :: "Cpu list \<Rightarrow> BootOp list" where
  "init_ap_ops response = Cpus_write # map Start_ap response @ [Cpus_release]"

definition init_framework :: "bool \<Rightarrow> Cpu list \<Rightarrow> BootOp list" where
  "init_framework smp response =
     [Memory_init, Console_init, Init_bsp, Idt_load, Acpi_init, Hpet_init] @
     (if smp then init_ap_ops response else []) @
     [Lapic_enable, Calibrate_timer, Enable_timer, Apic_init, Mouse_init, Pci_init, Nvme_init, User_init, Scheduler_init]"

definition start_schedule :: "BootOp list" where
  "start_schedule = [Store_start_schedule, Enable_interrupts]"

text \<open>The endless loop of \<open>hlt\<close> at the end is the empty program.\<close>

definition ap_entry :: "BootOp list" where
  "ap_entry = [Cpus_get_load, Idt_load, Wait_hpet_init, Lapic_enable, Calibrate_timer, Enable_timer,
     Wait_scheduler_init, User_init, Wait_start_schedule, Enable_interrupts]"

section \<open>The machine\<close>

record ('g, 'm, 't, 'w) boot_env =
  b_gdt :: "'g gdt_api"
  b_x86 :: x86_api
  b_place :: "u32 \<Rightarrow> nat \<times> nat"
  b_msr :: "'m msr_api"
  b_handler :: nat
  b_acpi :: "('t, nat \<times> nat list, nat, nat) acpi_api"
  b_offset :: nat
  b_rsdp :: "nat option"
  b_mmio :: "'w mmio"
  b_bsp :: u32
  b_smp :: bool
  b_response :: "Cpu list"

record ('g, 'm, 'w) boot_machine =
  programs :: "u32 \<Rightarrow> BootOp list"
  heap_ready :: bool
  consoles_ready :: bool
  ACPI :: "(nat \<times> nat list, nat, nat) Acpi option"
  HPET :: Hpet
  hpet_counting :: bool
  registers :: 'w
  ioapic_ready :: bool
  mouse_ready :: bool
  pci_listed :: bool
  nvme_ready :: bool
  HPET_INIT :: bool
  SCHEDULER_INIT :: bool
  START_SCHEDULE :: bool
  processors :: "'g Cpus"
  cpus_lock :: "u32 option"
  segments :: "u32 \<Rightarrow> 'g seg_regs"
  segments_loaded :: "u32 set"
  idt_loaded :: "u32 set"
  lapic_on :: "u32 set"
  calibrated :: "u32 set"
  timer_on :: "u32 set"
  syscalls_on :: "u32 set"
  msrs :: "u32 \<Rightarrow> 'm"
  irq_enabled :: "u32 set"

definition needing :: "bool \<Rightarrow> panic \<Rightarrow> 'a \<Rightarrow> 'a outcome" where
  "needing available e s = Some (if available then Inr s else Inl e)"

abbreviation "no_heap \<equiv> ExplicitPanic ''Kernel heap allocation error''"

fun boot_op :: "('g, 'm, 't, 'w) boot_env \<Rightarrow> u32 \<Rightarrow> BootOp \<Rightarrow> ('g, 'm, 'w) boot_machine \<Rightarrow> ('g, 'm, 'w) boot_machine outcome" where
  "boot_op env i Memory_init s = Some (Inr (s\<lparr>heap_ready := True\<rparr>))"
| "boot_op env i Console_init s = needing (heap_ready s) no_heap (s\<lparr>consoles_ready := True\<rparr>)"
| "boot_op env i Init_bsp s =
     (if cpus_lock s \<noteq> None then None
      else if \<not> heap_ready s then Some (Inl no_heap)
      else Some (and_then (init_bsp (b_gdt env) (b_x86 env) (b_bsp env) (processors s) (segments s i)) (\<lambda>(cs, r).
        Inr (s\<lparr>processors := cs, segments := (segments s)(i := r), segments_loaded := insert i (segments_loaded s)\<rparr>))))"
| "boot_op env i Idt_load s = Some (Inr (s\<lparr>idt_loaded := insert i (idt_loaded s)\<rparr>))"
| "boot_op env i Acpi_init s =
     (if \<not> heap_ready s then Some (Inl no_heap)
      else Some (and_then (acpi_init (b_acpi env) (b_x86 env) (b_offset env) (b_rsdp env) (ACPI s)) (\<lambda>c. Inr (s\<lparr>ACPI := c\<rparr>))))"
| "boot_op env i Hpet_init s =
     Some (and_then (hpet_start (phys_addr_new (b_x86 env)) (convert_physical_to_virtual (b_x86 env) (b_offset env)) (b_mmio env)
         (map_option hpet_info (ACPI s)) (HPET s) (registers s)) (\<lambda>(h, flag, w).
       Inr (s\<lparr>HPET := h, registers := w, hpet_counting := True, HPET_INIT := flag\<rparr>)))"
| "boot_op env i Cpus_write s = (if cpus_lock s = None then Some (Inr (s\<lparr>cpus_lock := Some i\<rparr>)) else None)"
| "boot_op env i (Start_ap c) s =
     (if \<not> heap_ready s then Some (Inl no_heap)
      else Some (and_then (init_ap_step (b_gdt env) (b_x86 env) (b_place env) (b_bsp env) c (processors s)) (\<lambda>cs.
        Inr (s\<lparr>processors := cs,
               programs := (if cpu_id c = b_bsp env \<or> cpu_lapic_id c \<in> started (processors s) then programs s
                            else (programs s)(cpu_lapic_id c := ap_entry))\<rparr>))))"
| "boot_op env i Cpus_release s = Some (Inr (s\<lparr>cpus_lock := None\<rparr>))"
| "boot_op env i Lapic_enable s = needing (ACPI s \<noteq> None) UnwrapNone (s\<lparr>lapic_on := insert i (lapic_on s)\<rparr>)"
| "boot_op env i Calibrate_timer s =
     needing (hpet_counting s) (ExplicitPanic ''Page Fault'') (s\<lparr>calibrated := insert i (calibrated s)\<rparr>)"
| "boot_op env i Enable_timer s = Some (Inr (s\<lparr>timer_on := insert i (timer_on s)\<rparr>))"
| "boot_op env i Apic_init s = needing (ACPI s \<noteq> None) UnwrapNone (s\<lparr>ioapic_ready := True\<rparr>)"
| "boot_op env i Mouse_init s = Some (Inr (s\<lparr>mouse_ready := True\<rparr>))"
| "boot_op env i Pci_init s = needing (ACPI s \<noteq> None) UnwrapNone (s\<lparr>pci_listed := True\<rparr>)"
| "boot_op env i Nvme_init s = Some (Inr (s\<lparr>nvme_ready := True\<rparr>))"
| "boot_op env i User_init s =
     Some (and_then (syscall_init (b_gdt env) (b_msr env) (b_x86 env) (b_handler env) (msrs s i)) (\<lambda>m.
       Inr (s\<lparr>msrs := (msrs s)(i := m), syscalls_on := insert i (syscalls_on s)\<rparr>)))"
| "boot_op env i Scheduler_init s = Some (Inr (s\<lparr>SCHEDULER_INIT := True\<rparr>))"
| "boot_op env i Store_start_schedule s = Some (Inr (s\<lparr>START_SCHEDULE := True\<rparr>))"
| "boot_op env i Enable_interrupts s = Some (Inr (s\<lparr>irq_enabled := insert i (irq_enabled s)\<rparr>))"
| "boot_op env i Cpus_get_load s =
     (if cpus_lock s \<noteq> None then None
      else Some (and_then (unwrap (cpu_map (processors s) i)) (\<lambda>c.
        and_then (cpu_info_load c (segments s i)) (\<lambda>r.
        Inr (s\<lparr>segments := (segments s)(i := r), segments_loaded := insert i (segments_loaded s)\<rparr>)))))"
| "boot_op env i Wait_hpet_init s = (if HPET_INIT s then Some (Inr s) else None)"
| "boot_op env i Wait_scheduler_init s = (if SCHEDULER_INIT s then Some (Inr s) else None)"
| "boot_op env i Wait_start_schedule s = (if START_SCHEDULE s then Some (Inr s) else None)"

definition next_op :: "('g, 'm, 't, 'w) boot_env \<Rightarrow> u32 \<Rightarrow> ('g, 'm, 'w) boot_machine \<Rightarrow> ('g, 'm, 'w) boot_machine outcome" where
  "next_op env i s = (case programs s i of [] \<Rightarrow> None
     | op # ops \<Rightarrow> boot_op env i op (s\<lparr>programs := (programs s)(i := ops)\<rparr>))"

inductive boot_step :: "('g, 'm, 't, 'w) boot_env \<Rightarrow> ('g, 'm, 'w) boot_machine \<Rightarrow> ('g, 'm, 'w) boot_machine \<Rightarrow> bool" for env where
  step: "next_op env i s = Some (Inr s') \<Longrightarrow> boot_step env s s'"

inductive_cases boot_stepE: "boot_step env s s'"

definition powered_on :: "('g, 'm, 't, 'w) boot_env \<Rightarrow> (u32 \<Rightarrow> 'g seg_regs) \<Rightarrow> (u32 \<Rightarrow> 'm) \<Rightarrow> 'w \<Rightarrow> ('g, 'm, 'w) boot_machine" where
  "powered_on env regs m0 w0 =
     \<lparr>programs = (\<lambda>_. [])(b_bsp env := init_framework (b_smp env) (b_response env) @ start_schedule),
      heap_ready = False, consoles_ready = False, ACPI = None, HPET = hpet_uninit, hpet_counting = False, registers = w0, ioapic_ready = False,
      mouse_ready = False, pci_listed = False, nvme_ready = False,
      HPET_INIT = False, SCHEDULER_INIT = False, START_SCHEDULE = False,
      processors = cpus_new (b_gdt env) (b_place env (b_bsp env)) (b_bsp env), cpus_lock = None, segments = regs,
      segments_loaded = {}, idt_loaded = {}, lapic_on = {}, calibrated = {}, timer_on = {}, syscalls_on = {}, msrs = m0, irq_enabled = {}\<rparr>"

section \<open>What a call needs and gives\<close>

text \<open>
  What the proofs keep of the order of the calls: a fact says that a part of the
  kernel is set up, \<open>typed F ops\<close> that every call of \<open>ops\<close> finds what it needs when the facts \<open>F\<close> hold
  at the start.  \<open>Lock\<close> is the fact that the processor holds the write lock of \<open>CPUS\<close>.
\<close>

datatype Fact = Heap | Acpi_tables | Hpet | Fresh | Data | Lock | Segments | Idt | Lapic | Calibrated | Timer | Syscalls | Scheduler_set | Start_set

fun needs :: "BootOp \<Rightarrow> Fact set" where
  "needs Console_init = {Heap}"
| "needs Init_bsp = {Heap, Fresh}"
| "needs Acpi_init = {Heap}"
| "needs Hpet_init = {Acpi_tables}"
| "needs (Start_ap c) = {Heap, Acpi_tables, Lock}"
| "needs Cpus_release = {Lock}"
| "needs Lapic_enable = {Acpi_tables}"
| "needs Calibrate_timer = {Lapic, Hpet}"
| "needs Enable_timer = {Lapic, Calibrated}"
| "needs Apic_init = {Acpi_tables}"
| "needs Pci_init = {Heap, Acpi_tables}"
| "needs User_init = {Segments}"
| "needs Store_start_schedule = {Scheduler_set}"
| "needs Enable_interrupts = {Segments, Idt, Calibrated, Timer, Syscalls, Scheduler_set, Start_set}"
| "needs Cpus_get_load = {Data}"
| "needs _ = {}"

fun gives :: "BootOp \<Rightarrow> Fact set \<Rightarrow> Fact set" where
  "gives Memory_init F = insert Heap F"
| "gives Init_bsp F = insert Segments (insert Data (F - {Fresh}))"
| "gives Idt_load F = insert Idt F"
| "gives Acpi_init F = insert Acpi_tables F"
| "gives Hpet_init F = insert Hpet F"
| "gives Cpus_write F = insert Lock F"
| "gives Cpus_release F = F - {Lock}"
| "gives Lapic_enable F = insert Lapic F"
| "gives Calibrate_timer F = insert Calibrated F"
| "gives Enable_timer F = insert Timer F"
| "gives User_init F = insert Syscalls F"
| "gives Scheduler_init F = insert Scheduler_set F"
| "gives Store_start_schedule F = insert Start_set F"
| "gives Cpus_get_load F = insert Segments F"
| "gives Wait_hpet_init F = insert Hpet F"
| "gives Wait_scheduler_init F = insert Scheduler_set F"
| "gives Wait_start_schedule F = insert Start_set F"
| "gives _ F = F"

text \<open>The calls that take the lock of \<open>CPUS\<close> themselves.\<close>

definition takes_lock :: "BootOp \<Rightarrow> bool" where
  "takes_lock op \<longleftrightarrow> op = Init_bsp \<or> op = Cpus_write \<or> op = Cpus_get_load"

fun typed :: "Fact set \<Rightarrow> BootOp list \<Rightarrow> bool" where
  "typed F [] \<longleftrightarrow> Lock \<notin> F"
| "typed F (op # ops) \<longleftrightarrow> needs op \<subseteq> F \<and> (takes_lock op \<longrightarrow> Lock \<notin> F) \<and> typed (gives op F) ops"

text \<open>The base address of the event timer that the tables give can be reached through the kernel's window.\<close>

definition hpet_reachable :: "('g, 'm, 't, 'w) boot_env \<Rightarrow> nat \<Rightarrow> bool" where
  "hpet_reachable env b \<longleftrightarrow> phys_addr_new (b_x86 env) b = Inr b \<and>
     (\<exists>va. convert_physical_to_virtual (b_x86 env) (b_offset env) b = Inr va \<and> va + 0x10 \<le> usize_max)"

definition shared_ok :: "('g, 'm, 't, 'w) boot_env \<Rightarrow> ('g, 'm, 'w) boot_machine \<Rightarrow> bool" where
  "shared_ok env s \<longleftrightarrow> (HPET_INIT s \<longrightarrow> hpet_counting s) \<and> (\<forall>c. ACPI s = Some c \<longrightarrow> hpet_reachable env (hpet_info c))"

fun holds :: "('g, 'm, 't, 'w) boot_env \<Rightarrow> ('g, 'm, 'w) boot_machine \<Rightarrow> u32 \<Rightarrow> Fact \<Rightarrow> bool" where
  "holds env s i Heap = heap_ready s"
| "holds env s i Acpi_tables = (ACPI s \<noteq> None)"
| "holds env s i Hpet = hpet_counting s"
| "holds env s i Fresh = (i = b_bsp env \<and> cpu_map (processors s) i = Some (cpu_info_new (b_gdt env) (b_place env i)))"
| "holds env s i Data = (\<exists>c. cpu_map (processors s) i = Some c \<and> ready_data c)"
| "holds env s i Lock = (cpus_lock s = Some i)"
| "holds env s i Segments = (i \<in> segments_loaded s \<and> seg_cs (segments s i) = 0x08 \<and> seg_ss (segments s i) = 0x10 \<and> task_register (segments s i) = 0x28)"
| "holds env s i Idt = (i \<in> idt_loaded s)"
| "holds env s i Lapic = (i \<in> lapic_on s)"
| "holds env s i Calibrated = (i \<in> calibrated s)"
| "holds env s i Timer = (i \<in> timer_on s)"
| "holds env s i Syscalls = (i \<in> syscalls_on s \<and>
     (\<exists>m. syscall_init (b_gdt env) (b_msr env) (b_x86 env) (b_handler env) m = Inr (msrs s i)))"
| "holds env s i Scheduler_set = SCHEDULER_INIT s"
| "holds env s i Start_set = START_SCHEDULE s"

lemma holds_programs [simp]: "holds env (s\<lparr>programs := P\<rparr>) i f = holds env s i f"
  by (cases f) simp_all

lemma shared_programs [simp]: "shared_ok env (s\<lparr>programs := P\<rparr>) = shared_ok env s"
  by (simp add: shared_ok_def)

lemma ap_entry_typed: "typed {Heap, Acpi_tables, Data} ap_entry"
  by (simp add: ap_entry_def takes_lock_def)

lemma typed_start_aps:
  "{Heap, Acpi_tables, Lock} \<subseteq> F \<Longrightarrow> typed F (map Start_ap cs @ Cpus_release # ops) = typed (F - {Lock}) ops"
  by (induction cs) (auto simp: takes_lock_def)

lemma boot_program_typed: "typed {Fresh} (init_framework smp response @ start_schedule)"
  by (cases smp) (simp_all add: init_framework_def init_ap_ops_def start_schedule_def takes_lock_def typed_start_aps)

text \<open>A call that finds what it needs returns or waits; then what it gives holds, and no other processor loses a fact.\<close>

definition boot_env_ok :: "('g, 'm, 't, 'w) boot_env \<Rightarrow> bool" where
  "boot_env_ok env \<longleftrightarrow> (\<forall>i. place_ok (b_x86 env) (b_place env i)) \<and>
     (\<forall>c \<in> set (b_response env). cpu_id c = b_bsp env \<longleftrightarrow> cpu_lapic_id c = b_bsp env) \<and>
     (\<exists>c. acpi_init (b_acpi env) (b_x86 env) (b_offset env) (b_rsdp env) None = Inr (Some c) \<and> hpet_reachable env (hpet_info c)) \<and>
     (\<forall>m. \<exists>m'. syscall_init (b_gdt env) (b_msr env) (b_x86 env) (b_handler env) m = Inr m')"

lemma acpi_init_cell:
  assumes "acpi_init ac x offset rsdp None = Inr (Some c)"
  shows "acpi_init ac x offset rsdp cell = Inr (Some (case cell of Some c \<Rightarrow> c | None \<Rightarrow> c))"
  using assms by (cases cell) (auto simp: acpi_init_def result_simps)

lemma acpi_initialised:
  assumes "boot_env_ok env"
  obtains c where "acpi_init (b_acpi env) (b_x86 env) (b_offset env) (b_rsdp env) cell = Inr (Some (case cell of Some c \<Rightarrow> c | None \<Rightarrow> c))"
    "hpet_reachable env (hpet_info c)"
  using assms acpi_init_cell by (metis boot_env_ok_def)

lemma hpet_started:
  assumes "hpet_reachable env b"
  obtains h w' where "hpet_start (phys_addr_new (b_x86 env)) (convert_physical_to_virtual (b_x86 env) (b_offset env)) (b_mmio env) (Some b) h0 w = Inr (h, True, w')"
proof -
  obtain va where va: "phys_addr_new (b_x86 env) b = Inr b" "convert_physical_to_virtual (b_x86 env) (b_offset env) b = Inr va" "va + 0x10 \<le> usize_max"
    using assms by (auto simp: hpet_reachable_def)
  then obtain w1 where "enable_counter (b_mmio env) (hpet_init va h0) w = Inr w1"
    by (cases "read64 (b_mmio env) (va + 0x10) w") (simp add: enable_counter_def hpet_init_def usize_add_def)
  then show thesis using va by (intro that) (simp add: hpet_start_def Let_def split_def)
qed

lemma hpet_start_flag: "hpet_start pn tv io b h w = Inr (h', flag, w') \<Longrightarrow> flag"
  by (auto simp: hpet_start_def result_simps Let_def split_def)

text \<open>What start-up relies on: readable tables, addresses, and processor ids that agree with the APIC ids.\<close>

definition firmware_ok :: "('g, 'm, 't, 'w) boot_env \<Rightarrow> bool" where
  "firmware_ok env \<longleftrightarrow> (\<forall>i. place_ok (b_x86 env) (b_place env i)) \<and>
     (\<forall>c \<in> set (b_response env). cpu_id c = b_bsp env \<longleftrightarrow> cpu_lapic_id c = b_bsp env) \<and>
     virt_addr_new (b_x86 env) (b_handler env) = Inr (b_handler env) \<and>
     (\<exists>rsdp pa t apic hpet entries. b_rsdp env = Some rsdp \<and> virt_addr_new (b_x86 env) rsdp = Inr rsdp \<and>
        convert_virtual_to_physical (b_x86 env) (b_offset env) rsdp = Inr pa \<and> from_rsdp (b_acpi env) pa = Some t \<and>
        interrupt_model (b_acpi env) t = Some (ApicModel apic) \<and> hpet_table (b_acpi env) t = Some hpet \<and>
        hpet_reachable env hpet \<and> mcfg_entries (b_acpi env) t = Some entries)"

lemma firmware_boots:
  assumes "gdt_table (b_gdt env) used" "syscall_msrs (b_msr env) star lstar sfmask efer" "firmware_ok env"
  shows "boot_env_ok env"
proof -
  have "\<exists>c. acpi_init (b_acpi env) (b_x86 env) (b_offset env) (b_rsdp env) None = Inr (Some c) \<and> hpet_reachable env (hpet_info c)"
    using assms(3) unfolding firmware_ok_def by (elim exE conjE) (simp add: acpi_init_def apic_of_model_def expect_def)
  moreover have "\<exists>m'. syscall_init (b_gdt env) (b_msr env) (b_x86 env) (b_handler env) m = Inr m'" for m
    using syscall_msrs.initialised [OF assms(2,1), of "b_x86 env" "b_handler env" m] assms(3) by (metis firmware_ok_def)
  ultimately show ?thesis using assms(3) by (simp add: boot_env_ok_def firmware_ok_def)
qed

definition may_run :: "('g, 'm, 't, 'w) boot_env \<Rightarrow> u32 \<Rightarrow> BootOp \<Rightarrow> bool" where
  "may_run env i op \<longleftrightarrow> (case op of Start_ap c \<Rightarrow> i = b_bsp env \<and> c \<in> set (b_response env)
     | Cpus_get_load \<Rightarrow> i \<noteq> b_bsp env | Wait_hpet_init \<Rightarrow> i \<noteq> b_bsp env | Wait_scheduler_init \<Rightarrow> i \<noteq> b_bsp env
     | Wait_start_schedule \<Rightarrow> i \<noteq> b_bsp env
     | Idt_load \<Rightarrow> True | Lapic_enable \<Rightarrow> True | Calibrate_timer \<Rightarrow> True | Enable_timer \<Rightarrow> True | User_init \<Rightarrow> True | Enable_interrupts \<Rightarrow> True
     | _ \<Rightarrow> i = b_bsp env)"

context gdt_table
begin

lemma start_ap_result:
  assumes "boot_env_ok env" "b_gdt env = gd" "c \<in> set (b_response env)"
  obtains cs where "init_ap_step gd (b_x86 env) (b_place env) (b_bsp env) c q = Inr cs"
    "started cs = started q \<union> (if cpu_id c = b_bsp env then {} else {cpu_lapic_id c})"
    "\<And>j. (cpu_map cs j = cpu_map q j \<and> (cpu_id c \<noteq> b_bsp env \<longrightarrow> j \<noteq> cpu_lapic_id c)) \<or>
       (j = cpu_lapic_id c \<and> j \<noteq> b_bsp env \<and> (\<exists>d. cpu_map cs j = Some d \<and> ready_data d))"
proof (cases "cpu_id c = b_bsp env")
  case True
  then show thesis by (intro that [of q]) (simp_all add: init_ap_step_def)
next
  case False
  obtain d where d: "cpu_info_init gd (b_x86 env) (cpu_info_new gd (b_place env (cpu_lapic_id c))) = Inr d" "ready_data d"
    using fresh_initialised [of "b_x86 env" "b_place env (cpu_lapic_id c)"] assms(1) by (auto simp: boot_env_ok_def)
  have "cpu_lapic_id c \<noteq> b_bsp env" using assms(1,3) False by (simp add: boot_env_ok_def)
  then show thesis
    by (intro that [of "q\<lparr>cpu_map := (cpu_map q)(cpu_lapic_id c \<mapsto> d), started := insert (cpu_lapic_id c) (started q)\<rparr>"])
      (auto simp: init_ap_step_def d False)
qed

lemma ready_load: "ready_data c \<Longrightarrow> \<exists>r'. cpu_info_load c r = Inr r' \<and> seg_cs r' = 0x08 \<and> seg_ss r' = 0x10 \<and> task_register r' = 0x28"
  by (auto simp: cpu_info_load_def ready_data_def)

lemma bsp_initialised:
  assumes "place_ok x place" "cpu_map q bsp = Some (cpu_info_new gd place)"
  obtains d r' where "init_bsp gd x bsp q r = Inr (q\<lparr>cpu_map := (cpu_map q)(bsp \<mapsto> d)\<rparr>, r')" "ready_data d"
    "seg_cs r' = 0x08" "seg_ss r' = 0x10" "task_register r' = 0x28"
proof -
  obtain d where d: "cpu_info_init gd x (cpu_info_new gd place) = Inr d" "ready_data d" using fresh_initialised [OF assms(1)] .
  obtain r' where r': "cpu_info_load d r = Inr r'" "seg_cs r' = 0x08" "seg_ss r' = 0x10" "task_register r' = 0x28"
    using ready_load [OF d(2), of r] by blast
  have "init_bsp gd x bsp q r = Inr (q\<lparr>cpu_map := (cpu_map q)(bsp \<mapsto> d)\<rparr>, r')"
    using d(1) r'(1) assms(2) by (simp add: init_bsp_def cpus_get_mut_def)
  then show thesis using that d(2) r'(2-4) by blast
qed

lemma op_progress:
  assumes "boot_env_ok env" "b_gdt env = gd" "may_run env i op" "\<forall>f \<in> needs op. holds env s i f" "shared_ok env s"
  shows "boot_op env i op s = None \<or> (\<exists>s'. boot_op env i op s = Some (Inr s'))"
proof (cases op)
  case Init_bsp
  then have p: "place_ok (b_x86 env) (b_place env i)" "cpu_map (processors s) i = Some (cpu_info_new gd (b_place env i))" "i = b_bsp env"
    using assms by (simp_all add: boot_env_ok_def may_run_def)
  obtain d r' where "init_bsp gd (b_x86 env) i (processors s) (segments s i) = Inr ((processors s)\<lparr>cpu_map := (cpu_map (processors s))(i \<mapsto> d)\<rparr>, r')"
    by (rule bsp_initialised [OF p(1,2)])
  then show ?thesis using assms(2,4) Init_bsp p(3) by simp
next
  case (Start_ap c)
  then have "c \<in> set (b_response env)" using assms(3) by (simp add: may_run_def)
  then obtain cs where "init_ap_step gd (b_x86 env) (b_place env) (b_bsp env) c (processors s) = Inr cs"
    by (rule start_ap_result [OF assms(1,2)])
  then show ?thesis using assms(2,4) Start_ap by simp
next
  case Cpus_get_load
  then obtain c where c: "cpu_map (processors s) i = Some c" "ready_data c" using assms(4) by auto
  obtain r' where "cpu_info_load c (segments s i) = Inr r'" using ready_load [OF c(2)] by blast
  then show ?thesis using c(1) Cpus_get_load by simp
next
  case Acpi_init
  obtain c where "acpi_init (b_acpi env) (b_x86 env) (b_offset env) (b_rsdp env) (ACPI s) = Inr (Some (case ACPI s of Some c \<Rightarrow> c | None \<Rightarrow> c))"
    by (rule acpi_initialised [OF assms(1)])
  then show ?thesis using assms(4) Acpi_init by simp
next
  case Hpet_init
  then obtain c where c: "ACPI s = Some c" "hpet_reachable env (hpet_info c)" using assms(4,5) by (auto simp: shared_ok_def)
  obtain h w' where "hpet_start (phys_addr_new (b_x86 env)) (convert_physical_to_virtual (b_x86 env) (b_offset env)) (b_mmio env)
      (Some (hpet_info c)) (HPET s) (registers s) = Inr (h, True, w')" using hpet_started [OF c(2)] .
  then show ?thesis using c(1) Hpet_init by simp
next
  case User_init
  obtain m where "syscall_init (b_gdt env) (b_msr env) (b_x86 env) (b_handler env) (msrs s i) = Inr m"
    using assms(1) unfolding boot_env_ok_def by blast
  then show ?thesis using User_init by simp
qed (use assms(4) in \<open>auto simp: needing_def\<close>)

lemma simple_keeps:
  assumes "boot_op env i op s = Some (Inr s')" "op \<notin> {Init_bsp, Cpus_release, Cpus_write, Cpus_get_load, Acpi_init, Hpet_init, User_init}" "\<forall>c. op \<noteq> Start_ap c" "holds env s j f"
  shows "holds env s' j f"
  using assms by (cases op; cases f) (auto simp: needing_def split: if_splits)

lemma start_ap_keeps:
  assumes "boot_env_ok env" "b_gdt env = gd" "may_run env i (Start_ap c)" "boot_op env i (Start_ap c) s = Some (Inr s')" "holds env s j f"
  shows "holds env s' j f"
proof -
  have "c \<in> set (b_response env)" using assms(3) by (simp add: may_run_def)
  then obtain cs where cs: "init_ap_step gd (b_x86 env) (b_place env) (b_bsp env) c (processors s) = Inr cs"
    "\<And>j. (cpu_map cs j = cpu_map (processors s) j \<and> (cpu_id c \<noteq> b_bsp env \<longrightarrow> j \<noteq> cpu_lapic_id c)) \<or>
       (j = cpu_lapic_id c \<and> j \<noteq> b_bsp env \<and> (\<exists>d. cpu_map cs j = Some d \<and> ready_data d))"
    using start_ap_result [OF assms(1,2)] by metis
  have "\<exists>P. s' = s\<lparr>processors := cs, programs := P\<rparr>"
    using assms(2,4) cs(1) by (cases "heap_ready s") (simp_all, metis)
  then show ?thesis using cs(2) [of j] assms(5) by (cases f) auto
qed

lemma acpi_init_keeps:
  assumes "boot_env_ok env" "boot_op env i Acpi_init s = Some (Inr s')" "holds env s j f"
  shows "holds env s' j f"
proof -
  obtain c where "acpi_init (b_acpi env) (b_x86 env) (b_offset env) (b_rsdp env) (ACPI s) = Inr (Some (case ACPI s of Some c \<Rightarrow> c | None \<Rightarrow> c))"
    by (rule acpi_initialised [OF assms(1)])
  then have "s' = s\<lparr>ACPI := Some (case ACPI s of Some c \<Rightarrow> c | None \<Rightarrow> c)\<rparr>" using assms(2) by (cases "heap_ready s") simp_all
  then show ?thesis using assms(3) by (cases f) auto
qed

lemma hpet_init_result:
  assumes "boot_op env i Hpet_init s = Some (Inr s')"
  obtains h w where "s' = s\<lparr>HPET := h, registers := w, hpet_counting := True, HPET_INIT := True\<rparr>"
  using assms that by (auto simp: result_simps dest: hpet_start_flag)

lemma op_keeps:
  assumes "boot_env_ok env" "b_gdt env = gd" "may_run env i op" "\<forall>f \<in> needs op. holds env s i f"
    "boot_op env i op s = Some (Inr s')" "j \<noteq> i" "holds env s j f"
  shows "holds env s' j f"
proof (cases op)
  case (Start_ap c)
  then show ?thesis using start_ap_keeps [OF assms(1,2)] assms(3,5,7) by blast
next
  case Init_bsp
  then have p: "place_ok (b_x86 env) (b_place env i)" "cpu_map (processors s) i = Some (cpu_info_new gd (b_place env i))" "i = b_bsp env"
    using assms(1-4) by (simp_all add: boot_env_ok_def may_run_def)
  obtain d r' where "init_bsp gd (b_x86 env) i (processors s) (segments s i) = Inr ((processors s)\<lparr>cpu_map := (cpu_map (processors s))(i \<mapsto> d)\<rparr>, r')"
    by (rule bsp_initialised [OF p(1,2)])
  then have "s' = s\<lparr>processors := (processors s)\<lparr>cpu_map := (cpu_map (processors s))(i \<mapsto> d)\<rparr>, segments := (segments s)(i := r'),
      segments_loaded := insert i (segments_loaded s)\<rparr>"
    using assms(2,4,5) Init_bsp p(3) by (cases "cpus_lock s") simp_all
  then show ?thesis using assms(6,7) by (cases f) auto
next
  case Cpus_get_load
  then have "\<exists>r'. s' = s\<lparr>segments := (segments s)(i := r'), segments_loaded := insert i (segments_loaded s)\<rparr>"
    using assms(5) by (auto simp: result_simps split: if_splits)
  then show ?thesis using assms(6,7) by (cases f) auto
next
  case Cpus_write
  then show ?thesis using assms(5-7) by (cases f) (auto split: if_splits)
next
  case Cpus_release
  then show ?thesis using assms(4-7) by (cases f) auto
next
  case Acpi_init
  then show ?thesis using acpi_init_keeps [OF assms(1)] assms(5,7) by blast
next
  case Hpet_init
  obtain h w where "s' = s\<lparr>HPET := h, registers := w, hpet_counting := True, HPET_INIT := True\<rparr>"
    using hpet_init_result assms(5) Hpet_init by blast
  then show ?thesis using assms(7) by (cases f) auto
next
  case User_init
  then have "\<exists>m. s' = s\<lparr>msrs := (msrs s)(i := m), syscalls_on := insert i (syscalls_on s)\<rparr>"
    using assms(5) by (auto simp: result_simps)
  then show ?thesis using assms(6,7) by (cases f) auto
qed (use simple_keeps [OF assms(5) _ _ assms(7)] in auto)

lemma op_gives:
  assumes "boot_env_ok env" "b_gdt env = gd" "may_run env i op" "\<forall>f \<in> F. holds env s i f" "needs op \<subseteq> F"
    "boot_op env i op s = Some (Inr s')" "shared_ok env s"
  shows "\<forall>f \<in> gives op F. holds env s' i f"
proof (cases op)
  case (Start_ap c)
  then show ?thesis using start_ap_keeps [OF assms(1,2)] assms(3,4,6) by (simp del: boot_op.simps)
next
  case Init_bsp
  then have "\<forall>f \<in> {Heap, Fresh}. holds env s i f" using assms(4,5) by auto
  then have p: "place_ok (b_x86 env) (b_place env i)" "cpu_map (processors s) i = Some (cpu_info_new gd (b_place env i))" "i = b_bsp env" "heap_ready s"
    using assms(1,2) by (auto simp: boot_env_ok_def)
  obtain d r' where d: "init_bsp gd (b_x86 env) i (processors s) (segments s i) = Inr ((processors s)\<lparr>cpu_map := (cpu_map (processors s))(i \<mapsto> d)\<rparr>, r')"
    "ready_data d" "seg_cs r' = 0x08" "seg_ss r' = 0x10" "task_register r' = 0x28"
    by (rule bsp_initialised [OF p(1,2)])
  then have "s' = s\<lparr>processors := (processors s)\<lparr>cpu_map := (cpu_map (processors s))(i \<mapsto> d)\<rparr>, segments := (segments s)(i := r'),
      segments_loaded := insert i (segments_loaded s)\<rparr>"
    using assms(2,6) Init_bsp p(3,4) by (cases "cpus_lock s") simp_all
  moreover have "holds env s i f \<Longrightarrow> f \<noteq> Fresh \<Longrightarrow> holds env s' i f" for f using calculation d(2-5) by (cases f) auto
  ultimately show ?thesis using assms(4) d(2-5) Init_bsp by auto
next
  case Cpus_get_load
  then have "holds env s i Data" using assms(4,5) by auto
  then obtain c where c: "cpu_map (processors s) i = Some c" "ready_data c" by auto
  obtain r' where r': "cpu_info_load c (segments s i) = Inr r'" "seg_cs r' = 0x08" "seg_ss r' = 0x10" "task_register r' = 0x28"
    using ready_load [OF c(2)] by blast
  then have "s' = s\<lparr>segments := (segments s)(i := r'), segments_loaded := insert i (segments_loaded s)\<rparr>"
    using assms(6) c(1) Cpus_get_load by (cases "cpus_lock s") simp_all
  moreover have "holds env s i f \<Longrightarrow> holds env s' i f" for f using calculation r'(2-4) by (cases f) auto
  ultimately show ?thesis using assms(4) r'(2-4) Cpus_get_load by auto
next
  case Cpus_write
  then have s': "s' = s\<lparr>cpus_lock := Some i\<rparr>" using assms(6) by (cases "cpus_lock s") simp_all
  have "holds env s i f \<Longrightarrow> holds env s' i f" for f using s' by (cases f) auto
  then show ?thesis using assms(4) Cpus_write s' by auto
next
  case Cpus_release
  then have s': "s' = s\<lparr>cpus_lock := None\<rparr>" using assms(6) by simp
  have "holds env s i f \<Longrightarrow> f \<noteq> Lock \<Longrightarrow> holds env s' i f" for f using s' by (cases f) auto
  then show ?thesis using assms(4) Cpus_release by auto
next
  case Acpi_init
  obtain c where c: "acpi_init (b_acpi env) (b_x86 env) (b_offset env) (b_rsdp env) (ACPI s) = Inr (Some (case ACPI s of Some c \<Rightarrow> c | None \<Rightarrow> c))"
    by (rule acpi_initialised [OF assms(1)])
  then have "holds env s' i Acpi_tables" using assms(6) Acpi_init by (cases "heap_ready s") auto
  then show ?thesis using acpi_init_keeps [OF assms(1)] assms(4,6) Acpi_init by (simp del: boot_op.simps)
next
  case Hpet_init
  obtain h w where s': "s' = s\<lparr>HPET := h, registers := w, hpet_counting := True, HPET_INIT := True\<rparr>"
    using hpet_init_result assms(6) Hpet_init by blast
  then have "holds env s i f \<Longrightarrow> holds env s' i f" for f by (cases f) auto
  moreover have "holds env s' i Hpet" using s' by simp
  ultimately show ?thesis using assms(4) Hpet_init by (simp del: holds.simps)
next
  case User_init
  then obtain m where m: "syscall_init (b_gdt env) (b_msr env) (b_x86 env) (b_handler env) (msrs s i) = Inr m"
    "s' = s\<lparr>msrs := (msrs s)(i := m), syscalls_on := insert i (syscalls_on s)\<rparr>" using assms(6) by (auto simp: result_simps)
  then have "holds env s i f \<Longrightarrow> holds env s' i f" for f by (cases f) auto
  moreover have "holds env s' i Syscalls" using m by auto
  ultimately show ?thesis using assms(4) User_init by (simp del: holds.simps)
qed (use simple_keeps [OF assms(6), of i] assms(4,6,7) in \<open>auto simp: needing_def shared_ok_def split: if_splits\<close>)

lemma op_shared:
  assumes "boot_env_ok env" "boot_op env i op s = Some (Inr s')" "shared_ok env s"
  shows "shared_ok env s'"
proof (cases op)
  case Acpi_init
  obtain c where c: "acpi_init (b_acpi env) (b_x86 env) (b_offset env) (b_rsdp env) (ACPI s) = Inr (Some (case ACPI s of Some c \<Rightarrow> c | None \<Rightarrow> c))"
    "hpet_reachable env (hpet_info c)" by (rule acpi_initialised [OF assms(1)])
  then have "s' = s\<lparr>ACPI := Some (case ACPI s of Some c \<Rightarrow> c | None \<Rightarrow> c)\<rparr>" using assms(2) Acpi_init by (cases "heap_ready s") simp_all
  then show ?thesis using assms(3) c(2) by (cases "ACPI s") (auto simp: shared_ok_def)
next
  case Hpet_init
  obtain h w where "s' = s\<lparr>HPET := h, registers := w, hpet_counting := True, HPET_INIT := True\<rparr>"
    using hpet_init_result assms(2) Hpet_init by blast
  then show ?thesis using assms(3) by (simp add: shared_ok_def)
qed (use assms(2,3) in \<open>auto simp: shared_ok_def needing_def result_simps split: if_splits prod.splits\<close>)

end

text \<open>What a call does to the flags, the lock, the table of processors and the programs.\<close>

lemma op_flags:
  assumes "boot_op env i op s = Some (Inr s')"
  shows "HPET_INIT s' \<longleftrightarrow> HPET_INIT s \<or> op = Hpet_init" "hpet_counting s' \<longleftrightarrow> hpet_counting s \<or> op = Hpet_init"
    "SCHEDULER_INIT s' \<longleftrightarrow> SCHEDULER_INIT s \<or> op = Scheduler_init" "START_SCHEDULE s' \<longleftrightarrow> START_SCHEDULE s \<or> op = Store_start_schedule"
    "irq_enabled s' = irq_enabled s \<union> (if op = Enable_interrupts then {i} else {})"
    "cpus_lock s' = (if op = Cpus_write then Some i else if op = Cpus_release then None else cpus_lock s)"
  using assms by (cases op; auto simp: needing_def result_simps split: if_splits prod.splits dest: hpet_start_flag)+

lemma init_bsp_started: "init_bsp gd x bsp q r = Inr (cs, r') \<Longrightarrow> started cs = started q"
  by (auto simp: init_bsp_def result_simps)

definition starts :: "('g, 'm, 't, 'w) boot_env \<Rightarrow> BootOp \<Rightarrow> u32 set" where
  "starts env op = (case op of Start_ap c \<Rightarrow> if cpu_id c = b_bsp env then {} else {cpu_lapic_id c} | _ \<Rightarrow> {})"

lemma op_starts:
  assumes "boot_op env i op s = Some (Inr s')"
  shows "started (processors s') = started (processors s) \<union> starts env op"
    "programs s' j = (if j \<in> starts env op - started (processors s) then ap_entry else programs s j)"
  using assms
  by (cases op; auto simp: needing_def result_simps starts_def init_ap_step_def split: if_splits prod.splits dest: init_bsp_started)+

text \<open>A call is held up only by the lock or by a flag.\<close>

lemma op_blocked:
  assumes "boot_op env i op s = None"
  shows "takes_lock op \<and> cpus_lock s \<noteq> None \<or> op = Wait_hpet_init \<and> \<not> HPET_INIT s \<or> op = Wait_scheduler_init \<and> \<not> SCHEDULER_INIT s \<or>
    op = Wait_start_schedule \<and> \<not> START_SCHEDULE s"
  using assms by (cases op) (auto simp: needing_def takes_lock_def split: if_splits)

section \<open>The invariant\<close>

text \<open>Every program is typed for facts that hold, and runs only on the processor it is meant for.\<close>

definition programs_typed :: "('g, 'm, 't, 'w) boot_env \<Rightarrow> ('g, 'm, 'w) boot_machine \<Rightarrow> bool" where
  "programs_typed env s \<longleftrightarrow>
     (\<forall>i. \<exists>F. typed F (programs s i) \<and> (\<forall>f \<in> F. holds env s i f) \<and> (cpus_lock s = Some i \<longrightarrow> Lock \<in> F)) \<and>
     (\<forall>i. \<forall>op \<in> set (programs s i). may_run env i op) \<and> shared_ok env s"

text \<open>Which processors are started, and that only the boot processor ever holds the lock.\<close>

definition processors_inv :: "('g, 'm, 't, 'w) boot_env \<Rightarrow> ('g, 'm, 'w) boot_machine \<Rightarrow> bool" where
  "processors_inv env s \<longleftrightarrow> (cpus_lock s = None \<or> cpus_lock s = Some (b_bsp env)) \<and>
     b_bsp env \<notin> started (processors s) \<and> started (processors s) \<subseteq> others (b_bsp env) (b_response env) \<and>
     (\<forall>i. i \<notin> insert (b_bsp env) (started (processors s)) \<longrightarrow> programs s i = []) \<and>
     (b_smp env \<longrightarrow> (\<forall>c \<in> set (b_response env). cpu_id c \<noteq> b_bsp env \<longrightarrow>
        Start_ap c \<in> set (programs s (b_bsp env)) \<or> cpu_lapic_id c \<in> started (processors s))) \<and>
     (\<not> b_smp env \<longrightarrow> started (processors s) = {} \<and> (\<forall>c. Start_ap c \<notin> set (programs s (b_bsp env))))"

text \<open>What is not done yet is still in a program, and interrupts are on only where everything is set up.\<close>

definition flags_inv :: "('g, 'm, 't, 'w) boot_env \<Rightarrow> ('g, 'm, 'w) boot_machine \<Rightarrow> bool" where
  "flags_inv env s \<longleftrightarrow>
     (Hpet_init \<in> set (programs s (b_bsp env)) \<or> HPET_INIT s) \<and>
     (Scheduler_init \<in> set (programs s (b_bsp env)) \<or> SCHEDULER_INIT s) \<and>
     (Store_start_schedule \<in> set (programs s (b_bsp env)) \<or> START_SCHEDULE s) \<and>
     (\<forall>i \<in> insert (b_bsp env) (started (processors s)). Enable_interrupts \<in> set (programs s i) \<or> i \<in> irq_enabled s) \<and>
     (\<forall>i \<in> irq_enabled s. i \<in> insert (b_bsp env) (started (processors s)) \<and> (\<forall>f \<in> needs Enable_interrupts. holds env s i f))"

lemma next_opE:
  assumes "next_op env i s = Some (Inr s')"
  obtains op ops where "programs s i = op # ops" "boot_op env i op (s\<lparr>programs := (programs s)(i := ops)\<rparr>) = Some (Inr s')"
  using assms by (auto simp: next_op_def split: list.splits)

lemma may_run_ap: "i \<noteq> b_bsp env \<Longrightarrow> \<forall>op \<in> set ap_entry. may_run env i op"
  by (simp add: ap_entry_def may_run_def)

lemma next_op_None:
  assumes "programs s i = op # ops" "next_op env i s = None"
  shows "takes_lock op \<and> cpus_lock s \<noteq> None \<or> op = Wait_hpet_init \<and> \<not> HPET_INIT s \<or> op = Wait_scheduler_init \<and> \<not> SCHEDULER_INIT s \<or>
    op = Wait_start_schedule \<and> \<not> START_SCHEDULE s"
  using assms by (auto simp: next_op_def dest: op_blocked)

lemma bsp_not_held:
  assumes "programs_typed env s" "processors_inv env s" "programs s (b_bsp env) \<noteq> []"
  shows "next_op env (b_bsp env) s \<noteq> None"
proof
  let ?b = "b_bsp env"
  assume n: "next_op env ?b s = None"
  obtain op ops where o: "programs s ?b = op # ops" using assms(3) by (cases "programs s ?b") auto
  have run: "may_run env ?b op" using assms(1) o by (auto simp: programs_typed_def)
  obtain F where F: "typed F (op # ops)" "cpus_lock s = Some ?b \<longrightarrow> Lock \<in> F" using assms(1) o by (metis programs_typed_def)
  have "takes_lock op \<longrightarrow> cpus_lock s = None" using F assms(2) by (auto simp: processors_inv_def)
  moreover have "op \<notin> {Wait_hpet_init, Wait_scheduler_init, Wait_start_schedule}" using run by (auto simp: may_run_def)
  ultimately show False using next_op_None [OF o n] by auto
qed

lemma started_here:
  assumes "may_run env i op" "boot_env_ok env" "j \<in> starts env op"
  shows "i = b_bsp env" "j \<noteq> b_bsp env" "j \<in> others (b_bsp env) (b_response env)"
  using assms by (auto simp: may_run_def starts_def boot_env_ok_def others_def split: BootOp.splits if_splits)

context gdt_table
begin

lemma start_ap_data:
  assumes "boot_env_ok env" "b_gdt env = gd" "may_run env i op" "boot_op env i op s = Some (Inr s')" "j \<in> starts env op"
  shows "holds env s' j Data"
proof -
  obtain c where c: "op = Start_ap c" "j = cpu_lapic_id c" "cpu_id c \<noteq> b_bsp env"
    using assms(5) by (auto simp: starts_def split: BootOp.splits if_splits)
  then have "c \<in> set (b_response env)" using assms(3) by (simp add: may_run_def)
  then obtain cs where cs: "init_ap_step gd (b_x86 env) (b_place env) (b_bsp env) c (processors s) = Inr cs"
    "\<exists>d. cpu_map cs j = Some d \<and> ready_data d"
    using start_ap_result [OF assms(1,2), of c "processors s"] c(2,3) by metis
  have "processors s' = cs" using assms(2,4) cs(1) c(1) by (cases "heap_ready s") auto
  then show ?thesis using cs(2) by simp
qed

lemma typed_step:
  assumes env: "boot_env_ok env" "b_gdt env = gd" and inv: "programs_typed env s" "processors_inv env s"
    and step: "next_op env i s = Some (Inr s')"
  shows "programs_typed env s'"
proof -
  obtain op ops where o: "programs s i = op # ops" "boot_op env i op (s\<lparr>programs := (programs s)(i := ops)\<rparr>) = Some (Inr s')"
    using step by (rule next_opE)
  let ?s = "s\<lparr>programs := (programs s)(i := ops)\<rparr>"
  have run: "may_run env i op" "shared_ok env s" using inv(1) o(1) by (auto simp: programs_typed_def)
  obtain F where F: "typed F (op # ops)" "\<forall>f \<in> F. holds env s i f" "cpus_lock s = Some i \<longrightarrow> Lock \<in> F"
    using inv(1) o(1) by (metis programs_typed_def)
  have nF: "needs op \<subseteq> F" "typed (gives op F) ops" using F(1) by simp_all
  have needs: "\<forall>f \<in> needs op. holds env ?s i f" and hF: "\<forall>f \<in> F. holds env ?s i f" using F(2) nF(1) by auto
  have keep: "holds env s j f \<Longrightarrow> holds env s' j f" if "j \<noteq> i" for j f
    using op_keeps [OF env run(1) needs o(2) that] by simp
  have give: "\<forall>f \<in> gives op F. holds env s' i f" by (rule op_gives [OF env run(1) hF nF(1) o(2)]) (simp add: run(2))
  note fl = op_flags [OF o(2)] and st = op_starts [OF o(2)]
  have "\<exists>G. typed G (programs s' j) \<and> (\<forall>f \<in> G. holds env s' j f) \<and> (cpus_lock s' = Some j \<longrightarrow> Lock \<in> G)" for j
  proof (cases "j \<in> starts env op - started (processors s)")
    case True
    then have j: "i = b_bsp env" "j \<noteq> b_bsp env" using started_here [OF run(1) env(1)] by blast+
    have "\<exists>c. op = Start_ap c" using True by (auto simp: starts_def split: BootOp.splits)
    then have "{Heap, Acpi_tables, Lock} \<subseteq> F" "\<not> takes_lock op" "gives op F = F" using nF(1) by (auto simp: takes_lock_def)
    then have "holds env s i Heap" "holds env s i Acpi_tables" using F(2) by auto
    then have "holds env s j Heap" "holds env s j Acpi_tables" by simp_all
    then have "\<forall>f \<in> {Heap, Acpi_tables, Data}. holds env s' j f"
      using keep [of j] j start_ap_data [OF env run(1) o(2), of j] True by blast
    moreover have "cpus_lock s' \<noteq> Some j" using inv(2) fl(6) j \<open>\<exists>c. op = Start_ap c\<close> by (auto simp: processors_inv_def)
    ultimately show ?thesis using ap_entry_typed st(2) [of j] True by auto
  next
    case False
    then have pj: "programs s' j = (if j = i then ops else programs s j)" using st(2) [of j] by auto
    show ?thesis
    proof (cases "j = i")
      case True
      have "cpus_lock s' = Some i \<longrightarrow> Lock \<in> gives op F"
        using fl(6) F(3) by (cases op) auto
      then show ?thesis using give nF(2) pj True by auto
    next
      case other: False
      obtain G where G: "typed G (programs s j)" "\<forall>f \<in> G. holds env s j f" "cpus_lock s = Some j \<longrightarrow> Lock \<in> G"
        using inv(1) by (metis programs_typed_def)
      have "cpus_lock s' = Some j \<longrightarrow> Lock \<in> G" using G(3) fl(6) other by (auto split: if_splits)
      then show ?thesis using G keep other pj by auto
    qed
  qed
  moreover have "\<forall>op \<in> set (programs s' j). may_run env j op" for j
  proof -
    have "\<forall>op \<in> set (programs s j). may_run env j op" using inv(1) by (simp add: programs_typed_def)
    moreover have "j \<in> starts env op \<Longrightarrow> j \<noteq> b_bsp env" using started_here [OF run(1) env(1)] by blast
    ultimately show ?thesis using st(2) [of j] o(1) may_run_ap [of j env] by (auto split: if_splits)
  qed
  moreover have "shared_ok env s'" by (rule op_shared [OF env(1) o(2)]) (simp add: run(2))
  ultimately show ?thesis unfolding programs_typed_def by blast
qed

lemma processors_step:
  assumes env: "boot_env_ok env" and inv: "programs_typed env s" "processors_inv env s" and step: "next_op env i s = Some (Inr s')"
  shows "processors_inv env s'"
proof -
  obtain op ops where o: "programs s i = op # ops" "boot_op env i op (s\<lparr>programs := (programs s)(i := ops)\<rparr>) = Some (Inr s')"
    using step by (rule next_opE)
  have run: "may_run env i op" using inv(1) o(1) by (auto simp: programs_typed_def)
  note st = op_starts [OF o(2), simplified] and here = started_here [OF run env]
  have "cpus_lock s' = None \<or> cpus_lock s' = Some (b_bsp env)"
    using op_flags(6) [OF o(2)] inv(2) run by (auto simp: processors_inv_def may_run_def)
  moreover have "b_bsp env \<notin> started (processors s')" "started (processors s') \<subseteq> others (b_bsp env) (b_response env)"
    using st(1) here inv(2) by (auto simp: processors_inv_def)
  moreover have "programs s' j = []" if "j \<notin> insert (b_bsp env) (started (processors s'))" for j
  proof -
    have "j \<notin> starts env op" "programs s j = []" using that st(1) inv(2) by (auto simp: processors_inv_def)
    then show ?thesis using st(2) [of j] o(1) by auto
  qed
  moreover have bsp: "programs s' (b_bsp env) = (if i = b_bsp env then ops else programs s (b_bsp env))" using st(2) [of "b_bsp env"] here by auto
  moreover have "Start_ap c \<in> set (programs s' (b_bsp env)) \<or> cpu_lapic_id c \<in> started (processors s')"
    if "b_smp env" "c \<in> set (b_response env)" "cpu_id c \<noteq> b_bsp env" for c
  proof -
    have "Start_ap c \<in> set (programs s (b_bsp env)) \<or> cpu_lapic_id c \<in> started (processors s)"
      using inv(2) that by (auto simp: processors_inv_def)
    moreover have "op = Start_ap c \<Longrightarrow> cpu_lapic_id c \<in> starts env op" using that(3) by (simp add: starts_def)
    ultimately show ?thesis using st(1) o(1) bsp by auto
  qed
  moreover have "started (processors s') = {} \<and> (\<forall>c. Start_ap c \<notin> set (programs s' (b_bsp env)))" if "\<not> b_smp env"
  proof -
    have "\<forall>c. Start_ap c \<notin> set (programs s (b_bsp env))" "started (processors s) = {}" using inv(2) that by (simp_all add: processors_inv_def)
    moreover from this have "starts env op = {}" using o(1) here(1) by (auto simp: starts_def split: BootOp.splits if_splits)
    ultimately show ?thesis using st(1) bsp o(1) by auto
  qed
  ultimately show ?thesis unfolding processors_inv_def by blast
qed

lemma flags_step:
  assumes env: "boot_env_ok env" "b_gdt env = gd" and inv: "programs_typed env s" "processors_inv env s" "flags_inv env s"
    and step: "next_op env i s = Some (Inr s')"
  shows "flags_inv env s'"
proof -
  obtain op ops where o: "programs s i = op # ops" "boot_op env i op (s\<lparr>programs := (programs s)(i := ops)\<rparr>) = Some (Inr s')"
    using step by (rule next_opE)
  let ?s = "s\<lparr>programs := (programs s)(i := ops)\<rparr>" and ?E = "needs Enable_interrupts"
  have run: "may_run env i op" using inv(1) o(1) by (auto simp: programs_typed_def)
  obtain F where F: "typed F (op # ops)" "\<forall>f \<in> F. holds env s i f" using inv(1) o(1) by (metis programs_typed_def)
  have needs: "\<forall>f \<in> needs op. holds env ?s i f" using F by auto
  note st = op_starts [OF o(2), simplified] and here = started_here [OF run env(1)] and fl = op_flags [OF o(2), simplified]
  have bsp: "programs s' (b_bsp env) = (if i = b_bsp env then ops else programs s (b_bsp env))" using st(2) [of "b_bsp env"] here by auto
  have own: "op \<in> {Hpet_init, Scheduler_init, Store_start_schedule} \<Longrightarrow> i = b_bsp env" using run by (auto simp: may_run_def)
  have "(Hpet_init \<in> set (programs s' (b_bsp env)) \<or> HPET_INIT s') \<and> (Scheduler_init \<in> set (programs s' (b_bsp env)) \<or> SCHEDULER_INIT s') \<and>
      (Store_start_schedule \<in> set (programs s' (b_bsp env)) \<or> START_SCHEDULE s')"
    using inv(3) fl(1,3,4) bsp own o(1) by (auto simp: flags_inv_def)
  moreover have "Enable_interrupts \<in> set (programs s' j) \<or> j \<in> irq_enabled s'" if "j \<in> insert (b_bsp env) (started (processors s'))" for j
  proof (cases "j \<in> starts env op - started (processors s)")
    case True
    then show ?thesis using st(2) [of j] by (simp add: ap_entry_def)
  next
    case False
    then have "Enable_interrupts \<in> set (programs s j) \<or> j \<in> irq_enabled s" using that st(1) inv(3) by (auto simp: flags_inv_def)
    then show ?thesis using st(2) [of j] False o(1) fl(5) by (cases "j = i") auto
  qed
  moreover have "j \<in> insert (b_bsp env) (started (processors s')) \<and> (\<forall>f \<in> ?E. holds env s' j f)" if j: "j \<in> irq_enabled s'" for j
  proof -
    have "(\<forall>f \<in> ?E. holds env s j f) \<and> j \<in> insert (b_bsp env) (started (processors s))"
    proof -
      have "j \<in> irq_enabled s \<or> j = i \<and> op = Enable_interrupts" using j fl(5) by (auto split: if_splits)
      moreover have "i \<in> insert (b_bsp env) (started (processors s))" using inv(2) o(1) by (auto simp: processors_inv_def)
      moreover have "op = Enable_interrupts \<Longrightarrow> \<forall>f \<in> ?E. holds env s i f" using F by (metis subsetD typed.simps(2))
      moreover have "\<forall>j \<in> irq_enabled s. j \<in> insert (b_bsp env) (started (processors s)) \<and> (\<forall>f \<in> ?E. holds env s j f)"
        using inv(3) unfolding flags_inv_def by blast
      ultimately show ?thesis by blast
    qed
    moreover have "holds env s' j f" if "holds env s j f" "f \<in> ?E" for f
    proof (cases "j = i")
      case True
      have g: "\<forall>g \<in> insert f F. holds env ?s i g" "needs op \<subseteq> insert f F" using that(1) True F by auto
      have h: "shared_ok env ?s" using inv(1) by (simp add: programs_typed_def)
      have "\<forall>g \<in> gives op (insert f F). holds env s' i g" by (rule op_gives [OF env run g o(2) h])
      moreover have "f \<in> gives op (insert f F)" using that(2) by (cases op) auto
      ultimately show ?thesis using True by blast
    qed (use op_keeps [OF env run needs o(2)] that(1) in simp)
    ultimately show ?thesis using st(1) by blast
  qed
  ultimately show ?thesis unfolding flags_inv_def by blast
qed

text \<open>The invariant holds at power-on, so in every state that a run reaches.\<close>

lemma inv_init:
  assumes "b_gdt env = gd"
  shows "programs_typed env (powered_on env regs m0 w0)" "processors_inv env (powered_on env regs m0 w0)" "flags_inv env (powered_on env regs m0 w0)"
proof -
  let ?b = "b_bsp env" and ?p = "init_framework (b_smp env) (b_response env) @ start_schedule"
  have "typed {} []" by simp
  moreover have "holds env (powered_on env regs m0 w0) ?b Fresh" using assms by (simp add: powered_on_def cpus_new_def)
  ultimately have "\<exists>F. typed F (programs (powered_on env regs m0 w0) i) \<and> (\<forall>f \<in> F. holds env (powered_on env regs m0 w0) i f)" for i
    using boot_program_typed by (cases "i = ?b") (auto simp: powered_on_def intro: exI [of _ "{Fresh}"] exI [of _ "{}"])
  moreover have "\<forall>op \<in> set ?p. may_run env ?b op" by (auto simp: init_framework_def init_ap_ops_def start_schedule_def may_run_def split: if_splits)
  ultimately show "programs_typed env (powered_on env regs m0 w0)" by (auto simp: programs_typed_def powered_on_def shared_ok_def)
  show "processors_inv env (powered_on env regs m0 w0)"
    by (auto simp: processors_inv_def powered_on_def cpus_new_def init_framework_def init_ap_ops_def start_schedule_def)
  show "flags_inv env (powered_on env regs m0 w0)"
    by (simp add: flags_inv_def powered_on_def cpus_new_def init_framework_def start_schedule_def)
qed

lemma reachable_inv:
  assumes "boot_env_ok env" "b_gdt env = gd" "(boot_step env)\<^sup>*\<^sup>* (powered_on env regs m0 w0) s"
  shows "programs_typed env s \<and> processors_inv env s \<and> flags_inv env s"
  using assms(3)
proof (induction rule: rtranclp_induct)
  case base
  show ?case using inv_init [OF assms(2)] by blast
next
  case (step s s')
  from step.hyps(2) obtain i where "next_op env i s = Some (Inr s')" by (auto elim: boot_stepE)
  then show ?case using step.IH typed_step [OF assms(1,2)] processors_step [OF assms(1)] flags_step [OF assms(1,2)] by blast
qed

text \<open>A call that has what it needs does not panic, and in a reachable state somebody can always go on.\<close>

lemma never_panics:
  assumes env: "boot_env_ok env" "b_gdt env = gd" and inv: "programs_typed env s"
  shows "next_op env i s \<noteq> Some (Inl e)"
proof (cases "programs s i")
  case Nil
  then show ?thesis by (simp add: next_op_def)
next
  case (Cons op ops)
  let ?s = "s\<lparr>programs := (programs s)(i := ops)\<rparr>"
  have run: "may_run env i op" using inv Cons by (auto simp: programs_typed_def)
  obtain F where F: "typed F (op # ops)" "\<forall>f \<in> F. holds env s i f" using inv Cons by (metis programs_typed_def)
  then have "\<forall>f \<in> needs op. holds env ?s i f" by auto
  moreover have "shared_ok env ?s" using inv by (simp add: programs_typed_def)
  ultimately show ?thesis using op_progress [OF env run, of ?s] Cons by (auto simp: next_op_def)
qed

lemma someone_runs:
  assumes env: "boot_env_ok env" "b_gdt env = gd" and inv: "programs_typed env s" "processors_inv env s" "flags_inv env s"
    and busy: "programs s j \<noteq> []"
  shows "\<exists>i s'. next_op env i s = Some (Inr s')"
proof -
  have ok: "next_op env i s = None \<or> (\<exists>s'. next_op env i s = Some (Inr s'))" for i
    using never_panics [OF env inv(1), of i] by (cases "next_op env i s") (auto, metis sum.exhaust_sel)
  show ?thesis
  proof (cases "programs s (b_bsp env)")
    case (Cons op ops)
    then show ?thesis using bsp_not_held [OF inv(1,2)] ok [of "b_bsp env"] by auto
  next
    case Nil
    obtain F where "typed F []" "cpus_lock s = Some (b_bsp env) \<longrightarrow> Lock \<in> F" using inv(1) Nil by (metis programs_typed_def)
    then have "cpus_lock s = None" using inv(2) by (auto simp: processors_inv_def)
    moreover have "HPET_INIT s" "SCHEDULER_INIT s" "START_SCHEDULE s" using inv(3) Nil by (simp_all add: flags_inv_def)
    moreover obtain op ops where o: "programs s j = op # ops" using busy by (cases "programs s j") auto
    ultimately have "next_op env j s \<noteq> None" by (intro notI) (drule next_op_None [OF o], auto)
    then show ?thesis using ok [of j] by metis
  qed
qed

end

text \<open>
  Who waits for whom: the boot processor never waits, what another processor waits for is ahead of the boot
  processor, and what holds when no calls are left.
\<close>

lemma typed_lock_released: "typed F ops \<Longrightarrow> Lock \<in> F \<Longrightarrow> Cpus_release \<in> set ops"
proof (induction ops arbitrary: F)
  case (Cons op ops)
  then show ?case by (cases op) (auto dest: Cons.IH)
qed simp

lemma held_up:
  assumes "programs_typed env s" "processors_inv env s" "flags_inv env s" "programs s i = op # ops" "next_op env i s = None"
  shows "i \<in> started (processors s) \<and> i \<noteq> b_bsp env \<and>
    (op = Cpus_get_load \<and> cpus_lock s = Some (b_bsp env) \<and> Cpus_release \<in> set (programs s (b_bsp env)) \<or>
     op = Wait_hpet_init \<and> \<not> HPET_INIT s \<and> Hpet_init \<in> set (programs s (b_bsp env)) \<or>
     op = Wait_scheduler_init \<and> \<not> SCHEDULER_INIT s \<and> Scheduler_init \<in> set (programs s (b_bsp env)) \<or>
     op = Wait_start_schedule \<and> \<not> START_SCHEDULE s \<and> Store_start_schedule \<in> set (programs s (b_bsp env)))"
proof -
  let ?b = "b_bsp env"
  have i: "i \<noteq> ?b" using bsp_not_held [OF assms(1,2)] assms(4,5) by auto
  then have st: "i \<in> started (processors s)" using assms(2,4) by (auto simp: processors_inv_def)
  have "may_run env i op" using assms(1,4) by (auto simp: programs_typed_def)
  then have "takes_lock op \<Longrightarrow> op = Cpus_get_load" using i by (auto simp: takes_lock_def may_run_def)
  moreover have "Cpus_release \<in> set (programs s ?b)" if "cpus_lock s = Some ?b"
  proof -
    obtain F where "typed F (programs s ?b)" "cpus_lock s = Some ?b \<longrightarrow> Lock \<in> F" using assms(1) by (metis programs_typed_def)
    then show ?thesis using that typed_lock_released by blast
  qed
  moreover have "cpus_lock s = None \<or> cpus_lock s = Some ?b" using assms(2) by (simp add: processors_inv_def)
  moreover have "Hpet_init \<in> set (programs s ?b) \<or> HPET_INIT s" "Scheduler_init \<in> set (programs s ?b) \<or> SCHEDULER_INIT s"
    "Store_start_schedule \<in> set (programs s ?b) \<or> START_SCHEDULE s" using assms(3) by (simp_all add: flags_inv_def)
  ultimately show ?thesis using i st next_op_None [OF assms(4,5)] by (elim disjE conjE) simp_all
qed

lemma all_done:
  assumes "programs_typed env s" "processors_inv env s" "flags_inv env s" "\<forall>i. programs s i = []"
  shows "cpus_lock s = None \<and> irq_enabled s = insert (b_bsp env) (started (processors s)) \<and>
    started (processors s) = (if b_smp env then others (b_bsp env) (b_response env) else {})"
proof -
  obtain F where "typed F []" "cpus_lock s = Some (b_bsp env) \<longrightarrow> Lock \<in> F" using assms(1,4) by (metis programs_typed_def)
  then have "cpus_lock s = None" using assms(2) by (auto simp: processors_inv_def)
  moreover have "irq_enabled s = insert (b_bsp env) (started (processors s))" using assms(3,4) by (auto simp: flags_inv_def)
  moreover have "started (processors s) = (if b_smp env then others (b_bsp env) (b_response env) else {})"
    using assms(2,4) by (auto simp: processors_inv_def others_def)
  ultimately show ?thesis by blast
qed

text \<open>The calls left: starting a processor adds its ten calls, which the weight of the boot processor's calls covers.\<close>

definition calls_left :: "('g, 'm, 't, 'w) boot_env \<Rightarrow> ('g, 'm, 'w) boot_machine \<Rightarrow> nat" where
  "calls_left env s = 12 * length (programs s (b_bsp env)) + (\<Sum>i \<in> others (b_bsp env) (b_response env). length (programs s i))"

lemma finite_others: "finite (others b r)"
  by (simp add: others_def setcompr_eq_image)

lemma others_bsp: "boot_env_ok env \<Longrightarrow> b_bsp env \<notin> others (b_bsp env) (b_response env)"
  by (auto simp: boot_env_ok_def others_def)

lemma calls_decrease:
  assumes env: "boot_env_ok env" and inv: "programs_typed env s" "processors_inv env s" and step: "next_op env i s = Some (Inr s')"
  shows "calls_left env s' < calls_left env s"
proof -
  let ?b = "b_bsp env" and ?O = "others (b_bsp env) (b_response env)"
  obtain op ops where o: "programs s i = op # ops" "boot_op env i op (s\<lparr>programs := (programs s)(i := ops)\<rparr>) = Some (Inr s')"
    using step by (rule next_opE)
  have run: "may_run env i op" using inv(1) o(1) by (auto simp: programs_typed_def)
  note st = op_starts [OF o(2), simplified] and here = started_here [OF run env] and fin = finite_others [of ?b "b_response env"]
  have bsp: "programs s' ?b = (if i = ?b then ops else programs s ?b)" using st(2) [of ?b] here by auto
  show ?thesis
  proof (cases "i = ?b")
    case True
    obtain j where j: "starts env op \<subseteq> {j}" 
      by (rule that [of "case op of Start_ap c \<Rightarrow> cpu_lapic_id c | _ \<Rightarrow> 0"]) (simp add: starts_def split: BootOp.split)
    have "length (programs s' k) \<le> length (programs s k) + (if k = j then 10 else 0)" if "k \<in> ?O" for k
    proof -
      have "k \<noteq> i" using that True others_bsp [OF env] by auto
      then show ?thesis using st(2) [of k] j by (auto simp: ap_entry_def)
    qed
    then have "(\<Sum>k \<in> ?O. length (programs s' k)) \<le> (\<Sum>k \<in> ?O. length (programs s k) + (if k = j then 10 else 0))" by (rule sum_mono)
    also have "\<dots> \<le> (\<Sum>k \<in> ?O. length (programs s k)) + 10" using fin by (simp add: sum.distrib sum.delta)
    finally show ?thesis using bsp o(1) True by (simp add: calls_left_def)
  next
    case False
    then have none: "starts env op = {}" using here(1) by blast
    then have p: "programs s' k = (if k = i then ops else programs s k)" for k using st(2) [of k] by simp
    have "i \<in> ?O" using inv(2) o(1) False by (auto simp: processors_inv_def)
    then have "(\<Sum>k \<in> ?O. length (programs s' k)) < (\<Sum>k \<in> ?O. length (programs s k))"
      using fin o(1) by (intro sum_strict_mono_ex1) (auto simp: p)
    then show ?thesis using bsp False by (simp add: calls_left_def)
  qed
qed

lemma boot_runs:
  assumes "gdt_table (b_gdt env) used" "boot_env_ok env" "(boot_step env ^^ n) (powered_on env regs m0 w0) s"
  shows "n \<le> 12 * length (init_framework (b_smp env) (b_response env) @ start_schedule) \<and>
    ((\<exists>s'. boot_step env s s') \<or> (\<forall>i. programs s i = []) \<and> cpus_lock s = None \<and>
       irq_enabled s = insert (b_bsp env) (started (processors s)) \<and>
       started (processors s) = (if b_smp env then {cpu_lapic_id c | c. c \<in> set (b_response env) \<and> cpu_id c \<noteq> b_bsp env} else {}))"
proof -
  have reach: "(boot_step env)\<^sup>*\<^sup>* (powered_on env regs m0 w0) s" if "(boot_step env ^^ n) (powered_on env regs m0 w0) s" for n s
    using that by (rule relpowp_imp_rtranclp)
  have inv: "programs_typed env s \<and> processors_inv env s \<and> flags_inv env s" if "(boot_step env ^^ n) (powered_on env regs m0 w0) s" for n s
    by (rule gdt_table.reachable_inv [OF assms(1,2) refl reach [OF that]])
  have "n + calls_left env s \<le> calls_left env (powered_on env regs m0 w0)" using assms(3)
  proof (induction n arbitrary: s)
    case 0
    then show ?case by simp
  next
    case (Suc n)
    then obtain t where t: "(boot_step env ^^ n) (powered_on env regs m0 w0) t" "boot_step env t s" by (auto simp: relpowp_Suc_right)
    from t(2) obtain i where "next_op env i t = Some (Inr s)" by (auto elim: boot_stepE)
    then have "calls_left env s < calls_left env t" using calls_decrease [OF assms(2)] inv [OF t(1)] by blast
    then show ?case using Suc.IH [OF t(1)] by simp
  qed
  also have "calls_left env (powered_on env regs m0 w0) = 12 * length (init_framework (b_smp env) (b_response env) @ start_schedule)"
    using others_bsp [OF assms(2)] by (auto simp: calls_left_def powered_on_def intro!: sum.neutral)
  finally have bound: "n \<le> 12 * length (init_framework (b_smp env) (b_response env) @ start_schedule)" by simp
  have I: "programs_typed env s" "processors_inv env s" "flags_inv env s" using inv [OF assms(3)] by simp_all
  have "\<forall>i. programs s i = []" if stuck: "\<nexists>s'. boot_step env s s'"
  proof -
    have "next_op env i s \<noteq> Some (Inr s')" for i s' using stuck boot_step.step by metis
    then show ?thesis using gdt_table.someone_runs [OF assms(1,2) refl I] by blast
  qed
  then show ?thesis using bound all_done [OF I] unfolding others_def by blast
qed

text \<open>A machine with two processors, and that it has a run to the end.\<close>

definition two_cpus :: "(nat, bench_msrs, unit, unit) boot_env" where
  "two_cpus = \<lparr>b_gdt = counting_gdt, b_x86 = x86_model, b_place = (\<lambda>_. (0x1000, 0x2000)), b_msr = bench_msr,
     b_handler = 0x400000, b_acpi = \<lparr>from_rsdp = (\<lambda>_. Some ()), interrupt_model = (\<lambda>_. Some (ApicModel (0xFEE00000, [0xFEC00000]))),
       hpet_table = (\<lambda>_. Some 0xFED00000), mcfg_entries = (\<lambda>_. Some [])\<rparr>, b_offset = 0x10000000, b_rsdp = Some 0x100F0000,
     b_mmio = \<lparr>read32 = (\<lambda>_ w. (0, w)), read64 = (\<lambda>_ w. (0, w)), write64 = (\<lambda>_ _ w. w)\<rparr>, b_bsp = 0, b_smp = True,
     b_response = [\<lparr>cpu_id = 0, cpu_lapic_id = 0\<rparr>, \<lparr>cpu_id = 1, cpu_lapic_id = 1\<rparr>]\<rparr>"

definition no_regs :: "u32 \<Rightarrow> nat seg_regs" where
  "no_regs i = \<lparr>gdtr = 0, seg_cs = 0, seg_ss = 0, task_register = 0\<rparr>"

definition no_msrs :: "u32 \<Rightarrow> bench_msrs" where
  "no_msrs i = \<lparr>m_star = (0, 0, 0, 0), m_lstar = 0, m_sfmask = 0, m_efer = 0\<rparr>"

lemma two_cpus_ok:
  "gdt_table (b_gdt two_cpus) id" "syscall_msrs (b_msr two_cpus) m_star m_lstar m_sfmask m_efer" "firmware_ok two_cpus"
proof -
  show "gdt_table (b_gdt two_cpus) id" by (simp add: two_cpus_def counting.gdt_table_axioms)
  show "syscall_msrs (b_msr two_cpus) m_star m_lstar m_sfmask m_efer" by (simp add: two_cpus_def bench_msr.syscall_msrs_axioms)
  show "firmware_ok two_cpus"
    by (simp add: firmware_ok_def two_cpus_def place_ok_def usize_max_def x86_model.virt_addr_new canonical_def
        convert_virtual_to_physical_def usize_sub_def x86_model.phys_addr_new hpet_reachable_def convert_physical_to_virtual_def usize_add_def)
qed

text \<open>The boot processor alone up to the start of the other processor, which then finds the table of processors locked.\<close>

lemma bsp_call:
  assumes "gdt_table (b_gdt env) used" "boot_env_ok env" "(boot_step env)\<^sup>*\<^sup>* (powered_on env regs m0 w0) s" "programs s (b_bsp env) = op # ops"
  obtains s' where "(boot_step env)\<^sup>*\<^sup>* (powered_on env regs m0 w0) s'" "started (processors s') = started (processors s) \<union> starts env op"
    "cpus_lock s' = (if op = Cpus_write then Some (b_bsp env) else if op = Cpus_release then None else cpus_lock s)"
    "\<forall>j. programs s' j = (if j \<in> starts env op - started (processors s) then ap_entry else if j = b_bsp env then ops else programs s j)"
proof -
  let ?b = "b_bsp env"
  have inv: "programs_typed env s" "processors_inv env s" using gdt_table.reachable_inv [OF assms(1,2) refl assms(3)] by simp_all
  obtain s' where s': "next_op env ?b s = Some (Inr s')"
    using bsp_not_held [OF inv] gdt_table.never_panics [OF assms(1,2) refl inv(1), of ?b] assms(4)
    by (metis list.distinct(1) option.exhaust sum.exhaust)
  then have call: "boot_op env ?b op (s\<lparr>programs := (programs s)(?b := ops)\<rparr>) = Some (Inr s')" using assms(4) by (simp add: next_op_def)
  show thesis
    by (rule that [of s'])
      (use assms(3) boot_step.step [OF s'] op_starts [OF call] op_flags(6) [OF call] in \<open>auto intro: rtranclp.rtrancl_into_rtrancl\<close>)
qed

lemma bsp_calls:
  assumes "gdt_table (b_gdt env) used" "boot_env_ok env"
  shows "(boot_step env)\<^sup>*\<^sup>* (powered_on env regs m0 w0) s \<Longrightarrow> programs s (b_bsp env) = pre @ ops \<Longrightarrow>
    \<forall>op \<in> set pre. starts env op = {} \<and> op \<noteq> Cpus_write \<and> op \<noteq> Cpus_release \<Longrightarrow>
    \<exists>s'. (boot_step env)\<^sup>*\<^sup>* (powered_on env regs m0 w0) s' \<and> programs s' = (programs s)(b_bsp env := ops) \<and>
      cpus_lock s' = cpus_lock s \<and> started (processors s') = started (processors s)"
proof (induction pre arbitrary: s)
  case (Cons op pre)
  then have o: "programs s (b_bsp env) = op # (pre @ ops)" by simp
  obtain s1 where s1: "(boot_step env)\<^sup>*\<^sup>* (powered_on env regs m0 w0) s1" "started (processors s1) = started (processors s) \<union> starts env op"
    "cpus_lock s1 = (if op = Cpus_write then Some (b_bsp env) else if op = Cpus_release then None else cpus_lock s)"
    "\<forall>j. programs s1 j = (if j \<in> starts env op - started (processors s) then ap_entry else if j = b_bsp env then pre @ ops else programs s j)"
    by (rule bsp_call [OF assms Cons.prems(1) o])
  have p: "programs s1 = (programs s)(b_bsp env := pre @ ops)" using s1(4) Cons.prems(3) by (intro ext) simp
  then have "programs s1 (b_bsp env) = pre @ ops" by simp
  from Cons.IH [OF s1(1) this] Cons.prems(3) p s1(2,3) show ?case by (simp del: fun_upd_apply)
qed (auto intro!: exI)

lemma two_cpus_wait:
  obtains s where "(boot_step two_cpus)\<^sup>*\<^sup>* (powered_on two_cpus no_regs no_msrs ()) s" "programs s 1 = ap_entry" "next_op two_cpus 1 s = None"
proof -
  let ?c = "\<lambda>i. \<lparr>cpu_id = i, cpu_lapic_id = i\<rparr>" and ?s0 = "powered_on two_cpus no_regs no_msrs ()"
  let ?rest = "Cpus_release # [Lapic_enable, Calibrate_timer, Enable_timer, Apic_init, Mouse_init, Pci_init, Nvme_init, User_init, Scheduler_init] @ start_schedule"
  note run = bsp_calls [OF two_cpus_ok(1) firmware_boots [OF two_cpus_ok]] and call = bsp_call [OF two_cpus_ok(1) firmware_boots [OF two_cpus_ok]]
  have b: "b_bsp two_cpus = 0" by (simp add: two_cpus_def)
  have p0: "programs ?s0 (b_bsp two_cpus) = [Memory_init, Console_init, Init_bsp, Idt_load, Acpi_init, Hpet_init] @ Cpus_write # Start_ap (?c 0) # Start_ap (?c 1) # ?rest"
    by (simp add: powered_on_def two_cpus_def init_framework_def init_ap_ops_def)
  have q0: "cpus_lock ?s0 = None" "started (processors ?s0) = {}" by (simp_all add: powered_on_def cpus_new_def)
  obtain s1 where s1: "(boot_step two_cpus)\<^sup>*\<^sup>* ?s0 s1" "programs s1 (b_bsp two_cpus) = Cpus_write # Start_ap (?c 0) # Start_ap (?c 1) # ?rest"
    "started (processors s1) = {}" using run [OF rtranclp.rtrancl_refl p0] q0 by (auto simp: starts_def)
  obtain s2 where s2: "(boot_step two_cpus)\<^sup>*\<^sup>* ?s0 s2" "programs s2 (b_bsp two_cpus) = Start_ap (?c 0) # Start_ap (?c 1) # ?rest"
    "cpus_lock s2 = Some 0" "started (processors s2) = {}" by (rule call [OF s1(1,2)]) (use s1(3) b in \<open>auto simp: starts_def\<close>)
  obtain s3 where s3: "(boot_step two_cpus)\<^sup>*\<^sup>* ?s0 s3" "programs s3 (b_bsp two_cpus) = Start_ap (?c 1) # ?rest"
    "cpus_lock s3 = Some 0" "started (processors s3) = {}" by (rule call [OF s2(1,2)]) (use s2(3,4) b in \<open>auto simp: starts_def\<close>)
  obtain s4 where s4: "(boot_step two_cpus)\<^sup>*\<^sup>* ?s0 s4" "programs s4 1 = ap_entry" "cpus_lock s4 = Some 0"
    by (rule call [OF s3(1,2)]) (use s3(3,4) b in \<open>auto simp: starts_def\<close>)
  show thesis by (rule that [OF s4(1,2)]) (simp add: next_op_def s4 ap_entry_def)
qed

lemma bounded_run_ends:
  assumes "\<And>n s. (r ^^ n) a s \<Longrightarrow> n \<le> (b :: nat)"
  obtains n s where "(r ^^ n) a s" "\<nexists>s'. r s s'"
proof -
  let ?P = "\<lambda>n. \<exists>s. (r ^^ n) a s"
  have b: "n \<le> b" if "?P n" for n using assms that by blast
  have "?P 0" by auto
  from GreatestI_nat [of ?P, OF this b] have g: "?P (Greatest ?P)" .
  have top: "n \<le> Greatest ?P" if "?P n" for n using Greatest_le_nat [of ?P, OF that b] .
  from g obtain s where s: "(r ^^ Greatest ?P) a s" by blast
  have "\<not> r s s'" for s'
  proof
    assume "r s s'"
    with s have "?P (Suc (Greatest ?P))" by auto
    then show False using top by fastforce
  qed
  then show thesis using that s by blast
qed

lemma two_cpus_run:
  obtains n s where "(boot_step two_cpus ^^ n) (powered_on two_cpus no_regs no_msrs ()) s" "irq_enabled s = {0, 1}"
proof -
  note r = boot_runs [OF two_cpus_ok(1) firmware_boots [OF two_cpus_ok], of _ no_regs no_msrs "()"]
  obtain n s where s: "(boot_step two_cpus ^^ n) (powered_on two_cpus no_regs no_msrs ()) s" "\<nexists>s'. boot_step two_cpus s s'"
    by (rule bounded_run_ends [where r = "boot_step two_cpus"]) (drule r, erule conjunct1)
  have "{cpu_lapic_id c |c. c \<in> set (b_response two_cpus) \<and> cpu_id c \<noteq> b_bsp two_cpus} = {1}"
    by (auto simp: two_cpus_def intro: exI [of _ "\<lparr>cpu_id = 1, cpu_lapic_id = 1\<rparr>"])
  then have "irq_enabled s = {0, 1}" using r [OF s(1)] s(2) by (auto simp: two_cpus_def)
  with s(1) show thesis by (rule that)
qed

section \<open>Start-up is safe and does not deadlock\<close>

text \<open>
  C3. The calls on the processors never panic for want of something that is set up too late, however the
  processors interleave, and a processor enables interrupts only when the scheduler has been
  released and its own segments, descriptor table, timer and system calls are in place.
\<close>

theorem boot_safe:
  assumes "gdt_table (b_gdt env) used" "syscall_msrs (b_msr env) star lstar sfmask efer" "firmware_ok env"
    "(boot_step env)\<^sup>*\<^sup>* (powered_on env regs m0 w0) s"
  shows "next_op env i s \<noteq> Some (Inl e) \<and>
    (i \<in> irq_enabled s \<longrightarrow> START_SCHEDULE s \<and> SCHEDULER_INIT s \<and> i \<in> idt_loaded s \<and> i \<in> calibrated s \<and> i \<in> timer_on s \<and>
       seg_cs (segments s i) = 0x08 \<and> seg_ss (segments s i) = 0x10 \<and> task_register (segments s i) = 0x28 \<and>
       star (msrs s i) = (0x23, 0x1b, 0x08, 0x10) \<and> lstar (msrs s i) = b_handler env \<and> sfmask (msrs s i) = INTERRUPT_FLAG)"
proof -
  note ok = firmware_boots [OF assms(1-3)]
  have inv: "programs_typed env s" "flags_inv env s" using gdt_table.reachable_inv [OF assms(1) ok refl assms(4)] by simp_all
  have on: "\<forall>f \<in> needs Enable_interrupts. holds env s i f" if "i \<in> irq_enabled s" using inv(2) that unfolding flags_inv_def by blast
  have sys: "star (msrs s i) = (0x23, 0x1b, 0x08, 0x10) \<and> lstar (msrs s i) = b_handler env \<and> sfmask (msrs s i) = INTERRUPT_FLAG"
    if h: "holds env s i Syscalls"
  proof -
    obtain m where m: "syscall_init (b_gdt env) (b_msr env) (b_x86 env) (b_handler env) m = Inr (msrs s i)" using h by auto
    have "virt_addr_new (b_x86 env) (b_handler env) = Inr (b_handler env)" using assms(3) by (simp add: firmware_ok_def)
    then obtain m' where "syscall_init (b_gdt env) (b_msr env) (b_x86 env) (b_handler env) m = Inr m'" "star m' = (0x23, 0x1b, 0x08, 0x10)"
      "lstar m' = b_handler env" "sfmask m' = INTERRUPT_FLAG" by (rule syscall_msrs.initialised [OF assms(2,1)])
    with m show ?thesis by simp
  qed
  show ?thesis using gdt_table.never_panics [OF assms(1) ok refl inv(1)] on sys by (auto simp del: holds.simps(12)) 
qed

theorem boot_safe_witness:
  "\<exists>s. (boot_step two_cpus)\<^sup>*\<^sup>* (powered_on two_cpus no_regs no_msrs ()) s \<and> 1 \<in> irq_enabled s \<and> START_SCHEDULE s \<and> SCHEDULER_INIT s \<and>
    seg_cs (segments s 1) = 0x08 \<and> m_lstar (msrs s 1) = 0x400000 \<and> 1 \<in> calibrated s \<and> next_op two_cpus 1 s \<noteq> Some (Inl UnwrapNone)"
proof -
  obtain n s where s: "(boot_step two_cpus ^^ n) (powered_on two_cpus no_regs no_msrs ()) s" "irq_enabled s = {0, 1}" by (rule two_cpus_run)
  have "(boot_step two_cpus)\<^sup>*\<^sup>* (powered_on two_cpus no_regs no_msrs ()) s" using s(1) by (rule relpowp_imp_rtranclp)
  from boot_safe [OF two_cpus_ok this, of 1 UnwrapNone] this s(2) show ?thesis by (auto simp: two_cpus_def)
qed

text \<open>
  C4. Start-up cannot deadlock, whatever the interleaving.  The boot processor is never held up by the lock
  of the table of processors or by a flag.  Another processor is held up only at the lock, which the
  boot processor then holds with its release still ahead of it, or at a flag whose store is still ahead of the boot
  processor; and when no processor has calls left, the lock is free and interrupts are on at the
  boot processor and at exactly the processors that were started, which are the ones the firmware lists besides it.
  A processor that polls a device inside one of its calls stays at that call; whether such a loop
  returns is not part of the statement.
\<close>

theorem boot_no_deadlock:
  assumes "gdt_table (b_gdt env) used" "syscall_msrs (b_msr env) star lstar sfmask efer" "firmware_ok env"
    "(boot_step env)\<^sup>*\<^sup>* (powered_on env regs m0 w0) s"
  shows "(programs s (b_bsp env) \<noteq> [] \<longrightarrow> next_op env (b_bsp env) s \<noteq> None) \<and>
    (\<forall>i op ops. programs s i = op # ops \<and> next_op env i s = None \<longrightarrow> i \<in> started (processors s) \<and> i \<noteq> b_bsp env \<and>
       (op = Cpus_get_load \<and> cpus_lock s = Some (b_bsp env) \<and> Cpus_release \<in> set (programs s (b_bsp env)) \<or>
        op = Wait_hpet_init \<and> \<not> HPET_INIT s \<and> Hpet_init \<in> set (programs s (b_bsp env)) \<or>
        op = Wait_scheduler_init \<and> \<not> SCHEDULER_INIT s \<and> Scheduler_init \<in> set (programs s (b_bsp env)) \<or>
        op = Wait_start_schedule \<and> \<not> START_SCHEDULE s \<and> Store_start_schedule \<in> set (programs s (b_bsp env)))) \<and>
    ((\<forall>i. programs s i = []) \<longrightarrow> cpus_lock s = None \<and> irq_enabled s = insert (b_bsp env) (started (processors s)) \<and>
       started (processors s) = (if b_smp env then {cpu_lapic_id c | c. c \<in> set (b_response env) \<and> cpu_id c \<noteq> b_bsp env} else {}))"
proof -
  have inv: "programs_typed env s" "processors_inv env s" "flags_inv env s"
    using gdt_table.reachable_inv [OF assms(1) firmware_boots [OF assms(1-3)] refl assms(4)] by simp_all
  show ?thesis
    unfolding others_def [symmetric] by (intro conjI allI impI bsp_not_held [OF inv(1,2)] held_up [OF inv] all_done [OF inv]) auto
qed

theorem boot_no_deadlock_witness:
  "\<exists>s. (boot_step two_cpus)\<^sup>*\<^sup>* (powered_on two_cpus no_regs no_msrs ()) s \<and> programs s 1 = ap_entry \<and> next_op two_cpus 1 s = None \<and>
     1 \<in> started (processors s) \<and> cpus_lock s = Some 0 \<and> Cpus_release \<in> set (programs s 0)"
proof -
  obtain s where s: "(boot_step two_cpus)\<^sup>*\<^sup>* (powered_on two_cpus no_regs no_msrs ()) s" "programs s 1 = ap_entry" "next_op two_cpus 1 s = None"
    by (rule two_cpus_wait)
  have "1 \<in> started (processors s) \<and> cpus_lock s = Some (b_bsp two_cpus) \<and> Cpus_release \<in> set (programs s (b_bsp two_cpus))"
    using boot_no_deadlock [OF two_cpus_ok s(1), THEN conjunct2, THEN conjunct1, rule_format, of 1] s(2,3) unfolding ap_entry_def by blast
  then show ?thesis using s by (intro exI [of _ s]) (simp add: two_cpus_def)
qed

end
