(* ===== verification/Paging.thy ===== *)
theory Paging
  imports Frame
begin

text \<open>
  Page tables (\<open>memory/page_table.rs\<close>, \<open>create_page_table_from_kernel\<close> of \<open>memory/mod.rs\<close>):
  creating a table, adopting the current one, switching, and the recursive copy of a four-level
  table.  Memory is explicit: a function from the virtual address of an entry to the entry, so
  that a copy that wrote into a table it still reads would show.  The entry type of the
  \<open>x86_64\<close> crate is the parameter record \<open>pte_api\<close>; its contract is the locale \<open>page_entries\<close>.
\<close>

section \<open>Entries\<close>

record 'e pte_api =
  pte_addr :: "'e \<Rightarrow> nat"
  pte_flags :: "'e \<Rightarrow> u64"
  pte_is_unused :: "'e \<Rightarrow> bool"
  pte_set_addr :: "nat \<Rightarrow> u64 \<Rightarrow> 'e result"

definition PRESENT :: u64 where "PRESENT = 1"
definition WRITABLE :: u64 where "WRITABLE = 2"
definition USER_ACCESSIBLE :: u64 where "USER_ACCESSIBLE = 4"
definition HUGE_PAGE :: u64 where "HUGE_PAGE = 0x80"
definition NO_EXECUTE :: u64 where "NO_EXECUTE = 0x8000000000000000"

definition contains_flag :: "u64 \<Rightarrow> u64 \<Rightarrow> bool" where
  "contains_flag flags f \<longleftrightarrow> flags AND f = f"

type_synonym 'e table_mem = "nat \<Rightarrow> 'e"

section \<open>Tables\<close>

text \<open>\<open>pt_inner\<close> (the field \<open>inner\<close>) is the virtual address of the level 4 table the crate's \<open>OffsetPageTable\<close> refers to.\<close>

record GeneralPageTable =
  pt_inner :: nat
  physical_address :: nat

definition page_table_new ::
  "bit_field_api \<Rightarrow> x86_api \<Rightarrow> nat \<Rightarrow> BitmapFrameAllocator \<Rightarrow> (GeneralPageTable \<times> BitmapFrameAllocator) result" where
  "page_table_new bf x offset a =
     and_then (allocate_frame bf x a) (\<lambda>(frame, a).
     and_then (expect ''Failed to allocate frame for page table!'' frame) (\<lambda>page_table_address.
     and_then (convert_physical_to_virtual x offset page_table_address) (\<lambda>new_page_table.
     and_then (virt_addr_new x offset) (\<lambda>_.
     Inr (\<lparr>pt_inner = new_page_table, physical_address = page_table_address\<rparr>, a)))))"

definition ref_from_current :: "x86_api \<Rightarrow> nat \<Rightarrow> nat \<Rightarrow> GeneralPageTable result" where
  "ref_from_current x offset cr3 =
     and_then (convert_physical_to_virtual x offset cr3) (\<lambda>page_table.
     and_then (virt_addr_new x offset) (\<lambda>_.
     Inr \<lparr>pt_inner = page_table, physical_address = cr3\<rparr>))"

text \<open>\<open>switch\<close> returns the new contents of CR3: the frame, and the flags that are kept.\<close>

definition page_table_switch :: "x86_api \<Rightarrow> GeneralPageTable \<Rightarrow> nat \<times> u64 \<Rightarrow> nat \<times> u64" where
  "page_table_switch x t cr3 =
     (let page_table_frame = frame_containing x (physical_address t) in
      if page_table_frame \<noteq> fst cr3 then (page_table_frame, snd cr3) else cr3)"

section \<open>The recursive copy\<close>

text \<open>
  \<open>copy_entry\<close> is the body of the loop of \<open>new_from_recursion\<close> at a level, with the recursive
  call as a parameter: a leaf is copied, for a table a fresh one is linked in and filled.
\<close>

definition copy_entry ::
  "'e pte_api \<Rightarrow> bit_field_api \<Rightarrow> x86_api \<Rightarrow> nat \<Rightarrow> nat \<Rightarrow>
   (nat \<Rightarrow> nat \<Rightarrow> 'e table_mem \<times> BitmapFrameAllocator \<Rightarrow> ('e table_mem \<times> BitmapFrameAllocator) result) \<Rightarrow>
   nat \<Rightarrow> nat \<Rightarrow> nat \<Rightarrow> 'e table_mem \<times> BitmapFrameAllocator \<Rightarrow> ('e table_mem \<times> BitmapFrameAllocator) result" where
  "copy_entry pe bf x offset level recurse source target i st =
     (let (m, a) = st; entry = m (source + 8 * i) in
      if level = 1 \<or> pte_is_unused pe entry \<or> contains_flag (pte_flags pe entry) HUGE_PAGE then
        and_then (pte_set_addr pe (pte_addr pe entry) (pte_flags pe entry)) (\<lambda>e.
        Inr (m(target + 8 * i := e), a))
      else
        and_then (page_table_new bf x offset a) (\<lambda>(new_page_table, a).
        and_then (pte_set_addr pe (physical_address new_page_table) (pte_flags pe entry)) (\<lambda>e.
        and_then (convert_physical_to_virtual x offset (pte_addr pe entry)) (\<lambda>source_next.
        recurse source_next (pt_inner new_page_table) (m(target + 8 * i := e), a)))))"

text \<open>The level is a \<open>u8\<close>: below 0 the decrement would panic.\<close>

primrec new_from_recursion ::
  "nat \<Rightarrow> 'e pte_api \<Rightarrow> bit_field_api \<Rightarrow> x86_api \<Rightarrow> nat \<Rightarrow> nat \<Rightarrow> nat \<Rightarrow>
   'e table_mem \<times> BitmapFrameAllocator \<Rightarrow> ('e table_mem \<times> BitmapFrameAllocator) result" where
  "new_from_recursion 0 pe bf x offset source target st =
     for_each (copy_entry pe bf x offset 0 (\<lambda>_ _ _. Inl Overflow) source target) [0..<512] st"
| "new_from_recursion (Suc l) pe bf x offset source target st =
     for_each (copy_entry pe bf x offset (Suc l) (new_from_recursion l pe bf x offset) source target) [0..<512] st"

definition new_from_address ::
  "'e pte_api \<Rightarrow> bit_field_api \<Rightarrow> x86_api \<Rightarrow> nat \<Rightarrow> nat \<Rightarrow> 'e table_mem \<times> BitmapFrameAllocator \<Rightarrow>
   (GeneralPageTable \<times> 'e table_mem \<times> BitmapFrameAllocator) result" where
  "new_from_address pe bf x offset source_address st =
     (let (m, a) = st in
      and_then (convert_physical_to_virtual x offset source_address) (\<lambda>source_page_table.
      and_then (page_table_new bf x offset a) (\<lambda>(new_page_table, a).
      and_then (new_from_recursion 4 pe bf x offset source_page_table (pt_inner new_page_table) (m, a)) (\<lambda>st.
      Inr (new_page_table, st)))))"

definition create_page_table_from_kernel ::
  "'e pte_api \<Rightarrow> bit_field_api \<Rightarrow> x86_api \<Rightarrow> nat \<Rightarrow> GeneralPageTable \<Rightarrow> 'e table_mem \<times> BitmapFrameAllocator \<Rightarrow>
   (GeneralPageTable \<times> 'e table_mem \<times> BitmapFrameAllocator) result" where
  "create_page_table_from_kernel pe bf x offset kernel_page_table st =
     new_from_address pe bf x offset (physical_address kernel_page_table) st"

section \<open>Frames for tables\<close>

text \<open>
  What the code that takes frames from an allocator relies on: in a good state with frames left,
  a call returns one of them, page aligned and below \<open>2^52\<close>, and removes it from the pool.
\<close>

locale frame_source =
  fixes alloc :: "'s \<Rightarrow> (nat option \<times> 's) result" and ok :: "'s \<Rightarrow> bool" and pool :: "'s \<Rightarrow> nat set"
  assumes finite_pool: "finite (pool s)"
    and alloc_pool: "ok s \<Longrightarrow> pool s \<noteq> {} \<Longrightarrow>
      \<exists>f s'. alloc s = Inr (Some f, s') \<and> f \<in> pool s \<and> pool s' = pool s - {f} \<and> ok s'"
    and pool_frame: "ok s \<Longrightarrow> f \<in> pool s \<Longrightarrow> f mod 4096 = 0 \<and> f < 2 ^ 52"

definition pool_ok :: "bit_field_api \<Rightarrow> BitmapFrameAllocator \<Rightarrow> bool" where
  "pool_ok bf a \<longleftrightarrow> cursor_inv bf a \<and> addressable a \<and> card (reachable_free bf a) \<le> usable_frames a"

definition frame_pool :: "bit_field_api \<Rightarrow> BitmapFrameAllocator \<Rightarrow> nat set" where
  "frame_pool bf a = (*) 4096 ` reachable_free bf a"

sublocale frame_env \<subseteq> pool: frame_source "allocate_frame bf x" "pool_ok bf" "frame_pool bf"
proof
  fix a f
  show "finite (frame_pool bf a)" by (simp add: frame_pool_def)
  assume ok: "pool_ok bf a"
  show "f mod 4096 = 0 \<and> f < 2 ^ 52" if "f \<in> frame_pool bf a"
    using that ok by (auto simp: frame_pool_def reachable_free_def pool_ok_def addressable_def)
  assume "frame_pool bf a \<noteq> {}"
  then have ne: "reachable_free bf a \<noteq> {}" by (simp add: frame_pool_def)
  then have lt: "next_frame a < bitmap_len (bitmap a)" by (auto simp: reachable_free_def)
  from ne have "0 < card (reachable_free bf a)" by (simp add: card_gt_0_iff)
  with ok lt obtain a' where
    a': "allocate_frame bf x a = Inr (Some (4096 * next_frame a), a')"
    "free_frames bf a' = free_frames bf a - {next_frame a}" "usable_frames a' = usable_frames a - 1"
    "bitmap_len (bitmap a') = bitmap_len (bitmap a)" "cursor_inv bf a'"
    "next_frame a' = bitmap_len (bitmap a) \<or> next_frame a < next_frame a'"
    "{next_frame a + 1..<next_frame a'} \<inter> free_frames bf a = {}"
    using allocate_frame_contract [of a] by (auto simp: pool_ok_def)
  have "cursor_inv bf a" using ok by (simp add: pool_ok_def)
  note split = reachable_free_allocate [OF this lt a'(2,4,6,7)]
  then have notin: "next_frame a \<notin> reachable_free bf a'" by auto
  have "frame_pool bf a = insert (4096 * next_frame a) (frame_pool bf a')" by (simp add: frame_pool_def split(1))
  moreover have "4096 * next_frame a \<notin> frame_pool bf a'" using notin by (auto simp: frame_pool_def)
  moreover have "pool_ok bf a'"
    using ok a'(3-5) split(1) notin by (auto simp: pool_ok_def addressable_def)
  ultimately show "\<exists>f s'. allocate_frame bf x a = Inr (Some f, s') \<and> f \<in> frame_pool bf a \<and>
      frame_pool bf s' = frame_pool bf a - {f} \<and> pool_ok bf s'"
    using a'(1) by auto
qed

section \<open>Translation\<close>

text \<open>
  The reference: the walk the processor makes for a virtual address.  The result is the leaf's
  address with the flags of every entry on the way, or \<open>None\<close> at an entry that is not present.
\<close>

definition table_index :: "nat \<Rightarrow> nat \<Rightarrow> nat" where
  "table_index l va = (va div 2 ^ (12 + 9 * l)) mod 512"

definition via_entry ::
  "'e pte_api \<Rightarrow> nat \<Rightarrow> (nat \<Rightarrow> (nat \<times> u64 list) option) \<Rightarrow> 'e \<Rightarrow> (nat \<times> u64 list) option" where
  "via_entry pe l further e =
     (if \<not> contains_flag (pte_flags pe e) PRESENT then None
      else if l = 0 \<or> contains_flag (pte_flags pe e) HUGE_PAGE then Some (pte_addr pe e, [pte_flags pe e])
      else map_option (apsnd (Cons (pte_flags pe e))) (further (pte_addr pe e)))"

primrec walk :: "nat \<Rightarrow> 'e pte_api \<Rightarrow> nat \<Rightarrow> 'e table_mem \<Rightarrow> nat \<Rightarrow> nat \<Rightarrow> (nat \<times> u64 list) option" where
  "walk 0 pe offset m t va = None"
| "walk (Suc l) pe offset m t va =
     via_entry pe l (\<lambda>t'. walk l pe offset m t' va) (m (t + offset + 8 * table_index l va))"

text \<open>
  The tables the copy reads, how many it has to create, and the memory cells of a set of tables.
\<close>

definition descends :: "'e pte_api \<Rightarrow> nat \<Rightarrow> 'e \<Rightarrow> bool" where
  "descends pe l e \<longleftrightarrow> l \<noteq> 0 \<and> \<not> pte_is_unused pe e \<and> \<not> contains_flag (pte_flags pe e) HUGE_PAGE"

primrec tables :: "nat \<Rightarrow> 'e pte_api \<Rightarrow> nat \<Rightarrow> 'e table_mem \<Rightarrow> nat \<Rightarrow> nat set" where
  "tables 0 pe offset m t = {}"
| "tables (Suc l) pe offset m t = insert t (\<Union>i<512.
     if descends pe l (m (t + offset + 8 * i)) then tables l pe offset m (pte_addr pe (m (t + offset + 8 * i))) else {})"

primrec needed :: "nat \<Rightarrow> 'e pte_api \<Rightarrow> nat \<Rightarrow> 'e table_mem \<Rightarrow> nat \<Rightarrow> nat" where
  "needed 0 pe offset m t = 0"
| "needed (Suc l) pe offset m t = (\<Sum>i<512.
     if descends pe l (m (t + offset + 8 * i)) then Suc (needed l pe offset m (pte_addr pe (m (t + offset + 8 * i)))) else 0)"

definition cells :: "nat \<Rightarrow> nat set \<Rightarrow> nat set" where
  "cells offset T = {t + offset + 8 * i | t i. t \<in> T \<and> i < 512}"

lemma cellsI [intro]: "t \<in> T \<Longrightarrow> i < 512 \<Longrightarrow> t + offset + 8 * i \<in> cells offset T"
  by (auto simp: cells_def)

lemma cells_mono: "T \<subseteq> U \<Longrightarrow> cells offset T \<subseteq> cells offset U"
  by (auto simp: cells_def)

lemma table_index_less [simp]: "table_index l va < 512"
  by (simp add: table_index_def)

lemma cell_inject:
  assumes "t mod 4096 = 0" "u mod 4096 = 0" "i < 512" "j < 512" "t + offset + 8 * i = u + offset + 8 * j"
  shows "t = u \<and> i = (j :: nat)"
proof -
  from assms(1,2) obtain p q where pq: "t = 4096 * p" "u = 4096 * q" by (auto simp: mod_eq_0_iff_dvd dvd_def)
  with assms(5) have e: "512 * p + i = 512 * q + j" by simp
  then have "(512 * p + i) div 512 = (512 * q + j) div 512" by simp
  with assms(3,4) have "p = q" by simp
  with e pq show ?thesis by simp
qed

lemma cells_disjoint:
  assumes "\<forall>t \<in> T. t mod 4096 = 0" and "\<forall>t \<in> U. t mod 4096 = 0" and "T \<inter> U = {}" and "p \<in> cells offset T"
  shows "p \<notin> cells offset U"
proof
  assume "p \<in> cells offset U"
  then obtain u j where u: "u \<in> U" "j < 512" "p = u + offset + 8 * j" by (auto simp: cells_def)
  from assms(4) obtain t i where t: "t \<in> T" "i < 512" "p = t + offset + 8 * i" by (auto simp: cells_def)
  with u assms(1,2) cell_inject [of t u i j offset] have "t = u" by simp
  with t(1) u(1) assms(3) show False by blast
qed

text \<open>
  The contract of the entry type: an entry written with an aligned address and the flags of an
  entry has them, addresses are aligned and below \<open>2^52\<close>, and the unused entry is the zero entry.
\<close>

locale page_entries =
  fixes pe :: "'e pte_api"
  assumes set_addr: "a mod 4096 = 0 \<Longrightarrow> a < 2 ^ 52 \<Longrightarrow>
      \<exists>e'. pte_set_addr pe a (pte_flags pe e) = Inr e' \<and> pte_addr pe e' = a \<and> pte_flags pe e' = pte_flags pe e"
    and addr_aligned: "pte_addr pe e mod 4096 = 0"
    and addr_bound: "pte_addr pe e < 2 ^ 52"
    and unused: "pte_is_unused pe e \<longleftrightarrow> pte_addr pe e = 0 \<and> pte_flags pe e = 0"
begin

lemma not_descends:
  assumes "\<not> descends pe l e" and "pte_addr pe e' = pte_addr pe e" and "pte_flags pe e' = pte_flags pe e"
  shows "via_entry pe l g e' = via_entry pe l f e"
  using assms unused [of e] by (auto simp: via_entry_def descends_def contains_flag_def PRESENT_def)

lemma descends_cong:
  "pte_addr pe e' = pte_addr pe e \<Longrightarrow> pte_flags pe e' = pte_flags pe e \<Longrightarrow> descends pe l e' = descends pe l e"
  by (simp add: descends_def unused)

lemma tables_aligned: "u \<in> tables l pe offset m t \<Longrightarrow> t mod 4096 = 0 \<Longrightarrow> u mod 4096 = 0"
proof (induction l arbitrary: t)
  case 0
  then show ?case by simp
next
  case (Suc l)
  then show ?case using addr_aligned by (auto split: if_splits)
qed

text \<open>Tables, their number and the walk depend on the cells of the source tables only.\<close>

lemma tables_self: "0 < l \<Longrightarrow> t \<in> tables l pe offset m t"
  by (cases l) auto

lemma tables_local:
  assumes "\<forall>p \<in> cells offset (tables l pe offset m t). m2 p = m p"
  shows "tables l pe offset m2 t = tables l pe offset m t \<and> needed l pe offset m2 t = needed l pe offset m t \<and>
    walk l pe offset m2 t va = walk l pe offset m t va"
  using assms
proof (induction l arbitrary: t)
  case 0
  then show ?case by simp
next
  case (Suc l)
  have cell: "m2 (t + offset + 8 * i) = m (t + offset + 8 * i)" if "i < 512" for i
    using that Suc.prems by (auto intro: cellsI)
  have sub: "tables l pe offset m2 u = tables l pe offset m u \<and> needed l pe offset m2 u = needed l pe offset m u \<and>
      walk l pe offset m2 u va = walk l pe offset m u va"
    if "i < 512" "descends pe l (m (t + offset + 8 * i))" "u = pte_addr pe (m (t + offset + 8 * i))" for i u
  proof (rule Suc.IH)
    have "tables l pe offset m u \<subseteq> tables (Suc l) pe offset m t" using that by auto
    then show "\<forall>p \<in> cells offset (tables l pe offset m u). m2 p = m p"
      using Suc.prems cells_mono by blast
  qed
  have "tables (Suc l) pe offset m2 t = tables (Suc l) pe offset m t"
    unfolding tables.simps
  proof (intro arg_cong [where f = "insert t"] SUP_cong refl)
    fix i :: nat
    assume "i \<in> {..<512}"
    then show "(if descends pe l (m2 (t + offset + 8 * i)) then tables l pe offset m2 (pte_addr pe (m2 (t + offset + 8 * i))) else {}) =
      (if descends pe l (m (t + offset + 8 * i)) then tables l pe offset m (pte_addr pe (m (t + offset + 8 * i))) else {})"
      using cell [of i] sub [of i] by simp
  qed
  moreover have "needed (Suc l) pe offset m2 t = needed (Suc l) pe offset m t"
    unfolding needed.simps
  proof (intro sum.cong refl)
    fix i :: nat
    assume "i \<in> {..<512}"
    then show "(if descends pe l (m2 (t + offset + 8 * i)) then Suc (needed l pe offset m2 (pte_addr pe (m2 (t + offset + 8 * i)))) else 0) =
      (if descends pe l (m (t + offset + 8 * i)) then Suc (needed l pe offset m (pte_addr pe (m (t + offset + 8 * i)))) else 0)"
      using cell [of i] sub [of i] by simp
  qed
  moreover have "walk (Suc l) pe offset m2 t va = walk (Suc l) pe offset m t va"
  proof -
    let ?e = "m (t + offset + 8 * table_index l va)"
    show ?thesis
    proof (cases "descends pe l ?e")
      case True
      then show ?thesis using sub [OF table_index_less True refl] by (simp add: cell via_entry_def)
    next
      case False
      then show ?thesis using not_descends [OF False refl refl] by (simp add: cell)
    qed
  qed
  ultimately show ?case by blast
qed

end

declare tables.simps [simp del] needed.simps [simp del]

section \<open>Correctness of the copy\<close>

definition in_window :: "x86_api \<Rightarrow> nat \<Rightarrow> nat set \<Rightarrow> bool" where
  "in_window x offset T \<longleftrightarrow> (\<forall>t \<in> T. convert_physical_to_virtual x offset t = Inr (t + offset))"

definition entry_need :: "'e pte_api \<Rightarrow> nat \<Rightarrow> nat \<Rightarrow> 'e table_mem \<Rightarrow> nat \<Rightarrow> nat \<Rightarrow> nat" where
  "entry_need pe offset l m t i =
     (if descends pe l (m (t + offset + 8 * i)) then Suc (needed l pe offset m (pte_addr pe (m (t + offset + 8 * i)))) else 0)"

definition entry_tables :: "'e pte_api \<Rightarrow> nat \<Rightarrow> nat \<Rightarrow> 'e table_mem \<Rightarrow> 'e \<Rightarrow> nat set" where
  "entry_tables pe offset l m e = (if descends pe l e then tables l pe offset m (pte_addr pe e) else {})"

text \<open>
  \<open>entries_copied n\<close>: the first \<open>n\<close> entries of the target lead where those of the source led, through
  new tables only, and still do whatever is written later outside the target and the tables created so far; nothing
  else has been written, and as many frames are gone as those entries need.
\<close>

definition entries_copied ::
  "'e pte_api \<Rightarrow> bit_field_api \<Rightarrow> nat \<Rightarrow> nat \<Rightarrow> nat \<Rightarrow> nat \<Rightarrow> 'e table_mem \<Rightarrow> BitmapFrameAllocator \<Rightarrow>
   nat \<Rightarrow> 'e table_mem \<times> BitmapFrameAllocator \<Rightarrow> bool" where
  "entries_copied pe bf offset l src dst m a n st \<longleftrightarrow> (case st of (m', a') \<Rightarrow>
     pool_ok bf a' \<and> frame_pool bf a' \<subseteq> frame_pool bf a \<and>
     card (frame_pool bf a') + (\<Sum>i<n. entry_need pe offset l m src i) = card (frame_pool bf a) \<and>
     (\<forall>p. p \<notin> cells offset (insert dst (frame_pool bf a - frame_pool bf a')) \<longrightarrow> m' p = m p) \<and>
     (\<forall>i<n. \<forall>m2 va. (\<forall>p \<in> cells offset (frame_pool bf a - frame_pool bf a'). m2 p = m' p) \<longrightarrow>
        via_entry pe l (\<lambda>t. walk l pe offset m2 t va) (m' (dst + offset + 8 * i)) =
        via_entry pe l (\<lambda>t. walk l pe offset m t va) (m (src + offset + 8 * i)) \<and>
        entry_tables pe offset l m2 (m' (dst + offset + 8 * i)) \<subseteq> frame_pool bf a - frame_pool bf a'))"

definition table_copied ::
  "'e pte_api \<Rightarrow> bit_field_api \<Rightarrow> nat \<Rightarrow> nat \<Rightarrow> nat \<Rightarrow> nat \<Rightarrow> 'e table_mem \<Rightarrow> BitmapFrameAllocator \<Rightarrow>
   'e table_mem \<times> BitmapFrameAllocator \<Rightarrow> bool" where
  "table_copied pe bf offset l src dst m a st \<longleftrightarrow> (case st of (m', a') \<Rightarrow>
     pool_ok bf a' \<and> frame_pool bf a' \<subseteq> frame_pool bf a \<and>
     card (frame_pool bf a') + needed l pe offset m src = card (frame_pool bf a) \<and>
     (\<forall>p. p \<notin> cells offset (insert dst (frame_pool bf a - frame_pool bf a')) \<longrightarrow> m' p = m p) \<and>
     (\<forall>m2 va. (\<forall>p \<in> cells offset (insert dst (frame_pool bf a - frame_pool bf a')). m2 p = m' p) \<longrightarrow>
        walk l pe offset m2 dst va = walk l pe offset m src va \<and>
        tables l pe offset m2 dst \<subseteq> insert dst (frame_pool bf a - frame_pool bf a')))"

text \<open>What the copy of a table at \<open>src\<close> into \<open>dst\<close> needs to start with.\<close>

definition copy_ready ::
  "'e pte_api \<Rightarrow> bit_field_api \<Rightarrow> x86_api \<Rightarrow> nat \<Rightarrow> nat \<Rightarrow> nat \<Rightarrow> nat \<Rightarrow> 'e table_mem \<Rightarrow> BitmapFrameAllocator \<Rightarrow> bool" where
  "copy_ready pe bf x offset l src dst m a \<longleftrightarrow>
     pool_ok bf a \<and> needed l pe offset m src \<le> card (frame_pool bf a) \<and>
     tables l pe offset m src \<inter> insert dst (frame_pool bf a) = {} \<and> dst \<notin> frame_pool bf a \<and>
     src mod 4096 = 0 \<and> dst mod 4096 = 0 \<and>
     in_window x offset (frame_pool bf a \<union> tables l pe offset m src)"

locale page_copy = frame_env bf x + page_entries pe
  for bf :: bit_field_api and x :: x86_api and pe :: "'e pte_api" +
  fixes offset :: nat
  assumes offset_canonical: "canonical offset"
begin

lemma page_table_new_pool:
  assumes "pool_ok bf a" and "frame_pool bf a \<noteq> {}" and "in_window x offset (frame_pool bf a)"
  obtains t a' where "page_table_new bf x offset a = Inr (\<lparr>pt_inner = t + offset, physical_address = t\<rparr>, a')"
    "t \<in> frame_pool bf a" "frame_pool bf a' = frame_pool bf a - {t}" "pool_ok bf a'"
proof -
  from pool.alloc_pool [OF assms(1,2)] obtain t a' where t: "allocate_frame bf x a = Inr (Some t, a')"
    "t \<in> frame_pool bf a" "frame_pool bf a' = frame_pool bf a - {t}" "pool_ok bf a'" by blast
  moreover have "convert_physical_to_virtual x offset t = Inr (t + offset)"
    using assms(3) t(2) by (simp add: in_window_def)
  ultimately show thesis using that offset_canonical by (simp add: page_table_new_def virt_addr_new)
qed

lemma cells_apart:
  assumes "pool_ok bf a" and "T \<subseteq> insert dst (frame_pool bf a)" and "U \<subseteq> insert dst (frame_pool bf a)"
    and "dst mod 4096 = 0" and "T \<inter> U = {}" and "p \<in> cells offset T"
  shows "p \<notin> cells offset U"
proof -
  have "\<forall>t \<in> insert dst (frame_pool bf a). t mod 4096 = 0"
    using assms(1,4) pool.pool_frame by blast
  then show ?thesis using assms(2,3,5,6) cells_disjoint [of T U p offset] by blast
qed

lemma source_cell:
  assumes "entries_copied pe bf offset l src dst m a n (m', a')"
    and "copy_ready pe bf x offset (Suc l) src dst m a" and "u \<in> tables (Suc l) pe offset m src" and "p \<in> cells offset {u}"
  shows "m' p = m p"
proof -
  have u: "u mod 4096 = 0" "u \<notin> insert dst (frame_pool bf a)"
    using assms(2,3) tables_aligned [OF assms(3)] by (auto simp: copy_ready_def)
  have "\<forall>t \<in> insert dst (frame_pool bf a). t mod 4096 = 0"
    using assms(2) pool.pool_frame by (auto simp: copy_ready_def)
  then have "p \<notin> cells offset (insert dst (frame_pool bf a - frame_pool bf a'))"
    using u assms(4) by (intro cells_disjoint [of "{u}"]) auto
  then show ?thesis using assms(1) by (simp add: entries_copied_def)
qed

text \<open>The two cases of an iteration: a leaf is copied, a table is created and filled.\<close>

lemma copy_leaf:
  assumes inv: "entries_copied pe bf offset l src dst m a n (m', a')"
    and ready: "copy_ready pe bf x offset (Suc l) src dst m a" and n: "n < 512"
    and leaf: "\<not> descends pe l (m (src + offset + 8 * n))"
  shows "\<exists>st. copy_entry pe bf x offset (Suc l) r (src + offset) (dst + offset) n (m', a') = Inr st \<and>
    entries_copied pe bf offset l src dst m a (Suc n) st"
proof -
  let ?e = "m (src + offset + 8 * n)" and ?d = "dst + offset + 8 * n"
  have src: "m' (src + offset + 8 * n) = ?e"
    using n by (intro source_cell [OF inv ready, of src]) (auto simp: tables_self)
  obtain e' where e': "pte_set_addr pe (pte_addr pe ?e) (pte_flags pe ?e) = Inr e'"
    "pte_addr pe e' = pte_addr pe ?e" "pte_flags pe e' = pte_flags pe ?e"
    using set_addr [OF addr_aligned addr_bound] by blast
  have "copy_entry pe bf x offset (Suc l) r (src + offset) (dst + offset) n (m', a') = Inr (m'(?d := e'), a')"
    using leaf e'(1) by (auto simp: copy_entry_def src descends_def)
  moreover have "entries_copied pe bf offset l src dst m a (Suc n) (m'(?d := e'), a')"
  proof -
    note I = inv [unfolded entries_copied_def prod.case]
    have d: "?d \<in> cells offset {dst}" using n by auto
    have D: "?d \<notin> cells offset (frame_pool bf a - frame_pool bf a')"
      using ready d by (intro cells_apart [of a "{dst}" dst]) (auto simp: copy_ready_def)
    have need: "entry_need pe offset l m src n = 0" using leaf by (simp add: entry_need_def)
    have "via_entry pe l (\<lambda>t. walk l pe offset m2 t va) ((m'(?d := e')) (dst + offset + 8 * i)) =
        via_entry pe l (\<lambda>t. walk l pe offset m t va) (m (src + offset + 8 * i)) \<and>
        entry_tables pe offset l m2 ((m'(?d := e')) (dst + offset + 8 * i)) \<subseteq> frame_pool bf a - frame_pool bf a'"
      if "i < Suc n" "\<forall>p \<in> cells offset (frame_pool bf a - frame_pool bf a'). m2 p = (m'(?d := e')) p" for i m2 va
    proof (cases "i = n")
      case True
      then show ?thesis using not_descends [OF leaf e'(2,3)] leaf descends_cong [OF e'(2,3)]
        by (simp add: entry_tables_def)
    next
      case False
      moreover have "\<forall>p \<in> cells offset (frame_pool bf a - frame_pool bf a'). m2 p = m' p"
        using that(2) D by (metis fun_upd_other)
      ultimately show ?thesis using that(1) I by auto
    qed
    moreover have "(m'(?d := e')) p = m p" if "p \<notin> cells offset (insert dst (frame_pool bf a - frame_pool bf a'))" for p
      using that I d cells_mono [of "{dst}" "insert dst (frame_pool bf a - frame_pool bf a')" offset] by auto
    ultimately show ?thesis using I need by (simp add: entries_copied_def)
  qed
  ultimately show ?thesis by blast
qed

text \<open>A fresh table that has been linked in and filled continues the copy.\<close>

lemma copy_linked:
  assumes inv: "entries_copied pe bf offset l src dst m a n (m', a')"
    and ready: "copy_ready pe bf x offset (Suc l) src dst m a" and n: "n < 512"
    and desc: "descends pe l (m (src + offset + 8 * n))"
    and room: "Suc (needed l pe offset m (pte_addr pe (m (src + offset + 8 * n)))) \<le> card (frame_pool bf a')"
    and t: "t \<in> frame_pool bf a'" "frame_pool bf a1 = frame_pool bf a' - {t}"
    and e': "pte_addr pe e' = t" "pte_flags pe e' = pte_flags pe (m (src + offset + 8 * n))"
    and m1_def: "m1 = m'(dst + offset + 8 * n := e')"
    and loc: "needed l pe offset m1 (pte_addr pe (m (src + offset + 8 * n))) = needed l pe offset m (pte_addr pe (m (src + offset + 8 * n)))"
      "\<And>va. walk l pe offset m1 (pte_addr pe (m (src + offset + 8 * n))) va = walk l pe offset m (pte_addr pe (m (src + offset + 8 * n))) va"
    and filled: "table_copied pe bf offset l (pte_addr pe (m (src + offset + 8 * n))) t m1 a1 (m2', a2)"
  shows "entries_copied pe bf offset l src dst m a (Suc n) (m2', a2)"
proof -
  let ?d = "dst + offset + 8 * n" and ?s = "pte_addr pe (m (src + offset + 8 * n))"
  let ?P = "frame_pool bf a" and ?P' = "frame_pool bf a'"
  note I = inv [unfolded entries_copied_def prod.case] and R = ready [unfolded copy_ready_def]
  note T = filled [unfolded table_copied_def prod.case loc t(2)]
  have tP: "t \<in> ?P" using t(1) I by auto
  have dcell: "?d \<in> cells offset {dst}" using n by auto
  let ?P2 = "frame_pool bf a2" and ?N = "insert t (?P' - {t} - frame_pool bf a2)"
  have P2: "?P2 \<subseteq> ?P' - {t}" and N: "?N \<subseteq> ?P - ?P2" using T tP I t(1) by auto
  have untouched: "m2' p = m1 p" if "p \<in> cells offset (insert dst (?P - ?P'))" for p
  proof -
    have "insert dst (?P - ?P') \<inter> ?N = {}" using R tP t(1) I by auto
    then have "p \<notin> cells offset ?N"
      using that R I tP by (intro cells_apart [of a "insert dst (?P - ?P')" dst]) auto
    then show ?thesis using T by blast
  qed
  have fresh: "m1 p = m' p" if "p \<in> cells offset (?P - ?P')" for p
  proof -
    have "?d \<notin> cells offset (?P - ?P')"
      using R I dcell by (intro cells_apart [of a "{dst}" dst]) auto
    then show ?thesis using that by (auto simp: m1_def)
  qed
  have dst: "m2' (dst + offset + 8 * i) = m1 (dst + offset + 8 * i)" if "i < 512" for i
    using that by (intro untouched) auto
  have entry: "via_entry pe l (\<lambda>t. walk l pe offset m2 t va) (m2' (dst + offset + 8 * i)) =
      via_entry pe l (\<lambda>t. walk l pe offset m t va) (m (src + offset + 8 * i)) \<and>
      entry_tables pe offset l m2 (m2' (dst + offset + 8 * i)) \<subseteq> ?P - ?P2"
    if i: "i < Suc n" and m2: "\<forall>p \<in> cells offset (?P - ?P2). m2 p = m2' p" for i m2 va
  proof (cases "i = n")
    case True
    have "\<forall>p \<in> cells offset ?N. m2 p = m2' p" using m2 cells_mono [OF N] by blast
    then have "walk l pe offset m2 t va = walk l pe offset m ?s va"
      and priv: "tables l pe offset m2 t \<subseteq> ?P - ?P2" using T N by blast+
    moreover have "m2' (dst + offset + 8 * i) = e'" using True dst [OF n] by (simp add: m1_def)
    ultimately show ?thesis using True e' desc priv by (simp add: via_entry_def descends_def entry_tables_def)
  next
    case False
    have "m2 p = m' p" if "p \<in> cells offset (?P - ?P')" for p
    proof -
      have "p \<in> cells offset (?P - ?P2)" using that P2 cells_mono [of "?P - ?P'" "?P - ?P2" offset] by blast
      moreover have "p \<in> cells offset (insert dst (?P - ?P'))"
        using that cells_mono [of "?P - ?P'" "insert dst (?P - ?P')" offset] by blast
      ultimately show ?thesis using m2 untouched fresh [OF that] by simp
    qed
    moreover have "m2' (dst + offset + 8 * i) = m' (dst + offset + 8 * i)"
      using dst [of i] False i n by (simp add: m1_def)
    moreover have "i < n" using False i by simp
    ultimately show ?thesis using I P2 by simp blast
  qed
  have frame: "m2' p = m p" if "p \<notin> cells offset (insert dst (?P - ?P2))" for p
  proof -
    have "p \<notin> cells offset ?N" using that cells_mono [of ?N "insert dst (?P - ?P2)" offset] N by blast
    moreover have "p \<notin> cells offset {dst}" using that cells_mono [of "{dst}" "insert dst (?P - ?P2)" offset] by blast
    moreover have "p \<notin> cells offset (insert dst (?P - ?P'))"
      using that cells_mono [of "insert dst (?P - ?P')" "insert dst (?P - ?P2)" offset] P2 by blast
    moreover from \<open>p \<notin> cells offset {dst}\<close> dcell have "p \<noteq> ?d" by blast
    ultimately show ?thesis using T I by (simp add: m1_def)
  qed
  have need: "entry_need pe offset l m src n = Suc (needed l pe offset m ?s)" using desc by (simp add: entry_need_def)
  have "card ?P2 + needed l pe offset m ?s = card ?P' - 1"
    using T t(1) pool.finite_pool [of a'] by simp
  then have "card ?P2 + (\<Sum>i<Suc n. entry_need pe offset l m src i) = card ?P"
    using conjunct1 [OF conjunct2 [OF conjunct2 [OF I]]] room need by simp
  with entry frame T P2 I show ?thesis by (auto simp: entries_copied_def)
qed

lemma copy_table:
  assumes inv: "entries_copied pe bf offset l src dst m a n (m', a')"
    and ready: "copy_ready pe bf x offset (Suc l) src dst m a" and n: "n < 512"
    and desc: "descends pe l (m (src + offset + 8 * n))"
    and rec: "\<And>src dst m a. copy_ready pe bf x offset l src dst m a \<Longrightarrow>
      \<exists>st. r (src + offset) (dst + offset) (m, a) = Inr st \<and> table_copied pe bf offset l src dst m a st"
  shows "\<exists>st. copy_entry pe bf x offset (Suc l) r (src + offset) (dst + offset) n (m', a') = Inr st \<and>
    entries_copied pe bf offset l src dst m a (Suc n) st"
proof -
  let ?e = "m (src + offset + 8 * n)" and ?d = "dst + offset + 8 * n"
  let ?s = "pte_addr pe ?e" and ?P = "frame_pool bf a" and ?P' = "frame_pool bf a'"
  note I = inv [unfolded entries_copied_def prod.case] and R = ready [unfolded copy_ready_def]
  have src: "m' (src + offset + 8 * n) = ?e"
    using n by (intro source_cell [OF inv ready, of src]) (auto simp: tables_self)
  have sub: "tables l pe offset m ?s \<subseteq> tables (Suc l) pe offset m src" using n desc by (auto simp: tables.simps)
  have "(\<Sum>i<Suc n. entry_need pe offset l m src i) \<le> needed (Suc l) pe offset m src"
    unfolding needed.simps entry_need_def [symmetric] using n by (intro sum_mono2) auto
  then have room: "Suc (needed l pe offset m ?s) \<le> card ?P'"
    using I R desc by (simp add: entry_need_def)
  then have "?P' \<noteq> {}" by auto
  moreover have win: "in_window x offset ?P'" using R I by (auto simp: in_window_def)
  ultimately obtain t a1 where t: "page_table_new bf x offset a' = Inr (\<lparr>pt_inner = t + offset, physical_address = t\<rparr>, a1)"
    "t \<in> ?P'" "frame_pool bf a1 = ?P' - {t}" "pool_ok bf a1"
    using I by (meson page_table_new_pool)
  have tP: "t \<in> ?P" using t(2) I by auto
  have t4: "t mod 4096 = 0" "t < 2 ^ 52" using pool.pool_frame [of a t] R tP by auto
  obtain e' where e': "pte_set_addr pe t (pte_flags pe ?e) = Inr e'" "pte_addr pe e' = t" "pte_flags pe e' = pte_flags pe ?e"
    using set_addr [OF t4, of ?e] by blast
  define m1 where "m1 = m'(?d := e')"
  have dcell: "?d \<in> cells offset {dst}" using n by auto
  have same: "m1 p = m p" if "p \<in> cells offset (tables l pe offset m ?s)" for p
  proof -
    from that obtain u where u: "u \<in> tables l pe offset m ?s" "p \<in> cells offset {u}" by (auto simp: cells_def)
    have "u \<noteq> dst" "u mod 4096 = 0" using u(1) sub R tables_aligned [of u l offset m ?s] addr_aligned by auto
    then have "p \<noteq> ?d" using cells_disjoint [of "{u}" "{dst}" p offset] u(2) dcell R by auto
    then show ?thesis using source_cell [OF inv ready _ u(2)] u(1) sub by (auto simp: m1_def)
  qed
  then have loc: "tables l pe offset m1 ?s = tables l pe offset m ?s" "needed l pe offset m1 ?s = needed l pe offset m ?s"
    "walk l pe offset m1 ?s va = walk l pe offset m ?s va" for va
    using tables_local [of offset l m ?s m1] by blast+
  have "copy_ready pe bf x offset l ?s t m1 a1"
    using R I sub t tP room t4(1) addr_aligned win pool.finite_pool [of a']
    by (auto simp: copy_ready_def loc in_window_def)
  then obtain m2' a2 where r: "r (?s + offset) (t + offset) (m1, a1) = Inr (m2', a2)"
    "table_copied pe bf offset l ?s t m1 a1 (m2', a2)"
    using rec by fastforce
  have "convert_physical_to_virtual x offset ?s = Inr (?s + offset)"
  proof -
    have "?s \<in> tables l pe offset m ?s" using desc by (intro tables_self) (simp add: descends_def)
    then show ?thesis using sub R by (auto simp: in_window_def)
  qed
  then have "copy_entry pe bf x offset (Suc l) r (src + offset) (dst + offset) n (m', a') = Inr (m2', a2)"
    using desc t(1) e'(1) r(1) by (auto simp: copy_entry_def src descends_def m1_def)
  moreover have "entries_copied pe bf offset l src dst m a (Suc n) (m2', a2)"
    by (rule copy_linked [OF inv ready n desc room t(2,3) e'(2,3) m1_def loc(2,3) r(2)])
  ultimately show ?thesis by blast
qed

lemma copy_correct:
  "copy_ready pe bf x offset l src dst m a \<Longrightarrow> l \<noteq> 0 \<Longrightarrow>
    \<exists>st. new_from_recursion l pe bf x offset (src + offset) (dst + offset) (m, a) = Inr st \<and>
      table_copied pe bf offset l src dst m a st"
proof (induction l arbitrary: src dst m a)
  case 0
  then show ?case by simp
next
  case (Suc l)
  note ready = Suc.prems(1)
  have "\<exists>st. for_each (copy_entry pe bf x offset (Suc l) (new_from_recursion l pe bf x offset) (src + offset) (dst + offset)) [0..<512] (m, a) = Inr st \<and>
      entries_copied pe bf offset l src dst m a 512 st"
  proof (rule for_each_upt_rule)
    show "entries_copied pe bf offset l src dst m a 0 (m, a)"
      using ready by (simp add: entries_copied_def copy_ready_def)
  next
    fix n st
    assume n: "n < 512" and st: "entries_copied pe bf offset l src dst m a n st"
    obtain m' a' where st': "st = (m', a')" by fastforce
    show "\<exists>s'. copy_entry pe bf x offset (Suc l) (new_from_recursion l pe bf x offset) (src + offset) (dst + offset) n st = Inr s' \<and>
        entries_copied pe bf offset l src dst m a (Suc n) s'"
    proof (cases "descends pe l (m (src + offset + 8 * n))")
      case True
      then have "l \<noteq> 0" by (simp add: descends_def)
      with copy_table [OF st [unfolded st'] ready n True] Suc.IH st' show ?thesis by blast
    next
      case False
      with copy_leaf [OF st [unfolded st'] ready n] st' show ?thesis by blast
    qed
  qed simp
  then obtain m' a' where st: "new_from_recursion (Suc l) pe bf x offset (src + offset) (dst + offset) (m, a) = Inr (m', a')"
    "entries_copied pe bf offset l src dst m a 512 (m', a')" by auto
  note I = st(2) [unfolded entries_copied_def prod.case]
  have "walk (Suc l) pe offset m2 dst va = walk (Suc l) pe offset m src va \<and>
      tables (Suc l) pe offset m2 dst \<subseteq> insert dst (frame_pool bf a - frame_pool bf a')"
    if m2: "\<forall>p \<in> cells offset (insert dst (frame_pool bf a - frame_pool bf a')). m2 p = m' p" for m2 va
  proof -
    have cell: "m2 (dst + offset + 8 * i) = m' (dst + offset + 8 * i)" if "i < 512" for i
      using m2 cellsI [OF insertI1 that] by blast
    have "\<forall>p \<in> cells offset (frame_pool bf a - frame_pool bf a'). m2 p = m' p"
      using m2 cells_mono [of "frame_pool bf a - frame_pool bf a'" "insert dst (frame_pool bf a - frame_pool bf a')" offset] by blast
    with I have "via_entry pe l (\<lambda>t. walk l pe offset m2 t va) (m' (dst + offset + 8 * i)) =
        via_entry pe l (\<lambda>t. walk l pe offset m t va) (m (src + offset + 8 * i)) \<and>
        entry_tables pe offset l m2 (m' (dst + offset + 8 * i)) \<subseteq> frame_pool bf a - frame_pool bf a'" if "i < 512" for i
      using that by blast
    then show ?thesis using cell [OF table_index_less] cell
      by (fastforce simp: tables.simps entry_tables_def)
  qed
  with I st(1) show ?case
    by (auto simp: table_copied_def needed.simps entry_need_def)
qed

lemma new_from_address_correct:
  assumes "pool_ok bf a" and "needed 4 pe offset m src < card (frame_pool bf a)"
    and "tables 4 pe offset m src \<inter> frame_pool bf a = {}" and "src mod 4096 = 0"
    and "in_window x offset (frame_pool bf a \<union> tables 4 pe offset m src)"
  shows "\<exists>t m' a'. new_from_address pe bf x offset src (m, a) =
      Inr (\<lparr>pt_inner = t + offset, physical_address = t\<rparr>, m', a') \<and> pool_ok bf a' \<and> frame_pool bf a' \<subseteq> frame_pool bf a \<and>
    (\<forall>va. walk 4 pe offset m' t va = walk 4 pe offset m src va) \<and>
    tables 4 pe offset m' t \<subseteq> frame_pool bf a - frame_pool bf a' \<and>
    card (frame_pool bf a) = card (frame_pool bf a') + needed 4 pe offset m src + 1 \<and>
    (\<forall>p. p \<notin> cells offset (frame_pool bf a - frame_pool bf a') \<longrightarrow> m' p = m p)"
proof -
  have "frame_pool bf a \<noteq> {}" "in_window x offset (frame_pool bf a)" using assms(2,5) by (auto simp: in_window_def)
  then obtain t a1 where t: "page_table_new bf x offset a = Inr (\<lparr>pt_inner = t + offset, physical_address = t\<rparr>, a1)"
    "t \<in> frame_pool bf a" "frame_pool bf a1 = frame_pool bf a - {t}" "pool_ok bf a1"
    using assms(1) by (meson page_table_new_pool)
  have "t mod 4096 = 0" using pool.pool_frame [OF assms(1) t(2)] by simp
  then have "copy_ready pe bf x offset 4 src t m a1"
    using assms t pool.finite_pool [of a] by (auto simp: copy_ready_def in_window_def)
  then obtain m' a' where c: "new_from_recursion 4 pe bf x offset (src + offset) (t + offset) (m, a1) = Inr (m', a')"
    "table_copied pe bf offset 4 src t m a1 (m', a')"
    using copy_correct [of 4 src t m a1] by auto
  have "convert_physical_to_virtual x offset src = Inr (src + offset)"
    using assms(5) tables_self [of 4 src offset m] by (auto simp: in_window_def)
  then have run: "new_from_address pe bf x offset src (m, a) = Inr (\<lparr>pt_inner = t + offset, physical_address = t\<rparr>, m', a')"
    using t(1) c(1) by (simp add: new_from_address_def)
  note T = c(2) [unfolded table_copied_def prod.case t(3)]
  have N: "insert t (frame_pool bf a - {t} - frame_pool bf a') = frame_pool bf a - frame_pool bf a'"
    using T t(2) by auto
  have "card (frame_pool bf a) = Suc (card (frame_pool bf a - {t}))"
    using t(2) pool.finite_pool [of a] by (metis card_Suc_Diff1)
  moreover have "frame_pool bf a' \<subseteq> frame_pool bf a" using T by blast
  ultimately show ?thesis using run T N by (intro exI [of _ t] exI [of _ m'] exI [of _ a']) simp
qed

end

text \<open>The entry of the architecture: bits 12 to 51 are the address, the others are flags.\<close>

definition addr_mask :: u64 where
  "addr_mask = 0x000ffffffffff000"

definition word_entries :: "u64 pte_api" where
  "word_entries = \<lparr>pte_addr = (\<lambda>e. unat (e AND addr_mask)), pte_flags = (\<lambda>e. e AND NOT addr_mask),
     pte_is_unused = (\<lambda>e. e = 0),
     pte_set_addr = (\<lambda>a f. if a mod 4096 = 0 then Inr (of_nat a OR f) else Inl AssertFailed)\<rparr>"

lemma bit_addr_mask: "bit addr_mask n \<longleftrightarrow> 12 \<le> n \<and> n < 52"
proof -
  have eq: "addr_mask = push_bit 12 (mask 40)" by (simp add: addr_mask_def mask_eq_exp_minus_1)
  show ?thesis unfolding eq by (auto simp: bit_push_bit_iff bit_mask_iff possible_bit_def)
qed

lemma bit_aligned_address:
  fixes a :: nat
  assumes "a mod 4096 = 0" and "a < 2 ^ 52" and "bit a n"
  shows "12 \<le> n \<and> n < 52"
proof -
  have "take_bit 12 a = 0" "take_bit 52 a = a" using assms(1,2) by (simp_all add: take_bit_eq_mod)
  then have "\<not> bit (take_bit 12 a) n" "bit (take_bit 52 a) n" using assms(3) by simp_all
  with assms(3) show ?thesis by (auto simp only: bit_take_bit_iff)
qed

lemma word_address:
  assumes "a mod 4096 = 0" and "a < 2 ^ 52"
  shows "(of_nat a OR (e AND NOT addr_mask)) AND addr_mask = (of_nat a :: u64)"
    and "(of_nat a OR (e AND NOT addr_mask)) AND NOT addr_mask = e AND NOT addr_mask"
proof -
  have a: "bit (of_nat a :: u64) n \<longleftrightarrow> bit a n \<and> 12 \<le> n \<and> n < 52" for n
    using bit_aligned_address [OF assms, of n] by (auto simp: bit_of_nat_iff)
  show "(of_nat a OR (e AND NOT addr_mask)) AND addr_mask = (of_nat a :: u64)"
    by (rule bit_word_eqI) (auto simp: bit_and_iff bit_or_iff bit_not_iff a bit_addr_mask)
  show "(of_nat a OR (e AND NOT addr_mask)) AND NOT addr_mask = e AND NOT addr_mask"
    by (rule bit_word_eqI) (auto simp: bit_and_iff bit_or_iff bit_not_iff a bit_addr_mask)
qed

lemma masked_address:
  "unat (e AND addr_mask) mod 4096 = 0" "unat (e AND addr_mask) < 2 ^ 52"
proof -
  have "take_bit 12 (e AND addr_mask) = 0" "take_bit 52 (e AND addr_mask) = e AND addr_mask"
    by (rule bit_word_eqI; auto simp: bit_take_bit_iff bit_and_iff bit_addr_mask)+
  then have "take_bit 12 (unat (e AND addr_mask)) = 0" "take_bit 52 (unat (e AND addr_mask)) = unat (e AND addr_mask)"
    by (metis unsigned_0 unsigned_take_bit_eq)+
  then show "unat (e AND addr_mask) mod 4096 = 0" "unat (e AND addr_mask) < 2 ^ 52"
    by (simp_all add: take_bit_eq_mod take_bit_nat_eq_self_iff mod_eq_self_iff_div_eq_0)
qed

interpretation word_entries: page_entries word_entries
proof
  fix a :: nat and e :: u64
  show "pte_addr word_entries e mod 4096 = 0" "pte_addr word_entries e < 2 ^ 52"
    using masked_address [of e] by (simp_all add: word_entries_def)
  show "pte_is_unused word_entries e \<longleftrightarrow> pte_addr word_entries e = 0 \<and> pte_flags word_entries e = 0"
  proof -
    have "e = (e AND addr_mask) OR (e AND NOT addr_mask)" by (rule bit_word_eqI) (auto simp: bit_simps)
    then show ?thesis by (auto simp: word_entries_def unat_eq_0)
  qed
  assume a: "a mod 4096 = 0" "a < 2 ^ 52"
  then show "\<exists>e'. pte_set_addr word_entries a (pte_flags word_entries e) = Inr e' \<and>
      pte_addr word_entries e' = a \<and> pte_flags word_entries e' = pte_flags word_entries e"
    using word_address [OF a, of e] by (simp add: word_entries_def unat_of_nat_small)
qed

text \<open>
  A kernel table for the witnesses: entry 3 of the level 4 table in frame 1 leads to the level 3
  table in frame 5, whose entry 1 is a 1 GiB page.
\<close>

definition demo_offset :: nat where
  "demo_offset = 0xffff800000000000"

definition demo_tables :: "u64 table_mem" where
  "demo_tables p =
     (if p = 4096 + demo_offset + 8 * 3 then 20480 OR PRESENT OR WRITABLE
      else if p = 20480 + demo_offset + 8 * 1 then 0x40000000 OR PRESENT OR HUGE_PAGE else 0)"

lemma demo_copy: "page_copy byte_bits x86_model word_entries demo_offset"
  by (intro page_copy.intro page_copy_axioms.intro frame_env_model word_entries.page_entries_axioms)
    (simp add: demo_offset_def canonical_def)

interpretation demo_paging: page_copy byte_bits x86_model word_entries demo_offset
  by (rule demo_copy)

lemmas demo_entry_simps = demo_tables_def word_entries_def addr_mask_def PRESENT_def WRITABLE_def HUGE_PAGE_def
  contains_flag_def

lemma demo_descends:
  "descends word_entries 3 (demo_tables (4096 + demo_offset + 8 * i)) \<longleftrightarrow> i = 3"
  "\<not> descends word_entries 2 (demo_tables (20480 + demo_offset + 8 * i))"
  by (auto simp: descends_def demo_entry_simps; presburger)+

lemma demo_sub: "pte_addr word_entries (demo_tables (4096 + demo_offset + 8 * 3)) = 20480"
  by (simp add: demo_entry_simps)

lemma demo_level_3:
  "tables 3 word_entries demo_offset demo_tables 20480 = {20480}"
  "needed 3 word_entries demo_offset demo_tables 20480 = 0"
  by (simp_all add: tables.simps needed.simps numeral_3_eq_3 demo_descends [unfolded numeral_2_eq_2])

lemma demo_level_4:
  "tables 4 word_entries demo_offset demo_tables 4096 = {4096, 20480}"
  "needed 4 word_entries demo_offset demo_tables 4096 = 1"
proof -
  have 4: "4 = Suc 3" by simp
  have t: "(if i = 3 then tables 3 word_entries demo_offset demo_tables
        (pte_addr word_entries (demo_tables (4096 + demo_offset + 8 * i))) else {}) = (if i = 3 then {20480} else {})"
    and n: "(if i = 3 then Suc (needed 3 word_entries demo_offset demo_tables
        (pte_addr word_entries (demo_tables (4096 + demo_offset + 8 * i)))) else 0) = (if i = 3 then 1 else 0)" for i
    using demo_sub demo_level_3 by simp_all
  show "tables 4 word_entries demo_offset demo_tables 4096 = {4096, 20480}"
    unfolding 4 tables.simps demo_descends t by auto
  show "needed 4 word_entries demo_offset demo_tables 4096 = 1"
    unfolding 4 needed.simps demo_descends n by simp
qed

lemma demo_pool:
  "frame_pool byte_bits demo_allocator = {0, 8192, 12288, 16384, 24576, 28672}"
  "pool_ok byte_bits demo_allocator"
  by (simp_all add: frame_pool_def demo_reachable pool_ok_def demo_cursor demo_addressable)
    (simp add: demo_allocator_def)

lemma demo_window: "in_window x86_model demo_offset
  (frame_pool byte_bits demo_allocator \<union> tables 4 word_entries demo_offset demo_tables 4096)"
  unfolding demo_pool demo_level_4
  by (simp add: in_window_def convert_physical_to_virtual_def usize_add_def usize_max_def
      demo_offset_def x86_model_def canonical_def)

lemma demo_walk: "walk 4 word_entries demo_offset demo_tables 4096 (3 * 2 ^ 39 + 2 ^ 30) = Some (0x40000000, [3, 0x81])"
proof -
  have 4: "4 = Suc (Suc 2)" by simp
  show ?thesis unfolding 4 walk.simps
    by (simp add: table_index_def via_entry_def demo_entry_simps)
qed

text \<open>
  C2. Copying a page table copies the address space: given enough frames outside the tables that
  are read, \<open>new_from_address\<close> returns; the new table translates every virtual address to the same
  physical address through entries with the same flags; it is built from newly allocated frames
  only, exactly one per table of the source, so it shares no table with it; and no memory
  outside those frames is written.
\<close>

theorem page_table_copy:
  assumes "page_copy bf x pe offset" and "pool_ok bf a" and "needed 4 pe offset m src < card (frame_pool bf a)"
    and "tables 4 pe offset m src \<inter> frame_pool bf a = {}" and "src mod 4096 = 0"
    and "in_window x offset (frame_pool bf a \<union> tables 4 pe offset m src)"
  shows "\<exists>t m' a'. new_from_address pe bf x offset src (m, a) =
      Inr (\<lparr>pt_inner = t + offset, physical_address = t\<rparr>, m', a') \<and> pool_ok bf a' \<and>
    (\<forall>va. walk 4 pe offset m' t va = walk 4 pe offset m src va) \<and>
    tables 4 pe offset m' t \<subseteq> frame_pool bf a - frame_pool bf a' \<and>
    card (frame_pool bf a) = card (frame_pool bf a') + needed 4 pe offset m src + 1 \<and>
    (\<forall>p. p \<notin> cells offset (frame_pool bf a - frame_pool bf a') \<longrightarrow> m' p = m p)"
  using page_copy.new_from_address_correct [OF assms] by (elim exE conjE) (intro exI conjI, assumption+)

theorem page_table_copy_witness:
  "\<exists>t m' a'. new_from_address word_entries byte_bits x86_model demo_offset 4096 (demo_tables, demo_allocator) =
      Inr (\<lparr>pt_inner = t + demo_offset, physical_address = t\<rparr>, m', a') \<and>
    walk 4 word_entries demo_offset m' t (3 * 2 ^ 39 + 2 ^ 30) = Some (0x40000000, [3, 0x81])"
proof -
  have "needed 4 word_entries demo_offset demo_tables 4096 < card (frame_pool byte_bits demo_allocator)"
    "tables 4 word_entries demo_offset demo_tables 4096 \<inter> frame_pool byte_bits demo_allocator = {}"
    by (simp_all add: demo_level_4 demo_pool)
  from page_table_copy [OF demo_copy demo_pool(2) this _ demo_window] show ?thesis
    unfolding demo_walk [symmetric] by auto
qed

end
