(* ===== verification/VirtMem.thy ===== *)
theory VirtMem
  imports Paging
begin

text \<open>
  Virtual memory on top of the \<open>x86_64\<close> crate's mapper: \<open>MemoryManager\<close> (\<open>memory/manager.rs\<close>),
  the mapping, reading and writing methods of \<open>GeneralPageTable\<close> (\<open>memory/page_table.rs\<close>) and the
  user stack (\<open>task/stack.rs\<close>).  The mapper itself is the parameter record \<open>mapper_api\<close>, over an
  abstract table state \<open>'p\<close>; the locale \<open>page_mapper\<close> states what the crate documents about it.
\<close>

section \<open>The mapper\<close>

datatype MapToError = FrameAllocationFailed | ParentEntryHugePage | PageAlreadyMapped nat

datatype UnmapError = UnmapParentEntryHugePage | PageNotMapped | InvalidFrameAddress nat

type_synonym ('p, 'e) mapped = "(('e + unit) \<times> 'p \<times> BitmapFrameAllocator) result"

record 'p mapper_api =
  map_to :: "nat \<Rightarrow> nat \<Rightarrow> u64 \<Rightarrow> 'p \<Rightarrow> BitmapFrameAllocator \<Rightarrow> ('p, MapToError) mapped"
  map_to_with_table_flags :: "nat \<Rightarrow> nat \<Rightarrow> u64 \<Rightarrow> u64 \<Rightarrow> 'p \<Rightarrow> BitmapFrameAllocator \<Rightarrow> ('p, MapToError) mapped"
  unmap :: "nat \<Rightarrow> 'p \<Rightarrow> (UnmapError + nat) \<times> 'p"
  translate_addr :: "'p \<Rightarrow> nat \<Rightarrow> nat option"
  range_inclusive :: "nat \<Rightarrow> nat \<Rightarrow> nat list"

text \<open>\<open>VirtAddr + u64\<close> and \<open>VirtAddr - u64\<close>: the result has to be canonical.\<close>

definition va_add :: "x86_api \<Rightarrow> nat \<Rightarrow> nat \<Rightarrow> nat result" where
  "va_add x a n = and_then (usize_add a n) (virt_addr_new x)"

definition va_sub :: "x86_api \<Rightarrow> nat \<Rightarrow> nat \<Rightarrow> nat result" where
  "va_sub x a n = and_then (usize_sub a n) (virt_addr_new x)"

text \<open>A loop whose body may return early with an error, keeping the state reached.\<close>

fun try_each :: "('a \<Rightarrow> 's \<Rightarrow> (('e + unit) \<times> 's) result) \<Rightarrow> 'a list \<Rightarrow> 's \<Rightarrow> (('e + unit) \<times> 's) result" where
  "try_each body [] s = Inr (Inr (), s)"
| "try_each body (x # xs) s =
     and_then (body x s) (\<lambda>(r, s). case r of Inl e \<Rightarrow> Inr (Inl e, s) | Inr _ \<Rightarrow> try_each body xs s)"

section \<open>Mapping ranges\<close>

definition map_frame_to_page ::
  "'p mapper_api \<Rightarrow> nat \<Rightarrow> nat \<Rightarrow> u64 \<Rightarrow> 'p \<Rightarrow> BitmapFrameAllocator \<Rightarrow> ('p, MapToError) mapped" where
  "map_frame_to_page mp frame page flags p a = map_to mp page frame flags p a"

definition alloc_page ::
  "'p mapper_api \<Rightarrow> bit_field_api \<Rightarrow> x86_api \<Rightarrow> u64 \<Rightarrow> nat \<Rightarrow> 'p \<times> BitmapFrameAllocator \<Rightarrow> ('p, MapToError) mapped" where
  "alloc_page mp bf x flags page st =
     (let (p, a) = st in
      and_then (allocate_frame bf x a) (\<lambda>(frame, a).
      and_then (expect ''Failed to allocate frame!'' frame) (\<lambda>frame.
      map_frame_to_page mp frame page flags p a)))"

definition alloc_range ::
  "'p mapper_api \<Rightarrow> bit_field_api \<Rightarrow> x86_api \<Rightarrow> nat \<Rightarrow> nat \<Rightarrow> u64 \<Rightarrow> 'p \<Rightarrow> BitmapFrameAllocator \<Rightarrow> ('p, MapToError) mapped" where
  "alloc_range mp bf x start_address len flags p a =
     (let start_page = page_containing x start_address in
      and_then (va_add x start_address len) (\<lambda>past.
      and_then (va_sub x past 1) (\<lambda>end_address.
      let end_page = page_containing x end_address in
      try_each (alloc_page mp bf x flags) (range_inclusive mp start_page end_page) (p, a))))"

text \<open>\<open>map_to_with_table_flags_general\<close> replaces an existing mapping and ignores huge parents.\<close>

definition map_to_with_table_flags_general ::
  "'p mapper_api \<Rightarrow> nat \<Rightarrow> nat \<Rightarrow> u64 \<Rightarrow> u64 \<Rightarrow> 'p \<Rightarrow> BitmapFrameAllocator \<Rightarrow> ('p \<times> BitmapFrameAllocator) result" where
  "map_to_with_table_flags_general mp page frame flags parent p a =
     and_then (map_to_with_table_flags mp page frame flags parent p a) (\<lambda>(r, p, a).
     case r of
       Inr _ \<Rightarrow> Inr (p, a)
     | Inl ParentEntryHugePage \<Rightarrow> Inr (p, a)
     | Inl (PageAlreadyMapped _) \<Rightarrow>
         (case unmap mp page p of
            (Inl _, _) \<Rightarrow> Inl (ExpectFailed ''Cannot unmap to'')
          | (Inr _, p) \<Rightarrow>
              and_then (map_to_with_table_flags mp page frame flags parent p a) (\<lambda>(r, p, a).
              case r of Inr _ \<Rightarrow> Inr (p, a) | Inl _ \<Rightarrow> Inl UnwrapNone))
     | Inl FrameAllocationFailed \<Rightarrow> Inl (ExplicitPanic ''Out of memory''))"

section \<open>Copying through a table\<close>

type_synonym bytes = "nat \<Rightarrow> u8"

definition read_byte ::
  "'p mapper_api \<Rightarrow> x86_api \<Rightarrow> nat \<Rightarrow> 'p \<Rightarrow> bytes \<Rightarrow> nat \<Rightarrow> nat \<Rightarrow> u8 list \<Rightarrow> ((unit + unit) \<times> u8 list) result" where
  "read_byte mp x offset p m address i buffer =
     and_then (va_add x address i) (\<lambda>src_address.
     case translate_addr mp p src_address of
       None \<Rightarrow> Inr (Inl (), buffer)
     | Some pa \<Rightarrow>
         and_then (convert_physical_to_virtual x offset pa) (\<lambda>va.
         and_then (store buffer i (m va)) (\<lambda>buffer. Inr (Inr (), buffer))))"

definition pt_read ::
  "'p mapper_api \<Rightarrow> x86_api \<Rightarrow> nat \<Rightarrow> 'p \<Rightarrow> bytes \<Rightarrow> nat \<Rightarrow> nat \<Rightarrow> u8 list \<Rightarrow> ((unit + unit) \<times> u8 list) result" where
  "pt_read mp x offset p m address len buffer = try_each (read_byte mp x offset p m address) [0..<len] buffer"

definition write_byte ::
  "'p mapper_api \<Rightarrow> x86_api \<Rightarrow> nat \<Rightarrow> 'p \<Rightarrow> nat \<Rightarrow> nat \<times> u8 \<Rightarrow> bytes \<Rightarrow> ((unit + unit) \<times> bytes) result" where
  "write_byte mp x offset p address b m =
     and_then (va_add x address (fst b)) (\<lambda>target_address.
     case translate_addr mp p target_address of
       None \<Rightarrow> Inr (Inl (), m)
     | Some pa \<Rightarrow>
         and_then (convert_physical_to_virtual x offset pa) (\<lambda>va.
         Inr (Inr (), m(va := snd b))))"

definition pt_write ::
  "'p mapper_api \<Rightarrow> x86_api \<Rightarrow> nat \<Rightarrow> 'p \<Rightarrow> u8 list \<Rightarrow> nat \<Rightarrow> bytes \<Rightarrow> ((unit + unit) \<times> bytes) result" where
  "pt_write mp x offset p buffer address m =
     try_each (write_byte mp x offset p address) (enumerate 0 buffer) m"

text \<open>\<open>write_for_syscall\<close> writes through the current address space, \<open>size\<close> bytes per element.\<close>

definition write_for_syscall :: "nat \<Rightarrow> nat \<Rightarrow> 'v list \<Rightarrow> (nat \<Rightarrow> 'v) \<Rightarrow> nat \<Rightarrow> 'v" where
  "write_for_syscall size_of addr buf m = fold (\<lambda>(i, v) m. m(addr + i * size_of := v)) (enumerate 0 buf) m"

section \<open>The user stack\<close>

definition USER_STACK_END :: nat where "USER_STACK_END = 0x00007ffffefff000"
definition USER_STACK_SIZE :: nat where "USER_STACK_SIZE = 64 * 1024"

record UserStack =
  start_address :: nat
  end_address :: nat

definition user_stack_new ::
  "'p mapper_api \<Rightarrow> bit_field_api \<Rightarrow> x86_api \<Rightarrow> 'p \<Rightarrow> BitmapFrameAllocator \<Rightarrow> (UserStack \<times> 'p \<times> BitmapFrameAllocator) result" where
  "user_stack_new mp bf x p a =
     and_then (virt_addr_new x USER_STACK_END) (\<lambda>user_stack_end.
     and_then (va_sub x user_stack_end USER_STACK_SIZE) (\<lambda>user_stack_start.
     let flags = PRESENT OR WRITABLE OR USER_ACCESSIBLE OR NO_EXECUTE in
     and_then (alloc_range mp bf x user_stack_start USER_STACK_SIZE flags p a) (\<lambda>(r, p, a).
     case r of Inl _ \<Rightarrow> Inl UnwrapNone
     | Inr _ \<Rightarrow> Inr (\<lparr>start_address = user_stack_start, end_address = user_stack_end\<rparr>, p, a))))"

section \<open>The contract of the mapper\<close>

text \<open>
  \<open>view\<close> is the mapping the tables describe, \<open>huge\<close> the pages below a huge parent entry.  Mapping
  a page that is free takes at most three further frames for tables.
\<close>

locale page_mapper = frame_env bf x for bf :: bit_field_api and x :: x86_api +
  fixes mp :: "'p mapper_api" and view :: "'p \<Rightarrow> nat \<rightharpoonup> nat \<times> u64" and huge :: "'p \<Rightarrow> nat \<Rightarrow> bool"
  assumes map_to_with: "\<exists>parent. map_to mp page frame flags p a = map_to_with_table_flags mp page frame flags parent p a"
    and map_free: "pool_ok bf a \<Longrightarrow> 3 \<le> card (frame_pool bf a) \<Longrightarrow> view p page = None \<Longrightarrow> \<not> huge p page \<Longrightarrow>
      \<exists>p' a'. map_to_with_table_flags mp page frame flags parent p a = Inr (Inr (), p', a') \<and>
        view p' = (view p)(page \<mapsto> (frame, flags)) \<and> huge p' = huge p \<and> pool_ok bf a' \<and>
        frame_pool bf a' \<subseteq> frame_pool bf a \<and> card (frame_pool bf a) \<le> card (frame_pool bf a') + 3"
    and map_used: "view p page = Some (f, fl) \<Longrightarrow> \<not> huge p page \<Longrightarrow>
      map_to_with_table_flags mp page frame flags parent p a = Inr (Inl (PageAlreadyMapped f), p, a)"
    and map_huge: "huge p page \<Longrightarrow>
      map_to_with_table_flags mp page frame flags parent p a = Inr (Inl ParentEntryHugePage, p, a)"
    and unmap_used: "view p page = Some (f, fl) \<Longrightarrow> \<not> huge p page \<Longrightarrow>
      \<exists>p'. unmap mp page p = (Inr f, p') \<and> view p' = (view p)(page := None) \<and> huge p' = huge p"
    and translate: "\<not> huge p (page_containing x va) \<Longrightarrow>
      translate_addr mp p va = map_option (\<lambda>(f, _). f + va mod 4096) (view p (page_containing x va))"
    and range: "s mod 4096 = 0 \<Longrightarrow> e mod 4096 = 0 \<Longrightarrow>
      range_inclusive mp s e = (if s \<le> e then map (\<lambda>i. s + 4096 * i) [0..<Suc ((e - s) div 4096)] else [])"

begin

lemma map_to_free:
  assumes "pool_ok bf a" "3 \<le> card (frame_pool bf a)" "view p page = None" "\<not> huge p page"
  obtains p' a' where "map_to mp page frame flags p a = Inr (Inr (), p', a')"
    "view p' = (view p)(page \<mapsto> (frame, flags))" "huge p' = huge p" "pool_ok bf a'"
    "frame_pool bf a' \<subseteq> frame_pool bf a" "card (frame_pool bf a) \<le> card (frame_pool bf a') + 3"
proof -
  obtain parent where "map_to mp page frame flags p a = map_to_with_table_flags mp page frame flags parent p a"
    using map_to_with by blast
  with map_free [OF assms, of frame flags parent] that show thesis by auto
qed

lemma map_to_used:
  "view p page = Some (f, fl) \<Longrightarrow> \<not> huge p page \<Longrightarrow> map_to mp page frame flags p a = Inr (Inl (PageAlreadyMapped f), p, a)"
  using map_to_with map_used by metis

lemma alloc_page_free:
  assumes "pool_ok bf a" "4 \<le> card (frame_pool bf a)" "view p page = None" "\<not> huge p page"
  obtains f p' a' where "alloc_page mp bf x flags page (p, a) = Inr (Inr (), p', a')"
    "f \<in> frame_pool bf a - frame_pool bf a'" "view p' = (view p)(page \<mapsto> (f, flags))" "huge p' = huge p" "pool_ok bf a'"
    "frame_pool bf a' \<subseteq> frame_pool bf a" "card (frame_pool bf a) \<le> card (frame_pool bf a') + 4"
proof -
  have "frame_pool bf a \<noteq> {}" using assms(2) by auto
  from pool.alloc_pool [OF assms(1) this] obtain f a1 where a1: "allocate_frame bf x a = Inr (Some f, a1)"
    "f \<in> frame_pool bf a" "frame_pool bf a1 = frame_pool bf a - {f}" "pool_ok bf a1" by blast
  have "card (frame_pool bf a1) = card (frame_pool bf a) - 1" using a1(2,3) pool.finite_pool [of a] by simp
  with assms(2) have three: "3 \<le> card (frame_pool bf a1)" by simp
  obtain p' a' where
    m: "map_to mp page f flags p a1 = Inr (Inr (), p', a')" "view p' = (view p)(page \<mapsto> (f, flags))" "huge p' = huge p"
      "pool_ok bf a'" "frame_pool bf a' \<subseteq> frame_pool bf a1" "card (frame_pool bf a1) \<le> card (frame_pool bf a') + 3"
    using map_to_free [OF a1(4) three assms(3,4)] .
  show thesis
    by (rule that [of p' a' f])
      (use a1 m \<open>card (frame_pool bf a1) = _\<close> in \<open>auto simp: alloc_page_def map_frame_to_page_def\<close>)
qed

text \<open>The loop of \<open>alloc_range\<close> over pages that are free.\<close>

lemma alloc_pages:
  assumes "pool_ok bf a" "4 * length ps \<le> card (frame_pool bf a)" "distinct ps"
    "\<forall>q \<in> set ps. view p q = None \<and> \<not> huge p q"
  shows "\<exists>fs p' a'. try_each (alloc_page mp bf x flags) ps (p, a) = Inr (Inr (), p', a') \<and>
    length fs = length ps \<and> distinct fs \<and> set fs \<subseteq> frame_pool bf a - frame_pool bf a' \<and>
    view p' = (view p)(ps [\<mapsto>] map (\<lambda>f. (f, flags)) fs) \<and> huge p' = huge p \<and> pool_ok bf a' \<and>
    frame_pool bf a' \<subseteq> frame_pool bf a \<and> card (frame_pool bf a) \<le> card (frame_pool bf a') + 4 * length ps"
  using assms
proof (induction ps arbitrary: p a)
  case Nil
  then show ?case by simp
next
  case (Cons q ps)
  then have q: "4 \<le> card (frame_pool bf a)" "view p q = None" "\<not> huge p q" by auto
  obtain f p1 a1 where 1: "alloc_page mp bf x flags q (p, a) = Inr (Inr (), p1, a1)"
    "f \<in> frame_pool bf a - frame_pool bf a1" "view p1 = (view p)(q \<mapsto> (f, flags))" "huge p1 = huge p" "pool_ok bf a1"
    "frame_pool bf a1 \<subseteq> frame_pool bf a" "card (frame_pool bf a) \<le> card (frame_pool bf a1) + 4"
    using alloc_page_free [OF Cons.prems(1) q] .
  have "\<exists>fs p' a'. try_each (alloc_page mp bf x flags) ps (p1, a1) = Inr (Inr (), p', a') \<and>
    length fs = length ps \<and> distinct fs \<and> set fs \<subseteq> frame_pool bf a1 - frame_pool bf a' \<and>
    view p' = (view p1)(ps [\<mapsto>] map (\<lambda>f. (f, flags)) fs) \<and> huge p' = huge p1 \<and> pool_ok bf a' \<and>
    frame_pool bf a' \<subseteq> frame_pool bf a1 \<and> card (frame_pool bf a1) \<le> card (frame_pool bf a') + 4 * length ps"
    using Cons.prems 1(3-5,7) by (intro Cons.IH) auto
  then obtain fs p' a' where 2: "try_each (alloc_page mp bf x flags) ps (p1, a1) = Inr (Inr (), p', a')"
    "length fs = length ps" "distinct fs" "set fs \<subseteq> frame_pool bf a1 - frame_pool bf a'"
    "view p' = (view p1)(ps [\<mapsto>] map (\<lambda>f. (f, flags)) fs)" "huge p' = huge p1" "pool_ok bf a'"
    "frame_pool bf a' \<subseteq> frame_pool bf a1" "card (frame_pool bf a1) \<le> card (frame_pool bf a') + 4 * length ps" by blast
  show ?case
    using 1 2 by (intro exI [of _ "f # fs"] exI [of _ p'] exI [of _ a']) auto
qed

end

lemma map_upds_nth:
  "distinct xs \<Longrightarrow> length ys = length xs \<Longrightarrow> i < length xs \<Longrightarrow> (m(xs [\<mapsto>] ys)) (xs ! i) = Some (ys ! i)"
proof (induction xs arbitrary: ys m i)
  case Nil
  then show ?case by simp
next
  case (Cons x xs)
  then obtain y ys' where ys: "ys = y # ys'" "length ys' = length xs" by (cases ys) auto
  show ?case
  proof (cases i)
    case 0
    then show ?thesis using Cons.prems(1) ys by simp
  next
    case (Suc j)
    then have "xs ! j \<noteq> x" using Cons.prems by auto
    then show ?thesis using Cons ys Suc by simp
  qed
qed

text \<open>The pages that the bytes \<open>start .. start + len - 1\<close> lie in.\<close>

definition pages_of :: "nat \<Rightarrow> nat \<Rightarrow> nat list" where
  "pages_of start len = map ((*) 4096) [start div 4096..<Suc ((start + len - 1) div 4096)]"

lemma distinct_pages_of: "distinct (pages_of start len)"
  by (auto simp: pages_of_def distinct_map inj_on_def)

lemma try_each_append:
  "try_each body (xs @ ys) s =
     and_then (try_each body xs s) (\<lambda>(r, s). case r of Inl e \<Rightarrow> Inr (Inl e, s) | Inr _ \<Rightarrow> try_each body ys s)"
proof (induction xs arbitrary: s)
  case Nil
  then show ?case by simp
next
  case (Cons a xs)
  show ?case
  proof (cases "body a s")
    case (Inr v)
    then show ?thesis by (cases "fst v"; cases v) (auto simp: Cons.IH)
  qed simp
qed

context page_mapper
begin

lemma page_containing_mult: "page_containing x a = 4096 * (a div 4096)"
  by (simp add: page_containing minus_mod_eq_mult_div)

lemma page_of: "buf mod 4096 = 0 \<Longrightarrow> page_containing x (buf + i) = buf + 4096 * (i div 4096)"
proof -
  assume "buf mod 4096 = 0"
  then have "(buf + i) mod 4096 = i mod 4096" by (metis add_0 mod_add_left_eq)
  then have "page_containing x (buf + i) = buf + (i - i mod 4096)" by (simp add: page_containing)
  then show ?thesis by (simp add: minus_mod_eq_mult_div)
qed

lemma alloc_range_pages:
  assumes "0 < len" and "start + len < 2 ^ 47"
  shows "alloc_range mp bf x start len flags p a = try_each (alloc_page mp bf x flags) (pages_of start len) (p, a)"
proof -
  let ?s = "start div 4096" and ?e = "(start + len - 1) div 4096"
  have se: "?s \<le> ?e" using assms(1) by (intro div_le_mono) simp
  have "range_inclusive mp (4096 * ?s) (4096 * ?e) = map (\<lambda>i. 4096 * ?s + 4096 * i) [0..<Suc (?e - ?s)]"
    using range [of "4096 * ?s" "4096 * ?e"] se by (simp flip: diff_mult_distrib2)
  also have "map (\<lambda>i. 4096 * ?s + 4096 * i) [0..<Suc (?e - ?s)] = pages_of start len"
  proof -
    have "[?s..<Suc ?e] = map (\<lambda>i. i + ?s) [0..<Suc (?e - ?s)]" using se by (simp only: map_add_upt) simp
    then show ?thesis by (simp only: pages_of_def map_map o_def) (simp only: distrib_left add.commute)
  qed
  finally have "range_inclusive mp (4096 * ?s) (4096 * ?e) = pages_of start len" .
  moreover have "start + len - 1 < 2 ^ 47" using assms by simp
  ultimately show ?thesis
    using assms by (simp add: alloc_range_def va_add_def va_sub_def usize_add_def usize_sub_def usize_max_def
        virt_addr_new canonical_def page_containing_mult)
qed

lemma alloc_range_free:
  assumes "pool_ok bf a" "0 < len" "start + len < 2 ^ 47" "4 * length (pages_of start len) \<le> card (frame_pool bf a)"
    "\<forall>q \<in> set (pages_of start len). view p q = None \<and> \<not> huge p q"
  shows "\<exists>fs p' a'. alloc_range mp bf x start len flags p a = Inr (Inr (), p', a') \<and>
    length fs = length (pages_of start len) \<and> distinct fs \<and> set fs \<subseteq> frame_pool bf a - frame_pool bf a' \<and>
    view p' = (view p)(pages_of start len [\<mapsto>] map (\<lambda>f. (f, flags)) fs) \<and> huge p' = huge p \<and> pool_ok bf a' \<and>
    frame_pool bf a' \<subseteq> frame_pool bf a \<and> card (frame_pool bf a) \<le> card (frame_pool bf a') + 4 * length (pages_of start len)"
  unfolding alloc_range_pages [OF assms(2,3)]
  by (rule alloc_pages [OF assms(1,4) distinct_pages_of assms(5)])

text \<open>
  A page of the range that is in use stops the loop: the pages before it stay mapped and the
  frame taken for it is in no mapping.
\<close>

lemma alloc_range_used:
  assumes "pool_ok bf a" "0 < len" "start + len < 2 ^ 47" "4 * length (pages_of start len) \<le> card (frame_pool bf a)"
    "pages_of start len = qs @ q # rs" "\<forall>q \<in> set qs. view p q = None \<and> \<not> huge p q"
    "view p q = Some (f, fl)" "\<not> huge p q"
  shows "\<exists>fs lost p' a'. alloc_range mp bf x start len flags p a = Inr (Inl (PageAlreadyMapped f), p', a') \<and>
    length fs = length qs \<and> distinct (lost # fs) \<and> set (lost # fs) \<subseteq> frame_pool bf a - frame_pool bf a' \<and>
    view p' = (view p)(qs [\<mapsto>] map (\<lambda>f. (f, flags)) fs) \<and> pool_ok bf a'"
proof -
  have d: "distinct qs" "q \<notin> set qs" using distinct_pages_of [of start len] assms(5) by auto
  have "4 * length qs \<le> card (frame_pool bf a)" using assms(4,5) by simp
  from alloc_pages [OF assms(1) this d(1) assms(6), of flags] obtain fs p1 a1 where
    1: "try_each (alloc_page mp bf x flags) qs (p, a) = Inr (Inr (), p1, a1)"
      "length fs = length qs" "distinct fs" "set fs \<subseteq> frame_pool bf a - frame_pool bf a1"
      "view p1 = (view p)(qs [\<mapsto>] map (\<lambda>f. (f, flags)) fs)" "huge p1 = huge p" "pool_ok bf a1"
      "frame_pool bf a1 \<subseteq> frame_pool bf a" "card (frame_pool bf a) \<le> card (frame_pool bf a1) + 4 * length qs" by blast
  have "0 < card (frame_pool bf a1)" using 1(9) assms(4,5) by simp
  then have "frame_pool bf a1 \<noteq> {}" by auto
  from pool.alloc_pool [OF 1(7) this] obtain g a2 where g: "allocate_frame bf x a1 = Inr (Some g, a2)"
    "g \<in> frame_pool bf a1" "frame_pool bf a2 = frame_pool bf a1 - {g}" "pool_ok bf a2" by blast
  have "view p1 q = Some (f, fl)" "\<not> huge p1 q"
    using 1(5,6) assms(7,8) d(2) by (simp_all add: map_upds_apply_nontin)
  note used = map_to_used [OF this]
  have "alloc_page mp bf x flags q (p1, a1) = Inr (Inl (PageAlreadyMapped f), p1, a2)"
    by (simp add: alloc_page_def g(1) map_frame_to_page_def used)
  then have "alloc_range mp bf x start len flags p a = Inr (Inl (PageAlreadyMapped f), p1, a2)"
    using 1(1) by (simp add: alloc_range_pages [OF assms(2,3)] assms(5) try_each_append)
  then show ?thesis
    using 1 g by (intro exI [of _ fs] exI [of _ g] exI [of _ p1] exI [of _ a2]) auto
qed

lemma map_general:
  assumes "pool_ok bf a" "3 \<le> card (frame_pool bf a)"
  shows "\<exists>p' a'. map_to_with_table_flags_general mp page frame flags parent p a = Inr (p', a') \<and>
    view p' = (if huge p page then view p else (view p)(page \<mapsto> (frame, flags))) \<and> huge p' = huge p"
proof (cases "huge p page")
  case True
  then show ?thesis using map_huge [OF True] by (simp add: map_to_with_table_flags_general_def)
next
  case nh: False
  show ?thesis
  proof (cases "view p page")
    case None
    then show ?thesis using map_free [OF assms None nh, of frame flags parent] nh
      by (auto simp: map_to_with_table_flags_general_def)
  next
    case (Some v)
    obtain f fl where v: "view p page = Some (f, fl)" using Some by (cases v) auto
    from unmap_used [OF v nh] obtain p1 where p1: "unmap mp page p = (Inr f, p1)" "view p1 = (view p)(page := None)" "huge p1 = huge p"
      by blast
    have free: "view p1 page = None" "\<not> huge p1 page" using p1 nh by auto
    from map_free [OF assms free, of frame flags parent] obtain p' a' where
      "map_to_with_table_flags mp page frame flags parent p1 a = Inr (Inr (), p', a')"
      "view p' = (view p1)(page \<mapsto> (frame, flags))" "huge p' = huge p1" by blast
    then show ?thesis using map_used [OF v nh] p1 nh by (simp add: map_to_with_table_flags_general_def)
  qed
qed

end

text \<open>
  Bytes \<open>address + i\<close> for \<open>i < n\<close> are mapped and at the locations \<open>L i\<close> of the kernel's window.
\<close>

definition located ::
  "x86_api \<Rightarrow> ('p \<Rightarrow> nat \<rightharpoonup> nat \<times> u64) \<Rightarrow> ('p \<Rightarrow> nat \<Rightarrow> bool) \<Rightarrow> nat \<Rightarrow> 'p \<Rightarrow> nat \<Rightarrow> nat \<Rightarrow> (nat \<Rightarrow> nat) \<Rightarrow> bool" where
  "located x view huge offset p address n L \<longleftrightarrow> (\<forall>i<n. \<exists>f fl. view p (page_containing x (address + i)) = Some (f, fl) \<and>
     \<not> huge p (page_containing x (address + i)) \<and>
     convert_physical_to_virtual x offset (f + (address + i) mod 4096) = Inr (L i))"

context page_mapper
begin

lemma located_step:
  assumes "located x view huge offset p address n L" and "address + n \<le> 2 ^ 47" and "i < n"
  obtains pa where "va_add x address i = Inr (address + i)" "translate_addr mp p (address + i) = Some pa"
    "convert_physical_to_virtual x offset pa = Inr (L i)"
proof -
  from assms(1,3) obtain f fl where f: "view p (page_containing x (address + i)) = Some (f, fl)"
    "\<not> huge p (page_containing x (address + i))"
    "convert_physical_to_virtual x offset (f + (address + i) mod 4096) = Inr (L i)"
    by (auto simp: located_def)
  have "va_add x address i = Inr (address + i)"
    using assms(2,3) by (simp add: va_add_def usize_add_def usize_max_def virt_addr_new canonical_def)
  then show thesis using that f translate [OF f(2)] by simp
qed

lemma write_located:
  assumes "located x view huge offset p address n L" and "address + n \<le> 2 ^ 47" and "inj_on L {..<n}"
    and "length buffer \<le> n"
  shows "\<exists>m'. pt_write mp x offset p buffer address m = Inr (Inr (), m') \<and>
    (\<forall>i < length buffer. m' (L i) = buffer ! i) \<and> (\<forall>l. l \<notin> L ` {..<length buffer} \<longrightarrow> m' l = m l)"
  using assms(4)
proof (induction buffer rule: rev_induct)
  case Nil
  then show ?case by (simp add: pt_write_def)
next
  case (snoc b buffer)
  let ?k = "length buffer"
  from snoc obtain m' where m': "try_each (write_byte mp x offset p address) (enumerate 0 buffer) m = Inr (Inr (), m')"
    "\<forall>i < ?k. m' (L i) = buffer ! i" "\<forall>l. l \<notin> L ` {..<?k} \<longrightarrow> m' l = m l" by (auto simp: pt_write_def)
  have k: "?k < n" using snoc.prems by simp
  obtain pa where "va_add x address ?k = Inr (address + ?k)" "translate_addr mp p (address + ?k) = Some pa"
    "convert_physical_to_virtual x offset pa = Inr (L ?k)" using located_step [OF assms(1,2) k] .
  then have "write_byte mp x offset p address (?k, b) m' = Inr (Inr (), m'(L ?k := b))"
    by (simp add: write_byte_def)
  then have "pt_write mp x offset p (buffer @ [b]) address m = Inr (Inr (), m'(L ?k := b))"
    using m'(1) by (simp add: pt_write_def enumerate_append_eq try_each_append)
  moreover have "(m'(L ?k := b)) (L i) = (buffer @ [b]) ! i" if "i < Suc ?k" for i
  proof (cases "i = ?k")
    case False
    then have "L i \<noteq> L ?k" using that k assms(3) by (auto simp: inj_on_def)
    then show ?thesis using False that m'(2) by (simp add: nth_append)
  qed simp
  ultimately show ?case using m'(3) by (auto simp: lessThan_Suc)
qed

lemma read_located:
  assumes "located x view huge offset p address n L" and "address + n \<le> 2 ^ 47" and "n \<le> length buffer"
    and "k \<le> n"
  shows "pt_read mp x offset p m address k buffer = Inr (Inr (), map (m \<circ> L) [0..<k] @ drop k buffer)"
  using assms(4)
proof (induction k)
  case 0
  then show ?case by (simp add: pt_read_def)
next
  case (Suc k)
  then have k: "k < n" by simp
  obtain pa where "va_add x address k = Inr (address + k)" "translate_addr mp p (address + k) = Some pa"
    "convert_physical_to_virtual x offset pa = Inr (L k)" using located_step [OF assms(1,2) k] .
  moreover have "store (map (m \<circ> L) [0..<k] @ drop k buffer) k (m (L k)) = Inr (map (m \<circ> L) [0..<Suc k] @ drop (Suc k) buffer)"
    using k assms(3) by (simp add: store_def list_update_append Cons_nth_drop_Suc [symmetric])
  ultimately have "read_byte mp x offset p m address k (map (m \<circ> L) [0..<k] @ drop k buffer) =
      Inr (Inr (), map (m \<circ> L) [0..<Suc k] @ drop (Suc k) buffer)"
    by (simp add: read_byte_def)
  then show ?case using Suc by (simp add: pt_read_def try_each_append comp_def)
qed

lemma write_read:
  assumes "located x view huge offset p address (length buffer) L" and "address + length buffer \<le> 2 ^ 47"
    and "inj_on L {..<length buffer}" and "length into = length buffer"
  shows "\<exists>m'. pt_write mp x offset p buffer address m = Inr (Inr (), m') \<and>
    pt_read mp x offset p m' address (length buffer) into = Inr (Inr (), buffer) \<and>
    (\<forall>l. l \<notin> L ` {..<length buffer} \<longrightarrow> m' l = m l)"
proof -
  from write_located [OF assms(1-3) order_refl] obtain m' where m': "pt_write mp x offset p buffer address m = Inr (Inr (), m')"
    "\<forall>i < length buffer. m' (L i) = buffer ! i" "\<forall>l. l \<notin> L ` {..<length buffer} \<longrightarrow> m' l = m l" by blast
  have "map (m' \<circ> L) [0..<length buffer] = buffer" using m'(2) by (intro nth_equalityI) auto
  with m' read_located [OF assms(1,2), of into "length buffer" m'] assms(4) show ?thesis by auto
qed

text \<open>A byte that is not mapped stops the writing with an error; what precedes it has been written.\<close>

lemma write_stops:
  assumes "located x view huge offset p address k L" and "address + length buffer \<le> 2 ^ 47" and "inj_on L {..<k}"
    and "k < length buffer" and "view p (page_containing x (address + k)) = None" and "\<not> huge p (page_containing x (address + k))"
  shows "\<exists>m'. pt_write mp x offset p buffer address m = Inr (Inl (), m') \<and>
    (\<forall>i < k. m' (L i) = buffer ! i) \<and> (\<forall>l. l \<notin> L ` {..<k} \<longrightarrow> m' l = m l)"
proof -
  have "address + k \<le> 2 ^ 47" using assms(2,4) by simp
  from write_located [OF assms(1) this assms(3), of "take k buffer" m] assms(4) obtain m' where
    m': "pt_write mp x offset p (take k buffer) address m = Inr (Inr (), m')"
    "\<forall>i < k. m' (L i) = buffer ! i" "\<forall>l. l \<notin> L ` {..<k} \<longrightarrow> m' l = m l" by auto
  have "enumerate 0 buffer = enumerate 0 (take k buffer) @ (k, buffer ! k) # enumerate (Suc k) (drop (Suc k) buffer)"
    using assms(4) enumerate_append_eq [of 0 "take k buffer" "buffer ! k # drop (Suc k) buffer"]
      id_take_nth_drop [OF assms(4)] by simp
  moreover have "write_byte mp x offset p address (k, buffer ! k) m' = Inr (Inl (), m')"
    using translate [OF assms(6)] assms(2,4,5)
    by (simp add: write_byte_def va_add_def usize_add_def usize_max_def virt_addr_new canonical_def)
  ultimately have "pt_write mp x offset p buffer address m = Inr (Inl (), m')"
    using m'(1) by (simp add: pt_write_def try_each_append)
  with m' show ?thesis by blast
qed

end

lemma stack_pages:
  "length (pages_of (USER_STACK_END - USER_STACK_SIZE) USER_STACK_SIZE) = 16"
  "pages_of (USER_STACK_END - USER_STACK_SIZE) USER_STACK_SIZE = [] @ (USER_STACK_END - USER_STACK_SIZE) #
     tl (pages_of (USER_STACK_END - USER_STACK_SIZE) USER_STACK_SIZE)"
  by (simp_all add: pages_of_def USER_STACK_END_def USER_STACK_SIZE_def upt_rec_numeral)

context page_mapper
begin

lemma user_stack_range:
  "user_stack_new mp bf x p a =
     and_then (alloc_range mp bf x (USER_STACK_END - USER_STACK_SIZE) USER_STACK_SIZE
       (PRESENT OR WRITABLE OR USER_ACCESSIBLE OR NO_EXECUTE) p a) (\<lambda>(r, p, a).
     case r of Inl _ \<Rightarrow> Inl UnwrapNone
     | Inr _ \<Rightarrow> Inr (\<lparr>start_address = USER_STACK_END - USER_STACK_SIZE, end_address = USER_STACK_END\<rparr>, p, a))"
proof -
  have "virt_addr_new x USER_STACK_END = Inr USER_STACK_END"
    "va_sub x USER_STACK_END USER_STACK_SIZE = Inr (USER_STACK_END - USER_STACK_SIZE)"
    by (simp_all add: va_sub_def usize_sub_def virt_addr_new canonical_def USER_STACK_END_def USER_STACK_SIZE_def)
  then show ?thesis by (simp add: user_stack_new_def)
qed

lemma user_stack_ok:
  assumes "pool_ok bf a" "64 \<le> card (frame_pool bf a)"
    "\<forall>q \<in> set (pages_of (USER_STACK_END - USER_STACK_SIZE) USER_STACK_SIZE). view p q = None \<and> \<not> huge p q"
  shows "\<exists>p' a'. user_stack_new mp bf x p a =
      Inr (\<lparr>start_address = USER_STACK_END - USER_STACK_SIZE, end_address = USER_STACK_END\<rparr>, p', a') \<and>
    (\<forall>q. q \<notin> set (pages_of (USER_STACK_END - USER_STACK_SIZE) USER_STACK_SIZE) \<longrightarrow> view p' q = view p q) \<and>
    huge p' = huge p \<and> pool_ok bf a' \<and> frame_pool bf a' \<subseteq> frame_pool bf a \<and>
    card (frame_pool bf a) \<le> card (frame_pool bf a') + 64 \<and>
    (\<forall>q \<in> set (pages_of (USER_STACK_END - USER_STACK_SIZE) USER_STACK_SIZE). \<exists>f \<in> frame_pool bf a.
       view p' q = Some (f, PRESENT OR WRITABLE OR USER_ACCESSIBLE OR NO_EXECUTE))"
proof -
  let ?s = "USER_STACK_END - USER_STACK_SIZE" and ?n = "USER_STACK_SIZE"
  let ?fl = "PRESENT OR WRITABLE OR USER_ACCESSIBLE OR NO_EXECUTE" and ?ps = "pages_of (USER_STACK_END - USER_STACK_SIZE) USER_STACK_SIZE"
  have r: "0 < ?n" "?s + ?n < 2 ^ 47" by (simp_all add: USER_STACK_END_def USER_STACK_SIZE_def)
  have "4 * length ?ps \<le> card (frame_pool bf a)" using assms(2) by (simp add: stack_pages(1))
  from alloc_range_free [OF assms(1) r this assms(3), of ?fl] obtain fs p' a' where
    1: "alloc_range mp bf x ?s ?n ?fl p a = Inr (Inr (), p', a')" "length fs = length ?ps"
      "set fs \<subseteq> frame_pool bf a - frame_pool bf a'" "view p' = (view p)(?ps [\<mapsto>] map (\<lambda>f. (f, ?fl)) fs)"
      "huge p' = huge p" "pool_ok bf a'" "frame_pool bf a' \<subseteq> frame_pool bf a" "card (frame_pool bf a) \<le> card (frame_pool bf a') + 4 * length ?ps"
    by (elim exE conjE) (rule that)
  have mapped: "\<exists>f \<in> frame_pool bf a. view p' q = Some (f, ?fl)" if q: "q \<in> set ?ps" for q
  proof -
    from q obtain i where i: "i < length ?ps" "q = ?ps ! i" by (metis in_set_conv_nth)
    have "view p' q = Some (fs ! i, ?fl)"
      using i 1(2,4) map_upds_nth [OF distinct_pages_of, of "map (\<lambda>f. (f, ?fl)) fs" ?s ?n i "view p"] by simp
    moreover have "fs ! i \<in> frame_pool bf a" using 1(2,3) i(1) by (metis Diff_iff nth_mem subsetD)
    ultimately show ?thesis by blast
  qed
  have "\<forall>q. q \<notin> set ?ps \<longrightarrow> view p' q = view p q" using 1(4) by (simp add: map_upds_apply_nontin)
  then show ?thesis using 1 mapped by (intro exI [of _ p'] exI [of _ a']) (simp add: user_stack_range stack_pages(1))
qed

lemma stack_once:
  assumes "pool_ok bf a" "128 \<le> card (frame_pool bf a)"
    "\<forall>q \<in> set (pages_of (USER_STACK_END - USER_STACK_SIZE) USER_STACK_SIZE). view p q = None \<and> \<not> huge p q"
  shows "\<exists>p' a'. user_stack_new mp bf x p a =
      Inr (\<lparr>start_address = USER_STACK_END - USER_STACK_SIZE, end_address = USER_STACK_END\<rparr>, p', a') \<and>
    (\<forall>q \<in> set (pages_of (USER_STACK_END - USER_STACK_SIZE) USER_STACK_SIZE). \<exists>f \<in> frame_pool bf a.
       view p' q = Some (f, PRESENT OR WRITABLE OR USER_ACCESSIBLE OR NO_EXECUTE)) \<and>
    user_stack_new mp bf x p' a' = Inl UnwrapNone"
proof -
  let ?s = "USER_STACK_END - USER_STACK_SIZE" and ?n = "USER_STACK_SIZE"
  let ?fl = "PRESENT OR WRITABLE OR USER_ACCESSIBLE OR NO_EXECUTE"
  have r: "0 < ?n" "?s + ?n < 2 ^ 47" by (simp_all add: USER_STACK_END_def USER_STACK_SIZE_def)
  have "64 \<le> card (frame_pool bf a)" using assms(2) by simp
  from user_stack_ok [OF assms(1) this assms(3)] obtain p' a' where
    1: "user_stack_new mp bf x p a = Inr (\<lparr>start_address = ?s, end_address = USER_STACK_END\<rparr>, p', a')" "huge p' = huge p"
      "pool_ok bf a'" "card (frame_pool bf a) \<le> card (frame_pool bf a') + 64"
    and mapped: "\<forall>q \<in> set (pages_of ?s ?n). \<exists>f \<in> frame_pool bf a. view p' q = Some (f, ?fl)"
    by (elim exE conjE) (rule that)
  have first: "?s \<in> set (pages_of ?s ?n)" using stack_pages(2) by (metis append_Nil list.set_intros(1))
  then obtain f where f: "view p' ?s = Some (f, ?fl)" using mapped by blast
  have "\<not> huge p' ?s" using assms(3) first 1(2) by simp
  moreover have "4 * length (pages_of ?s ?n) \<le> card (frame_pool bf a')" using 1(4) assms(2) by (simp add: stack_pages(1))
  ultimately obtain p2 a2 where "alloc_range mp bf x ?s ?n ?fl p' a' = Inr (Inl (PageAlreadyMapped f), p2, a2)"
    using alloc_range_used [OF 1(3) r _ stack_pages(2) _ f, of ?fl] by auto
  then show ?thesis using 1(1) mapped by (auto simp: user_stack_range)
qed

end

section \<open>Mapping ranges, replacing mappings, stacks\<close>

text \<open>A mapper that keeps the mapping itself and needs no frames for tables.\<close>

definition map_entry ::
  "nat \<Rightarrow> nat \<Rightarrow> u64 \<Rightarrow> (nat \<rightharpoonup> nat \<times> u64) \<Rightarrow> BitmapFrameAllocator \<Rightarrow> (nat \<rightharpoonup> nat \<times> u64, MapToError) mapped" where
  "map_entry page frame flags p a = Inr (case p page of Some (f, _) \<Rightarrow> (Inl (PageAlreadyMapped f), p, a)
     | None \<Rightarrow> (Inr (), p(page \<mapsto> (frame, flags)), a))"

definition plain_mapper :: "(nat \<rightharpoonup> nat \<times> u64) mapper_api" where
  "plain_mapper = \<lparr>map_to = map_entry, map_to_with_table_flags = (\<lambda>page frame flags _. map_entry page frame flags),
     unmap = (\<lambda>page p. case p page of Some (f, _) \<Rightarrow> (Inr f, p(page := None)) | None \<Rightarrow> (Inl PageNotMapped, p)),
     translate_addr = (\<lambda>p va. map_option (\<lambda>(f, _). f + va mod 4096) (p (va - va mod 4096))),
     range_inclusive = (\<lambda>s e. if s \<le> e then map (\<lambda>i. s + 4096 * i) [0..<Suc ((e - s) div 4096)] else [])\<rparr>"

interpretation plain: page_mapper byte_bits x86_model plain_mapper id "\<lambda>_ _. False"
  by (intro page_mapper.intro page_mapper_axioms.intro frame_env_model)
    (simp_all add: plain_mapper_def map_entry_def x86_model.page_containing)

text \<open>An allocator with \<open>n\<close> bytes of bitmap whose frames are all free, and one with 512 for the witnesses.\<close>

definition full_allocator :: "nat \<Rightarrow> BitmapFrameAllocator" where
  "full_allocator n = \<lparr>bitmap = \<lparr>inner = replicate n 0xFF\<rparr>, usable_frames = n, next_frame = 0\<rparr>"

definition wide_allocator :: BitmapFrameAllocator where
  "wide_allocator = \<lparr>bitmap = \<lparr>inner = replicate 512 0xFF\<rparr>, usable_frames = 512, next_frame = 0\<rparr>"

lemma full_pool:
  assumes "n < 2 ^ 40"
  shows "pool_ok byte_bits (full_allocator n)" "card (frame_pool byte_bits (full_allocator n)) = n"
proof -
  let ?a = "full_allocator n"
  have ff: "bit (0xFF :: u8) j" if "j < 8" for j
  proof -
    have ff: "(0xFF :: u8) = - 1" by simp
    show ?thesis unfolding ff using that by (simp add: bit_minus_1_iff possible_bit_def)
  qed
  have w: "bitmap_len (bitmap ?a) = n" "next_frame ?a = 0" "usable_frames ?a = n" "inner (bitmap ?a) = replicate n 0xFF"
    by (simp_all add: full_allocator_def bitmap_len_def)
  have b: "bits byte_bits (bitmap ?a) = {..<8 * n}"
    using ff by (auto simp: bits_def capacity_def w byte_bits_def nth_replicate less_mult_imp_div_less mult.commute)
  have r: "reachable_free byte_bits ?a = {..<n}" unfolding reachable_free_def b w by auto
  then show "card (frame_pool byte_bits ?a) = n" by (simp add: frame_pool_def card_image inj_on_def)
  show "pool_ok byte_bits ?a" using r w b assms by (simp add: pool_ok_def cursor_inv_def addressable_def)
qed

lemma wide_pool: "pool_ok byte_bits wide_allocator" "card (frame_pool byte_bits wide_allocator) = 512"
proof -
  have w: "wide_allocator = full_allocator 512" by (simp only: wide_allocator_def full_allocator_def)
  have "(512 :: nat) < 2 ^ 40" by simp
  then show "pool_ok byte_bits wide_allocator" "card (frame_pool byte_bits wide_allocator) = 512"
    unfolding w by (rule full_pool)+
qed

text \<open>
  Allocating a range of unmapped user pages succeeds when there are four frames per page, one
  for the page and at most three for tables: every page the range touches is mapped with the
  given flags, to a frame of its own that was free before and is not free any more, and no
  other page changes.
\<close>

theorem alloc_range_maps:
  assumes "page_mapper bf x mp view huge" "pool_ok bf a" "0 < len" "start + len < 2 ^ 47"
    "4 * length (pages_of start len) \<le> card (frame_pool bf a)"
    "\<forall>q \<in> set (pages_of start len). view p q = None \<and> \<not> huge p q"
  shows "\<exists>fs p' a'. alloc_range mp bf x start len flags p a = Inr (Inr (), p', a') \<and>
    length fs = length (pages_of start len) \<and> distinct fs \<and> set fs \<subseteq> frame_pool bf a - frame_pool bf a' \<and>
    view p' = (view p)(pages_of start len [\<mapsto>] map (\<lambda>f. (f, flags)) fs) \<and> huge p' = huge p \<and> pool_ok bf a' \<and>
    frame_pool bf a' \<subseteq> frame_pool bf a \<and> card (frame_pool bf a) \<le> card (frame_pool bf a') + 4 * length (pages_of start len)"
  by (rule page_mapper.alloc_range_free [OF assms])

theorem alloc_range_maps_witness:
  "\<exists>f g p' a'. alloc_range plain_mapper byte_bits x86_model 0x1800 0x1000 7 Map.empty wide_allocator = Inr (Inr (), p', a') \<and>
    f \<noteq> g \<and> p' = [0x1000 \<mapsto> (f, 7), 0x2000 \<mapsto> (g, 7)]"
proof -
  have pages: "pages_of 0x1800 0x1000 = [0x1000, 0x2000]" by (simp add: pages_of_def upt_eval)
  from alloc_range_maps [OF plain.page_mapper_axioms wide_pool(1), of "0x1000" "0x1800" Map.empty 7]
  obtain fs p' a' where r: "alloc_range plain_mapper byte_bits x86_model 0x1800 0x1000 7 Map.empty wide_allocator = Inr (Inr (), p', a')"
    "length fs = 2" "distinct fs" "p' = (\<lambda>_. None)([0x1000, 0x2000] [\<mapsto>] map (\<lambda>f. (f, 7)) fs)"
    by (auto simp: pages wide_pool)
  then obtain f g where "fs = [f, g]" by (auto simp: length_Suc_conv eval_nat_numeral)
  with r show ?thesis by auto
qed

text \<open>
  When a page of the range is already mapped, \<open>alloc_range\<close> returns \<open>PageAlreadyMapped\<close>, but
  leaves the pages before it mapped and loses a frame: the one allocated for that page is
  neither free nor in the mapping.
\<close>

theorem alloc_range_leaks:
  assumes "page_mapper bf x mp view huge" "pool_ok bf a" "0 < len" "start + len < 2 ^ 47"
    "4 * length (pages_of start len) \<le> card (frame_pool bf a)"
    "pages_of start len = qs @ q # rs" "\<forall>q \<in> set qs. view p q = None \<and> \<not> huge p q"
    "view p q = Some (f, fl)" "\<not> huge p q"
  shows "\<exists>fs lost p' a'. alloc_range mp bf x start len flags p a = Inr (Inl (PageAlreadyMapped f), p', a') \<and>
    length fs = length qs \<and> distinct (lost # fs) \<and> set (lost # fs) \<subseteq> frame_pool bf a - frame_pool bf a' \<and>
    view p' = (view p)(qs [\<mapsto>] map (\<lambda>f. (f, flags)) fs) \<and> pool_ok bf a'"
  by (rule page_mapper.alloc_range_used [OF assms])

theorem alloc_range_leaks_witness:
  "\<exists>g lost a'. alloc_range plain_mapper byte_bits x86_model 0x1800 0x1000 7 [0x2000 \<mapsto> (0, 3)] wide_allocator =
      Inr (Inl (PageAlreadyMapped 0), [0x2000 \<mapsto> (0, 3), 0x1000 \<mapsto> (g, 7)], a') \<and> lost \<noteq> g \<and>
    lost \<in> frame_pool byte_bits wide_allocator \<and> lost \<notin> frame_pool byte_bits a'"
proof -
  have pages: "pages_of 0x1800 0x1000 = [0x1000, 0x2000]" by (simp add: pages_of_def upt_eval)
  from alloc_range_leaks [OF plain.page_mapper_axioms wide_pool(1), of "0x1000" "0x1800" "[0x1000]" "0x2000" "[]" "[0x2000 \<mapsto> (0, 3)]" 0 3 7]
  obtain fs lost p' a' where r: "alloc_range plain_mapper byte_bits x86_model 0x1800 0x1000 7 [0x2000 \<mapsto> (0, 3)] wide_allocator =
      Inr (Inl (PageAlreadyMapped 0), p', a')" "length fs = 1" "distinct (lost # fs)"
    "set (lost # fs) \<subseteq> frame_pool byte_bits wide_allocator - frame_pool byte_bits a'"
    "p' = [0x2000 \<mapsto> (0, 3)]([0x1000] [\<mapsto>] map (\<lambda>f. (f, 7)) fs)"
    by (auto simp: pages wide_pool)
  then obtain g where "fs = [g]" by (auto simp: length_Suc_conv)
  with r show ?thesis by auto
qed

text \<open>
  \<open>map_to_with_table_flags_general\<close> establishes the mapping whether or not the page was mapped
  before; only below a huge parent entry nothing happens.
\<close>

theorem map_general_replaces:
  assumes "page_mapper bf x mp view huge" "pool_ok bf a" "3 \<le> card (frame_pool bf a)"
  shows "\<exists>p' a'. map_to_with_table_flags_general mp page frame flags parent p a = Inr (p', a') \<and>
    view p' = (if huge p page then view p else (view p)(page \<mapsto> (frame, flags))) \<and> huge p' = huge p"
  by (rule page_mapper.map_general [OF assms])

theorem map_general_replaces_witness:
  "\<exists>a'. map_to_with_table_flags_general plain_mapper 0x2000 0x5000 7 7 [0x2000 \<mapsto> (0, 3)] wide_allocator =
     Inr ([0x2000 \<mapsto> (0x5000, 7)], a')"
  using map_general_replaces [OF plain.page_mapper_axioms wide_pool(1), of "0x2000" "0x5000" 7 7 "[0x2000 \<mapsto> (0, 3)]"]
  by (simp add: wide_pool)

text \<open>
  A user stack is the sixteen pages below \<open>USER_STACK_END\<close>, mapped writable, accessible from
  user mode and not executable.  Its place is fixed, so creating a second one in the same
  address space panics, as starting a second user thread in a process does.
\<close>

theorem user_stack_once:
  assumes "page_mapper bf x mp view huge" "pool_ok bf a" "128 \<le> card (frame_pool bf a)"
    "\<forall>q \<in> set (pages_of (USER_STACK_END - USER_STACK_SIZE) USER_STACK_SIZE). view p q = None \<and> \<not> huge p q"
  shows "\<exists>p' a'. user_stack_new mp bf x p a =
      Inr (\<lparr>start_address = USER_STACK_END - USER_STACK_SIZE, end_address = USER_STACK_END\<rparr>, p', a') \<and>
    (\<forall>q \<in> set (pages_of (USER_STACK_END - USER_STACK_SIZE) USER_STACK_SIZE). \<exists>f \<in> frame_pool bf a.
       view p' q = Some (f, PRESENT OR WRITABLE OR USER_ACCESSIBLE OR NO_EXECUTE)) \<and>
    user_stack_new mp bf x p' a' = Inl UnwrapNone"
  by (rule page_mapper.stack_once [OF assms])

theorem user_stack_once_witness:
  "\<exists>p' a'. user_stack_new plain_mapper byte_bits x86_model Map.empty wide_allocator =
      Inr (\<lparr>start_address = 0x7ffffefef000, end_address = 0x7ffffefff000\<rparr>, p', a') \<and>
    user_stack_new plain_mapper byte_bits x86_model p' a' = Inl UnwrapNone"
  using user_stack_once [OF plain.page_mapper_axioms wide_pool(1), of Map.empty]
  by (auto simp: wide_pool USER_STACK_END_def USER_STACK_SIZE_def)

text \<open>
  C30. Writing through a page table and reading back: when every byte of the range is mapped, to
  pairwise different locations, \<open>write\<close> succeeds, \<open>read\<close> then returns the bytes written, across
  page boundaries, and memory outside those locations is unchanged.
\<close>

theorem table_write_read:
  assumes "page_mapper bf x mp view huge" "located x view huge offset p address (length buffer) L"
    "address + length buffer \<le> 2 ^ 47" "inj_on L {..<length buffer}" "length into = length buffer"
  shows "\<exists>m'. pt_write mp x offset p buffer address m = Inr (Inr (), m') \<and>
    pt_read mp x offset p m' address (length buffer) into = Inr (Inr (), buffer) \<and>
    (\<forall>l. l \<notin> L ` {..<length buffer} \<longrightarrow> m' l = m l)"
  by (rule page_mapper.write_read [OF assms])

definition demo_mapping :: "nat \<rightharpoonup> nat \<times> u64" where
  "demo_mapping = [0x1000 \<mapsto> (0x5000, 7), 0x2000 \<mapsto> (0x3000, 7)]"

lemma demo_located:
  "located x86_model id (\<lambda>_ _. False) demo_offset demo_mapping 0x1fff (length [11, 22 :: u8])
     (\<lambda>i. demo_offset + (if i = 0 then 0x5fff else 0x3000))"
proof -
  have "i = 0 \<or> i = 1" if "i < length [11, 22 :: u8]" for i using that by auto
  then show ?thesis unfolding located_def
    by (fastforce simp: demo_mapping_def x86_model_def convert_physical_to_virtual_def
        usize_add_def usize_max_def canonical_def demo_offset_def)
qed

theorem table_write_read_witness:
  "\<exists>m'. pt_write plain_mapper x86_model demo_offset demo_mapping [11, 22] 0x1fff (\<lambda>_. 0) = Inr (Inr (), m') \<and>
    pt_read plain_mapper x86_model demo_offset demo_mapping m' 0x1fff 2 [0, 0] = Inr (Inr (), [11, 22])"
proof -
  let ?L = "\<lambda>i. demo_offset + (if i = 0 then 0x5fff else 0x3000)"
  have inj: "inj_on ?L {..<length [11, 22 :: u8]}" by (auto simp: inj_on_def)
  have "0x1fff + length [11, 22 :: u8] \<le> 2 ^ 47" by simp
  from table_write_read [OF plain.page_mapper_axioms demo_located this inj, of "[0, 0]" "\<lambda>_. 0"]
  show ?thesis by (auto simp flip: One_nat_def simp: one_add_one)
qed

text \<open>
  A write that runs into an unmapped page reports an error after it has written the bytes
  before it: the bytes of the buffer up to the first unmapped address are in memory, no others.
\<close>

theorem table_write_stops:
  assumes "page_mapper bf x mp view huge" "located x view huge offset p address k L"
    "address + length buffer \<le> 2 ^ 47" "inj_on L {..<k}" "k < length buffer"
    "view p (page_containing x (address + k)) = None" "\<not> huge p (page_containing x (address + k))"
  shows "\<exists>m'. pt_write mp x offset p buffer address m = Inr (Inl (), m') \<and>
    (\<forall>i < k. m' (L i) = buffer ! i) \<and> (\<forall>l. l \<notin> L ` {..<k} \<longrightarrow> m' l = m l)"
  by (rule page_mapper.write_stops [OF assms])

theorem table_write_stops_witness:
  "\<exists>m'. pt_write plain_mapper x86_model demo_offset [0x1000 \<mapsto> (0x5000, 7)] [11, 22] 0x1fff (\<lambda>_. 0) = Inr (Inl (), m') \<and>
     m' (demo_offset + 0x5fff) = 11"
proof -
  have "located x86_model id (\<lambda>_ _. False) demo_offset [0x1000 \<mapsto> (0x5000, 7)] 0x1fff 1 (\<lambda>_. demo_offset + 0x5fff)"
    by (auto simp: located_def x86_model_def convert_physical_to_virtual_def
      usize_add_def usize_max_def canonical_def demo_offset_def)
  from table_write_stops [OF plain.page_mapper_axioms this, of "[11, 22]" "\<lambda>_. 0"]
  show ?thesis by (auto simp: plain.page_containing_mult inj_on_def)
qed

end
