(* ===== verification/Tty.thy ===== *)
theory Tty
  imports VirtMem
begin

text \<open>
  The display (\<open>drivers/display.rs\<close>) and the text consoles (\<open>console/tty.rs\<close>).  Each console has a
  buffer of pixels in the kernel heap; the buffer of the console on the screen is mapped to the
  frames of the video memory, and \<open>switch_to\<close> changes the mappings.

  Memory is the physical memory \<open>ram\<close>, seen through the kernel's page table; an access to a page
  that is not mapped faults.  The frame buffer that the boot loader describes is the record
  \<open>FrameBuffer\<close>, and \<open>translate_page\<close> of the \<open>x86_64\<close> crate is the parameter \<open>tp\<close> beside the mapper.
\<close>

section \<open>The display\<close>

datatype PixelFormat = Rgb | Bgr | U8 | Unknown

record FrameBuffer =
  fb_addr :: nat
  fb_width :: nat
  fb_height :: nat
  fb_pitch :: nat
  fb_bpp :: nat
  red_mask_shift :: u8
  green_mask_shift :: u8
  blue_mask_shift :: u8

record Display =
  buffer :: "nat \<times> nat"  \<comment> \<open>address and length\<close>
  d_width :: nat
  d_height :: nat
  stride :: nat
  bytes_per_pixel :: nat
  pixel_format :: PixelFormat

definition pixel_format_of :: "u8 \<Rightarrow> u8 \<Rightarrow> u8 \<Rightarrow> PixelFormat" where
  "pixel_format_of r g b =
     (if (r, g, b) = (0x00, 0x08, 0x10) then Rgb
      else if (r, g, b) = (0x10, 0x08, 0x00) then Bgr
      else if (r, g, b) = (0x00, 0x00, 0x00) then U8
      else Unknown)"

definition display_new :: "FrameBuffer option \<Rightarrow> Display result" where
  "display_new response =
     and_then (unwrap response) (\<lambda>fb.
     let format = pixel_format_of (red_mask_shift fb) (green_mask_shift fb) (blue_mask_shift fb);
         st = fb_pitch fb div 4;
         bpp = fb_bpp fb div 8 in
     and_then (usize_mul st (fb_height fb)) (\<lambda>n.
     and_then (usize_mul n bpp) (\<lambda>buffer_size.
     Inr \<lparr>buffer = (fb_addr fb, buffer_size), d_width = fb_width fb, d_height = fb_height fb, stride = st,
          bytes_per_pixel = bpp, pixel_format = format\<rparr>)))"

definition get_frame_buffer :: "Display \<Rightarrow> nat \<times> nat" where
  "get_frame_buffer d = buffer d"

definition display_size :: "Display \<Rightarrow> nat \<times> nat" where
  "display_size d = (d_width d, d_height d)"

text \<open>The bytes of a slice, changed in the range \<open>lo..hi\<close>; both slice operations panic out of range.\<close>

definition slice_range :: "nat \<Rightarrow> nat \<Rightarrow> nat \<Rightarrow> unit result" where
  "slice_range len lo hi = (if lo \<le> hi \<and> hi \<le> len then Inr () else Inl IndexOutOfBounds)"

definition display_draw_pixel :: "Display \<Rightarrow> nat \<Rightarrow> nat \<Rightarrow> u8 \<times> u8 \<times> u8 \<Rightarrow> u8 list \<Rightarrow> u8 list result" where
  "display_draw_pixel d px py color bytes =
     and_then (usize_mul py (stride d)) (\<lambda>row.
     and_then (usize_add row px) (\<lambda>cell.
     and_then (usize_mul cell (bytes_per_pixel d)) (\<lambda>byte_offset.
     and_then (usize_add byte_offset (bytes_per_pixel d)) (\<lambda>range_end.
     let (r, g, b) = color in
     case pixel_format d of
       U8 \<Rightarrow> Inl (ExplicitPanic ''not implemented'')
     | Unknown \<Rightarrow> Inr bytes
     | format \<Rightarrow>
         let quad = (if format = Rgb then [r, g, b, 0] else [b, g, r, 0]) in
         and_then (slice_range (length bytes) byte_offset range_end) (\<lambda>_.
         and_then (slice_range 4 0 (bytes_per_pixel d)) (\<lambda>_.
         Inr (take byte_offset bytes @ take (bytes_per_pixel d) quad @ drop range_end bytes)))))))"

section \<open>Memory behind the page table\<close>

type_synonym ram = "nat \<Rightarrow> u8"

definition page_fault_at :: "nat \<Rightarrow> 'a result" where
  "page_fault_at va = Inl (ExplicitPanic ''Page Fault'')"

fun load_bytes :: "'p mapper_api \<Rightarrow> 'p \<Rightarrow> ram \<Rightarrow> nat \<Rightarrow> nat \<Rightarrow> u8 list result" where
  "load_bytes mp p m va 0 = Inr []"
| "load_bytes mp p m va (Suc n) =
     (case translate_addr mp p va of
        None \<Rightarrow> page_fault_at va
      | Some pa \<Rightarrow> and_then (load_bytes mp p m (va + 1) n) (\<lambda>bs. Inr (m pa # bs)))"

fun store_bytes :: "'p mapper_api \<Rightarrow> 'p \<Rightarrow> nat \<Rightarrow> u8 list \<Rightarrow> ram \<Rightarrow> ram result" where
  "store_bytes mp p va [] m = Inr m"
| "store_bytes mp p va (b # bs) m =
     (case translate_addr mp p va of
        None \<Rightarrow> page_fault_at va
      | Some pa \<Rightarrow> store_bytes mp p (va + 1) bs (m(pa := b)))"

text \<open>\<open>dst.copy_from_slice(src)\<close> for slices given by address and length.\<close>

definition copy_from_slice :: "'p mapper_api \<Rightarrow> 'p \<Rightarrow> nat \<times> nat \<Rightarrow> nat \<times> nat \<Rightarrow> ram \<Rightarrow> ram result" where
  "copy_from_slice mp p dst src m =
     (if snd dst = snd src
      then and_then (load_bytes mp p m (fst src) (snd src)) (\<lambda>bs. store_bytes mp p (fst dst) bs m)
      else Inl (ExplicitPanic ''source slice length does not match destination slice length''))"

section \<open>The consoles\<close>

record TTY =
  tty_buffer :: "nat \<times> nat"  \<comment> \<open>address and length\<close>
  tty_width :: nat
  tty_height :: nat

definition tty_new :: "nat \<Rightarrow> nat \<Rightarrow> nat \<Rightarrow> TTY result" where
  "tty_new addr w h =
     and_then (usize_mul w h) (\<lambda>n. and_then (usize_mul n 4) (\<lambda>len.
     Inr \<lparr>tty_buffer = (addr, len), tty_width = w, tty_height = h\<rparr>))"

definition pixel_pos :: "TTY \<Rightarrow> nat \<Rightarrow> nat \<Rightarrow> nat result" where
  "pixel_pos t px py =
     and_then (usize_mul (tty_width t) py) (\<lambda>row.
     and_then (usize_add row px) (\<lambda>pos. usize_mul pos 4))"

definition write_pixel :: "'p mapper_api \<Rightarrow> 'p \<Rightarrow> TTY \<Rightarrow> nat \<Rightarrow> nat \<Rightarrow> u8 \<times> u8 \<times> u8 \<times> u8 \<Rightarrow> ram \<Rightarrow> ram result" where
  "write_pixel mp p t px py pixel m =
     and_then (pixel_pos t px py) (\<lambda>pos.
     let (r, g, b, a) = pixel in
     and_then (usize_add pos 4) (\<lambda>past.
     and_then (slice_range (snd (tty_buffer t)) pos past) (\<lambda>_.
     store_bytes mp p (fst (tty_buffer t) + pos) [b, g, r, a] m)))"

definition read_pixel :: "'p mapper_api \<Rightarrow> 'p \<Rightarrow> TTY \<Rightarrow> nat \<Rightarrow> nat \<Rightarrow> ram \<Rightarrow> (u8 \<times> u8 \<times> u8 \<times> u8) result" where
  "read_pixel mp p t px py m =
     and_then (pixel_pos t px py) (\<lambda>pos.
     and_then (usize_add pos 4) (\<lambda>past.
     and_then (slice_range (snd (tty_buffer t)) pos past) (\<lambda>_.
     and_then (load_bytes mp p m (fst (tty_buffer t) + pos) 4) (\<lambda>bs.
     case bs of [b, g, r, a] \<Rightarrow> Inr (r, g, b, a) | _ \<Rightarrow> Inl Unreachable))))"

record 'p console =
  table :: 'p
  allocator :: BitmapFrameAllocator
  ram :: ram
  ttys :: "TTY list"
  current_tty :: nat
  init_done :: bool
  interrupts_enabled :: bool

text \<open>What the consoles use: the mapper with \<open>translate_page\<close>, the frame allocator, and the frame buffer.\<close>

record 'p tty_env =
  t_mapper :: "'p mapper_api"
  t_translate_page :: "'p \<Rightarrow> nat \<Rightarrow> nat option"
  t_bf :: bit_field_api
  t_x86 :: x86_api
  t_fb :: "FrameBuffer option"

abbreviation tty_flags :: u64 where "tty_flags \<equiv> PRESENT OR WRITABLE"

definition map_unwrap :: "'p tty_env \<Rightarrow> nat \<Rightarrow> nat \<Rightarrow> 'p \<times> BitmapFrameAllocator \<Rightarrow> ('p \<times> BitmapFrameAllocator) result" where
  "map_unwrap e page frame st =
     and_then (map_to (t_mapper e) page frame tty_flags (fst st) (snd st)) (\<lambda>(r, p, a).
     case r of Inl _ \<Rightarrow> Inl UnwrapNone | Inr _ \<Rightarrow> Inr (p, a))"

definition unmap_unwrap :: "'p tty_env \<Rightarrow> nat \<Rightarrow> 'p \<Rightarrow> (nat \<times> 'p) result" where
  "unmap_unwrap e page p = (case unmap (t_mapper e) page p of (Inl _, _) \<Rightarrow> Inl UnwrapNone | (Inr f, p) \<Rightarrow> Inr (f, p))"

text \<open>One iteration of the loop that gives the last console fresh frames.\<close>

definition detach_page ::
  "'p tty_env \<Rightarrow> nat \<Rightarrow> nat \<Rightarrow> 'p \<times> BitmapFrameAllocator \<Rightarrow> ('p \<times> BitmapFrameAllocator) result" where
  "detach_page e buffer_ptr page_cnt st =
     (let (p, a) = st in
      and_then (va_add (t_x86 e) buffer_ptr (page_cnt * 4096)) (\<lambda>ptr.
      and_then (allocate_frame (t_bf e) (t_x86 e) a) (\<lambda>(frame, a).
      and_then (unwrap frame) (\<lambda>frame.
      and_then (unmap_unwrap e (page_containing (t_x86 e) ptr) p) (\<lambda>(_, p).
      map_unwrap e (page_containing (t_x86 e) ptr) frame (p, a))))))"

text \<open>One iteration of the loop over the bytes of the buffer; \<open>i\<close> is the distance from its start.\<close>

definition attach_byte ::
  "'p tty_env \<Rightarrow> nat \<Rightarrow> nat \<Rightarrow> nat \<Rightarrow> 'p \<times> BitmapFrameAllocator \<Rightarrow> ('p \<times> BitmapFrameAllocator) result" where
  "attach_byte e vram_ptr buffer_ptr i st =
     (let (p, a) = st in
      and_then (unwrap (t_translate_page e p (page_containing (t_x86 e) (vram_ptr + i)))) (\<lambda>frame.
      and_then (unmap_unwrap e (page_containing (t_x86 e) (buffer_ptr + i)) p) (\<lambda>(maped_frame, p).
      and_then (deallocate_frame (t_bf e) a maped_frame) (\<lambda>a.
      and_then (map_unwrap e (page_containing (t_x86 e) (buffer_ptr + i)) frame (p, a)) (\<lambda>st.
      and_then (va_add (t_x86 e) (vram_ptr + i) 1) (\<lambda>_. Inr st))))))"

definition detach_last :: "'p tty_env \<Rightarrow> nat \<times> nat \<Rightarrow> 'p console \<Rightarrow> 'p console result" where
  "detach_last e frame_buffer s =
     and_then (index (ttys s) (current_tty s)) (\<lambda>last_tty.
     let (buffer_ptr, buffer_len) = tty_buffer last_tty in
     and_then (for_each (detach_page e buffer_ptr) [0..<buffer_len div 4096] (table s, allocator s)) (\<lambda>(p, a).
     and_then (copy_from_slice (t_mapper e) p (tty_buffer last_tty) frame_buffer (ram s)) (\<lambda>m.
     Inr (s\<lparr>table := p, allocator := a, ram := m\<rparr>))))"

definition switch_to :: "'p tty_env \<Rightarrow> nat \<Rightarrow> 'p console \<Rightarrow> 'p console result" where
  "switch_to e tty s =
     (let s = s\<lparr>interrupts_enabled := False\<rparr>;
          init = init_done s in
      and_then (display_new (t_fb e)) (\<lambda>display.
      let frame_buffer = get_frame_buffer display in
      and_then (if init then detach_last e frame_buffer s else Inr s) (\<lambda>s.
      let s = s\<lparr>current_tty := tty\<rparr> in
      and_then (index (ttys s) tty) (\<lambda>t.
      let (buffer_ptr, buffer_len) = tty_buffer t in
      and_then (copy_from_slice (t_mapper e) (table s) frame_buffer (tty_buffer t) (ram s)) (\<lambda>m.
      and_then (va_add (t_x86 e) buffer_ptr buffer_len) (\<lambda>_.
      and_then (for_each (attach_byte e (fst frame_buffer) buffer_ptr) [0..<buffer_len] (table s, allocator s)) (\<lambda>(p, a).
      let s = s\<lparr>ram := m, table := p, allocator := a\<rparr> in
      Inr (if init then s\<lparr>interrupts_enabled := True\<rparr> else s))))))))"

definition get_tty :: "nat \<Rightarrow> 'p console \<Rightarrow> TTY result" where
  "get_tty i s = index (ttys s) i"

text \<open>\<open>TTYDrawTarget\<close> and \<open>init\<close>; \<open>place\<close> is where the heap puts the buffers.\<close>

definition tty_draw_pixel :: "'p tty_env \<Rightarrow> nat \<Rightarrow> nat \<Rightarrow> nat \<Rightarrow> u8 \<times> u8 \<times> u8 \<Rightarrow> 'p console \<Rightarrow> 'p console result" where
  "tty_draw_pixel e i px py color s =
     and_then (get_tty i s) (\<lambda>t.
     let (r, g, b) = color in
     and_then (write_pixel (t_mapper e) (table s) t px py (r, g, b, 0) (ram s)) (\<lambda>m. Inr (s\<lparr>ram := m\<rparr>)))"

definition tty_size :: "nat \<Rightarrow> 'p console \<Rightarrow> (nat \<times> nat) result" where
  "tty_size i s = and_then (get_tty i s) (\<lambda>t. Inr (tty_width t, tty_height t))"

definition tty_init :: "'p tty_env \<Rightarrow> (nat \<Rightarrow> nat) \<Rightarrow> 'p console \<Rightarrow> 'p console result" where
  "tty_init e place s =
     and_then (display_new (t_fb e)) (\<lambda>d.
     let (w, h) = display_size d in
     and_then (for_each (\<lambda>i ts. and_then (tty_new (place i) w h) (\<lambda>t. Inr (ts @ [t]))) [0..<6] (ttys s)) (\<lambda>ts.
     and_then (switch_to e 0 (s\<lparr>ttys := ts\<rparr>)) (\<lambda>s.
     Inr (s\<lparr>init_done := True\<rparr>))))"

section \<open>Frames in use\<close>

text \<open>
  A frame the single-frame allocator will not hand out any more: it lies behind the cursor or
  beyond the limit of the search.
\<close>

definition settled :: "BitmapFrameAllocator \<Rightarrow> nat \<Rightarrow> bool" where
  "settled a f \<longleftrightarrow> f div 4096 < capacity (bitmap a) \<and> (f div 4096 < next_frame a \<or> bitmap_len (bitmap a) \<le> f div 4096)"

lemma settled_not_pool: "settled a f \<Longrightarrow> f \<notin> frame_pool bf a"
proof
  assume s: "settled a f" and "f \<in> frame_pool bf a"
  then obtain i where "f = 4096 * i" "i \<in> reachable_free bf a" by (auto simp: frame_pool_def)
  then have "f div 4096 = i" "next_frame a \<le> i" "i < bitmap_len (bitmap a)" by (simp_all add: reachable_free_def)
  with s show False by (simp add: settled_def)
qed

context frame_env
begin

lemma allocate_settles:
  assumes "pool_ok bf a" and "frame_pool bf a \<noteq> {}"
  obtains f a' where "allocate_frame bf x a = Inr (Some f, a')" "f \<in> frame_pool bf a" "frame_pool bf a' = frame_pool bf a - {f}"
    "pool_ok bf a'" "settled a' f" "\<forall>g. settled a g \<longrightarrow> settled a' g"
proof -
  from pool.alloc_pool [OF assms] obtain f a' where r: "allocate_frame bf x a = Inr (Some f, a')" "f \<in> frame_pool bf a"
    "frame_pool bf a' = frame_pool bf a - {f}" "pool_ok bf a'" by blast
  from r(2) obtain i where i: "i \<in> reachable_free bf a" by (auto simp: frame_pool_def)
  then have lt: "next_frame a < bitmap_len (bitmap a)" by (simp add: reachable_free_def)
  have "0 < card (reachable_free bf a)" using i by (auto simp: card_gt_0_iff)
  then have "0 < usable_frames a" "next_frame a \<le> bitmap_len (bitmap a)" "0 < bitmap_len (bitmap a)" "addressable a"
    using assms(1) lt by (simp_all add: pool_ok_def)
  from allocate_frame_some [OF this] obtain a'' where
    c: "allocate_frame bf x a = Inr (Some (4096 * next_frame a), a'')" "bitmap_len (bitmap a'') = bitmap_len (bitmap a)"
    "next_frame a'' = bitmap_len (bitmap a) \<or> next_frame a < next_frame a''" by (elim exE conjE)
  with r(1) have e: "f = 4096 * next_frame a" "a'' = a'" by simp_all
  have "settled a' f" "\<forall>g. settled a g \<longrightarrow> settled a' g"
    using c(2,3) lt e by (auto simp: settled_def capacity_def)
  then show thesis using r that by blast
qed

lemma deallocate_settled:
  assumes "settled a f"
  obtains a' where "deallocate_frame bf a f = Inr a'" "free_frames bf a' = insert (f div 4096) (free_frames bf a)"
    "frame_pool bf a' = frame_pool bf a" "pool_ok bf a' = pool_ok bf a" "settled a' = settled a"
proof -
  obtain k where k: "k = f div 4096" by simp
  with assms have lim: "k < capacity (bitmap a)" "k < next_frame a \<or> bitmap_len (bitmap a) \<le> k" by (simp_all add: settled_def)
  from lim(1) obtain b where b: "bitmap_set bf (bitmap a) k True = Inr b" "bitmap_len b = bitmap_len (bitmap a)"
    "bits bf b = insert k (bits bf (bitmap a))" by (rule bitmap_set_in [where v = True]) simp
  let ?a = "a\<lparr>bitmap := b\<rparr>"
  have e: "bitmap ?a = b" "next_frame ?a = next_frame a" by simp_all
  have r: "reachable_free bf ?a = reachable_free bf a"
  proof -
    have "\<not> (next_frame a \<le> k \<and> k < bitmap_len (bitmap a))" using lim(2) by linarith
    then show ?thesis unfolding reachable_free_def e b by blast
  qed
  have "next_frame a = k \<longrightarrow> \<not> k < bitmap_len (bitmap a)" using lim(2) by linarith
  then have "cursor_inv bf ?a = cursor_inv bf a"
    unfolding cursor_inv_def e b by blast
  then have ok: "pool_ok bf ?a = pool_ok bf a" using r b(2) by (simp add: pool_ok_def addressable_def)
  have "settled ?a = settled a" using b(2) by (simp add: settled_def [abs_def] capacity_def)
  then show thesis using b r ok by (intro that [of ?a]) (simp_all add: deallocate_frame_def frame_pool_def k)
qed

end

section \<open>Buffers\<close>

text \<open>
  A buffer of \<open>n\<close> whole pages at \<open>buf\<close>, in the mapping \<open>view\<close> with the huge pages \<open>huge\<close>:
  \<open>tty_frame\<close> is the frame of a page and \<open>tty_place\<close> the physical address of a byte.
\<close>

definition tty_frame :: "('p \<Rightarrow> nat \<rightharpoonup> nat \<times> u64) \<Rightarrow> 'p \<Rightarrow> nat \<Rightarrow> nat \<Rightarrow> nat" where
  "tty_frame view p buf j = fst (the (view p (buf + 4096 * j)))"

definition tty_place :: "('p \<Rightarrow> nat \<rightharpoonup> nat \<times> u64) \<Rightarrow> 'p \<Rightarrow> nat \<Rightarrow> nat \<Rightarrow> nat" where
  "tty_place view p buf i = tty_frame view p buf (i div 4096) + i mod 4096"

definition tty_mapped :: "('p \<Rightarrow> nat \<rightharpoonup> nat \<times> u64) \<Rightarrow> ('p \<Rightarrow> nat \<Rightarrow> bool) \<Rightarrow> 'p \<Rightarrow> nat \<Rightarrow> nat \<Rightarrow> bool" where
  "tty_mapped view huge p buf n \<longleftrightarrow> buf mod 4096 = 0 \<and>
     (\<forall>j < n. view p (buf + 4096 * j) \<noteq> None \<and> \<not> huge p (buf + 4096 * j) \<and> tty_frame view p buf j mod 4096 = 0)"

definition tty_frames :: "('p \<Rightarrow> nat \<rightharpoonup> nat \<times> u64) \<Rightarrow> 'p \<Rightarrow> nat \<Rightarrow> nat \<Rightarrow> nat set" where
  "tty_frames view p buf n = tty_frame view p buf ` {..<n}"

definition tty_contents :: "('p \<Rightarrow> nat \<rightharpoonup> nat \<times> u64) \<Rightarrow> ram \<Rightarrow> 'p \<Rightarrow> nat \<Rightarrow> nat \<Rightarrow> u8 list" where
  "tty_contents view m p buf n = map (\<lambda>i. m (tty_place view p buf i)) [0..<4096 * n]"

text \<open>
  The consoles \<open>0..<N\<close> with buffers at \<open>b k\<close> and the video memory at \<open>v\<close>: apart in virtual memory,
  and in physical memory except that the console on the screen has the frames of the video
  memory.
\<close>

definition apart :: "nat \<Rightarrow> nat \<Rightarrow> nat \<Rightarrow> bool" where
  "apart n q r \<longleftrightarrow> (\<forall>i < n. \<forall>j < n. q + 4096 * i \<noteq> r + 4096 * j)"

definition laid_out :: "x86_api \<Rightarrow> nat \<Rightarrow> nat \<Rightarrow> nat \<Rightarrow> (nat \<Rightarrow> nat) \<Rightarrow> bool" where
  "laid_out x v n N b \<longleftrightarrow> (\<forall>i < 4096 * n. \<exists>c. va_add x (v + i) 1 = Inr c) \<and>
     (\<forall>k < N. b k + 4096 * n < 2 ^ 47 \<and> apart n v (b k) \<and> (\<forall>l < N. l \<noteq> k \<longrightarrow> apart n (b l) (b k)))"

definition tty_frames_ok ::
  "bit_field_api \<Rightarrow> ('p \<Rightarrow> nat \<rightharpoonup> nat \<times> u64) \<Rightarrow> ('p \<Rightarrow> nat \<Rightarrow> bool) \<Rightarrow>
   nat \<Rightarrow> nat \<Rightarrow> nat option \<Rightarrow> nat \<Rightarrow> (nat \<Rightarrow> nat) \<Rightarrow> 'p \<Rightarrow> BitmapFrameAllocator \<Rightarrow> bool" where
  "tty_frames_ok bf view huge v n shown N b p a \<longleftrightarrow>
     tty_mapped view huge p v n \<and> inj_on (tty_frame view p v) {..<n} \<and> (\<forall>j < n. settled a (tty_frame view p v j)) \<and> pool_ok bf a \<and>
     (\<forall>k < N. tty_mapped view huge p (b k) n \<and> (\<forall>j < n. settled a (tty_frame view p (b k) j))) \<and>
     (\<forall>k < N. shown \<noteq> Some k \<longrightarrow> inj_on (tty_frame view p (b k)) {..<n} \<and> tty_frames view p (b k) n \<inter> tty_frames view p v n = {} \<and>
        (\<forall>l < N. l \<noteq> k \<longrightarrow> shown \<noteq> Some l \<longrightarrow> tty_frames view p (b l) n \<inter> tty_frames view p (b k) n = {})) \<and>
     (\<forall>k. shown = Some k \<longrightarrow> (\<forall>j < n. tty_frame view p (b k) j = tty_frame view p v j))"

text \<open>
  What the switch relies on of the mapper: a page that was just unmapped can be mapped again
  without a frame for a table, and \<open>translate_page\<close> returns the frame of a mapped page.
\<close>

locale tty_mapper = page_mapper bf x mp view huge
  for bf :: bit_field_api and x :: x86_api and mp :: "'p mapper_api" and view :: "'p \<Rightarrow> nat \<rightharpoonup> nat \<times> u64" and huge :: "'p \<Rightarrow> nat \<Rightarrow> bool" +
  fixes tp :: "'p \<Rightarrow> nat \<Rightarrow> nat option"
  assumes remap: "view p page = Some (f, fl) \<Longrightarrow> \<not> huge p page \<Longrightarrow> \<exists>p1 p2. unmap mp page p = (Inr f, p1) \<and>
      map_to mp page frame flags p1 a = Inr (Inr (), p2, a) \<and> view p2 = (view p)(page \<mapsto> (frame, flags)) \<and> huge p2 = huge p"
    and translate_page: "\<not> huge p page \<Longrightarrow> tp p page = map_option fst (view p page)"
begin

abbreviation frame_at :: "'p \<Rightarrow> nat \<Rightarrow> nat \<Rightarrow> nat" where "frame_at \<equiv> tty_frame view"
abbreviation place :: "'p \<Rightarrow> nat \<Rightarrow> nat \<Rightarrow> nat" where "place \<equiv> tty_place view"
abbreviation mapped_buffer :: "'p \<Rightarrow> nat \<Rightarrow> nat \<Rightarrow> bool" where "mapped_buffer \<equiv> tty_mapped view huge"
abbreviation frames_of :: "'p \<Rightarrow> nat \<Rightarrow> nat \<Rightarrow> nat set" where "frames_of \<equiv> tty_frames view"
abbreviation contents :: "ram \<Rightarrow> 'p \<Rightarrow> nat \<Rightarrow> nat \<Rightarrow> u8 list" where "contents \<equiv> tty_contents view"
abbreviation frames_ok :: "nat \<Rightarrow> nat \<Rightarrow> nat option \<Rightarrow> nat \<Rightarrow> (nat \<Rightarrow> nat) \<Rightarrow> 'p \<Rightarrow> BitmapFrameAllocator \<Rightarrow> bool" where
  "frames_ok \<equiv> tty_frames_ok bf view huge"

lemma translate_byte:
  assumes "mapped_buffer p buf n" and "i < 4096 * n"
  shows "translate_addr mp p (buf + i) = Some (place p buf i)"
proof -
  have b: "buf mod 4096 = 0" using assms(1) by (simp add: tty_mapped_def)
  have "i div 4096 < n" using assms(2) by (simp add: div_less_iff_less_mult mult.commute)
  then obtain f fl where f: "view p (buf + 4096 * (i div 4096)) = Some (f, fl)" "\<not> huge p (buf + 4096 * (i div 4096))"
    using assms(1) by (auto simp: tty_mapped_def)
  have "(buf + i) mod 4096 = i mod 4096" using b by (metis add_0 mod_add_left_eq)
  then show ?thesis using translate [of p "buf + i"] f by (simp add: page_of [OF b] tty_place_def tty_frame_def)
qed

lemma load_buffer:
  assumes "mapped_buffer p buf n" and "i + k \<le> 4096 * n"
  shows "load_bytes mp p m (buf + i) k = Inr (map (\<lambda>j. m (place p buf j)) [i..<i + k])"
  using assms(2)
proof (induction k arbitrary: i)
  case 0
  then show ?case by simp
next
  case (Suc k)
  then have "load_bytes mp p m (buf + Suc i) k = Inr (map (\<lambda>j. m (place p buf j)) [Suc i..<Suc i + k])"
    using Suc.IH [of "Suc i"] by simp
  moreover have "[i..<i + Suc k] = i # [Suc i..<Suc i + k]" by (simp add: upt_conv_Cons)
  ultimately show ?case using translate_byte [OF assms(1), of i] Suc.prems by simp
qed

lemma store_buffer:
  assumes "mapped_buffer p buf n" and "inj_on (place p buf) {i..<i + length bs}" and "i + length bs \<le> 4096 * n"
  shows "\<exists>m'. store_bytes mp p (buf + i) bs m = Inr m' \<and> (\<forall>j < length bs. m' (place p buf (i + j)) = bs ! j) \<and>
    (\<forall>a. a \<notin> place p buf ` {i..<i + length bs} \<longrightarrow> m' a = m a)"
  using assms(2,3)
proof (induction bs arbitrary: i m)
  case Nil
  then show ?case by simp
next
  case (Cons b bs)
  let ?m = "m(place p buf i := b)"
  have "inj_on (place p buf) {Suc i..<Suc i + length bs}" using Cons.prems(1) by (rule inj_on_subset) auto
  then obtain m' where m': "store_bytes mp p (buf + Suc i) bs ?m = Inr m'" "\<forall>j < length bs. m' (place p buf (Suc i + j)) = bs ! j"
    "\<forall>a. a \<notin> place p buf ` {Suc i..<Suc i + length bs} \<longrightarrow> m' a = ?m a"
    using Cons.IH [of "Suc i" ?m] Cons.prems(2) by (auto simp del: fun_upd_apply)
  have "place p buf i \<notin> place p buf ` {Suc i..<Suc i + length bs}"
    using Cons.prems(1) by (auto dest!: inj_onD [where x = i])
  with m'(3) have "m' (place p buf i) = b" by simp
  moreover have "store_bytes mp p (buf + i) (b # bs) m = Inr m'"
    using translate_byte [OF assms(1), of i] Cons.prems(2) m'(1) by simp
  moreover have "m' a = m a" if "a \<notin> place p buf ` {i..<i + length (b # bs)}" for a
  proof -
    have "place p buf i \<in> place p buf ` {i..<i + length (b # bs)}" by simp
    moreover have "place p buf ` {Suc i..<Suc i + length bs} \<subseteq> place p buf ` {i..<i + length (b # bs)}" by (rule image_mono) auto
    ultimately have "a \<notin> place p buf ` {Suc i..<Suc i + length bs}" "a \<noteq> place p buf i" using that by auto
    with m'(3) show ?thesis by simp
  qed
  moreover have "\<forall>j < length (b # bs). m' (place p buf (i + j)) = (b # bs) ! j"
    using m'(2) calculation(1) by (auto simp: less_Suc_eq_0_disj)
  ultimately show ?case by blast
qed

lemma place_parts:
  assumes "mapped_buffer p buf n" and "i < 4096 * n"
  shows "place p buf i - place p buf i mod 4096 = frame_at p buf (i div 4096)" "place p buf i mod 4096 = i mod 4096"
proof -
  have "i div 4096 < n" using assms(2) by (simp add: div_less_iff_less_mult mult.commute)
  then have f: "frame_at p buf (i div 4096) mod 4096 = 0" using assms(1) by (simp add: tty_mapped_def)
  then show m: "place p buf i mod 4096 = i mod 4096"
    unfolding tty_place_def by (metis add_0 mod_add_left_eq mod_mod_trivial)
  show "place p buf i - place p buf i mod 4096 = frame_at p buf (i div 4096)"
    unfolding m by (simp add: tty_place_def)
qed

lemma place_inj:
  assumes "mapped_buffer p buf n" and "inj_on (frame_at p buf) {..<n}"
  shows "inj_on (place p buf) {..<4096 * n}"
proof (rule inj_onI)
  fix i j assume ij: "i \<in> {..<4096 * n}" "j \<in> {..<4096 * n}" and eq: "place p buf i = place p buf j"
  then have d: "i div 4096 < n" "j div 4096 < n" by (simp_all add: div_less_iff_less_mult mult.commute)
  have "frame_at p buf (i div 4096) = frame_at p buf (j div 4096)" "i mod 4096 = j mod 4096"
    using place_parts [OF assms(1), of i] place_parts [OF assms(1), of j] ij eq by simp_all
  with assms(2) d have "i div 4096 = j div 4096" by (auto dest: inj_onD)
  with \<open>i mod 4096 = j mod 4096\<close> show "i = j" by (metis div_mult_mod_eq)
qed

lemma copy_buffer:
  assumes "mapped_buffer p dst n" and "mapped_buffer p src n" and "inj_on (frame_at p dst) {..<n}"
  obtains m' where "copy_from_slice mp p (dst, 4096 * n) (src, 4096 * n) m = Inr m'"
    "\<forall>i < 4096 * n. m' (place p dst i) = m (place p src i)"
    "\<forall>a. a - a mod 4096 \<notin> frames_of p dst n \<longrightarrow> m' a = m a"
proof -
  let ?bs = "map (\<lambda>j. m (place p src j)) [0..<4096 * n]"
  have load: "load_bytes mp p m src (4096 * n) = Inr ?bs" using load_buffer [OF assms(2), of 0 "4096 * n"] by simp
  have "inj_on (place p dst) {0..<0 + length ?bs}" using place_inj [OF assms(1,3)] by (simp add: lessThan_atLeast0)
  from store_buffer [OF assms(1) this, of m] obtain m' where m': "store_bytes mp p dst ?bs m = Inr m'"
    "\<forall>j < 4096 * n. m' (place p dst j) = m (place p src j)" "\<forall>a. a \<notin> place p dst ` {0..<4096 * n} \<longrightarrow> m' a = m a" by auto
  have "m' a = m a" if "a - a mod 4096 \<notin> frames_of p dst n" for a
  proof -
    have "a \<notin> place p dst ` {0..<4096 * n}"
    proof
      assume "a \<in> place p dst ` {0..<4096 * n}"
      then obtain i where i: "a = place p dst i" "i < 4096 * n" by auto
      then have "i div 4096 < n" by (simp add: div_less_iff_less_mult mult.commute)
      then have "frame_at p dst (i div 4096) \<in> frames_of p dst n" by (simp add: tty_frames_def)
      with that place_parts(1) [OF assms(1) i(2)] i(1) show False by simp
    qed
    with m'(3) show ?thesis by blast
  qed
  with m' load show thesis by (intro that [of m']) (simp_all add: copy_from_slice_def)
qed

text \<open>The mapping with the pages of a buffer on other frames.\<close>

definition remapped :: "(nat \<Rightarrow> nat) \<Rightarrow> nat \<Rightarrow> nat \<Rightarrow> (nat \<rightharpoonup> nat \<times> u64) \<Rightarrow> nat \<rightharpoonup> nat \<times> u64" where
  "remapped G buf n v = (\<lambda>q. if \<exists>j < n. q = buf + 4096 * j then Some (G ((q - buf) div 4096), tty_flags) else v q)"

lemma remapped_0 [simp]: "remapped G buf 0 v = v"
  by (simp add: remapped_def)

lemma remapped_Suc: "remapped G buf (Suc n) v = (remapped G buf n v)(buf + 4096 * n \<mapsto> (G n, tty_flags))"
  by (auto simp: remapped_def fun_eq_iff less_Suc_eq)

lemma remapped_cong: "(\<And>j. j < n \<Longrightarrow> G j = H j) \<Longrightarrow> remapped G buf n v = remapped H buf n v"
  by (auto simp: remapped_def fun_eq_iff)

lemma remapped_in: "j < n \<Longrightarrow> remapped G buf n v (buf + 4096 * j) = Some (G j, tty_flags)"
  by (auto simp: remapped_def)

lemma remapped_out: "(\<And>j. j < n \<Longrightarrow> q \<noteq> buf + 4096 * j) \<Longrightarrow> remapped G buf n v q = v q"
  by (auto simp: remapped_def)

lemma remapped_again: "j < n \<Longrightarrow> (remapped G buf n v)(buf + 4096 * j \<mapsto> (G j, tty_flags)) = remapped G buf n v"
  by (auto simp: remapped_def fun_eq_iff)

definition env_for :: "'p tty_env \<Rightarrow> bool" where
  "env_for e \<longleftrightarrow> t_mapper e = mp \<and> t_translate_page e = tp \<and> t_bf e = bf \<and> t_x86 e = x"

lemma remap_unwrap:
  assumes "env_for e" and "view p page = Some (f, fl)" and "\<not> huge p page"
  obtains p1 p2 where "unmap_unwrap e page p = Inr (f, p1)" "map_unwrap e page frame (p1, a) = Inr (p2, a)"
    "view p2 = (view p)(page \<mapsto> (frame, tty_flags))" "huge p2 = huge p"
proof -
  from remap [OF assms(2,3), of frame tty_flags a] obtain p1 p2 where "unmap mp page p = (Inr f, p1)"
    "map_to mp page frame tty_flags p1 a = Inr (Inr (), p2, a)" "view p2 = (view p)(page \<mapsto> (frame, tty_flags))" "huge p2 = huge p"
    by (elim exE conjE)
  then show thesis using assms(1) by (intro that [of p1 p2]) (simp_all add: unmap_unwrap_def map_unwrap_def env_for_def)
qed

lemma detach_loop:
  assumes "env_for e" and "mapped_buffer p buf n" and "buf + 4096 * n \<le> 2 ^ 47" and "pool_ok bf a" and "n \<le> card (frame_pool bf a)"
    and "k \<le> n"
  shows "\<exists>G p' a'. for_each (detach_page e buf) [0..<k] (p, a) = Inr (p', a') \<and> view p' = remapped G buf k (view p) \<and>
    huge p' = huge p \<and> inj_on G {..<k} \<and> G ` {..<k} \<subseteq> frame_pool bf a \<and> frame_pool bf a' = frame_pool bf a - G ` {..<k} \<and>
    pool_ok bf a' \<and> (\<forall>j < k. settled a' (G j)) \<and> (\<forall>g. settled a g \<longrightarrow> settled a' g)"
  using assms(6)
proof (induction k)
  case 0
  then show ?case using assms(4) by (intro exI [of _ id] exI [of _ p] exI [of _ a]) simp
next
  case (Suc k)
  from Suc.IH [OF Suc_leD [OF Suc.prems]] obtain G p1 a1 where 1: "for_each (detach_page e buf) [0..<k] (p, a) = Inr (p1, a1)" "view p1 = remapped G buf k (view p)"
    "huge p1 = huge p" "inj_on G {..<k}" "G ` {..<k} \<subseteq> frame_pool bf a" "frame_pool bf a1 = frame_pool bf a - G ` {..<k}"
    "pool_ok bf a1" "\<forall>j < k. settled a1 (G j)" "\<forall>g. settled a g \<longrightarrow> settled a1 g" by (elim exE conjE)
  have "card (G ` {..<k}) = k" using 1(4) by (simp add: card_image)
  then have "frame_pool bf a1 \<noteq> {}"
    using 1(5,6) assms(5) Suc.prems by (metis Diff_eq_empty_iff Suc_le_lessD card_mono finite_imageI finite_lessThan leD order_less_le_trans)
  then obtain f a2 where 2: "allocate_frame bf x a1 = Inr (Some f, a2)" "f \<in> frame_pool bf a1"
    "frame_pool bf a2 = frame_pool bf a1 - {f}" "pool_ok bf a2" "settled a2 f" "\<forall>g. settled a1 g \<longrightarrow> settled a2 g"
    using allocate_settles [OF 1(7)] by blast
  let ?q = "buf + 4096 * k"
  have q: "view p ?q \<noteq> None" "\<not> huge p ?q" "buf mod 4096 = 0" using assms(2) Suc.prems by (simp_all add: tty_mapped_def)
  have "view p1 ?q = view p ?q" unfolding 1(2) by (rule remapped_out) simp
  with q(1) obtain g fl where g: "view p1 ?q = Some (g, fl)" by auto
  obtain p2 p3 where 3: "unmap_unwrap e ?q p1 = Inr (g, p2)" "map_unwrap e ?q f (p2, a2) = Inr (p3, a2)"
    "view p3 = (view p1)(?q \<mapsto> (f, tty_flags))" "huge p3 = huge p1"
    using remap_unwrap [OF assms(1) g] q(2) 1(3) by metis
  have va: "va_add x buf (k * 4096) = Inr ?q"
    using assms(3) Suc.prems by (simp add: va_add_def usize_add_def usize_max_def virt_addr_new canonical_def mult.commute)
  have page: "page_containing x ?q = ?q" using q(3) page_of [of buf "4096 * k"] by simp
  have "detach_page e buf k (p1, a1) = Inr (p3, a2)"
    using assms(1) by (simp add: detach_page_def env_for_def va page 2(1) 3(1,2))
  then have run: "for_each (detach_page e buf) [0..<Suc k] (p, a) = Inr (p3, a2)"
    using 1(1) by (simp add: for_each_append)
  let ?G = "G(k := f)"
  have img: "?G ` {..<Suc k} = insert f (G ` {..<k})" by (auto simp: lessThan_Suc)
  have view: "view p3 = remapped ?G buf (Suc k) (view p)"
    unfolding 3(3) 1(2) remapped_Suc by (simp add: remapped_cong [of k ?G G])
  have fnew: "f \<notin> G ` {..<k}" "f \<in> frame_pool bf a" using 2(2) 1(6) by auto
  have "inj_on ?G {..<Suc k}" using 1(4) fnew(1) by (auto simp: inj_on_def less_Suc_eq)
  moreover have "\<forall>j < Suc k. settled a2 (?G j)" using 1(8) 2(5,6) by (auto simp: less_Suc_eq)
  ultimately show ?case
    using run view 3(4) 1(3,5,6,9) 2(3,4,6) fnew by (intro exI [of _ ?G] exI [of _ p3] exI [of _ a2]) (auto simp: img simp del: fun_upd_apply)
qed

lemma attach_step:
  assumes "env_for e" and "buf mod 4096 = 0" and "v mod 4096 = 0" and "va_add x (v + k) 1 = Inr past"
    and "view p (v + 4096 * (k div 4096)) = Some (f, fl)" and "\<not> huge p (v + 4096 * (k div 4096))"
    and "view p (buf + 4096 * (k div 4096)) = Some (g, gl)" and "\<not> huge p (buf + 4096 * (k div 4096))" and "settled a g"
  obtains p' a' where "attach_byte e v buf k (p, a) = Inr (p', a')"
    "view p' = (view p)(buf + 4096 * (k div 4096) \<mapsto> (f, tty_flags))" "huge p' = huge p"
    "free_frames bf a' = insert (g div 4096) (free_frames bf a)" "frame_pool bf a' = frame_pool bf a" "pool_ok bf a' = pool_ok bf a"
    "settled a' = settled a"
proof -
  obtain a' where a': "deallocate_frame bf a g = Inr a'" "free_frames bf a' = insert (g div 4096) (free_frames bf a)"
    "frame_pool bf a' = frame_pool bf a" "pool_ok bf a' = pool_ok bf a" "settled a' = settled a"
    using deallocate_settled [OF assms(9)] .
  obtain p1 p2 where p: "unmap_unwrap e (buf + 4096 * (k div 4096)) p = Inr (g, p1)"
    "map_unwrap e (buf + 4096 * (k div 4096)) f (p1, a') = Inr (p2, a')"
    "view p2 = (view p)(buf + 4096 * (k div 4096) \<mapsto> (f, tty_flags))" "huge p2 = huge p"
    using remap_unwrap [OF assms(1,7,8)] .
  have "attach_byte e v buf k (p, a) = Inr (p2, a')"
    using assms(1,4) translate_page [OF assms(6)] assms(5)
    by (simp add: attach_byte_def env_for_def page_of [OF assms(2)] page_of [OF assms(3)] p(1,2) a'(1))
  then show thesis using that p(3,4) a'(2-5) by blast
qed

lemma attach_loop:
  assumes e: "env_for e" and v: "mapped_buffer p v n" and buf: "mapped_buffer p buf n"
    and apart: "\<forall>i < n. \<forall>j < n. v + 4096 * i \<noteq> buf + 4096 * j" and va: "\<forall>i < 4096 * n. \<exists>c. va_add x (v + i) 1 = Inr c"
    and used: "\<forall>j < n. settled a (frame_at p v j) \<and> settled a (frame_at p buf j)" and "k \<le> 4096 * n"
  shows "\<exists>p' a'. for_each (attach_byte e v buf) [0..<k] (p, a) = Inr (p', a') \<and>
    view p' = remapped (frame_at p v) buf (div_ceil k 4096) (view p) \<and> huge p' = huge p \<and>
    (\<lambda>j. frame_at p v j div 4096) ` {j. 4096 * j + 1 < k} \<subseteq> free_frames bf a' \<and>
    frame_pool bf a' = frame_pool bf a \<and> pool_ok bf a' = pool_ok bf a \<and> settled a' = settled a"
  using assms(7)
proof (induction k)
  case 0
  then show ?case by (intro exI [of _ p] exI [of _ a]) (simp add: div_ceil_def)
next
  case (Suc k)
  from Suc.IH [OF Suc_leD [OF Suc.prems]] obtain p1 a1 where 1: "for_each (attach_byte e v buf) [0..<k] (p, a) = Inr (p1, a1)"
    "view p1 = remapped (frame_at p v) buf (div_ceil k 4096) (view p)" "huge p1 = huge p"
    "(\<lambda>j. frame_at p v j div 4096) ` {j. 4096 * j + 1 < k} \<subseteq> free_frames bf a1"
    "frame_pool bf a1 = frame_pool bf a" "pool_ok bf a1 = pool_ok bf a" "settled a1 = settled a" by (elim exE conjE)
  define j r where "j = k div 4096" and "r = k mod 4096"
  then have j: "k div 4096 = j" "k mod 4096 = r" "k = 4096 * j + r" "r < 4096" by simp_all
  have jn: "j < n" using Suc.prems j by linarith
  have ceil: "div_ceil k 4096 = (if r = 0 then j else Suc j)" "div_ceil (Suc k) 4096 = Suc j"
  proof -
    show "div_ceil k 4096 = (if r = 0 then j else Suc j)" by (simp add: div_ceil_def j(1,2))
    have "Suc k mod 4096 = (if Suc r = 4096 then 0 else Suc r)" "Suc k div 4096 = (if Suc r = 4096 then Suc j else j)"
      using j by (auto simp: mod_Suc div_Suc)
    then show "div_ceil (Suc k) 4096 = Suc j" by (simp add: div_ceil_def)
  qed
  have aligned: "buf mod 4096 = 0" "v mod 4096 = 0" using buf v by (simp_all add: tty_mapped_def)
  obtain fl where vj: "view p (v + 4096 * j) = Some (frame_at p v j, fl)" "\<not> huge p (v + 4096 * j)"
    using v jn by (force simp: tty_mapped_def tty_frame_def)
  obtain bl where bj: "view p (buf + 4096 * j) = Some (frame_at p buf j, bl)" "\<not> huge p (buf + 4096 * j)"
    using buf jn by (force simp: tty_mapped_def tty_frame_def)
  have v1: "view p1 (v + 4096 * j) = Some (frame_at p v j, fl)"
    unfolding 1(2) vj(1) [symmetric] by (rule remapped_out) (use apart jn ceil(1) in \<open>auto split: if_splits\<close>)
  define g where "g = (if r = 0 then frame_at p buf j else frame_at p v j)"
  obtain gl where b1: "view p1 (buf + 4096 * j) = Some (g, gl)"
  proof (cases "r = 0")
    case True
    have "view p1 (buf + 4096 * j) = view p (buf + 4096 * j)" unfolding 1(2) by (rule remapped_out) (simp add: ceil(1) True)
    with bj(1) True show thesis using that by (simp add: g_def)
  next
    case False
    have "view p1 (buf + 4096 * j) = Some (frame_at p v j, tty_flags)" unfolding 1(2) by (rule remapped_in) (simp add: ceil(1) False)
    with False show thesis using that by (simp add: g_def)
  qed
  have sg: "settled a1 g" using used jn 1(7) by (simp add: g_def)
  obtain c where c: "va_add x (v + k) 1 = Inr c" using va Suc.prems by (meson Suc_le_eq)
  have h1: "\<not> huge p1 (v + 4096 * j)" "\<not> huge p1 (buf + 4096 * j)" using vj(2) bj(2) 1(3) by simp_all
  obtain p2 a2 where 2: "attach_byte e v buf k (p1, a1) = Inr (p2, a2)"
    "view p2 = (view p1)(buf + 4096 * j \<mapsto> (frame_at p v j, tty_flags))" "huge p2 = huge p1"
    "free_frames bf a2 = insert (g div 4096) (free_frames bf a1)" "frame_pool bf a2 = frame_pool bf a1" "pool_ok bf a2 = pool_ok bf a1"
    "settled a2 = settled a1"
    using attach_step [OF e aligned c, unfolded j(1), OF v1 h1(1) b1 h1(2) sg] .
  have "view p2 = remapped (frame_at p v) buf (div_ceil (Suc k) 4096) (view p)"
  proof (cases "r = 0")
    case True
    then show ?thesis unfolding 2(2) 1(2) ceil by (simp add: remapped_Suc)
  next
    case False
    then show ?thesis unfolding 2(2) 1(2) ceil by (simp add: remapped_again)
  qed
  moreover have "(\<lambda>j. frame_at p v j div 4096) ` {i. 4096 * i + 1 < Suc k} \<subseteq> free_frames bf a2"
  proof
    fix y assume "y \<in> (\<lambda>j. frame_at p v j div 4096) ` {i. 4096 * i + 1 < Suc k}"
    then obtain i where i: "y = frame_at p v i div 4096" "4096 * i + 1 < Suc k" by auto
    show "y \<in> free_frames bf a2"
    proof (cases "4096 * i + 1 < k")
      case True
      then show ?thesis using 1(4) 2(4) i(1) by auto
    next
      case False
      with i(2) have "k = 4096 * i + 1" by simp
      then have "i = j" "r = 1" using j(1,2) by auto
      then show ?thesis using 2(4) i(1) by (simp add: g_def)
    qed
  qed
  moreover have "for_each (attach_byte e v buf) [0..<Suc k] (p, a) = Inr (p2, a2)" using 1(1) 2(1) by (simp add: for_each_append)
  ultimately show ?case using 2(3,5-7) 1(3,5-7) by (intro exI [of _ p2] exI [of _ a2]) simp
qed

lemma contents_eqI:
  "(\<And>i. i < 4096 * n \<Longrightarrow> m' (place p' buf' i) = m (place p buf i)) \<Longrightarrow> contents m' p' buf' n = contents m p buf n"
  by (simp add: tty_contents_def)

lemma remap_at:
  assumes "view p' = remapped G buf n (view p)" and "j < n"
  shows "frame_at p' buf j = G j" and "apart n q buf \<Longrightarrow> frame_at p' q j = frame_at p q j"
    and "apart n q buf \<Longrightarrow> view p' (q + 4096 * j) = view p (q + 4096 * j)"
proof -
  show "frame_at p' buf j = G j" unfolding tty_frame_def assms(1) by (simp add: remapped_in [OF assms(2)])
  show v: "view p' (q + 4096 * j) = view p (q + 4096 * j)" if "apart n q buf"
    unfolding assms(1) by (rule remapped_out) (use that assms(2) in \<open>auto simp: apart_def\<close>)
  show "frame_at p' q j = frame_at p q j" if "apart n q buf" unfolding tty_frame_def v [OF that] ..
qed

lemma mapped_remap:
  assumes "view p' = remapped G buf n (view p)" and "huge p' = huge p"
  shows "mapped_buffer p buf n \<Longrightarrow> (\<And>j. j < n \<Longrightarrow> G j mod 4096 = 0) \<Longrightarrow> mapped_buffer p' buf n"
    and "mapped_buffer p q n \<Longrightarrow> apart n q buf \<Longrightarrow> mapped_buffer p' q n"
  using remap_at [OF assms(1)] assms(2) by (auto simp: tty_mapped_def remapped_in assms(1))

lemma same_frames:
  assumes "\<And>j. j < n \<Longrightarrow> frame_at p' q j = frame_at p r j"
  shows "inj_on (frame_at p' q) {..<n} = inj_on (frame_at p r) {..<n}" and "frames_of p' q n = frames_of p r n"
    and "i < 4096 * n \<Longrightarrow> place p' q i = place p r i"
proof -
  show "inj_on (frame_at p' q) {..<n} = inj_on (frame_at p r) {..<n}" by (rule inj_on_cong) (simp add: assms)
  show "frames_of p' q n = frames_of p r n" unfolding tty_frames_def by (rule image_cong) (simp_all add: assms)
  show "place p' q i = place p r i" if "i < 4096 * n"
    using that assms [of "i div 4096"] by (simp add: tty_place_def div_less_iff_less_mult mult.commute)
qed

lemma place_frame:
  assumes "mapped_buffer p q n" and "i < 4096 * n"
  shows "place p q i - place p q i mod 4096 \<in> frames_of p q n"
  using place_parts(1) [OF assms] assms(2) by (simp add: tty_frames_def div_less_iff_less_mult mult.commute)

lemma detached:
  assumes e: "env_for e" and lay: "laid_out x v n N b" and ok: "frames_ok v n (Some c) N b p a" and c: "c < N"
    and room: "n \<le> card (frame_pool bf a)"
  obtains p' a' m' where "for_each (detach_page e (b c)) [0..<n] (p, a) = Inr (p', a')"
    "copy_from_slice mp p' (b c, 4096 * n) (v, 4096 * n) m = Inr m'" "frames_ok v n None N b p' a'"
    "\<forall>k < N. contents m' p' (b k) n = contents m p (b k) n" "card (frame_pool bf a') + n = card (frame_pool bf a)"
proof -
  have mc: "mapped_buffer p (b c) n" "pool_ok bf a" "mapped_buffer p v n" using ok c by (auto simp: tty_frames_ok_def)
  have "b c + 4096 * n \<le> 2 ^ 47" using lay c by (auto simp: laid_out_def)
  from detach_loop [OF e mc(1) this mc(2) room order.refl] obtain G p' a' where
    G: "for_each (detach_page e (b c)) [0..<n] (p, a) = Inr (p', a')" "view p' = remapped G (b c) n (view p)"
    "huge p' = huge p" "inj_on G {..<n}" "G ` {..<n} \<subseteq> frame_pool bf a" "frame_pool bf a' = frame_pool bf a - G ` {..<n}"
    "pool_ok bf a'" "\<forall>j < n. settled a' (G j)" "\<forall>g. settled a g \<longrightarrow> settled a' g" by (elim exE conjE)
  have ap: "apart n v (b c)" "k < N \<Longrightarrow> k \<noteq> c \<Longrightarrow> apart n (b k) (b c)" for k using lay c by (auto simp: laid_out_def)
  have Gc: "frame_at p' (b c) j = G j" if "j < n" for j by (rule remap_at(1) [OF G(2) that])
  have Gv: "frame_at p' v j = frame_at p v j" if "j < n" for j by (rule remap_at(2) [OF G(2) that ap(1)])
  have Gk: "frame_at p' (b k) j = frame_at p (b k) j" if "k < N" "k \<noteq> c" "j < n" for k j
    by (rule remap_at(2) [OF G(2) that(3) ap(2) [OF that(1,2)]])
  have aligned: "G j mod 4096 = 0" if "j < n" for j using G(5) that pool.pool_frame [OF mc(2)] by blast
  have mapped: "mapped_buffer p' (b k) n" if "k < N" for k
    using mapped_remap [OF G(2,3)] aligned ap(2) that ok c by (cases "k = c") (auto simp: tty_frames_ok_def)
  have mv: "mapped_buffer p' v n" using mapped_remap(2) [OF G(2,3) mc(3) ap(1)] .
  have Fc: "frames_of p' (b c) n = G ` {..<n}" unfolding tty_frames_def by (rule image_cong) (simp_all add: Gc)
  have injc: "inj_on (frame_at p' (b c)) {..<n}" using G(4) Gc by (simp add: inj_on_def)
  have fresh: "frames_of p q n \<inter> G ` {..<n} = {}" if "\<forall>j < n. settled a (frame_at p q j)" for q
  proof -
    have "g \<notin> frame_pool bf a" if "g \<in> frames_of p q n" for g
      using that \<open>\<forall>j < n. settled a (frame_at p q j)\<close> settled_not_pool by (auto simp: tty_frames_def)
    then show ?thesis using G(5) by blast
  qed
  obtain m' where m': "copy_from_slice mp p' (b c, 4096 * n) (v, 4096 * n) m = Inr m'"
    "\<forall>i < 4096 * n. m' (place p' (b c) i) = m (place p' v i)" "\<forall>a. a - a mod 4096 \<notin> frames_of p' (b c) n \<longrightarrow> m' a = m a"
    using copy_buffer [OF mapped [OF c] mv injc] .
  have vfr: "frames_of p' v n = frames_of p v n" "inj_on (frame_at p' v) {..<n} = inj_on (frame_at p v) {..<n}"
    using same_frames [of n p' v p v, OF Gv] by simp_all
  have kfr: "frames_of p' (b k) n = frames_of p (b k) n" "inj_on (frame_at p' (b k)) {..<n} = inj_on (frame_at p (b k)) {..<n}"
    if "k < N" "k \<noteq> c" for k using same_frames [of n p' "b k" p "b k", OF Gk [OF that]] by simp_all
  have disj: "frames_of p' (b k) n \<inter> G ` {..<n} = {}" if "k < N" "k \<noteq> c" for k
    unfolding kfr(1) [OF that] by (rule fresh) (use ok that in \<open>auto simp: tty_frames_ok_def\<close>)
  have disjv: "frames_of p v n \<inter> G ` {..<n} = {}" by (rule fresh) (use ok in \<open>auto simp: tty_frames_ok_def\<close>)
  have "frames_ok v n None N b p' a'"
    unfolding tty_frames_ok_def
  proof (intro conjI allI impI)
    fix k j assume k: "k < N" and j: "j < n"
    show "settled a' (frame_at p' (b k) j)"
      using ok G(8,9) k j Gc Gk by (cases "k = c") (auto simp: tty_frames_ok_def)
  next
    fix k assume k: "k < N"
    show "inj_on (frame_at p' (b k)) {..<n}" using injc kfr(2) ok k by (cases "k = c") (auto simp: tty_frames_ok_def)
    show "frames_of p' (b k) n \<inter> frames_of p' v n = {}"
      using disjv Fc kfr(1) vfr(1) ok k by (cases "k = c") (auto simp: tty_frames_ok_def)
    fix l assume l: "l < N" "l \<noteq> k"
    show "frames_of p' (b l) n \<inter> frames_of p' (b k) n = {}"
      using disj [OF l(1)] disj [OF k] Fc kfr(1) ok k l by (cases "k = c"; cases "l = c") (auto simp: tty_frames_ok_def)
  qed (use mapped mv vfr(2) ok G(7,9) Gv in \<open>auto simp: tty_frames_ok_def\<close>)
  moreover have "contents m' p' (b k) n = contents m p (b k) n" if k: "k < N" for k
  proof (rule contents_eqI)
    fix i assume i: "i < 4096 * n"
    show "m' (place p' (b k) i) = m (place p (b k) i)"
    proof (cases "k = c")
      case True
      have "place p' v i = place p v i" by (rule same_frames(3) [OF Gv i])
      also have "\<dots> = place p (b c) i" by (rule same_frames(3) [OF _ i, symmetric]) (use ok in \<open>auto simp: tty_frames_ok_def\<close>)
      finally show ?thesis using m'(2) i True by simp
    next
      case False
      have "place p' (b k) i = place p (b k) i" by (rule same_frames(3) [OF Gk [OF k False] i])
      moreover have "m' (place p' (b k) i) = m (place p' (b k) i)"
        using place_frame [OF mapped [OF k] i] disj [OF k False] Fc m'(3) by blast
      ultimately show ?thesis by simp
    qed
  qed
  moreover have "card (frame_pool bf a') + n = card (frame_pool bf a)"
    using G(4-6) room pool.finite_pool [of a] by (simp add: card_Diff_subset card_image)
  ultimately show thesis using that G(1) m'(1) by blast
qed

lemma attached:
  assumes e: "env_for e" and lay: "laid_out x v n N b" and ok: "frames_ok v n None N b p a" and t: "t < N"
  obtains p' a' m' where "copy_from_slice mp p (v, 4096 * n) (b t, 4096 * n) m = Inr m'"
    "for_each (attach_byte e v (b t)) [0..<4096 * n] (p, a) = Inr (p', a')" "frames_ok v n (Some t) N b p' a'"
    "\<forall>k < N. contents m' p' (b k) n = contents m p (b k) n" "contents m' p' v n = contents m p (b t) n"
    "frame_pool bf a' = frame_pool bf a" "(\<lambda>j. frame_at p' v j div 4096) ` {..<n} \<subseteq> free_frames bf a'"
proof -
  have mb: "mapped_buffer p v n" "inj_on (frame_at p v) {..<n}" "k < N \<Longrightarrow> mapped_buffer p (b k) n" for k
    using ok by (auto simp: tty_frames_ok_def)
  obtain m' where m': "copy_from_slice mp p (v, 4096 * n) (b t, 4096 * n) m = Inr m'"
    "\<forall>i < 4096 * n. m' (place p v i) = m (place p (b t) i)" "\<forall>a. a - a mod 4096 \<notin> frames_of p v n \<longrightarrow> m' a = m a"
    using copy_buffer [OF mb(1) mb(3) [OF t] mb(2)] .
  have apv: "\<forall>i < n. \<forall>j < n. v + 4096 * i \<noteq> b t + 4096 * j" and va: "\<forall>i < 4096 * n. \<exists>c. va_add x (v + i) 1 = Inr c"
    using lay t by (auto simp: laid_out_def apart_def)
  have used: "\<forall>j < n. settled a (frame_at p v j) \<and> settled a (frame_at p (b t) j)" using ok t by (auto simp: tty_frames_ok_def)
  from attach_loop [OF e mb(1) mb(3) [OF t] apv va used order.refl] obtain p' a' where
    A: "for_each (attach_byte e v (b t)) [0..<4096 * n] (p, a) = Inr (p', a')"
    "view p' = remapped (frame_at p v) (b t) (div_ceil (4096 * n) 4096) (view p)" "huge p' = huge p"
    "(\<lambda>j. frame_at p v j div 4096) ` {j. 4096 * j + 1 < 4096 * n} \<subseteq> free_frames bf a'"
    "frame_pool bf a' = frame_pool bf a" "pool_ok bf a' = pool_ok bf a" "settled a' = settled a" by (elim exE conjE)
  have V: "view p' = remapped (frame_at p v) (b t) n (view p)" using A(2) by (simp add: div_ceil_def)
  have ap: "apart n v (b t)" "k < N \<Longrightarrow> k \<noteq> t \<Longrightarrow> apart n (b k) (b t)" for k using lay t by (auto simp: laid_out_def)
  have At: "frame_at p' (b t) j = frame_at p v j" if "j < n" for j by (rule remap_at(1) [OF V that])
  have Av: "frame_at p' v j = frame_at p v j" if "j < n" for j by (rule remap_at(2) [OF V that ap(1)])
  have Ak: "frame_at p' (b k) j = frame_at p (b k) j" if "k < N" "k \<noteq> t" "j < n" for k j
    by (rule remap_at(2) [OF V that(3) ap(2) [OF that(1,2)]])
  have mapped: "mapped_buffer p' (b k) n" if "k < N" for k
    using mapped_remap [OF V A(3)] mb ap(2) that t by (cases "k = t") (auto simp: tty_mapped_def)
  have mv: "mapped_buffer p' v n" using mapped_remap(2) [OF V A(3) mb(1) ap(1)] .
  have vfr: "frames_of p' v n = frames_of p v n" "inj_on (frame_at p' v) {..<n} = inj_on (frame_at p v) {..<n}"
    using same_frames [of n p' v p v, OF Av] by simp_all
  have kfr: "frames_of p' (b k) n = frames_of p (b k) n" "inj_on (frame_at p' (b k)) {..<n} = inj_on (frame_at p (b k)) {..<n}"
    if "k < N" "k \<noteq> t" for k using same_frames [of n p' "b k" p "b k", OF Ak [OF that]] by simp_all
  have "frames_ok v n (Some t) N b p' a'"
    unfolding tty_frames_ok_def
  proof (intro conjI allI impI)
    fix k j assume k: "k < N" and j: "j < n"
    show "settled a' (frame_at p' (b k) j)"
      using ok A(7) k j At Ak by (cases "k = t") (auto simp: tty_frames_ok_def)
  next
    fix k assume k: "k < N" "Some t \<noteq> Some k"
    show "inj_on (frame_at p' (b k)) {..<n}" using kfr(2) ok k by (auto simp: tty_frames_ok_def)
    show "frames_of p' (b k) n \<inter> frames_of p' v n = {}" using kfr(1) vfr(1) ok k by (auto simp: tty_frames_ok_def)
    fix l assume l: "l < N" "l \<noteq> k" "Some t \<noteq> Some l"
    show "frames_of p' (b l) n \<inter> frames_of p' (b k) n = {}" using kfr(1) ok k l by (auto simp: tty_frames_ok_def)
  qed (use mapped mv vfr(2) ok A(6,7) Av At in \<open>auto simp: tty_frames_ok_def\<close>)
  moreover have "contents m' p' (b k) n = contents m p (b k) n" if k: "k < N" for k
  proof (rule contents_eqI)
    fix i assume i: "i < 4096 * n"
    show "m' (place p' (b k) i) = m (place p (b k) i)"
    proof (cases "k = t")
      case True
      have "place p' (b t) i = place p v i" by (rule same_frames(3) [OF At i])
      then show ?thesis using m'(2) i True by simp
    next
      case False
      have eq: "place p' (b k) i = place p (b k) i" by (rule same_frames(3) [OF Ak [OF k False] i])
      have "frames_of p (b k) n \<inter> frames_of p v n = {}" using ok k by (auto simp: tty_frames_ok_def)
      then have "m' (place p (b k) i) = m (place p (b k) i)" using place_frame [OF mb(3) [OF k] i] m'(3) by blast
      then show ?thesis by (simp add: eq)
    qed
  qed
  moreover have "contents m' p' v n = contents m p (b t) n"
  proof (rule contents_eqI)
    fix i assume i: "i < 4096 * n"
    have "place p' v i = place p v i" by (rule same_frames(3) [OF Av i])
    then show "m' (place p' v i) = m (place p (b t) i)" using m'(2) i by simp
  qed
  moreover have "(\<lambda>j. frame_at p' v j div 4096) ` {..<n} \<subseteq> free_frames bf a'" using A(4) Av by auto
  ultimately show thesis using that m'(1) A(1,5) by blast
qed

lemma frames_inj: "frames_ok v n shown N b p a \<Longrightarrow> k < N \<Longrightarrow> inj_on (frame_at p (b k)) {..<n}"
  using same_frames(1) [of n p "b k" p v] by (cases "shown = Some k") (auto simp: tty_frames_ok_def)

lemma switched:
  assumes e: "env_for e" "t_fb e = Some fb" and fb: "fb_addr fb = v" "fb_pitch fb div 4 * fb_height fb * (fb_bpp fb div 8) = 4096 * n"
      "4096 * n \<le> usize_max" "fb_pitch fb div 4 * fb_height fb \<le> usize_max"
    and bufs: "\<forall>k < length (ttys s). tty_buffer (ttys s ! k) = (b k, 4096 * n)" and lay: "laid_out x v n (length (ttys s)) b"
    and ok: "frames_ok v n (if init_done s then Some (current_tty s) else None) (length (ttys s)) b (table s) (allocator s)"
    and cur: "init_done s \<longrightarrow> current_tty s < length (ttys s)" "init_done s \<longrightarrow> n \<le> card (frame_pool bf (allocator s))"
    and t: "t < length (ttys s)"
  shows "\<exists>s'. switch_to e t s = Inr s' \<and> current_tty s' = t \<and> ttys s' = ttys s \<and> init_done s' = init_done s \<and>
    interrupts_enabled s' = init_done s \<and> frames_ok v n (Some t) (length (ttys s)) b (table s') (allocator s') \<and>
    (\<forall>k < length (ttys s). contents (ram s') (table s') (b k) n = contents (ram s) (table s) (b k) n) \<and>
    contents (ram s') (table s') v n = contents (ram s) (table s) (b t) n \<and>
    card (frame_pool bf (allocator s')) + (if init_done s then n else 0) = card (frame_pool bf (allocator s)) \<and>
    (\<lambda>j. frame_at (table s') v j div 4096) ` {..<n} \<subseteq> free_frames bf (allocator s')"
proof -
  let ?N = "length (ttys s)" and ?s = "s\<lparr>interrupts_enabled := False\<rparr>"
  note init = cur [rule_format]
  obtain d where d: "display_new (t_fb e) = Inr d" "buffer d = (v, 4096 * n)"
    using fb e(2) by (simp add: display_new_def usize_mul_def Let_def)
  have env: "t_mapper e = mp" "t_x86 e = x" using e(1) by (simp_all add: env_for_def)
  obtain p a m where D: "(if init_done s then detach_last e (v, 4096 * n) ?s else Inr ?s) = Inr (?s\<lparr>table := p, allocator := a, ram := m\<rparr>)"
    "frames_ok v n None ?N b p a" "\<forall>k < ?N. contents m p (b k) n = contents (ram s) (table s) (b k) n"
    "card (frame_pool bf a) + (if init_done s then n else 0) = card (frame_pool bf (allocator s))"
  proof (cases "init_done s")
    case True
    have ok': "frames_ok v n (Some (current_tty s)) ?N b (table s) (allocator s)" using ok True by simp
    obtain p a m where r: "for_each (detach_page e (b (current_tty s))) [0..<n] (table s, allocator s) = Inr (p, a)"
      "copy_from_slice mp p (b (current_tty s), 4096 * n) (v, 4096 * n) (ram s) = Inr m" "frames_ok v n None ?N b p a"
      "\<forall>k < ?N. contents m p (b k) n = contents (ram s) (table s) (b k) n" "card (frame_pool bf a) + n = card (frame_pool bf (allocator s))"
      using detached [OF e(1) lay ok' init(1) [OF True] init(2) [OF True]] .
    have "tty_buffer (ttys s ! current_tty s) = (b (current_tty s), 4096 * n)" using bufs init(1) [OF True] by blast
    then have "detach_last e (v, 4096 * n) ?s = Inr (?s\<lparr>table := p, allocator := a, ram := m\<rparr>)"
      using r(1,2) init(1) [OF True] by (simp add: detach_last_def index_def env)
    then show thesis using r(3-5) True that by simp
  next
    case False
    then show thesis using ok that [where p = "table s" and a = "allocator s" and m = "ram s"] by simp
  qed
  obtain p' a' m' where A: "copy_from_slice mp p (v, 4096 * n) (b t, 4096 * n) m = Inr m'"
    "for_each (attach_byte e v (b t)) [0..<4096 * n] (p, a) = Inr (p', a')" "frames_ok v n (Some t) ?N b p' a'"
    "\<forall>k < ?N. contents m' p' (b k) n = contents m p (b k) n" "contents m' p' v n = contents m p (b t) n"
    "frame_pool bf a' = frame_pool bf a" "(\<lambda>j. frame_at p' v j div 4096) ` {..<n} \<subseteq> free_frames bf a'"
    using attached [OF e(1) lay D(2) t] .
  have bt: "tty_buffer (ttys s ! t) = (b t, 4096 * n)" using bufs t by blast
  have "b t + 4096 * n < 2 ^ 47" using lay t by (simp add: laid_out_def)
  then have va: "va_add x (b t) (4096 * n) = Inr (b t + 4096 * n)"
    by (simp add: va_add_def usize_add_def usize_max_def virt_addr_new canonical_def)
  let ?f = "\<lambda>s. if init_done s then s\<lparr>interrupts_enabled := True\<rparr> else s"
  have "switch_to e t s = Inr (?f (?s\<lparr>table := p', allocator := a', ram := m', current_tty := t\<rparr>))"
    using D(1) A(1,2) t va by (simp add: switch_to_def d get_frame_buffer_def index_def bt env)
  also have "?f (?s\<lparr>table := p', allocator := a', ram := m', current_tty := t\<rparr>) =
      s\<lparr>table := p', allocator := a', ram := m', current_tty := t, interrupts_enabled := init_done s\<rparr>" by simp
  finally show ?thesis
    using D(3,4) A(3-7) t
    by (intro exI [of _ "s\<lparr>table := p', allocator := a', ram := m', current_tty := t, interrupts_enabled := init_done s\<rparr>"]) auto
qed

text \<open>A change of the buffer of one console: the others keep their contents, and the screen follows the console it shows.\<close>

lemma others_kept:
  assumes ok: "frames_ok v n shown N b p a" and k: "k < N"
    and other: "\<And>c. c - c mod 4096 \<notin> frames_of p (b k) n \<Longrightarrow> m' c = m c"
  shows "\<forall>l < N. l \<noteq> k \<longrightarrow> contents m' p (b l) n = contents m p (b l) n"
    and "contents m' p v n = (if shown = Some k then contents m' p (b k) n else contents m p v n)"
proof -
  show "\<forall>l < N. l \<noteq> k \<longrightarrow> contents m' p (b l) n = contents m p (b l) n"
  proof (intro allI impI)
    fix l assume l: "l < N" "l \<noteq> k"
    show "contents m' p (b l) n = contents m p (b l) n"
    proof (rule contents_eqI)
      fix i assume i: "i < 4096 * n"
      have ml: "mapped_buffer p (b l) n" using ok l by (simp add: tty_frames_ok_def)
      have "shown = Some q \<Longrightarrow> frames_of p (b q) n = frames_of p v n" for q
        using same_frames(2) [of n p "b q" p v] ok by (auto simp: tty_frames_ok_def)
      then have "frames_of p (b l) n \<inter> frames_of p (b k) n = {}"
        using ok l k by (cases "shown = Some k"; cases "shown = Some l") (auto simp: tty_frames_ok_def)
      then show "m' (place p (b l) i) = m (place p (b l) i)" using other place_frame [OF ml i] by blast
    qed
  qed
  show "contents m' p v n = (if shown = Some k then contents m' p (b k) n else contents m p v n)"
  proof (cases "shown = Some k")
    case True
    have "place p v i = place p (b k) i" if "i < 4096 * n" for i
      by (rule same_frames(3) [OF _ that]) (use ok True in \<open>auto simp: tty_frames_ok_def\<close>)
    then have "contents m' p v n = contents m' p (b k) n" by (intro contents_eqI) simp
    with True show ?thesis by simp
  next
    case False
    have mv: "mapped_buffer p v n" using ok by (simp add: tty_frames_ok_def)
    have "frames_of p (b k) n \<inter> frames_of p v n = {}" using ok k False by (simp add: tty_frames_ok_def)
    then have "m' (place p v i) = m (place p v i)" if "i < 4096 * n" for i using other place_frame [OF mv that] by blast
    then have "contents m' p v n = contents m p v n" by (rule contents_eqI)
    with False show ?thesis by simp
  qed
qed

lemma pixel_written:
  assumes ok: "frames_ok v n shown N b p a" and k: "k < N" and buf: "tty_buffer t = (b k, 4096 * n)"
    and size: "tty_width t * tty_height t * 4 = 4096 * n" "4096 * n \<le> usize_max" and xy: "px < tty_width t" "py < tty_height t"
  obtains m' where "write_pixel mp p t px py (r, g, bl, al) m = Inr m'" "read_pixel mp p t px py m' = Inr (r, g, bl, al)"
    "contents m' p (b k) n = take (4 * (tty_width t * py + px)) (contents m p (b k) n) @ [bl, g, r, al] @
       drop (4 * (tty_width t * py + px) + 4) (contents m p (b k) n)"
    "\<forall>l < N. l \<noteq> k \<longrightarrow> contents m' p (b l) n = contents m p (b l) n"
    "contents m' p v n = (if shown = Some k then contents m' p (b k) n else contents m p v n)"
proof -
  define pos where "pos = tty_width t * py + px"
  have "pos + 1 \<le> tty_width t * py + tty_width t" using xy(1) by (simp add: pos_def)
  also have "\<dots> = tty_width t * (py + 1)" by simp
  also have "\<dots> \<le> tty_width t * tty_height t" using xy(2) by (intro mult_le_mono) simp_all
  finally have lim: "4 * pos + 4 \<le> 4096 * n" using size(1) by linarith
  have pp: "pixel_pos t px py = Inr (4 * pos)"
    using lim size(2) unfolding pixel_pos_def by (simp add: usize_mul_def usize_add_def pos_def mult.commute)
  have mk: "mapped_buffer p (b k) n" using ok k by (simp add: tty_frames_ok_def)
  have inj: "inj_on (place p (b k)) {..<4096 * n}" by (rule place_inj [OF mk frames_inj [OF ok k]])
  define bs where "bs = [bl, g, r, al]"
  have len: "length bs = 4" by (simp add: bs_def)
  have "inj_on (place p (b k)) {4 * pos..<4 * pos + length bs}" using inj by (rule inj_on_subset) (use lim len in auto)
  from store_buffer [OF mk this, of m] lim obtain m' where m': "store_bytes mp p (b k + 4 * pos) bs m = Inr m'"
    "\<forall>j < 4. m' (place p (b k) (4 * pos + j)) = bs ! j" "\<forall>a. a \<notin> place p (b k) ` {4 * pos..<4 * pos + 4} \<longrightarrow> m' a = m a"
    unfolding len by blast
  have img: "place p (b k) ` {4 * pos..<4 * pos + 4} \<subseteq> place p (b k) ` {..<4096 * n}" using lim by auto
  have other: "m' c = m c" if "c - c mod 4096 \<notin> frames_of p (b k) n" for c
  proof -
    have "c \<notin> place p (b k) ` {..<4096 * n}" using that place_frame [OF mk] by auto
    then show ?thesis using m'(3) img by blast
  qed
  have own: "m' (place p (b k) i) = (if 4 * pos \<le> i \<and> i < 4 * pos + 4 then bs ! (i - 4 * pos) else m (place p (b k) i))"
    if "i < 4096 * n" for i
  proof (cases "4 * pos \<le> i \<and> i < 4 * pos + 4")
    case True
    then have "i - 4 * pos < 4" by linarith
    with True show ?thesis using m'(2) [rule_format, of "i - 4 * pos"] by simp
  next
    case False
    then have "place p (b k) i \<notin> place p (b k) ` {4 * pos..<4 * pos + 4}" using inj that lim by (auto dest!: inj_onD [where x = i])
    then show ?thesis using m'(3) False by auto
  qed
  have "contents m' p (b k) n = take (4 * pos) (contents m p (b k) n) @ bs @ drop (4 * pos + 4) (contents m p (b k) n)"
    using lim by (intro nth_equalityI) (auto simp: tty_contents_def own nth_append len)
  moreover note others_kept [where m' = m' and m = m, OF ok k other]
  moreover have "write_pixel mp p t px py (r, g, bl, al) m = Inr m'"
    using m'(1) lim size(2) unfolding bs_def by (simp add: write_pixel_def pp buf slice_range_def usize_add_def)
  moreover have "read_pixel mp p t px py m' = Inr (r, g, bl, al)"
  proof -
    have "[4 * pos..<4 * pos + 4] = [4 * pos, 4 * pos + 1, 4 * pos + 2, 4 * pos + 3]" by (simp add: upt_rec)
    then have "load_bytes mp p m' (b k + 4 * pos) 4 = Inr bs"
      using load_buffer [OF mk lim, of m'] m'(2) [rule_format, of 0] m'(2) [rule_format, of 1] m'(2) [rule_format, of 2]
        m'(2) [rule_format, of 3] by (simp add: bs_def)
    then show ?thesis using lim size(2) unfolding bs_def by (simp add: read_pixel_def pp buf slice_range_def usize_add_def)
  qed
  ultimately show thesis using that [of m'] unfolding pos_def bs_def by blast
qed

end

section \<open>Switching consoles and drawing\<close>

text \<open>
  The state between two switches: the video memory and every buffer have \<open>n\<close> pages, lie apart,
  and the console on the screen is one of the consoles once \<open>init\<close> is done.
\<close>

definition console_ok ::
  "bit_field_api \<Rightarrow> x86_api \<Rightarrow> ('p \<Rightarrow> nat \<rightharpoonup> nat \<times> u64) \<Rightarrow> ('p \<Rightarrow> nat \<Rightarrow> bool) \<Rightarrow> FrameBuffer \<Rightarrow> nat \<Rightarrow> (nat \<Rightarrow> nat) \<Rightarrow> 'p console \<Rightarrow> bool" where
  "console_ok bf x view huge fb n b s \<longleftrightarrow>
     fb_pitch fb div 4 * fb_height fb * (fb_bpp fb div 8) = 4096 * n \<and> 4096 * n \<le> usize_max \<and> fb_pitch fb div 4 * fb_height fb \<le> usize_max \<and>
     (\<forall>k < length (ttys s). tty_buffer (ttys s ! k) = (b k, 4096 * n) \<and> tty_width (ttys s ! k) * tty_height (ttys s ! k) * 4 = 4096 * n) \<and>
     laid_out x (fb_addr fb) n (length (ttys s)) b \<and> (init_done s \<longrightarrow> current_tty s < length (ttys s)) \<and>
     tty_frames_ok bf view huge (fb_addr fb) n (if init_done s then Some (current_tty s) else None) (length (ttys s)) b (table s) (allocator s)"

interpretation plain_tty: tty_mapper byte_bits x86_model plain_mapper id "\<lambda>_ _. False" "\<lambda>p q. map_option fst (p q)"
  by (intro tty_mapper.intro tty_mapper_axioms.intro plain.page_mapper_axioms)
    (auto simp: plain_mapper_def map_entry_def)

lemma switch_ok:
  assumes "tty_mapper bf x mp view huge tp" "e = \<lparr>t_mapper = mp, t_translate_page = tp, t_bf = bf, t_x86 = x, t_fb = Some fb\<rparr>"
    "console_ok bf x view huge fb n b s" "init_done s \<longrightarrow> n \<le> card (frame_pool bf (allocator s))" "t < length (ttys s)"
  shows "\<exists>s'. switch_to e t s = Inr s' \<and> current_tty s' = t \<and> ttys s' = ttys s \<and> init_done s' = init_done s \<and>
    interrupts_enabled s' = init_done s \<and> console_ok bf x view huge fb n b (s'\<lparr>init_done := True\<rparr>) \<and>
    (\<forall>k < length (ttys s). tty_contents view (ram s') (table s') (b k) n = tty_contents view (ram s) (table s) (b k) n) \<and>
    tty_contents view (ram s') (table s') (fb_addr fb) n = tty_contents view (ram s) (table s) (b t) n \<and>
    (\<forall>j < n. tty_frame view (table s') (b t) j = tty_frame view (table s') (fb_addr fb) j) \<and>
    card (frame_pool bf (allocator s')) + (if init_done s then n else 0) = card (frame_pool bf (allocator s)) \<and>
    (\<lambda>j. tty_frame view (table s') (fb_addr fb) j div 4096) ` {..<n} \<subseteq> free_frames bf (allocator s')"
proof -
  have e: "tty_mapper.env_for bf x mp tp e" "t_fb e = Some fb"
    using assms(2) by (simp_all add: tty_mapper.env_for_def [OF assms(1)])
  have c: "fb_pitch fb div 4 * fb_height fb * (fb_bpp fb div 8) = 4096 * n" "4096 * n \<le> usize_max" "fb_pitch fb div 4 * fb_height fb \<le> usize_max"
    "\<forall>k < length (ttys s). tty_buffer (ttys s ! k) = (b k, 4096 * n)" "laid_out x (fb_addr fb) n (length (ttys s)) b"
    "tty_frames_ok bf view huge (fb_addr fb) n (if init_done s then Some (current_tty s) else None) (length (ttys s)) b (table s) (allocator s)"
    "init_done s \<longrightarrow> current_tty s < length (ttys s)" "init_done s \<longrightarrow> n \<le> card (frame_pool bf (allocator s))"
    using assms(3,4) by (simp_all add: console_ok_def)
  from tty_mapper.switched [OF assms(1) e refl c assms(5)] obtain s' where s': "switch_to e t s = Inr s'" "current_tty s' = t" "ttys s' = ttys s"
    "init_done s' = init_done s" "interrupts_enabled s' = init_done s"
    "tty_frames_ok bf view huge (fb_addr fb) n (Some t) (length (ttys s)) b (table s') (allocator s')"
    "\<forall>k < length (ttys s). tty_contents view (ram s') (table s') (b k) n = tty_contents view (ram s) (table s) (b k) n"
    "tty_contents view (ram s') (table s') (fb_addr fb) n = tty_contents view (ram s) (table s) (b t) n"
    "card (frame_pool bf (allocator s')) + (if init_done s then n else 0) = card (frame_pool bf (allocator s))"
    "(\<lambda>j. tty_frame view (table s') (fb_addr fb) j div 4096) ` {..<n} \<subseteq> free_frames bf (allocator s')" by (elim exE conjE)
  have "console_ok bf x view huge fb n b (s'\<lparr>init_done := True\<rparr>)"
    using assms(3,5) s'(2,3,6) by (simp add: console_ok_def)
  moreover have "\<forall>j < n. tty_frame view (table s') (b t) j = tty_frame view (table s') (fb_addr fb) j"
    using s'(6) by (simp add: tty_frames_ok_def)
  ultimately show ?thesis using s' by blast
qed

text \<open>
  C5. Switching to a console keeps what every console shows, puts the contents of the new console
  on the screen and maps its buffer to the video memory.  Every switch takes one frame per page
  from the frame allocator and gives none back to it that it would hand out again, and the frames of the video memory end
  up marked free.
\<close>

theorem tty_switch:
  assumes "tty_mapper bf x mp view huge tp" "e = \<lparr>t_mapper = mp, t_translate_page = tp, t_bf = bf, t_x86 = x, t_fb = Some fb\<rparr>"
    "console_ok bf x view huge fb n b s" "init_done s \<longrightarrow> n \<le> card (frame_pool bf (allocator s))" "t < length (ttys s)"
  shows "\<exists>s'. switch_to e t s = Inr s' \<and> current_tty s' = t \<and> ttys s' = ttys s \<and> init_done s' = init_done s \<and>
    interrupts_enabled s' = init_done s \<and> console_ok bf x view huge fb n b (s'\<lparr>init_done := True\<rparr>) \<and>
    (\<forall>k < length (ttys s). tty_contents view (ram s') (table s') (b k) n = tty_contents view (ram s) (table s) (b k) n) \<and>
    tty_contents view (ram s') (table s') (fb_addr fb) n = tty_contents view (ram s) (table s) (b t) n \<and>
    (\<forall>j < n. tty_frame view (table s') (b t) j = tty_frame view (table s') (fb_addr fb) j) \<and>
    card (frame_pool bf (allocator s')) + (if init_done s then n else 0) = card (frame_pool bf (allocator s)) \<and>
    (\<lambda>j. tty_frame view (table s') (fb_addr fb) j div 4096) ` {..<n} \<subseteq> free_frames bf (allocator s')"
  by (rule switch_ok [OF assms])

text \<open>Two consoles of one page each; the first one is on the screen.\<close>

definition small_fb :: FrameBuffer where
  "small_fb = \<lparr>fb_addr = 0x10000, fb_width = 32, fb_height = 32, fb_pitch = 128, fb_bpp = 32,
     red_mask_shift = 0x10, green_mask_shift = 0x08, blue_mask_shift = 0x00\<rparr>"

definition small_buffer :: "nat \<Rightarrow> nat" where
  "small_buffer k = (if k = 0 then 0x20000 else 0x30000)"

definition small_console :: "(nat \<rightharpoonup> nat \<times> u64) console" where
  "small_console = \<lparr>table = [0x10000 \<mapsto> (0x258000, 3), 0x20000 \<mapsto> (0x258000, 3), 0x30000 \<mapsto> (0x259000, 3)], allocator = wide_allocator,
     ram = (\<lambda>a. if a < 0x259000 then 1 else 2),
     ttys = [\<lparr>tty_buffer = (0x20000, 4096), tty_width = 32, tty_height = 32\<rparr>, \<lparr>tty_buffer = (0x30000, 4096), tty_width = 32, tty_height = 32\<rparr>],
     current_tty = 0, init_done = True, interrupts_enabled = True\<rparr>"

abbreviation small_env :: "(nat \<rightharpoonup> nat \<times> u64) tty_env" where
  "small_env \<equiv> \<lparr>t_mapper = plain_mapper, t_translate_page = (\<lambda>p q. map_option fst (p q)), t_bf = byte_bits, t_x86 = x86_model, t_fb = Some small_fb\<rparr>"

lemma small_console_ok: "console_ok byte_bits x86_model id (\<lambda>_ _. False) small_fb 1 small_buffer small_console"
proof -
  let ?T = "table small_console"
  have two: "k < 2 \<longleftrightarrow> k = 0 \<or> k = 1" for k :: nat by linarith
  have len: "length (ttys small_console) = 2" "init_done small_console" "current_tty small_console = 0" "allocator small_console = wide_allocator"
    by (simp_all add: small_console_def)
  have set: "settled wide_allocator 0x258000" "settled wide_allocator 0x259000"
    by (simp_all add: settled_def wide_allocator_def capacity_def bitmap_len_def)
  have T: "?T 0x10000 = Some (0x258000, 3)" "?T 0x20000 = Some (0x258000, 3)" "?T 0x30000 = Some (0x259000, 3)"
    by (simp_all add: small_console_def)
  have f: "tty_frame id ?T 0x10000 0 = 0x258000" "tty_frame id ?T 0x20000 0 = 0x258000" "tty_frame id ?T 0x30000 0 = 0x259000"
    by (simp_all add: tty_frame_def T)
  have b: "small_buffer 0 = 0x20000" "small_buffer 1 = 0x30000" "small_buffer (Suc 0) = 0x30000" "fb_addr small_fb = 0x10000"
    by (simp_all add: small_buffer_def small_fb_def)
  have m: "tty_mapped id (\<lambda>_ _. False) ?T 0x10000 1" "tty_mapped id (\<lambda>_ _. False) ?T 0x20000 1" "tty_mapped id (\<lambda>_ _. False) ?T 0x30000 1"
    by (simp_all add: tty_mapped_def T f)
  have fr: "tty_frames_ok byte_bits id (\<lambda>_ _. False) 0x10000 1 (Some 0) 2 small_buffer ?T wide_allocator"
    unfolding tty_frames_ok_def two using m set wide_pool(1) by (auto simp: b f tty_frames_def inj_on_def)
  have "va_add x86_model (0x10000 + i) 1 = Inr (0x10000 + i + 1)" if "i < 4096" for i
    using that by (simp add: va_add_def usize_add_def usize_max_def x86_model.virt_addr_new canonical_def)
  then have "laid_out x86_model 0x10000 1 2 small_buffer"
    unfolding laid_out_def two apart_def by (auto simp: b)
  then show ?thesis
    using fr unfolding console_ok_def len b(4) two
    by (auto simp: small_fb_def small_console_def usize_max_def small_buffer_def)
qed

theorem tty_switch_witness:
  "\<exists>s'. switch_to small_env 1 small_console = Inr s' \<and> current_tty s' = 1 \<and>
    tty_contents id (ram s') (table s') 0x10000 1 = tty_contents id (ram small_console) (table small_console) 0x30000 1 \<and>
    card (frame_pool byte_bits (allocator s')) = 511"
proof -
  have "allocator small_console = wide_allocator" "length (ttys small_console) = 2" "init_done small_console" by (simp_all add: small_console_def)
  then show ?thesis
    using tty_switch [OF plain_tty.tty_mapper_axioms refl small_console_ok, of 1]
    by (auto simp: wide_pool small_buffer_def small_fb_def)
qed

lemma draw_pixel_ok:
  assumes "tty_mapper bf x mp view huge tp" "e = \<lparr>t_mapper = mp, t_translate_page = tp, t_bf = bf, t_x86 = x, t_fb = Some fb\<rparr>"
    "console_ok bf x view huge fb n b s" "k < length (ttys s)" "px < tty_width (ttys s ! k)" "py < tty_height (ttys s ! k)"
  shows "\<exists>m. tty_draw_pixel e k px py (r, g, bl) s = Inr (s\<lparr>ram := m\<rparr>) \<and>
    read_pixel mp (table s) (ttys s ! k) px py m = Inr (r, g, bl, 0) \<and> console_ok bf x view huge fb n b (s\<lparr>ram := m\<rparr>) \<and>
    tty_contents view m (table s) (b k) n = (let c = tty_contents view (ram s) (table s) (b k) n; pos = 4 * (tty_width (ttys s ! k) * py + px) in
       take pos c @ [bl, g, r, 0] @ drop (pos + 4) c) \<and>
    (\<forall>l < length (ttys s). l \<noteq> k \<longrightarrow> tty_contents view m (table s) (b l) n = tty_contents view (ram s) (table s) (b l) n) \<and>
    tty_contents view m (table s) (fb_addr fb) n = (if init_done s \<and> current_tty s = k then tty_contents view m (table s) (b k) n
       else tty_contents view (ram s) (table s) (fb_addr fb) n)"
proof -
  let ?shown = "if init_done s then Some (current_tty s) else None"
  have c: "tty_frames_ok bf view huge (fb_addr fb) n ?shown (length (ttys s)) b (table s) (allocator s)"
    "tty_buffer (ttys s ! k) = (b k, 4096 * n)" "tty_width (ttys s ! k) * tty_height (ttys s ! k) * 4 = 4096 * n" "4096 * n \<le> usize_max"
    using assms(3,4) by (simp_all add: console_ok_def)
  obtain m where m: "write_pixel mp (table s) (ttys s ! k) px py (r, g, bl, 0) (ram s) = Inr m"
    "read_pixel mp (table s) (ttys s ! k) px py m = Inr (r, g, bl, 0)"
    "tty_contents view m (table s) (b k) n = take (4 * (tty_width (ttys s ! k) * py + px)) (tty_contents view (ram s) (table s) (b k) n) @ [bl, g, r, 0] @
       drop (4 * (tty_width (ttys s ! k) * py + px) + 4) (tty_contents view (ram s) (table s) (b k) n)"
    "\<forall>l < length (ttys s). l \<noteq> k \<longrightarrow> tty_contents view m (table s) (b l) n = tty_contents view (ram s) (table s) (b l) n"
    "tty_contents view m (table s) (fb_addr fb) n = (if ?shown = Some k then tty_contents view m (table s) (b k) n
       else tty_contents view (ram s) (table s) (fb_addr fb) n)"
    using tty_mapper.pixel_written [OF assms(1) c(1) assms(4) c(2-4) assms(5,6)] .
  have d: "tty_draw_pixel e k px py (r, g, bl) s = Inr (s\<lparr>ram := m\<rparr>)"
    using m(1) assms(4) by (simp add: tty_draw_pixel_def get_tty_def index_def assms(2))
  have o: "console_ok bf x view huge fb n b (s\<lparr>ram := m\<rparr>)"
    using assms(3) by (cases "init_done s") (simp_all add: console_ok_def)
  show ?thesis using d m(2) o m(3-5) by (intro exI [of _ m]) (simp add: Let_def)
qed

text \<open>
  C21. A pixel inside the console is written without a panic and read back as it was written; only its
  four bytes of the console's buffer change, no other console does, and the screen changes
  exactly when the console is on it.
\<close>

theorem tty_pixels:
  assumes "tty_mapper bf x mp view huge tp" "e = \<lparr>t_mapper = mp, t_translate_page = tp, t_bf = bf, t_x86 = x, t_fb = Some fb\<rparr>"
    "console_ok bf x view huge fb n b s" "k < length (ttys s)" "px < tty_width (ttys s ! k)" "py < tty_height (ttys s ! k)"
  shows "\<exists>m. tty_draw_pixel e k px py (r, g, bl) s = Inr (s\<lparr>ram := m\<rparr>) \<and>
    read_pixel mp (table s) (ttys s ! k) px py m = Inr (r, g, bl, 0) \<and> console_ok bf x view huge fb n b (s\<lparr>ram := m\<rparr>) \<and>
    tty_contents view m (table s) (b k) n = (let c = tty_contents view (ram s) (table s) (b k) n; pos = 4 * (tty_width (ttys s ! k) * py + px) in
       take pos c @ [bl, g, r, 0] @ drop (pos + 4) c) \<and>
    (\<forall>l < length (ttys s). l \<noteq> k \<longrightarrow> tty_contents view m (table s) (b l) n = tty_contents view (ram s) (table s) (b l) n) \<and>
    tty_contents view m (table s) (fb_addr fb) n = (if init_done s \<and> current_tty s = k then tty_contents view m (table s) (b k) n
       else tty_contents view (ram s) (table s) (fb_addr fb) n)"
  by (rule draw_pixel_ok [OF assms])

theorem tty_pixels_witness:
  "\<exists>m. tty_draw_pixel small_env 1 3 4 (7, 8, 9) small_console = Inr (small_console\<lparr>ram := m\<rparr>) \<and>
    read_pixel plain_mapper (table small_console) (ttys small_console ! 1) 3 4 m = Inr (7, 8, 9, 0) \<and>
    tty_contents id m (table small_console) 0x10000 1 = tty_contents id (ram small_console) (table small_console) 0x10000 1"
proof -
  have "length (ttys small_console) = 2" "tty_width (ttys small_console ! 1) = 32" "tty_height (ttys small_console ! 1) = 32" "current_tty small_console = 0"
    by (simp_all add: small_console_def)
  then show ?thesis
    using tty_pixels [OF plain_tty.tty_mapper_axioms refl small_console_ok, of 1 3 4 7 8 9]
    by (auto simp: small_fb_def)
qed

text \<open>
  \<open>init\<close> makes six consoles and shows the first: given six buffers in the heap as the allocator
  returns them, it ends with the consoles in order and interrupts still off.
\<close>

lemma make_ttys:
  assumes "w * h * 4 \<le> usize_max"
  shows "for_each (\<lambda>i ts. and_then (tty_new (place i) w h) (\<lambda>t. Inr (ts @ [t]))) is ts =
    Inr (ts @ map (\<lambda>i. \<lparr>tty_buffer = (place i, w * h * 4), tty_width = w, tty_height = h\<rparr>) is)"
  using assms by (induction "is" arbitrary: ts) (simp_all add: tty_new_def usize_mul_def)

theorem tty_init_shows_first:
  assumes "tty_mapper bf x mp view huge tp" "e = \<lparr>t_mapper = mp, t_translate_page = tp, t_bf = bf, t_x86 = x, t_fb = Some fb\<rparr>"
    "fb_pitch fb div 4 * fb_height fb * (fb_bpp fb div 8) = 4096 * n" "4096 * n \<le> usize_max" "fb_pitch fb div 4 * fb_height fb \<le> usize_max"
    "fb_width fb * fb_height fb * 4 = 4096 * n" "laid_out x (fb_addr fb) n 6 b"
    "tty_frames_ok bf view huge (fb_addr fb) n None 6 b (table s) (allocator s)" "ttys s = []" "\<not> init_done s"
  shows "\<exists>s'. tty_init e b s = Inr s' \<and> length (ttys s') = 6 \<and> current_tty s' = 0 \<and> init_done s' \<and> \<not> interrupts_enabled s' \<and>
    console_ok bf x view huge fb n b s' \<and>
    tty_contents view (ram s') (table s') (fb_addr fb) n = tty_contents view (ram s) (table s) (b 0) n"
proof -
  define s0 where "s0 = s\<lparr>ttys := map (\<lambda>i. \<lparr>tty_buffer = (b i, 4096 * n), tty_width = fb_width fb, tty_height = fb_height fb\<rparr>) [0..<6]\<rparr>"
  have "console_ok bf x view huge fb n b s0" "length (ttys s0) = 6" "\<not> init_done s0"
    using assms(3-8,10) by (simp_all add: console_ok_def s0_def)
  with switch_ok [OF assms(1,2), of n b s0 0] obtain s' where s': "switch_to e 0 s0 = Inr s'" "current_tty s' = 0" "ttys s' = ttys s0"
    "interrupts_enabled s' = init_done s0" "console_ok bf x view huge fb n b (s'\<lparr>init_done := True\<rparr>)"
    "tty_contents view (ram s') (table s') (fb_addr fb) n = tty_contents view (ram s0) (table s0) (b 0) n" by auto
  obtain d where d: "display_new (t_fb e) = Inr d" "display_size d = (fb_width fb, fb_height fb)"
    using assms(2-5) by (simp add: display_new_def display_size_def usize_mul_def Let_def)
  have "fb_width fb * fb_height fb * 4 \<le> usize_max" using assms(4) unfolding assms(6) .
  then have "tty_init e b s = Inr (s'\<lparr>init_done := True\<rparr>)"
    using s'(1) by (simp add: tty_init_def d make_ttys assms(6,9) s0_def)
  then show ?thesis using s' \<open>\<not> init_done s0\<close> by (intro exI [of _ "s'\<lparr>init_done := True\<rparr>"]) (simp add: s0_def)
qed

end
