(* ===== verification/Logger.thy ===== *)
theory Logger
  imports Prelude
begin

text \<open>
  The records of the logger (\<open>console/log.rs\<close>): its filter, the styles of the levels and the two formats, and the lines they
  stand for, spelled out level by level.  Colouring a level is the parameter \<open>style_with\<close>, from
  the \<open>colorz\<close> crate.  \<open>Console\<close> has the logger itself and the devices it writes to.
\<close>

section \<open>Levels\<close>

datatype Level = Error | Warn | Info | Debug | Trace

text \<open>The order of the \<open>log\<close> crate: the more severe level is the smaller one.\<close>

fun severity :: "Level \<Rightarrow> nat" where
  "severity Error = 1"
| "severity Warn = 2"
| "severity Info = 3"
| "severity Debug = 4"
| "severity Trace = 5"

lemma severity_inj: "severity l = severity k \<longleftrightarrow> l = k"
  by (cases l; cases k) simp_all

instantiation Level :: linorder
begin

definition less_eq_Level :: "Level \<Rightarrow> Level \<Rightarrow> bool" where
  "less_eq_Level l k \<longleftrightarrow> severity l \<le> severity k"

definition less_Level :: "Level \<Rightarrow> Level \<Rightarrow> bool" where
  "less_Level l k \<longleftrightarrow> severity l < severity k"

instance
  by standard (auto simp: less_eq_Level_def less_Level_def severity_inj)

end

datatype Style = Red | Yellow | Green | Blue | Plain

fun get_style :: "Level \<Rightarrow> Style" where
  "get_style Error = Red"
| "get_style Warn = Yellow"
| "get_style Info = Green"
| "get_style Debug = Blue"
| "get_style _ = Plain"

fun level_name :: "Level \<Rightarrow> string" where
  "level_name Error = ''ERROR''"
| "level_name Warn = ''WARN''"
| "level_name Info = ''INFO''"
| "level_name Debug = ''DEBUG''"
| "level_name Trace = ''TRACE''"

section \<open>Records\<close>

record Record =
  level :: Level
  args :: string
  file_name :: "string option"
  line_number :: "nat option"

fun digits :: "nat \<Rightarrow> string" where
  "digits n = (if n < 10 then [char_of (48 + n)] else digits (n div 10) @ [char_of (48 + n mod 10)])"

declare digits.simps [simp del]

definition enabled :: "Level \<Rightarrow> bool" where
  "enabled l \<longleftrightarrow> l \<le> Debug"

definition with_place :: "(Style \<Rightarrow> string \<Rightarrow> string) \<Rightarrow> Record \<Rightarrow> string" where
  "with_place style_with r =
     ''['' @ style_with (get_style (level r)) (level_name (level r)) @ ''] '' @ args r @ '', '' @
     (case file_name r of Some f \<Rightarrow> f | None \<Rightarrow> ''unknown'') @ '':'' @
     digits (case line_number r of Some l \<Rightarrow> l | None \<Rightarrow> 0)"

definition without_place :: "(Style \<Rightarrow> string \<Rightarrow> string) \<Rightarrow> Record \<Rightarrow> string" where
  "without_place style_with r =
     ''['' @ style_with (get_style (level r)) (level_name (level r)) @ ''] '' @ args r"

section \<open>The lines, level by level\<close>

text \<open>
  The line of a record as the documentation of a level has it: severe levels are written with their message, debug messages also
  with their place in the source, and traces are not written.  \<open>decimal\<close> is the decimal notation of a number.
\<close>

fun low_digits :: "nat \<Rightarrow> string" where
  "low_digits n = (if n = 0 then [] else char_of (48 + n mod 10) # low_digits (n div 10))"

declare low_digits.simps [simp del]

definition decimal :: "nat \<Rightarrow> string" where
  "decimal n = (if n = 0 then ''0'' else rev (low_digits n))"

definition log_line :: "(Style \<Rightarrow> string \<Rightarrow> string) \<Rightarrow> Record \<Rightarrow> string" where
  "log_line style_with r = (case level r of
       Error \<Rightarrow> ''['' @ style_with Red ''ERROR'' @ ''] '' @ args r @ [CHR 0x0A]
     | Warn \<Rightarrow> ''['' @ style_with Yellow ''WARN'' @ ''] '' @ args r @ [CHR 0x0A]
     | Info \<Rightarrow> ''['' @ style_with Green ''INFO'' @ ''] '' @ args r @ [CHR 0x0A]
     | Debug \<Rightarrow> ''['' @ style_with Blue ''DEBUG'' @ ''] '' @ args r @ '', '' @
         (case file_name r of Some f \<Rightarrow> f | None \<Rightarrow> ''unknown'') @ '':'' @
         (case line_number r of Some l \<Rightarrow> decimal l | None \<Rightarrow> ''0'') @ [CHR 0x0A]
     | Trace \<Rightarrow> [])"

definition log_lines :: "(Style \<Rightarrow> string \<Rightarrow> string) \<Rightarrow> Record list \<Rightarrow> string list" where
  "log_lines style_with rs = map (log_line style_with) (filter (\<lambda>r. level r \<noteq> Trace) rs)"

lemma digits_decimal: "digits n = decimal n"
proof (induction n rule: digits.induct)
  case (1 n)
  have zero: "digits 0 = ''0''" by code_simp
  show ?case
  proof (cases "n < 10")
    case True
    then show ?thesis by (cases "n = 0") (simp_all add: zero digits.simps [of n] decimal_def low_digits.simps [of n] low_digits.simps [of 0])
  next
    case False
    then have "n div 10 \<noteq> 0" by simp
    then show ?thesis using 1 False by (simp add: digits.simps [of n] decimal_def low_digits.simps [of n])
  qed
qed

text \<open>The filter and the two formats of \<open>Logger::log\<close> give these lines.\<close>

lemma log_line_text:
  "enabled (level r) \<longleftrightarrow> level r \<noteq> Trace"
  "level r = Debug \<Longrightarrow> log_line style_with r = with_place style_with r @ [CHR 0x0A]"
  "level r \<noteq> Debug \<Longrightarrow> level r \<noteq> Trace \<Longrightarrow> log_line style_with r = without_place style_with r @ [CHR 0x0A]"
proof -
  show "enabled (level r) \<longleftrightarrow> level r \<noteq> Trace" by (cases "level r") (simp_all add: enabled_def less_eq_Level_def)
  have "digits 0 = ''0''" by (simp add: digits_decimal decimal_def)
  then show "level r = Debug \<Longrightarrow> log_line style_with r = with_place style_with r @ [CHR 0x0A]"
    by (simp add: log_line_def with_place_def digits_decimal split: option.split)
  show "level r \<noteq> Debug \<Longrightarrow> level r \<noteq> Trace \<Longrightarrow> log_line style_with r = without_place style_with r @ [CHR 0x0A]"
    by (cases "level r") (simp_all add: log_line_def without_place_def)
qed

end
