(* ===== verification/Console.thy ===== *)
theory Console
  imports Tty Logger
begin

text \<open>
  Output of text on the devices (\<open>console/mod.rs\<close>, \<open>console/log.rs\<close>, \<open>drivers/serial.rs\<close>): the two lazy
  statics \<open>CONSOLE\<close> and \<open>SERIAL\<close>, which are made when something is printed for the first time, fonts and
  initialisation.  The terminal of the \<open>os_terminal\<close> crate turns a text into calls of \<open>draw_pixel\<close> of
  its draw target; it, the port of the \<open>uart_16550\<close> crate and the registration of the \<open>log\<close> crate are
  parameters.  The lemmas here show that the devices get the lines of \<open>Logger\<close>, and that the pixels the
  terminal draws for them are painted on console 0.
\<close>

section \<open>Devices\<close>

type_synonym pixel_call = "nat \<times> nat \<times> (u8 \<times> u8 \<times> u8)"

datatype 'z FontManager = BitmapFont | TrueTypeFont 'z "u8 list"

record ('t, 'z) terminal_api =
  term_new :: "nat \<times> nat \<Rightarrow> 't"
  term_write :: "string \<Rightarrow> 't \<Rightarrow> (unit + unit) \<times> pixel_call list \<times> 't"
  set_font_manager :: "'z FontManager \<Rightarrow> 't \<Rightarrow> pixel_call list \<times> 't"

record 'u uart_api =
  uart_new :: "nat \<Rightarrow> 'u"
  uart_init :: "'u \<Rightarrow> 'u"
  uart_write :: "string \<Rightarrow> 'u \<Rightarrow> (unit + unit) \<times> 'u"

record 'l log_api =
  set_logger :: "'l \<Rightarrow> (unit + unit) \<times> 'l"
  set_max_level :: "Level \<Rightarrow> 'l \<Rightarrow> 'l"

record ('p, 't, 'u, 'l) text_output =
  screen :: "'p console"
  CONSOLE :: "'t option"
  SERIAL :: "'u option"
  log_state :: 'l

text \<open>The first access to a lazy static makes its value; \<open>TTYDrawTarget\<close> reports the size of its console.\<close>

definition console_force :: "('t, 'z) terminal_api \<Rightarrow> ('p, 't, 'u, 'l) text_output \<Rightarrow> 't result" where
  "console_force ta s = (case CONSOLE s of Some t \<Rightarrow> Inr t
     | None \<Rightarrow> and_then (tty_size 0 (screen s)) (\<lambda>sz. Inr (term_new ta sz)))"

definition serial_force :: "'u uart_api \<Rightarrow> ('p, 't, 'u, 'l) text_output \<Rightarrow> 'u" where
  "serial_force ua s = (case SERIAL s of Some u \<Rightarrow> u | None \<Rightarrow> uart_init ua (uart_new ua 0x3f8))"

definition draw_calls :: "'p tty_env \<Rightarrow> nat \<Rightarrow> pixel_call list \<Rightarrow> 'p console \<Rightarrow> 'p console result" where
  "draw_calls e i ps c = for_each (\<lambda>(px, py, color). tty_draw_pixel e i px py color) ps c"

section \<open>Printing\<close>

definition irq_set :: "bool \<Rightarrow> ('p, 't, 'u, 'l) text_output \<Rightarrow> ('p, 't, 'u, 'l) text_output" where
  "irq_set on s = s\<lparr>screen := (screen s)\<lparr>interrupts_enabled := on\<rparr>\<rparr>"

definition print_console :: "'p tty_env \<Rightarrow> ('t, 'z) terminal_api \<Rightarrow> string \<Rightarrow> ('p, 't, 'u, 'l) text_output \<Rightarrow> ('p, 't, 'u, 'l) text_output result" where
  "print_console e ta text s =
     and_then (console_force ta (irq_set False s)) (\<lambda>t.
     let (r, ps, t) = term_write ta text t in
     and_then (draw_calls e 0 ps (screen (irq_set False s))) (\<lambda>c.
     case r of Inl _ \<Rightarrow> Inl UnwrapNone
     | Inr _ \<Rightarrow> Inr (irq_set (interrupts_enabled (screen s)) (s\<lparr>screen := c, CONSOLE := Some t\<rparr>))))"

definition print_serial :: "'u uart_api \<Rightarrow> string \<Rightarrow> ('p, 't, 'u, 'l) text_output \<Rightarrow> ('p, 't, 'u, 'l) text_output result" where
  "print_serial ua text s =
     (let (r, u) = uart_write ua text (serial_force ua s) in
      case r of Inl _ \<Rightarrow> Inl UnwrapNone
      | Inr _ \<Rightarrow> Inr (irq_set (interrupts_enabled (screen s)) (s\<lparr>SERIAL := Some u\<rparr>)))"

definition print_line ::
  "'p tty_env \<Rightarrow> ('t, 'z) terminal_api \<Rightarrow> 'u uart_api \<Rightarrow> string \<Rightarrow> ('p, 't, 'u, 'l) text_output \<Rightarrow> ('p, 't, 'u, 'l) text_output result" where
  "print_line e ta ua text s =
     and_then (print_serial ua (text @ [CHR 0x0A]) s) (print_console e ta (text @ [CHR 0x0A]))"

definition device_log ::
  "'p tty_env \<Rightarrow> ('t, 'z) terminal_api \<Rightarrow> 'u uart_api \<Rightarrow> (Style \<Rightarrow> string \<Rightarrow> string) \<Rightarrow> Record \<Rightarrow>
   ('p, 't, 'u, 'l) text_output \<Rightarrow> ('p, 't, 'u, 'l) text_output result" where
  "device_log e ta ua style_with r s =
     (if enabled (level r)
      then (if level r = Debug \<or> level r = Trace then print_line e ta ua (with_place style_with r) s
            else print_line e ta ua (without_place style_with r) s)
      else Inr s)"

section \<open>Initialisation and fonts\<close>

definition change_font ::
  "'p tty_env \<Rightarrow> ('t, 'z) terminal_api \<Rightarrow> 'z FontManager \<Rightarrow> ('p, 't, 'u, 'l) text_output \<Rightarrow> ('p, 't, 'u, 'l) text_output result" where
  "change_font e ta font s =
     and_then (console_force ta s) (\<lambda>t.
     let (ps, t) = set_font_manager ta font t in
     and_then (draw_calls e 0 ps (screen s)) (\<lambda>c. Inr (s\<lparr>screen := c, CONSOLE := Some t\<rparr>)))"

definition set_font ::
  "'p tty_env \<Rightarrow> ('t, 'z) terminal_api \<Rightarrow> 'z \<Rightarrow> u8 list \<Rightarrow> ('p, 't, 'u, 'l) text_output \<Rightarrow> ('p, 't, 'u, 'l) text_output result" where
  "set_font e ta sz font s = change_font e ta (TrueTypeFont sz font) s"

definition log_init :: "'l log_api \<Rightarrow> 'l \<Rightarrow> 'l result" where
  "log_init la l = (let (r, l) = set_logger la l in
     case r of Inl _ \<Rightarrow> Inl UnwrapNone | Inr _ \<Rightarrow> Inr (set_max_level la Debug l))"

definition console_init ::
  "'p tty_env \<Rightarrow> (nat \<Rightarrow> nat) \<Rightarrow> ('t, 'z) terminal_api \<Rightarrow> 'l log_api \<Rightarrow> ('p, 't, 'u, 'l) text_output \<Rightarrow> ('p, 't, 'u, 'l) text_output result" where
  "console_init e place ta la s =
     and_then (tty_init e place (screen s)) (\<lambda>c.
     and_then (log_init la (log_state s)) (\<lambda>l.
     change_font e ta BitmapFont (s\<lparr>screen := c, log_state := l\<rparr>)))"

section \<open>The devices get the lines of the log\<close>

text \<open>
  The documented behaviour of the devices: a port transmits what is written to it, a terminal takes
  what is written to it and draws inside the size it was made with; neither fails.
\<close>

locale text_devices =
  fixes ta :: "('t, 'z) terminal_api" and ua :: "'u uart_api"
    and sent :: "'u \<Rightarrow> string" and taken :: "'t \<Rightarrow> string" and grid :: "'t \<Rightarrow> nat \<times> nat"
  assumes uart_fresh: "sent (uart_init ua (uart_new ua port)) = []"
    and uart_sends: "\<exists>u'. uart_write ua text u = (Inr (), u') \<and> sent u' = sent u @ text"
    and term_fresh: "taken (term_new ta sz) = []" "grid (term_new ta sz) = sz"
    and term_takes: "\<exists>ps t'. term_write ta text t = (Inr (), ps, t') \<and> taken t' = taken t @ text \<and> grid t' = grid t \<and>
      (\<forall>(px, py, c) \<in> set ps. px < fst (grid t) \<and> py < snd (grid t))"
    and term_font: "\<exists>ps t'. set_font_manager ta font t = (ps, t') \<and> taken t' = taken t \<and> grid t' = grid t \<and>
      (\<forall>(px, py, c) \<in> set ps. px < fst (grid t) \<and> py < snd (grid t))"

text \<open>The text that a device has got, and the terminal that the next output goes to.\<close>

definition text_of :: "('d \<Rightarrow> string) \<Rightarrow> 'd option \<Rightarrow> string" where
  "text_of got d = (case d of None \<Rightarrow> [] | Some u \<Rightarrow> got u)"

definition terminal_of :: "('t, 'z) terminal_api \<Rightarrow> ('p, 't, 'u, 'l) text_output \<Rightarrow> 't" where
  "terminal_of ta s = (case CONSOLE s of Some t \<Rightarrow> t
     | None \<Rightarrow> term_new ta (tty_width (ttys (screen s) ! 0), tty_height (ttys (screen s) ! 0)))"

text \<open>The pixels a terminal draws for a sequence of texts, and the terminal afterwards.\<close>

fun terminal_run :: "('t, 'z) terminal_api \<Rightarrow> string list \<Rightarrow> 't \<Rightarrow> pixel_call list \<times> 't" where
  "terminal_run ta [] t = ([], t)"
| "terminal_run ta (l # ls) t =
     (let (_, ps, t1) = term_write ta l t; (qs, t2) = terminal_run ta ls t1 in (ps @ qs, t2))"

text \<open>
  The contents of a console after pixels were painted on it: blue, green, red and 0 at the place of each.
  \<open>drawn\<close> says so of console 0, that no other console changes, and that the screen shows console 0 when it is
  the current one and does not change otherwise.
\<close>

fun paint :: "nat \<Rightarrow> pixel_call \<Rightarrow> u8 list \<Rightarrow> u8 list" where
  "paint w (px, py, r, g, bl) c = take (4 * (w * py + px)) c @ [bl, g, r, 0] @ drop (4 * (w * py + px) + 4) c"

definition drawn ::
  "('p \<Rightarrow> nat \<rightharpoonup> nat \<times> u64) \<Rightarrow> FrameBuffer \<Rightarrow> nat \<Rightarrow> (nat \<Rightarrow> nat) \<Rightarrow> pixel_call list \<Rightarrow> 'p console \<Rightarrow> ram \<Rightarrow> bool" where
  "drawn view fb n b ps c m \<longleftrightarrow>
     tty_contents view m (table c) (b 0) n = fold (paint (tty_width (ttys c ! 0))) ps (tty_contents view (ram c) (table c) (b 0) n) \<and>
     (\<forall>l < length (ttys c). l \<noteq> 0 \<longrightarrow> tty_contents view m (table c) (b l) n = tty_contents view (ram c) (table c) (b l) n) \<and>
     tty_contents view m (table c) (fb_addr fb) n = (if init_done c \<and> current_tty c = 0 then tty_contents view m (table c) (b 0) n
       else tty_contents view (ram c) (table c) (fb_addr fb) n)"

text \<open>What the output of some lines does: the port has them, the terminal has them, its pixels are drawn, nothing else changes.\<close>

definition lines_written ::
  "('t, 'z) terminal_api \<Rightarrow> ('u \<Rightarrow> string) \<Rightarrow> ('p \<Rightarrow> nat \<rightharpoonup> nat \<times> u64) \<Rightarrow> FrameBuffer \<Rightarrow> nat \<Rightarrow> (nat \<Rightarrow> nat) \<Rightarrow> string list \<Rightarrow>
   ('p, 't, 'u, 'l) text_output \<Rightarrow> ('p, 't, 'u, 'l) text_output \<Rightarrow> bool" where
  "lines_written ta sent view fb n b ls s s' \<longleftrightarrow>
     text_of sent (SERIAL s') = text_of sent (SERIAL s) @ concat ls \<and>
     CONSOLE s' = (if ls = [] then CONSOLE s else Some (snd (terminal_run ta ls (terminal_of ta s)))) \<and>
     drawn view fb n b (fst (terminal_run ta ls (terminal_of ta s))) (screen s) (ram (screen s')) \<and>
     screen s' = (screen s)\<lparr>ram := ram (screen s')\<rparr> \<and> log_state s' = log_state s"

definition screen_ok ::
  "bit_field_api \<Rightarrow> x86_api \<Rightarrow> ('p \<Rightarrow> nat \<rightharpoonup> nat \<times> u64) \<Rightarrow> ('p \<Rightarrow> nat \<Rightarrow> bool) \<Rightarrow> FrameBuffer \<Rightarrow> nat \<Rightarrow> (nat \<Rightarrow> nat) \<Rightarrow>
   ('t \<Rightarrow> nat \<times> nat) \<Rightarrow> ('p, 't, 'u, 'l) text_output \<Rightarrow> bool" where
  "screen_ok bf x view huge fb n b grid s \<longleftrightarrow> console_ok bf x view huge fb n b (screen s) \<and> ttys (screen s) \<noteq> [] \<and>
     (\<forall>t. CONSOLE s = Some t \<longrightarrow> grid t = (tty_width (ttys (screen s) ! 0), tty_height (ttys (screen s) ! 0)))"

lemma console_ok_irq: "console_ok bf x view huge fb n b (c\<lparr>interrupts_enabled := on\<rparr>) = console_ok bf x view huge fb n b c"
  by (simp add: console_ok_def)

lemma screen_shows:
  assumes "console_ok bf x view huge fb n b c" "init_done c" "current_tty c = k"
  shows "tty_contents view m (table c) (fb_addr fb) n = tty_contents view m (table c) (b k) n"
proof -
  have "\<forall>j < n. tty_frame view (table c) (b k) j = tty_frame view (table c) (fb_addr fb) j"
    using assms by (simp add: console_ok_def tty_frames_ok_def)
  then have "tty_place view (table c) (fb_addr fb) i = tty_place view (table c) (b k) i" if "i < 4096 * n" for i
    using that by (simp add: tty_place_def div_less_iff_less_mult mult.commute)
  then show ?thesis by (simp add: tty_contents_def)
qed

lemma drawn_Nil: "console_ok bf x view huge fb n b c \<Longrightarrow> drawn view fb n b [] c (ram c)"
  using screen_shows by (fastforce simp: drawn_def)

lemma drawn_append:
  assumes "drawn view fb n b ps c m" "drawn view fb n b qs (c\<lparr>ram := m\<rparr>) m'"
  shows "drawn view fb n b (ps @ qs) c m'"
  using assms by (simp add: drawn_def)

lemma draw_calls_ok:
  assumes "tty_mapper bf x mp view huge tp" "e = \<lparr>t_mapper = mp, t_translate_page = tp, t_bf = bf, t_x86 = x, t_fb = Some fb\<rparr>"
    "console_ok bf x view huge fb n b c" "ttys c \<noteq> []"
    "\<forall>(px, py, color) \<in> set ps. px < tty_width (ttys c ! 0) \<and> py < tty_height (ttys c ! 0)"
  shows "\<exists>m. draw_calls e 0 ps c = Inr (c\<lparr>ram := m\<rparr>) \<and> console_ok bf x view huge fb n b (c\<lparr>ram := m\<rparr>) \<and> drawn view fb n b ps c m"
  using assms(3-5)
proof (induction ps arbitrary: c)
  case Nil
  then show ?case using drawn_Nil by (intro exI [of _ "ram c"]) (simp add: draw_calls_def)
next
  case (Cons q ps)
  obtain px py r g bl where q: "q = (px, py, r, g, bl)" by (cases q)
  have at: "0 < length (ttys c)" "px < tty_width (ttys c ! 0)" "py < tty_height (ttys c ! 0)" using Cons.prems(2,3) by (simp_all add: q)
  from draw_pixel_ok [OF assms(1,2) Cons.prems(1) at, of r g bl] obtain m where
    m: "tty_draw_pixel e 0 px py (r, g, bl) c = Inr (c\<lparr>ram := m\<rparr>)" "console_ok bf x view huge fb n b (c\<lparr>ram := m\<rparr>)"
    and one: "drawn view fb n b [q] c m" by (auto simp: drawn_def q Let_def)
  from Cons.IH [OF m(2)] Cons.prems(2,3) obtain m' where
    2: "draw_calls e 0 ps (c\<lparr>ram := m\<rparr>) = Inr (c\<lparr>ram := m'\<rparr>)" "console_ok bf x view huge fb n b (c\<lparr>ram := m'\<rparr>)"
      "drawn view fb n b ps (c\<lparr>ram := m\<rparr>) m'" by auto
  have "drawn view fb n b (q # ps) c m'" using drawn_append [OF one 2(3)] by simp
  then show ?case using m(1) 2 by (intro exI [of _ m']) (simp add: draw_calls_def q)
qed

lemma terminal_run_append:
  "terminal_run ta (ls @ ks) t =
     (fst (terminal_run ta ls t) @ fst (terminal_run ta ks (snd (terminal_run ta ls t))), snd (terminal_run ta ks (snd (terminal_run ta ls t))))"
  by (induction ls arbitrary: t) (simp_all add: split_def Let_def)

lemma lines_written_Nil: "console_ok bf x view huge fb n b (screen s) \<Longrightarrow> lines_written ta sent view fb n b [] s s"
  using drawn_Nil by (simp add: lines_written_def)

lemma lines_written_terminal:
  assumes "lines_written ta sent view fb n b ls s s'"
  shows "terminal_of ta s' = snd (terminal_run ta ls (terminal_of ta s))"
proof -
  have sc: "screen s' = (screen s)\<lparr>ram := ram (screen s')\<rparr>" using assms by (simp add: lines_written_def)
  have "ttys (screen s') = ttys (screen s)" by (subst sc) simp
  then show ?thesis using assms by (cases "ls = []") (simp_all add: lines_written_def terminal_of_def split: option.split)
qed

lemma lines_written_append:
  assumes "lines_written ta sent view fb n b ls s s1" "lines_written ta sent view fb n b ks s1 s2"
  shows "lines_written ta sent view fb n b (ls @ ks) s s2"
proof -
  have sc: "screen s1 = (screen s)\<lparr>ram := ram (screen s1)\<rparr>" using assms(1) by (simp add: lines_written_def)
  note t = lines_written_terminal [OF assms(1)]
  have d: "drawn view fb n b (fst (terminal_run ta ls (terminal_of ta s))) (screen s) (ram (screen s1))"
    "drawn view fb n b (fst (terminal_run ta ks (terminal_of ta s1))) ((screen s)\<lparr>ram := ram (screen s1)\<rparr>) (ram (screen s2))"
    using assms sc by (simp_all add: lines_written_def)
  have "screen s2 = (screen s1)\<lparr>ram := ram (screen s2)\<rparr>" using assms(2) by (simp add: lines_written_def)
  also have "\<dots> = (screen s)\<lparr>ram := ram (screen s2)\<rparr>" by (subst sc) simp
  finally show ?thesis
    using assms drawn_append [OF d] t by (simp add: lines_written_def terminal_run_append)
qed

context text_devices
begin

lemma force_ok:
  assumes "screen_ok bf x view huge fb n b grid s"
  shows "console_force ta (irq_set on s) = Inr (terminal_of ta s)" "console_force ta s = Inr (terminal_of ta s)"
    "grid (terminal_of ta s) = (tty_width (ttys (screen s) ! 0), tty_height (ttys (screen s) ! 0))"
    "taken (terminal_of ta s) = text_of taken (CONSOLE s)"
proof -
  have "tty_size 0 (screen s) = Inr (tty_width (ttys (screen s) ! 0), tty_height (ttys (screen s) ! 0))"
    "tty_size 0 (screen (irq_set on s)) = Inr (tty_width (ttys (screen s) ! 0), tty_height (ttys (screen s) ! 0))"
    using assms by (simp_all add: screen_ok_def tty_size_def get_tty_def index_def irq_set_def)
  then show "console_force ta (irq_set on s) = Inr (terminal_of ta s)" "console_force ta s = Inr (terminal_of ta s)"
    by (simp_all add: console_force_def terminal_of_def irq_set_def split: option.split)
  show "grid (terminal_of ta s) = (tty_width (ttys (screen s) ! 0), tty_height (ttys (screen s) ! 0))"
    using assms term_fresh by (simp add: screen_ok_def terminal_of_def split: option.split)
  show "taken (terminal_of ta s) = text_of taken (CONSOLE s)" by (simp add: terminal_of_def text_of_def term_fresh split: option.split)
qed

lemma print_console_ok:
  assumes "tty_mapper bf x mp view huge tp" "e = \<lparr>t_mapper = mp, t_translate_page = tp, t_bf = bf, t_x86 = x, t_fb = Some fb\<rparr>"
    "screen_ok bf x view huge fb n b grid s"
  shows "\<exists>m ps t. term_write ta l (terminal_of ta s) = (Inr (), ps, t) \<and>
    print_console e ta l s = Inr (s\<lparr>screen := (screen s)\<lparr>ram := m\<rparr>, CONSOLE := Some t\<rparr>) \<and>
    screen_ok bf x view huge fb n b grid (s\<lparr>screen := (screen s)\<lparr>ram := m\<rparr>, CONSOLE := Some t\<rparr>) \<and>
    drawn view fb n b ps (screen s) m \<and> taken t = text_of taken (CONSOLE s) @ l"
proof -
  note t = force_ok [OF assms(3)]
  obtain ps t' where w: "term_write ta l (terminal_of ta s) = (Inr (), ps, t')" "taken t' = taken (terminal_of ta s) @ l"
    "grid t' = grid (terminal_of ta s)" "\<forall>(px, py, c) \<in> set ps. px < fst (grid (terminal_of ta s)) \<and> py < snd (grid (terminal_of ta s))"
    using term_takes by blast
  let ?c = "(screen s)\<lparr>interrupts_enabled := False\<rparr>"
  have c: "console_ok bf x view huge fb n b ?c" "ttys ?c \<noteq> []" using assms(3) by (simp_all add: screen_ok_def console_ok_irq)
  have "\<forall>(px, py, col) \<in> set ps. px < tty_width (ttys ?c ! 0) \<and> py < tty_height (ttys ?c ! 0)" using w(4) t(3) by simp
  from draw_calls_ok [OF assms(1,2) c this] obtain m where
    m: "draw_calls e 0 ps ?c = Inr (?c\<lparr>ram := m\<rparr>)" "console_ok bf x view huge fb n b (?c\<lparr>ram := m\<rparr>)" "drawn view fb n b ps ?c m" by blast
  have d: "drawn view fb n b ps (screen s) m" using m(3) by (simp add: drawn_def)
  have "console_ok bf x view huge fb n b ((screen s)\<lparr>ram := m\<rparr>)"
    using m(2) by (cases "init_done (screen s)") (simp_all add: console_ok_def)
  then show ?thesis using assms(3) t w m(1) d
    by (intro exI [of _ m] exI [of _ ps] exI [of _ t']) (simp add: print_console_def irq_set_def screen_ok_def)
qed

lemma print_serial_ok:
  "\<exists>u. print_serial ua l s = Inr (s\<lparr>SERIAL := Some u\<rparr>) \<and> sent u = text_of sent (SERIAL s) @ l"
proof -
  have "sent (serial_force ua s) = text_of sent (SERIAL s)"
    by (simp add: serial_force_def text_of_def uart_fresh split: option.split)
  then show ?thesis using uart_sends [of l "serial_force ua s"] by (auto simp: print_serial_def irq_set_def)
qed

lemma print_line_ok:
  assumes "tty_mapper bf x mp view huge tp" "e = \<lparr>t_mapper = mp, t_translate_page = tp, t_bf = bf, t_x86 = x, t_fb = Some fb\<rparr>"
    "screen_ok bf x view huge fb n b grid s"
  shows "\<exists>s'. print_line e ta ua l s = Inr s' \<and> screen_ok bf x view huge fb n b grid s' \<and>
    lines_written ta sent view fb n b [l @ [CHR 0x0A]] s s' \<and> text_of taken (CONSOLE s') = text_of taken (CONSOLE s) @ l @ [CHR 0x0A]"
proof -
  let ?l = "l @ [CHR 0x0A]"
  obtain u where u: "print_serial ua ?l s = Inr (s\<lparr>SERIAL := Some u\<rparr>)" "sent u = text_of sent (SERIAL s) @ ?l"
    using print_serial_ok by blast
  let ?s = "s\<lparr>SERIAL := Some u\<rparr>"
  have same: "terminal_of ta ?s = terminal_of ta s" by (simp add: terminal_of_def split: option.split)
  have "screen_ok bf x view huge fb n b grid ?s" using assms(3) by (simp add: screen_ok_def)
  from print_console_ok [OF assms(1,2) this, of ?l] obtain m ps t where
    t: "term_write ta ?l (terminal_of ta s) = (Inr (), ps, t)"
      "print_console e ta ?l ?s = Inr (s\<lparr>SERIAL := Some u, screen := (screen s)\<lparr>ram := m\<rparr>, CONSOLE := Some t\<rparr>)"
      "screen_ok bf x view huge fb n b grid (s\<lparr>SERIAL := Some u, screen := (screen s)\<lparr>ram := m\<rparr>, CONSOLE := Some t\<rparr>)"
      "drawn view fb n b ps (screen s) m" "taken t = text_of taken (CONSOLE s) @ ?l" unfolding same by auto
  show ?thesis using t u
    by (intro exI [of _ "s\<lparr>SERIAL := Some u, screen := (screen s)\<lparr>ram := m\<rparr>, CONSOLE := Some t\<rparr>"])
      (simp add: print_line_def lines_written_def text_of_def)
qed

lemma device_log_ok:
  assumes "tty_mapper bf x mp view huge tp" "e = \<lparr>t_mapper = mp, t_translate_page = tp, t_bf = bf, t_x86 = x, t_fb = Some fb\<rparr>"
    "screen_ok bf x view huge fb n b grid s"
  shows "\<exists>s'. device_log e ta ua style_with r s = Inr s' \<and> screen_ok bf x view huge fb n b grid s' \<and>
    lines_written ta sent view fb n b (log_lines style_with [r]) s s' \<and>
    text_of taken (CONSOLE s') = text_of taken (CONSOLE s) @ concat (log_lines style_with [r])"
proof (cases "level r = Trace")
  case True
  then have "\<not> enabled (level r)" "log_lines style_with [r] = []" using log_line_text(1) [of r] by (simp_all add: log_lines_def)
  then show ?thesis using assms(3) lines_written_Nil [of bf x view huge fb n b s] by (simp add: device_log_def screen_ok_def)
next
  case False
  show ?thesis
  proof (cases "level r = Debug")
    case True
    then show ?thesis using print_line_ok [OF assms, of "with_place style_with r"] False log_line_text(1) [of r]
      by (simp add: device_log_def log_line_text(2,3) log_lines_def)
  next
    case other: False
    then show ?thesis using print_line_ok [OF assms, of "without_place style_with r"] False log_line_text(1) [of r]
      by (simp add: device_log_def log_line_text(2,3) log_lines_def)
  qed
qed

lemma log_lines_Cons: "log_lines style_with (r # rs) = log_lines style_with [r] @ log_lines style_with rs"
  by (simp add: log_lines_def)

lemma device_logs_ok:
  assumes "tty_mapper bf x mp view huge tp" "e = \<lparr>t_mapper = mp, t_translate_page = tp, t_bf = bf, t_x86 = x, t_fb = Some fb\<rparr>"
    "screen_ok bf x view huge fb n b grid s"
  shows "\<exists>s'. for_each (device_log e ta ua style_with) rs s = Inr s' \<and> screen_ok bf x view huge fb n b grid s' \<and>
    lines_written ta sent view fb n b (log_lines style_with rs) s s' \<and>
    text_of taken (CONSOLE s') = text_of taken (CONSOLE s) @ concat (log_lines style_with rs)"
  using assms(3)
proof (induction rs arbitrary: s)
  case Nil
  then show ?case using lines_written_Nil [of bf x view huge fb n b s] by (simp add: log_lines_def screen_ok_def)
next
  case (Cons r rs)
  from device_log_ok [OF assms(1,2) Cons.prems, of style_with r] obtain s1 where
    1: "device_log e ta ua style_with r s = Inr s1" "screen_ok bf x view huge fb n b grid s1"
    "lines_written ta sent view fb n b (log_lines style_with [r]) s s1"
    "text_of taken (CONSOLE s1) = text_of taken (CONSOLE s) @ concat (log_lines style_with [r])" by blast
  from Cons.IH [OF 1(2)] obtain s' where
    2: "for_each (device_log e ta ua style_with) rs s1 = Inr s'" "screen_ok bf x view huge fb n b grid s'"
    "lines_written ta sent view fb n b (log_lines style_with rs) s1 s'"
    "text_of taken (CONSOLE s') = text_of taken (CONSOLE s1) @ concat (log_lines style_with rs)" by blast
  have "lines_written ta sent view fb n b (log_lines style_with (r # rs)) s s'"
    by (subst log_lines_Cons) (rule lines_written_append [OF 1(3) 2(3)])
  moreover have "text_of taken (CONSOLE s') = text_of taken (CONSOLE s) @ concat (log_lines style_with (r # rs))"
    by (subst log_lines_Cons) (simp add: 1(4) 2(4))
  ultimately show ?case using 1(1) 2(1,2) by (intro exI [of _ s']) simp
qed

text \<open>Setting a font prints nothing.\<close>

lemma change_font_ok:
  assumes "tty_mapper bf x mp view huge tp" "e = \<lparr>t_mapper = mp, t_translate_page = tp, t_bf = bf, t_x86 = x, t_fb = Some fb\<rparr>"
    "screen_ok bf x view huge fb n b grid s"
  shows "\<exists>s'. change_font e ta font s = Inr s' \<and> screen_ok bf x view huge fb n b grid s' \<and> SERIAL s' = SERIAL s \<and>
    text_of taken (CONSOLE s') = text_of taken (CONSOLE s) \<and> screen s' = (screen s)\<lparr>ram := ram (screen s')\<rparr> \<and> log_state s' = log_state s"
proof -
  note t = force_ok [OF assms(3)]
  obtain ps t' where w: "set_font_manager ta font (terminal_of ta s) = (ps, t')" "taken t' = taken (terminal_of ta s)"
    "grid t' = grid (terminal_of ta s)" "\<forall>(px, py, c) \<in> set ps. px < fst (grid (terminal_of ta s)) \<and> py < snd (grid (terminal_of ta s))"
    using term_font by blast
  have c: "console_ok bf x view huge fb n b (screen s)" "ttys (screen s) \<noteq> []" using assms(3) by (simp_all add: screen_ok_def)
  have "\<forall>(px, py, col) \<in> set ps. px < tty_width (ttys (screen s) ! 0) \<and> py < tty_height (ttys (screen s) ! 0)" using w(4) t(3) by simp
  from draw_calls_ok [OF assms(1,2) c this] obtain m where
    m: "draw_calls e 0 ps (screen s) = Inr ((screen s)\<lparr>ram := m\<rparr>)" "console_ok bf x view huge fb n b ((screen s)\<lparr>ram := m\<rparr>)" by blast
  show ?thesis using assms(3) t w(1-3) m
    by (intro exI [of _ "s\<lparr>screen := (screen s)\<lparr>ram := m\<rparr>, CONSOLE := Some t'\<rparr>"])
      (simp add: change_font_def screen_ok_def text_of_def)
qed

end

text \<open>A port and a terminal that keep the texts; the terminal draws its first pixel for every character.\<close>

definition tape_uart :: "string uart_api" where
  "tape_uart = \<lparr>uart_new = (\<lambda>_. []), uart_init = (\<lambda>u. u), uart_write = (\<lambda>txt u. (Inr (), u @ txt))\<rparr>"

definition tape_terminal :: "(string \<times> nat \<times> nat, unit) terminal_api" where
  "tape_terminal = \<lparr>term_new = Pair [],
     term_write = (\<lambda>txt (got, sz). (Inr (), if fst sz = 0 \<or> snd sz = 0 then [] else map (\<lambda>c. (0, 0, (of_char c, 0, 0))) txt, (got @ txt, sz))),
     set_font_manager = (\<lambda>_ t. ([], t))\<rparr>"

interpretation tape: text_devices tape_terminal tape_uart id fst snd
  by unfold_locales (auto simp: tape_terminal_def tape_uart_def)

text \<open>
  \<open>init\<close> ends with the first console on the screen, a terminal that has taken nothing, and interrupts off;
  when a logger is registered already it panics.
\<close>

theorem console_init_ready:
  assumes "text_devices ta ua sent taken grid" "tty_mapper bf x mp view huge tp"
    "e = \<lparr>t_mapper = mp, t_translate_page = tp, t_bf = bf, t_x86 = x, t_fb = Some fb\<rparr>"
    "fb_pitch fb div 4 * fb_height fb * (fb_bpp fb div 8) = 4096 * n" "4096 * n \<le> usize_max" "fb_pitch fb div 4 * fb_height fb \<le> usize_max"
    "fb_width fb * fb_height fb * 4 = 4096 * n" "laid_out x (fb_addr fb) n 6 b"
    "tty_frames_ok bf view huge (fb_addr fb) n None 6 b (table (screen s)) (Tty.allocator (screen s))" "ttys (screen s) = []"
    "\<not> init_done (screen s)" "CONSOLE s = None" "SERIAL s = None"
  shows "set_logger la (log_state s) = (Inr (), l) \<longrightarrow> (\<exists>s'. console_init e b ta la s = Inr s' \<and>
      screen_ok bf x view huge fb n b grid s' \<and> log_state s' = set_max_level la Debug l \<and>
      text_of sent (SERIAL s') = [] \<and> text_of taken (CONSOLE s') = [] \<and> \<not> interrupts_enabled (screen s'))"
    and "set_logger la (log_state s) = (Inl (), l) \<longrightarrow> console_init e b ta la s = Inl UnwrapNone"
proof -
  from tty_init_shows_first [OF assms(2-11)] obtain c where c: "tty_init e b (screen s) = Inr c" "length (ttys c) = 6"
    "\<not> interrupts_enabled c" "console_ok bf x view huge fb n b c" by blast
  show "set_logger la (log_state s) = (Inl (), l) \<longrightarrow> console_init e b ta la s = Inl UnwrapNone"
    by (simp add: console_init_def c log_init_def)
  let ?s = "s\<lparr>screen := c, log_state := set_max_level la Debug l\<rparr>"
  have ok: "screen_ok bf x view huge fb n b grid ?s" using c assms(12) by (auto simp: screen_ok_def)
  from text_devices.change_font_ok [OF assms(1-3) ok, of BitmapFont] obtain s' where
    s': "change_font e ta BitmapFont ?s = Inr s'" "screen_ok bf x view huge fb n b grid s'" "SERIAL s' = None"
      "text_of taken (CONSOLE s') = []" "screen s' = c\<lparr>ram := ram (screen s')\<rparr>" "log_state s' = set_max_level la Debug l"
    using assms(12,13) by (auto simp: text_of_def)
  have "\<not> interrupts_enabled (screen s')" by (subst s'(5)) (simp add: c(3))
  then show "set_logger la (log_state s) = (Inr (), l) \<longrightarrow> (\<exists>s'. console_init e b ta la s = Inr s' \<and>
      screen_ok bf x view huge fb n b grid s' \<and> log_state s' = set_max_level la Debug l \<and>
      text_of sent (SERIAL s') = [] \<and> text_of taken (CONSOLE s') = [] \<and> \<not> interrupts_enabled (screen s'))"
    using s' by (intro impI exI [of _ s']) (simp add: console_init_def c(1) log_init_def text_of_def)
qed

text \<open>
  C29. Logging reaches the devices: once the consoles are initialised, any sequence of log records is
  written without a panic.  The serial port has transmitted and the terminal taken, after what they had before, exactly the lines
  of the records in order: \<open>log_lines\<close> spells them out level by level, without those of the trace level.  The terminal
  is the one that writing these lines makes of the one before (of a new one for the size of console 0, at the first
  output), and the pixels it draws for them are painted on console 0, one after the other; the other consoles keep their pixels, and the screen
  shows console 0 when that is the current one and is unchanged otherwise.  Nothing else of the consoles changes, the interrupt flag
  included.
\<close>

theorem console_output_refines:
  assumes "text_devices ta ua sent taken grid" "tty_mapper bf x mp view huge tp"
    "e = \<lparr>t_mapper = mp, t_translate_page = tp, t_bf = bf, t_x86 = x, t_fb = Some fb\<rparr>"
    "screen_ok bf x view huge fb n b grid s"
  shows "\<exists>s'. for_each (device_log e ta ua style_with) rs s = Inr s' \<and> screen_ok bf x view huge fb n b grid s' \<and>
    text_of sent (SERIAL s') = text_of sent (SERIAL s) @ concat (log_lines style_with rs) \<and>
    text_of taken (CONSOLE s') = text_of taken (CONSOLE s) @ concat (log_lines style_with rs) \<and>
    terminal_of ta s' = snd (terminal_run ta (log_lines style_with rs) (terminal_of ta s)) \<and>
    drawn view fb n b (fst (terminal_run ta (log_lines style_with rs) (terminal_of ta s))) (screen s) (ram (screen s')) \<and>
    screen s' = (screen s)\<lparr>ram := ram (screen s')\<rparr>"
proof -
  from text_devices.device_logs_ok [OF assms, of style_with rs] obtain s' where
    s': "for_each (device_log e ta ua style_with) rs s = Inr s'" "screen_ok bf x view huge fb n b grid s'"
    "lines_written ta sent view fb n b (log_lines style_with rs) s s'"
    "text_of taken (CONSOLE s') = text_of taken (CONSOLE s) @ concat (log_lines style_with rs)" by blast
  show ?thesis using s' lines_written_terminal [OF s'(3)] by (intro exI [of _ s']) (simp add: lines_written_def)
qed

definition small_output :: "(nat \<rightharpoonup> nat \<times> u64, string \<times> nat \<times> nat, string, unit) text_output" where
  "small_output = \<lparr>screen = small_console, CONSOLE = None, SERIAL = None, log_state = ()\<rparr>"

definition two_records :: "Record list" where
  "two_records = [\<lparr>level = Info, args = ''hello'', file_name = None, line_number = None\<rparr>,
     \<lparr>level = Trace, args = ''hidden'', file_name = None, line_number = None\<rparr>]"

lemma two_lines: "log_lines (\<lambda>_ l. l) two_records = [''[INFO] hello'' @ [CHR 0x0A]]"
  by (simp add: log_lines_def two_records_def log_line_def)

text \<open>The pixel of console 0 has the colour of the last character, the line feed.\<close>

theorem console_output_refines_witness:
  "\<exists>s'. for_each (device_log small_env tape_terminal tape_uart (\<lambda>_ l. l)) two_records small_output = Inr s' \<and>
    text_of id (SERIAL s') = ''[INFO] hello'' @ [CHR 0x0A] \<and>
    take 4 (tty_contents id (ram (screen s')) (table small_console) (small_buffer 0) 1) = [0, 0, 10, 0]"
proof -
  have ok: "screen_ok byte_bits x86_model id (\<lambda>_ _. False) small_fb 1 small_buffer snd small_output"
    using small_console_ok by (simp add: screen_ok_def small_output_def small_console_def)
  from console_output_refines [OF tape.text_devices_axioms plain_tty.tty_mapper_axioms refl ok, of "\<lambda>_ l. l" two_records] obtain s' where
    s': "for_each (device_log small_env tape_terminal tape_uart (\<lambda>_ l. l)) two_records small_output = Inr s'"
      "text_of id (SERIAL s') = text_of id (SERIAL small_output) @ ''[INFO] hello'' @ [CHR 0x0A]"
      "drawn id small_fb 1 small_buffer (fst (terminal_run tape_terminal [''[INFO] hello'' @ [CHR 0x0A]] (terminal_of tape_terminal small_output)))
         (screen small_output) (ram (screen s'))"
    unfolding two_lines by (elim exE conjE) simp
  have "take 4 (tty_contents id (ram (screen s')) (table small_console) (small_buffer 0) 1) = [0, 0, 10, 0]"
    using s'(3) by (simp add: drawn_def terminal_of_def small_output_def small_console_def small_fb_def tape_terminal_def)
  with s'(1,2) show ?thesis by (intro exI [of _ s']) (simp add: text_of_def small_output_def)
qed

end
