(* ===== verification/KernelMem.thy ===== *)
theory KernelMem
  imports VirtMem
begin

text \<open>
  Two clients of the kernel's page table: the kernel heap (\<open>memory/kernel_heap.rs\<close>) and the
  register mapper of the XHCI controller (\<open>drivers/xhci.rs\<close>).  The heap allocator itself, from
  the \<open>good_memory_allocator\<close> crate, is represented by the region it is given.
\<close>

section \<open>The kernel heap\<close>

definition KERNEL_HEAP_START :: nat where "KERNEL_HEAP_START = 0x114514000000"
definition KERNEL_HEAP_SIZE :: nat where "KERNEL_HEAP_SIZE = 64 * 1024 * 1024"

definition kernel_heap_init ::
  "'p mapper_api \<Rightarrow> bit_field_api \<Rightarrow> x86_api \<Rightarrow> 'p \<Rightarrow> BitmapFrameAllocator \<Rightarrow> ((nat \<times> nat) \<times> 'p \<times> BitmapFrameAllocator) result" where
  "kernel_heap_init mp bf x p a =
     and_then (virt_addr_new x KERNEL_HEAP_START) (\<lambda>heap_start.
     let flags = PRESENT OR WRITABLE in
     and_then (alloc_range mp bf x heap_start KERNEL_HEAP_SIZE flags p a) (\<lambda>(r, p, a).
     case r of Inl _ \<Rightarrow> Inl UnwrapNone
     | Inr _ \<Rightarrow> Inr ((KERNEL_HEAP_START, KERNEL_HEAP_SIZE), p, a)))"

section \<open>The XHCI mapper\<close>

text \<open>One iteration of the loop; a page that cannot be mapped is passed over.\<close>

definition xhci_map_page ::
  "'p mapper_api \<Rightarrow> x86_api \<Rightarrow> nat \<Rightarrow> nat \<Rightarrow> nat \<Rightarrow> 'p \<times> BitmapFrameAllocator \<Rightarrow> ('p \<times> BitmapFrameAllocator) result" where
  "xhci_map_page mp x virt_address phys_address page_i st =
     and_then (va_add x virt_address (page_i * 4096)) (\<lambda>va.
     and_then (and_then (usize_add phys_address (page_i * 4096)) (phys_addr_new x)) (\<lambda>pa.
     and_then (map_to mp (page_containing x va) (frame_containing x pa) (PRESENT OR WRITABLE) (fst st) (snd st)) (\<lambda>(r, st).
     Inr st)))"

definition xhci_map ::
  "'p mapper_api \<Rightarrow> x86_api \<Rightarrow> nat \<Rightarrow> nat \<Rightarrow> nat \<Rightarrow> 'p \<Rightarrow> BitmapFrameAllocator \<Rightarrow> (nat \<times> 'p \<times> BitmapFrameAllocator) result" where
  "xhci_map mp x offset phys_start bytes p a =
     and_then (phys_addr_new x phys_start) (\<lambda>phys_address.
     and_then (convert_physical_to_virtual x offset phys_address) (\<lambda>virt_address.
     and_then (usize_add bytes 4095) (\<lambda>n.
     let pages = n div 4096 in
     and_then (for_each (xhci_map_page mp x virt_address phys_address) [0..<pages] (p, a)) (\<lambda>(p, a).
     if virt_address = 0 then Inl UnwrapNone else Inr (virt_address, p, a)))))"

text \<open>\<open>unmap\<close> does nothing, and the kernel keeps the mappings of every register window.\<close>

definition xhci_unmap :: "nat \<Rightarrow> nat \<Rightarrow> 'p \<Rightarrow> 'p" where
  "xhci_unmap virt_start bytes p = p"

section \<open>What they map\<close>

lemma pages_of_aligned: "0 < n \<Longrightarrow> pages_of (4096 * s) (4096 * n) = map (\<lambda>i. 4096 * s + 4096 * i) [0..<n]"
proof -
  assume n: "0 < n"
  have "4096 * s + 4096 * n - 1 = 4096 * (s + n - 1) + 4095" using n by (simp add: diff_mult_distrib2)
  then have "(4096 * s + 4096 * n - 1) div 4096 = s + n - 1" by simp
  then have "pages_of (4096 * s) (4096 * n) = map ((*) 4096) [s..<s + n]" using n by (simp add: pages_of_def)
  also have "[s..<s + n] = map (\<lambda>i. i + s) [0..<n]" by (simp only: map_add_upt) (simp add: add.commute)
  finally show ?thesis by (simp add: o_def add.commute)
qed

lemma heap_pages: "pages_of KERNEL_HEAP_START KERNEL_HEAP_SIZE = map (\<lambda>i. KERNEL_HEAP_START + 4096 * i) [0..<16384]"
proof -
  have "KERNEL_HEAP_START = 4096 * 0x114514000" "KERNEL_HEAP_SIZE = 4096 * 16384" by (simp_all add: KERNEL_HEAP_START_def KERNEL_HEAP_SIZE_def)
  moreover have "0 < (16384 :: nat)" by simp
  ultimately show ?thesis using pages_of_aligned by metis
qed

lemma aligned_mod: "f mod (k :: nat) = 0 \<Longrightarrow> (f + i mod k) mod k = i mod k"
  by (metis add_0 mod_add_left_eq mod_mod_trivial)

context page_mapper
begin

text \<open>A range of pages mapped to distinct frames translates injectively.\<close>

lemma mapped_pages_inj:
  assumes "\<forall>i < n. \<not> huge p (s + 4096 * i) \<and> view p (s + 4096 * i) = Some (F i, fl)" and "s mod 4096 = 0"
    and "inj_on F {..<n}" and "\<forall>i < n. F i mod 4096 = 0"
  shows "\<forall>i < 4096 * n. translate_addr mp p (s + i) = Some (F (i div 4096) + i mod 4096)"
    "inj_on (translate_addr mp p) {s..<s + 4096 * n}"
proof -
  have t: "translate_addr mp p (s + i) = Some (F (i div 4096) + i mod 4096)" if "i < 4096 * n" for i
  proof -
    have d: "i div 4096 < n" using that by (simp add: div_less_iff_less_mult mult.commute)
    have m: "(s + i) mod 4096 = i mod 4096" using assms(2) by (metis add_0 mod_add_left_eq)
    have v: "\<not> huge p (s + 4096 * (i div 4096))" "view p (s + 4096 * (i div 4096)) = Some (F (i div 4096), fl)"
      using assms(1) d by blast+
    show ?thesis using translate [of p "s + i"] v m by (simp add: page_of [OF assms(2)])
  qed
  then show "\<forall>i < 4096 * n. translate_addr mp p (s + i) = Some (F (i div 4096) + i mod 4096)" by blast
  have "i = j" if ij: "i < 4096 * n" "j < 4096 * n" and eq: "F (i div 4096) + i mod 4096 = F (j div 4096) + j mod 4096" for i j
  proof -
    have d: "i div 4096 < n" "j div 4096 < n" using ij by (simp_all add: div_less_iff_less_mult mult.commute)
    then have "(F (i div 4096) + i mod 4096) mod 4096 = i mod 4096" "(F (j div 4096) + j mod 4096) mod 4096 = j mod 4096"
      using assms(4) by (intro aligned_mod; blast)+
    with eq have m: "i mod 4096 = j mod 4096" by metis
    with eq have "F (i div 4096) = F (j div 4096)" by simp
    with assms(3) d have "i div 4096 = j div 4096" by (simp add: inj_on_eq_iff)
    with m show ?thesis by (metis div_mult_mod_eq)
  qed
  then show "inj_on (translate_addr mp p) {s..<s + 4096 * n}"
  proof (intro inj_onI)
    fix u v assume inj: "\<And>i j. i < 4096 * n \<Longrightarrow> j < 4096 * n \<Longrightarrow> F (i div 4096) + i mod 4096 = F (j div 4096) + j mod 4096 \<Longrightarrow> i = j"
      and uv: "u \<in> {s..<s + 4096 * n}" "v \<in> {s..<s + 4096 * n}" and eq: "translate_addr mp p u = translate_addr mp p v"
    from uv obtain i j where ij: "u = s + i" "v = s + j" "i < 4096 * n" "j < 4096 * n"
      by (metis add_less_cancel_left atLeastLessThan_iff le_add_diff_inverse)
    with eq t inj show "u = v" by simp
  qed
qed

lemma kernel_heap_maps:
  assumes "pool_ok bf a" "65536 \<le> card (frame_pool bf a)"
    "\<forall>i < 16384. view p (KERNEL_HEAP_START + 4096 * i) = None \<and> \<not> huge p (KERNEL_HEAP_START + 4096 * i)"
  shows "\<exists>p' a' F. kernel_heap_init mp bf x p a = Inr ((KERNEL_HEAP_START, KERNEL_HEAP_SIZE), p', a') \<and>
    inj_on (translate_addr mp p') {KERNEL_HEAP_START..<KERNEL_HEAP_START + KERNEL_HEAP_SIZE} \<and>
    (\<forall>i < KERNEL_HEAP_SIZE. translate_addr mp p' (KERNEL_HEAP_START + i) = Some (F (i div 4096) + i mod 4096)) \<and>
    F ` {..<16384} \<subseteq> frame_pool bf a - frame_pool bf a' \<and> pool_ok bf a' \<and>
    (\<forall>q. q \<notin> (\<lambda>i. KERNEL_HEAP_START + 4096 * i) ` {..<16384} \<longrightarrow> view p' q = view p q)"
proof -
  let ?s = KERNEL_HEAP_START and ?n = KERNEL_HEAP_SIZE and ?fl = "PRESENT OR WRITABLE"
  have r: "0 < ?n" "?s + ?n < 2 ^ 47" "?n = 4096 * 16384" "?s mod 4096 = 0" by (simp_all add: KERNEL_HEAP_START_def KERNEL_HEAP_SIZE_def)
  have l: "length (pages_of ?s ?n) = 16384" and st: "set (pages_of ?s ?n) = (\<lambda>i. ?s + 4096 * i) ` {..<16384}"
    by (simp_all only: heap_pages length_map length_upt set_map set_upt atLeast0LessThan diff_zero)
  have four: "4 * length (pages_of ?s ?n) \<le> card (frame_pool bf a)" unfolding l using assms(2) by linarith
  have free: "\<forall>q \<in> set (pages_of ?s ?n). view p q = None \<and> \<not> huge p q" 
    unfolding st by (rule ballI, elim imageE, hypsubst, rule assms(3) [rule_format], erule lessThan_iff [THEN iffD1])
  from alloc_range_free [OF assms(1) r(1,2) four free, of ?fl] obtain fs p' a' where
    1: "alloc_range mp bf x ?s ?n ?fl p a = Inr (Inr (), p', a')" "length fs = length (pages_of ?s ?n)" "distinct fs"
      "set fs \<subseteq> frame_pool bf a - frame_pool bf a'" "view p' = (view p)(pages_of ?s ?n [\<mapsto>] map (\<lambda>f. (f, ?fl)) fs)"
      "huge p' = huge p" "pool_ok bf a'" by (elim exE conjE) (rule that)
  have nth: "view p' (?s + 4096 * i) = Some (fs ! i, ?fl)" if "i < 16384" for i
  proof -
    have "pages_of ?s ?n ! i = ?s + 4096 * i" using that by (simp add: heap_pages)
    then show ?thesis using map_upds_nth [OF distinct_pages_of, of "map (\<lambda>f. (f, ?fl)) fs" ?s ?n i "view p"] that 1(2,5) l by simp
  qed
  have fs: "fs ! i \<in> set fs" if "i < 16384" for i using that 1(2) l by simp
  have al: "fs ! i mod 4096 = 0" if "i < 16384" for i using fs [OF that] 1(4) by (auto simp: frame_pool_def)
  have m: "\<forall>i < 16384. \<not> huge p' (?s + 4096 * i) \<and> view p' (?s + 4096 * i) = Some (fs ! i, ?fl)"

    using assms(3) by (intro allI impI) (simp only: nth 1(6) simp_thms)
  have inj: "inj_on ((!) fs) {..<16384}" using 1(2,3) l by (simp add: inj_on_nth)
  have img: "(!) fs ` {..<16384} \<subseteq> frame_pool bf a - frame_pool bf a'"
    by (intro image_subsetI subsetD [OF 1(4)] fs) (erule lessThan_iff [THEN iffD1])
  have out: "\<forall>q. q \<notin> (\<lambda>i. ?s + 4096 * i) ` {..<16384} \<longrightarrow> view p' q = view p q"
    unfolding st [symmetric] 1(5) by (simp add: map_upds_apply_nontin)
  have run: "kernel_heap_init mp bf x p a = Inr ((?s, ?n), p', a')"
    using r(2) by (simp add: kernel_heap_init_def virt_addr_new canonical_def 1(1))
  show ?thesis
    using mapped_pages_inj [OF m r(4) inj] al run img 1(7) out r(3)
    by (intro exI [of _ p'] exI [of _ a'] exI [of _ "(!) fs"]) simp
qed

end

text \<open>
  The mapping after \<open>n\<close> pages of the XHCI loop: the free pages of the window are mapped, the others
  are as they were.
\<close>

definition windowed :: "nat \<Rightarrow> nat \<Rightarrow> nat \<Rightarrow> (nat \<rightharpoonup> nat \<times> u64) \<Rightarrow> nat \<rightharpoonup> nat \<times> u64" where
  "windowed v f n m = (\<lambda>q. if m q = None \<and> (\<exists>i < n. q = v + 4096 * i) then Some (f + (q - v), PRESENT OR WRITABLE) else m q)"

lemma windowed_0 [simp]: "windowed v f 0 m = m"
  by (simp add: windowed_def)

lemma windowed_at: "windowed v f n m (v + 4096 * n) = m (v + 4096 * n)"
  by (simp add: windowed_def)

lemma windowed_in: "i < n \<Longrightarrow> m (v + 4096 * i) = None \<Longrightarrow> windowed v f n m (v + 4096 * i) = Some (f + 4096 * i, PRESENT OR WRITABLE)"
  by (auto simp: windowed_def)

lemma windowed_old: "m q \<noteq> None \<Longrightarrow> windowed v f n m q = m q"
  by (simp add: windowed_def)

lemma windowed_Suc: "windowed v f (Suc n) m = (if m (v + 4096 * n) = None then (windowed v f n m)(v + 4096 * n \<mapsto> (f + 4096 * n, PRESENT OR WRITABLE))
    else windowed v f n m)"
  by (rule ext) (auto simp: windowed_def less_Suc_eq)

context page_mapper
begin

lemma xhci_loop:
  assumes "\<forall>i < n. canonical (va + 4096 * i)" "pa + 4096 * n \<le> 2 ^ 52" "pool_ok bf a" "3 * n \<le> card (frame_pool bf a)"
    "\<forall>i < n. \<not> huge p (page_containing x va + 4096 * i)"
  shows "\<exists>p' a'. for_each (xhci_map_page mp x va pa) [0..<n] (p, a) = Inr (p', a') \<and> huge p' = huge p \<and> pool_ok bf a' \<and>
    view p' = windowed (page_containing x va) (frame_containing x pa) n (view p)"
proof -
  let ?v = "page_containing x va" and ?f = "frame_containing x pa"
  define I where "I = (\<lambda>k (p', a'). huge p' = huge p \<and> pool_ok bf a' \<and> view p' = windowed ?v ?f k (view p) \<and>
     card (frame_pool bf a) \<le> card (frame_pool bf a') + 3 * k)"
  have "\<exists>st. for_each (xhci_map_page mp x va pa) [0..<n] (p, a) = Inr st \<and> I n st"
  proof (rule for_each_upt_rule)
    fix k st assume k: "k < n" and st: "I k st"
    obtain p1 a1 where s: "st = (p1, a1)" by (cases st)
    with st have I: "huge p1 = huge p" "pool_ok bf a1" "view p1 = windowed ?v ?f k (view p)" "card (frame_pool bf a) \<le> card (frame_pool bf a1) + 3 * k"
      by (simp_all add: I_def)
    have can: "canonical (va + 4096 * k)" using assms(1) k by blast
    then have "va + 4096 * k < 2 ^ 64" by (auto simp: canonical_def)
    then have v: "va_add x va (k * 4096) = Inr (va + 4096 * k)"
      using can by (simp add: va_add_def usize_add_def usize_max_def virt_addr_new mult.commute)
    have "pa + 4096 * k < 2 ^ 52" using assms(2) k by linarith
    then have f: "and_then (usize_add pa (k * 4096)) (phys_addr_new x) = Inr (pa + 4096 * k)"
      by (simp add: usize_add_def usize_max_def phys_addr_new mult.commute)
    have pg: "page_containing x (va + 4096 * k) = ?v + 4096 * k" "frame_containing x (pa + 4096 * k) = ?f + 4096 * k"
      by (simp_all add: page_containing frame_containing)
    have h: "\<not> huge p1 (?v + 4096 * k)" using assms(5) k I(1) by simp
    have at: "view p1 (?v + 4096 * k) = view p (?v + 4096 * k)" unfolding I(3) by (rule windowed_at)
    show "\<exists>st'. xhci_map_page mp x va pa k st = Inr st' \<and> I (Suc k) st'"
    proof (cases "view p (?v + 4096 * k)")
      case None
      have "3 \<le> card (frame_pool bf a1)" using I(4) assms(4) k by linarith
      then obtain p2 a2 where m: "map_to mp (?v + 4096 * k) (?f + 4096 * k) (PRESENT OR WRITABLE) p1 a1 = Inr (Inr (), p2, a2)"
        "view p2 = (view p1)(?v + 4096 * k \<mapsto> (?f + 4096 * k, PRESENT OR WRITABLE))" "huge p2 = huge p1" "pool_ok bf a2"
        "card (frame_pool bf a1) \<le> card (frame_pool bf a2) + 3"
        using map_to_free [OF I(2) _ at [unfolded None] h] by metis
      then have "I (Suc k) (p2, a2)" using I None by (simp add: I_def windowed_Suc)
      then show ?thesis using m(1) by (intro exI [of _ "(p2, a2)"]) (simp add: xhci_map_page_def s v f pg)
    next
      case (Some e)
      then obtain g fl where e: "view p1 (?v + 4096 * k) = Some (g, fl)" using at by (cases e) simp
      have "I (Suc k) (p1, a1)" using I Some by (simp add: I_def windowed_Suc)
      then show ?thesis using map_to_used [OF e h] by (intro exI [of _ "(p1, a1)"]) (simp add: xhci_map_page_def s v f pg)
    qed
  qed (use assms(3) in \<open>simp_all add: I_def\<close>)
  then show ?thesis by (auto simp: I_def)
qed

lemma xhci_maps:
  assumes "pool_ok bf a" "n = (bytes + 4095) div 4096" "3 * n \<le> card (frame_pool bf a)" "phys_start + bytes + 4095 \<le> 2 ^ 52"
    "offset mod 4096 = 0" "0 < phys_start + offset" "canonical (phys_start + offset)" "\<forall>i < n. canonical (phys_start + offset + 4096 * i)"
    "\<forall>i < n. \<not> huge p (page_containing x (phys_start + offset) + 4096 * i) \<and>
       (view p (page_containing x (phys_start + offset) + 4096 * i) = None \<or>
        (\<exists>fl. view p (page_containing x (phys_start + offset) + 4096 * i) = Some (frame_containing x phys_start + 4096 * i, fl)))"
  shows "\<exists>p' a'. xhci_map mp x offset phys_start bytes p a = Inr (phys_start + offset, p', a') \<and> huge p' = huge p \<and> pool_ok bf a' \<and>
    (\<forall>i. phys_start mod 4096 + i < 4096 * n \<longrightarrow> translate_addr mp p' (phys_start + offset + i) = Some (phys_start + i)) \<and>
    (\<forall>q. (\<forall>i < n. q \<noteq> page_containing x (phys_start + offset) + 4096 * i) \<longrightarrow> view p' q = view p q)"
proof -
  let ?va = "phys_start + offset" and ?r = "phys_start mod 4096"
  let ?v = "page_containing x ?va" and ?f = "frame_containing x phys_start"
  have lim: "4096 * n \<le> bytes + 4095" using assms(2) by simp
  then have room: "phys_start + 4096 * n \<le> 2 ^ 52" using assms(4) by linarith
  have "\<forall>i < n. \<not> huge p (?v + 4096 * i)" using assms(9) by blast
  from xhci_loop [OF assms(8) room assms(1,3) this] obtain p' a' where l: "for_each (xhci_map_page mp x ?va phys_start) [0..<n] (p, a) = Inr (p', a')"
    "huge p' = huge p" "pool_ok bf a'" "view p' = windowed ?v ?f n (view p)" by (elim exE conjE)
  have "?va < 2 ^ 64" using assms(7) by (auto simp: canonical_def)
  then have "convert_physical_to_virtual x offset phys_start = Inr ?va"
    using assms(7) by (simp add: convert_physical_to_virtual_def usize_add_def usize_max_def virt_addr_new)
  moreover have "phys_addr_new x phys_start = Inr phys_start" using assms(4) by (simp add: phys_addr_new)
  moreover have "usize_add bytes 4095 = Inr (bytes + 4095)" using assms(4) by (simp add: usize_add_def usize_max_def)
  ultimately have run: "xhci_map mp x offset phys_start bytes p a = Inr (?va, p', a')"
    using l(1) assms(2,6) by (simp add: xhci_map_def)
  have vr: "?va mod 4096 = ?r" using assms(5) by (metis add.right_neutral mod_add_right_eq)
  have split: "?va = ?v + ?r" "phys_start = ?f + ?r" by (simp_all add: page_containing frame_containing vr)
  have aligned: "?v mod 4096 = 0" by (simp add: page_containing)
  have t: "translate_addr mp p' (?va + i) = Some (phys_start + i)" if i: "?r + i < 4096 * n" for i
  proof -
    define j where "j = (?r + i) div 4096"
    have j: "j < n" using i by (simp add: j_def div_less_iff_less_mult mult.commute)
    have "?va + i = ?v + (?r + i)" using split(1) by linarith
    then have pg: "page_containing x (?va + i) = ?v + 4096 * j" unfolding j_def by (simp only: page_of [OF aligned])
    have old: "view p (?v + 4096 * j) = None \<or> (\<exists>fl. view p (?v + 4096 * j) = Some (?f + 4096 * j, fl))" using assms(9) j by blast
    obtain fl where w: "view p' (?v + 4096 * j) = Some (?f + 4096 * j, fl)"
    proof (cases "view p (?v + 4096 * j)")
      case None
      then show thesis using that windowed_in [of j n "view p" ?v ?f, OF j] l(4) by simp
    next
      case (Some e)
      then show thesis using that old windowed_old [of "view p" "?v + 4096 * j" ?v ?f n] l(4) by auto
    qed
    have "(?va + i) mod 4096 = (?r + i) mod 4096" unfolding vr [symmetric] by (simp add: mod_add_left_eq)
    then have "?f + 4096 * j + (?va + i) mod 4096 = ?f + (?r + i)" unfolding j_def by simp
    also have "\<dots> = phys_start + i" using split(2) by linarith
    finally have sum: "?f + 4096 * j + (?va + i) mod 4096 = phys_start + i" .
    have "\<not> huge p' (?v + 4096 * j)" using assms(9) j l(2) by simp
    then show ?thesis using translate [of p' "?va + i"] by (simp only: pg w sum option.map prod.case simp_thms)
  qed
  have "\<forall>q. (\<forall>i < n. q \<noteq> ?v + 4096 * i) \<longrightarrow> view p' q = view p q" unfolding l(4) windowed_def by auto
  then show ?thesis using run l(2,3) t by blast
qed

end

section \<open>The heap and the register window are usable\<close>

text \<open>
  C19. After \<open>init\<close> every byte of the kernel heap is mapped, no two of them to the same physical
  address, all to frames that were free before and are not free any more; no other page changes.
\<close>

theorem kernel_heap_usable:
  assumes "page_mapper bf x mp view huge" "pool_ok bf a" "65536 \<le> card (frame_pool bf a)"
    "\<forall>i < 16384. view p (KERNEL_HEAP_START + 4096 * i) = None \<and> \<not> huge p (KERNEL_HEAP_START + 4096 * i)"
  shows "\<exists>p' a' F. kernel_heap_init mp bf x p a = Inr ((KERNEL_HEAP_START, KERNEL_HEAP_SIZE), p', a') \<and>
    inj_on (translate_addr mp p') {KERNEL_HEAP_START..<KERNEL_HEAP_START + KERNEL_HEAP_SIZE} \<and>
    (\<forall>i < KERNEL_HEAP_SIZE. translate_addr mp p' (KERNEL_HEAP_START + i) = Some (F (i div 4096) + i mod 4096)) \<and>
    F ` {..<16384} \<subseteq> frame_pool bf a - frame_pool bf a' \<and> pool_ok bf a' \<and>
    (\<forall>q. q \<notin> (\<lambda>i. KERNEL_HEAP_START + 4096 * i) ` {..<16384} \<longrightarrow> view p' q = view p q)"
  by (rule page_mapper.kernel_heap_maps [OF assms])

theorem kernel_heap_usable_witness:
  "\<exists>p' a'. kernel_heap_init plain_mapper byte_bits x86_model Map.empty (full_allocator 65536) = Inr ((0x114514000000, 0x4000000), p', a') \<and>
    translate_addr plain_mapper p' 0x114514000000 \<noteq> translate_addr plain_mapper p' 0x114514000001"
proof -
  have lim: "(65536 :: nat) < 2 ^ 40" by simp
  note full = full_pool [OF lim]
  have c: "65536 \<le> card (frame_pool byte_bits (full_allocator 65536))" by (simp only: full(2) order.refl)
  have free: "\<forall>i < 16384. id Map.empty (KERNEL_HEAP_START + 4096 * i) = (None :: (nat \<times> u64) option) \<and> \<not> False" by simp
  from kernel_heap_usable [OF plain.page_mapper_axioms full(1) c, OF free] obtain p' a' where
    r: "kernel_heap_init plain_mapper byte_bits x86_model Map.empty (full_allocator 65536) = Inr ((KERNEL_HEAP_START, KERNEL_HEAP_SIZE), p', a')"
      "inj_on (translate_addr plain_mapper p') {KERNEL_HEAP_START..<KERNEL_HEAP_START + KERNEL_HEAP_SIZE}" by (elim exE conjE)
  have k: "KERNEL_HEAP_START = 0x114514000000" "KERNEL_HEAP_SIZE = 0x4000000" by (simp_all add: KERNEL_HEAP_START_def KERNEL_HEAP_SIZE_def)
  have "translate_addr plain_mapper p' 0x114514000000 \<noteq> translate_addr plain_mapper p' 0x114514000001"
    by (rule inj_on_contraD [OF r(2)]) (simp_all add: k)
  with r(1) show ?thesis unfolding k by blast
qed

text \<open>
  C20. The mapper of the XHCI registers returns the address of the window in the direct mapping of
  physical memory, and the bytes of the pages it counts are mapped to the registers; pages that
  already had that mapping keep it.  The count is that of a window that starts at a page
  boundary: for another start the last bytes can lie in a page beyond it, which is not touched.
\<close>

theorem xhci_window:
  assumes "page_mapper bf x mp view huge" "pool_ok bf a" "n = (bytes + 4095) div 4096" "3 * n \<le> card (frame_pool bf a)"
    "phys_start + bytes + 4095 \<le> 2 ^ 52" "offset mod 4096 = 0" "0 < phys_start + offset" "canonical (phys_start + offset)"
    "\<forall>i < n. canonical (phys_start + offset + 4096 * i)"
    "\<forall>i < n. \<not> huge p (page_containing x (phys_start + offset) + 4096 * i) \<and>
       (view p (page_containing x (phys_start + offset) + 4096 * i) = None \<or>
        (\<exists>fl. view p (page_containing x (phys_start + offset) + 4096 * i) = Some (frame_containing x phys_start + 4096 * i, fl)))"
  shows "\<exists>p' a'. xhci_map mp x offset phys_start bytes p a = Inr (phys_start + offset, p', a') \<and> huge p' = huge p \<and> pool_ok bf a' \<and>
    (\<forall>i. phys_start mod 4096 + i < 4096 * n \<longrightarrow> translate_addr mp p' (phys_start + offset + i) = Some (phys_start + i)) \<and>
    (\<forall>q. (\<forall>i < n. q \<noteq> page_containing x (phys_start + offset) + 4096 * i) \<longrightarrow> view p' q = view p q)"
  by (rule page_mapper.xhci_maps [OF assms])

text \<open>A window of two bytes at the end of a page: the second byte is not mapped.\<close>

theorem xhci_window_witness:
  "\<exists>p' a'. xhci_map plain_mapper x86_model 0x10000000 0xFEB00FFF 2 Map.empty wide_allocator = Inr (0x10EB00FFF, p', a') \<and>
    translate_addr plain_mapper p' 0x10EB00FFF = Some 0xFEB00FFF \<and> translate_addr plain_mapper p' 0x10EB01000 = None"
proof -
  have "\<exists>p' a'. xhci_map plain_mapper x86_model 0x10000000 0xFEB00FFF 2 Map.empty wide_allocator = Inr (0xFEB00FFF + 0x10000000, p', a') \<and>
    (\<lambda>_ _. False) p' = (\<lambda>_ :: nat. False) \<and> pool_ok byte_bits a' \<and>
    (\<forall>i. 0xFEB00FFF mod 4096 + i < 4096 * 1 \<longrightarrow> translate_addr plain_mapper p' (0xFEB00FFF + 0x10000000 + i) = Some (0xFEB00FFF + i)) \<and>
    (\<forall>q. (\<forall>i < 1. q \<noteq> page_containing x86_model (0xFEB00FFF + 0x10000000) + 4096 * i) \<longrightarrow> id p' q = id Map.empty q)"
    by (rule xhci_window [OF plain.page_mapper_axioms wide_pool(1), where n = 1]) (simp_all add: wide_pool canonical_def)
  then obtain p' a' where r: "xhci_map plain_mapper x86_model 0x10000000 0xFEB00FFF 2 Map.empty wide_allocator = Inr (0x10EB00FFF, p', a')"
    "translate_addr plain_mapper p' 0x10EB00FFF = Some 0xFEB00FFF" "p' 0x10EB01000 = None"
    by (auto simp: x86_model.page_containing dest: spec [of _ 0])
  then show ?thesis by (simp add: plain_mapper_def)
qed

end
