(* ===== verification/KernelSpace.thy ===== *)
theory KernelSpace
  imports VirtMem
begin

text \<open>
  The statics of the kernel's address space (\<open>memory/mod.rs\<close>) and its access functions to raw memory.
  \<open>PHYSICAL_MEMORY_OFFSET\<close>, \<open>FRAME_ALLOCATOR\<close> and \<open>KERNEL_PAGE_TABLE\<close> are lazy: the first access computes the
  value from the answers of the boot loader and the register \<open>cr3\<close>, later ones find it.  \<open>create_in_space\<close>
  makes the page table of a process from them.  Memory read and
  written as values of a type \<open>T\<close> is a function from addresses to values, \<open>size_of\<close> bytes apart.
\<close>

section \<open>The statics\<close>

record KernelSpace =
  HHDM_REQUEST :: "nat option"
  MEMORY_MAP_REQUEST :: "MemoryEntry list option"
  PHYSICAL_MEMORY_OFFSET :: "nat option"
  FRAME_ALLOCATOR :: "BitmapFrameAllocator option"
  KERNEL_PAGE_TABLE :: "GeneralPageTable option"

definition physical_memory_offset :: "KernelSpace \<Rightarrow> (nat \<times> KernelSpace) result" where
  "physical_memory_offset k = (case PHYSICAL_MEMORY_OFFSET k of Some offset \<Rightarrow> Inr (offset, k)
     | None \<Rightarrow> and_then (unwrap (HHDM_REQUEST k)) (\<lambda>offset. Inr (offset, k\<lparr>PHYSICAL_MEMORY_OFFSET := Some offset\<rparr>)))"

definition kernel_frame_allocator ::
  "bit_field_api \<Rightarrow> x86_api \<Rightarrow> (nat \<Rightarrow> u8) \<Rightarrow> KernelSpace \<Rightarrow> (BitmapFrameAllocator \<times> KernelSpace) result" where
  "kernel_frame_allocator bf x mem k = (case FRAME_ALLOCATOR k of Some a \<Rightarrow> Inr (a, k)
     | None \<Rightarrow>
         and_then (unwrap (MEMORY_MAP_REQUEST k)) (\<lambda>memory_map.
         and_then (physical_memory_offset k) (\<lambda>(offset, k).
         and_then (frame_init bf x offset mem memory_map) (\<lambda>a.
         Inr (a, k\<lparr>FRAME_ALLOCATOR := Some a\<rparr>)))))"

definition kernel_page_table :: "x86_api \<Rightarrow> nat \<Rightarrow> KernelSpace \<Rightarrow> (GeneralPageTable \<times> KernelSpace) result" where
  "kernel_page_table x cr3 k = (case KERNEL_PAGE_TABLE k of Some t \<Rightarrow> Inr (t, k)
     | None \<Rightarrow>
         and_then (physical_memory_offset k) (\<lambda>(offset, k).
         and_then (ref_from_current x offset cr3) (\<lambda>t.
         Inr (t, k\<lparr>KERNEL_PAGE_TABLE := Some t\<rparr>))))"

text \<open>Before anything was accessed, with the answers of the boot loader.\<close>

definition untouched :: "nat option \<Rightarrow> MemoryEntry list option \<Rightarrow> KernelSpace" where
  "untouched hhdm memory_map = \<lparr>HHDM_REQUEST = hhdm, MEMORY_MAP_REQUEST = memory_map, PHYSICAL_MEMORY_OFFSET = None,
     FRAME_ALLOCATOR = None, KERNEL_PAGE_TABLE = None\<rparr>"

text \<open>
  \<open>create_page_table_from_kernel\<close> over the statics: it locks the frame allocator and the kernel's page table, which
  makes them when it is the first to do so, and leaves the allocator as the copy leaves it.
  \<open>cr3\<close> is the register of the processor that calls it, \<open>mem\<close> what the memory holds where the bitmap is placed.
\<close>

definition create_in_space ::
  "'e pte_api \<Rightarrow> bit_field_api \<Rightarrow> x86_api \<Rightarrow> (nat \<Rightarrow> u8) \<Rightarrow> nat \<Rightarrow> 'e table_mem \<times> KernelSpace \<Rightarrow>
   (GeneralPageTable \<times> 'e table_mem \<times> KernelSpace) result" where
  "create_in_space pe bf x mem cr3 st =
     (let (m, k) = st in
      and_then (kernel_frame_allocator bf x mem k) (\<lambda>(a, k).
      and_then (kernel_page_table x cr3 k) (\<lambda>(kernel_table, k).
      and_then (physical_memory_offset k) (\<lambda>(offset, k).
      and_then (create_page_table_from_kernel pe bf x offset kernel_table (m, a)) (\<lambda>(t, m, a).
      Inr (t, m, k\<lparr>FRAME_ALLOCATOR := Some a\<rparr>))))))"

section \<open>Raw memory\<close>

definition read_from_addr :: "(nat \<Rightarrow> 'v) \<Rightarrow> nat \<Rightarrow> 'v" where
  "read_from_addr m addr = m addr"

text \<open>A mutable reference is used by applying a change to the value it refers to.\<close>

definition addr_to_mut_ref :: "nat \<Rightarrow> ('v \<Rightarrow> 'v) \<Rightarrow> (nat \<Rightarrow> 'v) \<Rightarrow> nat \<Rightarrow> 'v" where
  "addr_to_mut_ref addr change m = m(addr := change (m addr))"

definition addr_to_array :: "nat \<Rightarrow> nat \<Rightarrow> nat \<Rightarrow> (nat \<Rightarrow> 'v) \<Rightarrow> 'v list" where
  "addr_to_array size_of addr len m = map (\<lambda>i. m (addr + i * size_of)) [0..<len]"

lemma write_fold:
  assumes "0 < size_of"
  shows "fold (\<lambda>(i, v) m. m(addr + i * size_of := v)) (enumerate n buf) m l =
    (if \<exists>i < length buf. l = addr + (n + i) * size_of then buf ! ((l - addr) div size_of - n) else m l)"
  using assms
proof (induction buf arbitrary: n m)
  case (Cons v buf)
  have idx: "(addr + (n + i) * size_of - addr) div size_of - n = i" for i using Cons.prems by simp
  show ?case
  proof (cases "\<exists>i < length buf. l = addr + (Suc n + i) * size_of")
    case True
    then obtain i where i: "i < length buf" "l = addr + (Suc n + i) * size_of" by blast
    then have "\<exists>j < length (v # buf). l = addr + (n + j) * size_of" by (intro exI [of _ "Suc i"]) simp
    then show ?thesis using Cons.IH [OF Cons.prems, of "Suc n"] i Cons.prems by (auto simp: nth_Cons')
  next
    case False
    then have "(\<exists>j < length (v # buf). l = addr + (n + j) * size_of) \<longleftrightarrow> l = addr + n * size_of"
      by (auto simp: less_Suc_eq_0_disj)
    then show ?thesis using False Cons.IH [OF Cons.prems, of "Suc n"] Cons.prems by auto
  qed
qed simp

text \<open>What \<open>write_for_syscall\<close> writes, \<open>addr_to_array\<close> and \<open>read_from_addr\<close> read back.\<close>

theorem syscall_array_roundtrip:
  assumes "0 < size_of"
  shows "addr_to_array size_of addr (length buf) (write_for_syscall size_of addr buf m) = buf \<and>
    (\<forall>i < length buf. read_from_addr (write_for_syscall size_of addr buf m) (addr + i * size_of) = buf ! i) \<and>
    (\<forall>l. (\<forall>i < length buf. l \<noteq> addr + i * size_of) \<longrightarrow> write_for_syscall size_of addr buf m l = m l)"
proof -
  have "write_for_syscall size_of addr buf m (addr + i * size_of) = buf ! i" if "i < length buf" for i
    using that assms write_fold [OF assms, of addr 0 buf m "addr + i * size_of"] by (auto simp: write_for_syscall_def)
  moreover have "\<forall>l. (\<forall>i < length buf. l \<noteq> addr + i * size_of) \<longrightarrow> write_for_syscall size_of addr buf m l = m l"
    using write_fold [OF assms, of addr 0 buf m] by (auto simp: write_for_syscall_def)
  ultimately show ?thesis by (auto simp: addr_to_array_def read_from_addr_def intro!: nth_equalityI)
qed

theorem syscall_array_roundtrip_witness:
  "addr_to_array 4 0x1000 2 (write_for_syscall 4 0x1000 [7, 8 :: u32] (\<lambda>_. 0)) = [7, 8]"
  using syscall_array_roundtrip [of 4 "0x1000" "[7, 8 :: u32]" "\<lambda>_. 0"] by (simp add: numeral_2_eq_2)

section \<open>Address spaces\<close>

text \<open>
  A number of calls one after the other, each with the \<open>cr3\<close> of its caller, collecting the tables.
  \<open>spaces_ok\<close> is what holds after any of them: the statics are made, the frames of the tables made so far are gone from
  the pool, every one of these tables translates like the kernel's and shares no table with the others.
\<close>

definition create_one ::
  "'e pte_api \<Rightarrow> bit_field_api \<Rightarrow> x86_api \<Rightarrow> (nat \<Rightarrow> u8) \<Rightarrow> nat \<Rightarrow> GeneralPageTable list \<times> 'e table_mem \<times> KernelSpace \<Rightarrow>
   (GeneralPageTable list \<times> 'e table_mem \<times> KernelSpace) result" where
  "create_one pe bf x mem cr3 st =
     (let (ts, m, k) = st in and_then (create_in_space pe bf x mem cr3 (m, k)) (\<lambda>(t, m, k). Inr (ts @ [t], m, k)))"

definition spaces_ok ::
  "'e pte_api \<Rightarrow> bit_field_api \<Rightarrow> nat \<Rightarrow> 'e table_mem \<Rightarrow> nat \<Rightarrow> BitmapFrameAllocator \<Rightarrow>
   GeneralPageTable list \<Rightarrow> 'e table_mem \<Rightarrow> KernelSpace \<Rightarrow> bool" where
  "spaces_ok pe bf offset m0 src a0 ts m k \<longleftrightarrow> (\<exists>a.
     FRAME_ALLOCATOR k = Some a \<and> map_option physical_address (KERNEL_PAGE_TABLE k) = Some src \<and> PHYSICAL_MEMORY_OFFSET k = Some offset \<and>
     pool_ok bf a \<and> frame_pool bf a \<subseteq> frame_pool bf a0 \<and>
     card (frame_pool bf a) + length ts * Suc (needed 4 pe offset m0 src) = card (frame_pool bf a0) \<and>
     (\<forall>p \<in> cells offset (tables 4 pe offset m0 src). m p = m0 p) \<and>
     (\<forall>t \<in> set ts. tables 4 pe offset m (physical_address t) \<subseteq> frame_pool bf a0 - frame_pool bf a \<and>
        (\<forall>va. walk 4 pe offset m (physical_address t) va = walk 4 pe offset m0 src va)) \<and>
     (\<forall>j < length ts. \<forall>i < j. tables 4 pe offset m (physical_address (ts ! i)) \<inter> tables 4 pe offset m (physical_address (ts ! j)) = {}))"

lemma create_one_pair:
  "create_one pe bf x mem cr3 (ts, m, k) = and_then (create_in_space pe bf x mem cr3 (m, k)) (\<lambda>(t, m, k). Inr (ts @ [t], m, k))"
  by (simp add: create_one_def)

context page_copy
begin

lemma current_table:
  assumes "in_window x offset T" "cr3 \<in> T"
  shows "ref_from_current x offset cr3 = Inr \<lparr>pt_inner = cr3 + offset, physical_address = cr3\<rparr>"
  using assms offset_canonical by (simp add: ref_from_current_def in_window_def virt_addr_new)

text \<open>A table whose cells are outside the frames that a later copy takes is not touched by it.\<close>

lemma table_survives:
  assumes "\<forall>p. p \<notin> cells offset N \<longrightarrow> m' p = m p" "\<forall>t \<in> N. t mod 4096 = 0" "t mod 4096 = 0" "tables 4 pe offset m t \<inter> N = {}"
  shows "tables 4 pe offset m' t = tables 4 pe offset m t \<and> needed 4 pe offset m' t = needed 4 pe offset m t \<and>
    walk 4 pe offset m' t va = walk 4 pe offset m t va"
proof (rule tables_local, intro ballI)
  fix p
  assume p: "p \<in> cells offset (tables 4 pe offset m t)"
  have "\<forall>u \<in> tables 4 pe offset m t. u mod 4096 = 0" by (intro ballI tables_aligned [OF _ assms(3)])
  then have "p \<notin> cells offset N" using cells_disjoint [OF _ assms(2,4) p] by blast
  then show "m' p = m p" using assms(1) by blast
qed

lemma space_copied:
  assumes ok: "spaces_ok pe bf offset m0 src a0 ts m k" and room: "length ts * Suc (needed 4 pe offset m0 src) + needed 4 pe offset m0 src < card (frame_pool bf a0)"
    and src: "tables 4 pe offset m0 src \<inter> frame_pool bf a0 = {}" "src mod 4096 = 0" "in_window x offset (frame_pool bf a0 \<union> tables 4 pe offset m0 src)"
    and pool0: "pool_ok bf a0"
  shows "\<exists>t m' k'. create_in_space pe bf x mem cr3 (m, k) = Inr (t, m', k') \<and> spaces_ok pe bf offset m0 src a0 (ts @ [t]) m' k'"
proof -
  obtain a where k: "FRAME_ALLOCATOR k = Some a" "map_option physical_address (KERNEL_PAGE_TABLE k) = Some src" "PHYSICAL_MEMORY_OFFSET k = Some offset"
    and a: "pool_ok bf a" "frame_pool bf a \<subseteq> frame_pool bf a0" "card (frame_pool bf a) + length ts * Suc (needed 4 pe offset m0 src) = card (frame_pool bf a0)"
    and cell: "\<forall>p \<in> cells offset (tables 4 pe offset m0 src). m p = m0 p"
    and old: "\<forall>t \<in> set ts. tables 4 pe offset m (physical_address t) \<subseteq> frame_pool bf a0 - frame_pool bf a \<and>
        (\<forall>va. walk 4 pe offset m (physical_address t) va = walk 4 pe offset m0 src va)"
    and apart: "\<forall>j < length ts. \<forall>i < j. tables 4 pe offset m (physical_address (ts ! i)) \<inter> tables 4 pe offset m (physical_address (ts ! j)) = {}"
    using ok unfolding spaces_ok_def by (elim exE conjE)
  obtain kt where kt: "KERNEL_PAGE_TABLE k = Some kt" "physical_address kt = src" using k(2) by auto
  note same = tables_local [OF cell]
  have need: "needed 4 pe offset m src < card (frame_pool bf a)" using same room a(3) by simp
  have out: "tables 4 pe offset m src \<inter> frame_pool bf a = {}" "in_window x offset (frame_pool bf a \<union> tables 4 pe offset m src)"
    using same src(1,3) a(2) by (auto simp: in_window_def)
  from new_from_address_correct [OF a(1) need out(1) src(2) out(2)] obtain t m' a' where
    run: "new_from_address pe bf x offset src (m, a) = Inr (\<lparr>pt_inner = t + offset, physical_address = t\<rparr>, m', a')"
    and n: "pool_ok bf a'" "frame_pool bf a' \<subseteq> frame_pool bf a" "\<forall>va. walk 4 pe offset m' t va = walk 4 pe offset m src va"
      "tables 4 pe offset m' t \<subseteq> frame_pool bf a - frame_pool bf a'"
      "card (frame_pool bf a) = card (frame_pool bf a') + needed 4 pe offset m src + 1"
      "\<forall>p. p \<notin> cells offset (frame_pool bf a - frame_pool bf a') \<longrightarrow> m' p = m p" by (elim exE conjE)
  let ?t = "\<lparr>pt_inner = t + offset, physical_address = t\<rparr>" and ?k = "k\<lparr>FRAME_ALLOCATOR := Some a'\<rparr>" and ?N = "frame_pool bf a - frame_pool bf a'"
  have call: "create_in_space pe bf x mem cr3 (m, k) = Inr (?t, m', ?k)"
    using run kt by (simp add: create_in_space_def kernel_frame_allocator_def k kernel_page_table_def physical_memory_offset_def
        create_page_table_from_kernel_def)
  have N: "\<forall>t \<in> ?N. t mod 4096 = 0" using pool.pool_frame [OF a(1)] by blast
  have keep: "tables 4 pe offset m' u = tables 4 pe offset m u \<and> walk 4 pe offset m' u va = walk 4 pe offset m u va"
    if "u mod 4096 = 0" "tables 4 pe offset m u \<inter> ?N = {}" for u va using table_survives [OF n(6) N that] by blast
  have keep_old: "tables 4 pe offset m' (physical_address s) = tables 4 pe offset m (physical_address s) \<and>
      walk 4 pe offset m' (physical_address s) va = walk 4 pe offset m (physical_address s) va" if s: "s \<in> set ts" for s va
  proof (rule keep)
    have "physical_address s \<in> frame_pool bf a0" using old s tables_self [of 4 "physical_address s" offset m] by auto
    then show "physical_address s mod 4096 = 0" using pool.pool_frame [OF pool0] by blast
    show "tables 4 pe offset m (physical_address s) \<inter> ?N = {}" using old s by blast
  qed
  have cell': "\<forall>p \<in> cells offset (tables 4 pe offset m0 src). m' p = m0 p"
  proof
    fix p
    assume p: "p \<in> cells offset (tables 4 pe offset m0 src)"
    have "\<forall>u \<in> tables 4 pe offset m0 src. u mod 4096 = 0" by (intro ballI tables_aligned [OF _ src(2)])
    then have "p \<notin> cells offset ?N" using cells_disjoint [OF _ N _ p] src(1) a(2) by blast
    then show "m' p = m0 p" using n(6) cell p by auto
  qed
  have all: "\<forall>s \<in> set (ts @ [?t]). tables 4 pe offset m' (physical_address s) \<subseteq> frame_pool bf a0 - frame_pool bf a' \<and>
      (\<forall>va. walk 4 pe offset m' (physical_address s) va = walk 4 pe offset m0 src va)"
  proof
    fix s
    assume "s \<in> set (ts @ [?t])"
    then consider "s \<in> set ts" | "s = ?t" by auto
    then show "tables 4 pe offset m' (physical_address s) \<subseteq> frame_pool bf a0 - frame_pool bf a' \<and>
        (\<forall>va. walk 4 pe offset m' (physical_address s) va = walk 4 pe offset m0 src va)"
    proof cases
      case 1
      then show ?thesis using bspec [OF old 1] keep_old [OF 1] n(2) by auto
    next
      case 2
      then show ?thesis using n(3,4) a(2) same by auto
    qed
  qed
  have "tables 4 pe offset m' (physical_address ((ts @ [?t]) ! i)) \<inter> tables 4 pe offset m' (physical_address ((ts @ [?t]) ! j)) = {}"
    if "j < length (ts @ [?t])" "i < j" for i j
  proof (cases "j < length ts")
    case True
    then show ?thesis using apart keep_old that(2) by (simp add: nth_append)
  next
    case False
    then have j: "j = length ts" "i < length ts" using that by simp_all
    then have "tables 4 pe offset m' (physical_address (ts ! i)) \<subseteq> frame_pool bf a0 - frame_pool bf a" using old keep_old by simp
    then show ?thesis using j n(4) by (auto simp: nth_append)
  qed
  then have "spaces_ok pe bf offset m0 src a0 (ts @ [?t]) m' ?k"
    unfolding spaces_ok_def using k kt n(1,2,5) a(2,3) same cell' all by (intro exI [of _ a'] conjI) auto
  with call show ?thesis by blast
qed

lemma spaces_copied:
  assumes "tables 4 pe offset m0 src \<inter> frame_pool bf a0 = {}" "src mod 4096 = 0"
    "in_window x offset (frame_pool bf a0 \<union> tables 4 pe offset m0 src)" "pool_ok bf a0"
  shows "spaces_ok pe bf offset m0 src a0 ts m k \<Longrightarrow>
    (length ts + length cr3s) * Suc (needed 4 pe offset m0 src) \<le> card (frame_pool bf a0) \<Longrightarrow>
    \<exists>us m' k'. for_each (create_one pe bf x mem) cr3s (ts, m, k) = Inr (ts @ us, m', k') \<and> length us = length cr3s \<and>
      spaces_ok pe bf offset m0 src a0 (ts @ us) m' k'"
proof (induction cr3s arbitrary: ts m k)
  case Nil
  then show ?case by auto
next
  case (Cons c cr3s)
  have "length ts * Suc (needed 4 pe offset m0 src) + needed 4 pe offset m0 src < card (frame_pool bf a0)"
    using Cons.prems(2) by (simp add: algebra_simps)
  from space_copied [OF Cons.prems(1) this assms] obtain t m1 k1 where
    one: "create_in_space pe bf x mem c (m, k) = Inr (t, m1, k1)" "spaces_ok pe bf offset m0 src a0 (ts @ [t]) m1 k1" by blast
  have "(length (ts @ [t]) + length cr3s) * Suc (needed 4 pe offset m0 src) \<le> card (frame_pool bf a0)" using Cons.prems(2) by simp
  from Cons.IH [OF one(2) this] obtain us m' k' where
    "for_each (create_one pe bf x mem) cr3s (ts @ [t], m1, k1) = Inr ((ts @ [t]) @ us, m', k')" "length us = length cr3s"
    "spaces_ok pe bf offset m0 src a0 ((ts @ [t]) @ us) m' k'" by blast
  then show ?case using one(1) by (intro exI [of _ "t # us"] exI [of _ m'] exI [of _ k']) (simp add: create_one_pair)
qed

end

text \<open>
  C18. Page tables made one after the other for any number of processes, from the answers of the boot loader and with whatever
  table the processor that calls has in \<open>cr3\<close> from the second call on: with frames enough every call returns; every
  table translates every address as the kernel's table, the one in \<open>cr3\<close> at the first call, did, and still does when the
  last call is done; no two of them share a table, none shares one with the kernel's, and the kernel's own is as it was.
\<close>

theorem address_spaces_apart:
  assumes "page_copy bf x pe offset" and "frame_init bf x offset mem entries = Inr a" "pool_ok bf a"
    and "Suc (length later) * Suc (needed 4 pe offset m cr3) \<le> card (frame_pool bf a)"
    and "tables 4 pe offset m cr3 \<inter> frame_pool bf a = {}" "cr3 mod 4096 = 0"
    and "in_window x offset (frame_pool bf a \<union> tables 4 pe offset m cr3)"
  shows "\<exists>ts m' k'. for_each (create_one pe bf x mem) (cr3 # later) ([], m, untouched (Some offset) (Some entries)) = Inr (ts, m', k') \<and>
    length ts = Suc (length later) \<and> (\<forall>va. walk 4 pe offset m' cr3 va = walk 4 pe offset m cr3 va) \<and>
    (\<forall>i < length ts. (\<forall>va. walk 4 pe offset m' (physical_address (ts ! i)) va = walk 4 pe offset m cr3 va) \<and>
       tables 4 pe offset m' (physical_address (ts ! i)) \<inter> tables 4 pe offset m' cr3 = {} \<and>
       (\<forall>j < i. tables 4 pe offset m' (physical_address (ts ! j)) \<inter> tables 4 pe offset m' (physical_address (ts ! i)) = {}))"
proof -
  let ?kt = "\<lparr>pt_inner = cr3 + offset, physical_address = cr3\<rparr>" and ?u = "untouched (Some offset) (Some entries)"
  let ?k = "?u\<lparr>PHYSICAL_MEMORY_OFFSET := Some offset, FRAME_ALLOCATOR := Some a, KERNEL_PAGE_TABLE := Some ?kt\<rparr>"
  have cr3: "cr3 \<in> tables 4 pe offset m cr3"
    using page_entries.tables_self [OF page_copy.axioms(2) [OF assms(1)], of 4 cr3 offset m] by simp
  then have ref: "ref_from_current x offset cr3 = Inr ?kt"
    by (intro page_copy.current_table [OF assms(1,7)] UnI2)
  have first: "create_in_space pe bf x mem cr3 (m, ?u) = create_in_space pe bf x mem cr3 (m, ?k)"
    by (simp add: create_in_space_def kernel_frame_allocator_def kernel_page_table_def physical_memory_offset_def untouched_def assms(2) ref)
  then have start: "for_each (create_one pe bf x mem) (cr3 # later) ([], m, ?u) = for_each (create_one pe bf x mem) (cr3 # later) ([], m, ?k)"
    by (simp add: create_one_pair)
  have "spaces_ok pe bf offset m cr3 a [] m ?k" using assms(3) by (simp add: spaces_ok_def)
  from page_copy.spaces_copied [OF assms(1,5-7,3) this, of "cr3 # later" mem] obtain ts m' k' where
    run: "for_each (create_one pe bf x mem) (cr3 # later) ([], m, ?k) = Inr (ts, m', k')" "length ts = Suc (length later)"
    and ok: "spaces_ok pe bf offset m cr3 a ts m' k'" using assms(4) by auto
  from ok have cell: "\<forall>p \<in> cells offset (tables 4 pe offset m cr3). m' p = m p" by (auto simp: spaces_ok_def)
  note same = page_entries.tables_local [OF page_copy.axioms(2) [OF assms(1)] cell]
  have "(\<forall>va. walk 4 pe offset m' (physical_address (ts ! i)) va = walk 4 pe offset m cr3 va) \<and>
       tables 4 pe offset m' (physical_address (ts ! i)) \<inter> tables 4 pe offset m' cr3 = {} \<and>
       (\<forall>j < i. tables 4 pe offset m' (physical_address (ts ! j)) \<inter> tables 4 pe offset m' (physical_address (ts ! i)) = {})"
    if "i < length ts" for i
  proof -
    have "ts ! i \<in> set ts" using that by simp
    then have "tables 4 pe offset m' (physical_address (ts ! i)) \<subseteq> frame_pool bf a"
      "\<forall>va. walk 4 pe offset m' (physical_address (ts ! i)) va = walk 4 pe offset m cr3 va"
      using ok unfolding spaces_ok_def by blast+
    moreover have "\<forall>j < i. tables 4 pe offset m' (physical_address (ts ! j)) \<inter> tables 4 pe offset m' (physical_address (ts ! i)) = {}"
      using ok that unfolding spaces_ok_def by blast
    ultimately show ?thesis using same assms(5) by blast
  qed
  then show ?thesis using start run same by (intro exI [of _ ts] exI [of _ m'] exI [of _ k']) simp
qed

text \<open>
  A kernel table above the frames of the memory map: entry 3 of the level 4 table leads to a level 3
  table whose entry 1 is a 1 GiB page.
\<close>

definition high_tables :: "u64 table_mem" where
  "high_tables p = (if p = 0x20000 + 8 * 3 then 0x21000 OR PRESENT OR WRITABLE
     else if p = 0x21000 + 8 * 1 then 0x40000000 OR PRESENT OR HUGE_PAGE else 0)"

lemmas high_entry_simps = high_tables_def word_entries_def addr_mask_def PRESENT_def WRITABLE_def HUGE_PAGE_def contains_flag_def

lemma high_descends:
  "descends word_entries 3 (high_tables (0x20000 + 0 + 8 * i)) \<longleftrightarrow> i = 3" "\<not> descends word_entries 2 (high_tables (0x21000 + 0 + 8 * i))"
  by (auto simp: descends_def high_entry_simps; presburger)+

lemma high_level_3:
  "tables 3 word_entries 0 high_tables 0x21000 = {0x21000}" "needed 3 word_entries 0 high_tables 0x21000 = 0"
  by (simp_all add: tables.simps needed.simps numeral_3_eq_3 high_descends [unfolded numeral_2_eq_2, simplified])

lemma high_level_4:
  "tables 4 word_entries 0 high_tables 0x20000 = {0x20000, 0x21000}" "needed 4 word_entries 0 high_tables 0x20000 = 1"
proof -
  have 4: "4 = Suc 3" by simp
  have sub: "pte_addr word_entries (high_tables (0x20000 + 0 + 8 * 3)) = 0x21000" by (simp add: high_entry_simps)
  have t: "(if i = 3 then tables 3 word_entries 0 high_tables
        (pte_addr word_entries (high_tables (0x20000 + 0 + 8 * i))) else {}) = (if i = 3 then {0x21000} else {})"
    and n: "(if i = 3 then Suc (needed 3 word_entries 0 high_tables
        (pte_addr word_entries (high_tables (0x20000 + 0 + 8 * i)))) else 0) = (if i = 3 then 1 else 0)" for i
    using sub high_level_3 by simp_all
  show "tables 4 word_entries 0 high_tables 0x20000 = {0x20000, 0x21000}" unfolding 4 tables.simps high_descends t by auto
  show "needed 4 word_entries 0 high_tables 0x20000 = 1" unfolding 4 needed.simps high_descends n by simp
qed

lemma high_walk: "walk 4 word_entries 0 high_tables 0x20000 (3 * 2 ^ 39 + 2 ^ 30) = Some (0x40000000, [3, 0x81])"
proof -
  have 4: "4 = Suc (Suc 2)" by simp
  show ?thesis unfolding 4 walk.simps by (simp add: table_index_def via_entry_def high_entry_simps)
qed

text \<open>A memory map with 32 usable frames below a reserved region; its bitmap takes the first frame.\<close>

definition high_map :: "MemoryEntry list" where
  "high_map = [\<lparr>base = 0, region_length = 0x20000, entry_type = USABLE\<rparr>,
               \<lparr>base = 0x20000, region_length = 0x20000, entry_type = OTHER 1\<rparr>]"

definition high_allocator :: BitmapFrameAllocator where
  "high_allocator = \<lparr>bitmap = \<lparr>inner = [0xFE, 0xFF, 0xFF, 0xFF, 0, 0, 0, 0]\<rparr>, usable_frames = 31, next_frame = 2\<rparr>"

lemma high_map_init: "frame_init byte_bits x86_model 0 (\<lambda>_. 7) high_map = Inr high_allocator"
proof -
  have zeros: "replicate 8 0 = [0, 0, 0, 0, 0, 0, 0, 0 :: u8]" by (simp add: eval_nat_numeral)
  have fill: "set_range byte_bits 0 32 True \<lparr>inner = replicate 8 0\<rparr> = Inr \<lparr>inner = [255, 255, 255, 255, 0, 0, 0, 0]\<rparr>"
    by (simp add: bitmap_eval zeros)
  have own: "set_range byte_bits 0 1 False \<lparr>inner = [255, 255, 255, 255, 0, 0, 0, 0]\<rparr> = Inr \<lparr>inner = [254, 255, 255, 255, 0, 0, 0, 0]\<rparr>"
    by (simp add: bitmap_eval)
  show ?thesis
    using fill own
    by (simp add: frame_init_def high_map_def high_allocator_def usize_add_def usize_sub_def usize_max_def div_ceil_def
        x86_model_def convert_physical_to_virtual_def canonical_def init_region_def bitmap_new_def upt_eval)
qed

lemma high_pool:
  "frame_pool byte_bits high_allocator = (*) 4096 ` {2..<8}" "pool_ok byte_bits high_allocator" "card (frame_pool byte_bits high_allocator) = 6"
proof -
  have free: "i \<in> free_frames byte_bits high_allocator \<longleftrightarrow> bit (0xFE :: u8) i" if "i < 8" for i
    using that by (simp add: high_allocator_def bits_def capacity_def bitmap_len_def byte_bits_def)
  have "reachable_free byte_bits high_allocator = {i. 2 \<le> i \<and> i < 8 \<and> bit (0xFE :: u8) i}"
    using free by (auto simp: reachable_free_def) (simp_all add: high_allocator_def bitmap_len_def)
  also have "\<dots> = Set.filter (bit (0xFE :: u8)) (set [2..<8])" by auto
  also have "\<dots> = set [2..<8]" by code_simp
  finally have reach: "reachable_free byte_bits high_allocator = {2..<8}" by (simp only: set_upt)
  show p: "frame_pool byte_bits high_allocator = (*) 4096 ` {2..<8}" by (simp add: frame_pool_def reach)
  have "2 \<in> free_frames byte_bits high_allocator" using free [of 2] by simp
  then show "pool_ok byte_bits high_allocator"
    unfolding pool_ok_def reach by (simp add: cursor_inv_def addressable_def) (simp add: high_allocator_def bitmap_len_def)
  show "card (frame_pool byte_bits high_allocator) = 6" by (simp add: p card_image inj_on_def)
qed

lemma high_copy: "page_copy byte_bits x86_model word_entries 0"
  by (intro page_copy.intro page_copy_axioms.intro frame_env_model word_entries.page_entries_axioms) (simp add: canonical_def)

theorem address_spaces_apart_witness:
  "\<exists>t u m' k'. for_each (create_one word_entries byte_bits x86_model (\<lambda>_. 7)) [0x20000, 0x8000]
      ([], high_tables, untouched (Some 0) (Some high_map)) = Inr ([t, u], m', k') \<and>
    walk 4 word_entries 0 m' (physical_address t) (3 * 2 ^ 39 + 2 ^ 30) = Some (0x40000000, [3, 0x81]) \<and>
    walk 4 word_entries 0 m' (physical_address u) (3 * 2 ^ 39 + 2 ^ 30) = Some (0x40000000, [3, 0x81]) \<and>
    tables 4 word_entries 0 m' (physical_address t) \<inter> tables 4 word_entries 0 m' (physical_address u) = {}"
proof -
  have out: "tables 4 word_entries 0 high_tables 0x20000 \<inter> frame_pool byte_bits high_allocator = {}"
    unfolding high_pool(1) high_level_4(1) by auto
  have w: "in_window x86_model 0 (frame_pool byte_bits high_allocator \<union> tables 4 word_entries 0 high_tables 0x20000)"
    unfolding high_pool(1) high_level_4(1)
    by (auto simp: in_window_def convert_physical_to_virtual_def usize_add_def usize_max_def x86_model_def canonical_def)
  have room: "Suc (length [0x8000 :: nat]) * Suc (needed 4 word_entries 0 high_tables 0x20000) \<le> card (frame_pool byte_bits high_allocator)"
    by (simp add: high_level_4(2) high_pool(3))
  have al: "(0x20000 :: nat) mod 4096 = 0" by simp
  from address_spaces_apart [OF high_copy high_map_init high_pool(2) room out al w] obtain ts m' k' where
    r: "for_each (create_one word_entries byte_bits x86_model (\<lambda>_. 7)) [0x20000, 0x8000] ([], high_tables, untouched (Some 0) (Some high_map)) = Inr (ts, m', k')"
    "length ts = 2"
    and all: "\<forall>i < length ts. (\<forall>va. walk 4 word_entries 0 m' (physical_address (ts ! i)) va = walk 4 word_entries 0 high_tables 0x20000 va) \<and>
       tables 4 word_entries 0 m' (physical_address (ts ! i)) \<inter> tables 4 word_entries 0 m' 0x20000 = {} \<and>
       (\<forall>j < i. tables 4 word_entries 0 m' (physical_address (ts ! j)) \<inter> tables 4 word_entries 0 m' (physical_address (ts ! i)) = {})"
    by (elim exE conjE) simp
  then obtain t u where ts: "ts = [t, u]" by (auto simp: length_Suc_conv numeral_2_eq_2)
  have "walk 4 word_entries 0 m' (physical_address t) va = walk 4 word_entries 0 high_tables 0x20000 va"
    "walk 4 word_entries 0 m' (physical_address u) va = walk 4 word_entries 0 high_tables 0x20000 va"
    "tables 4 word_entries 0 m' (physical_address t) \<inter> tables 4 word_entries 0 m' (physical_address u) = {}" for va
    using all [rule_format, of 0] all [rule_format, of 1] by (simp_all add: ts)
  then show ?thesis using r(1) ts high_walk by (intro exI [of _ t] exI [of _ u] exI [of _ m'] exI [of _ k']) simp
qed

end
