(* ===== verification/UserProc.thy ===== *)
theory UserProc
  imports VirtMem Sched Signals
begin

text \<open>
  User processes: the heap of a process (\<open>memory/user_heap.rs\<close>), the process object and the
  loading of a binary (\<open>task/process.rs\<close>), and the creation of a user thread (\<open>task/thread.rs\<close>).

  A \<open>GeneralPageTable\<close> is here the mapper state \<open>'p\<close> with its physical address.  The \<open>talc\<close>
  allocator and the parsed ELF file of the \<open>object\<close> crate are parameters.  As for threads, an
  \<open>Arc\<close> is an object address and \<open>Weak::upgrade\<close> a lookup in the store of live objects.
\<close>

section \<open>The heap of a process\<close>

datatype HeapType = KernelHeap | UserHeap

definition HEAP_START :: nat where "HEAP_START = 20 * 1024 * 1024 * 1024 * 1024"
definition USER_HEAP_INIT_SIZE :: nat where "USER_HEAP_INIT_SIZE = 128 * 1024"

record 'h talc_api =
  talc_new :: "nat \<times> nat \<Rightarrow> 'h"
  talc_extend :: "nat \<times> nat \<Rightarrow> nat \<times> nat \<Rightarrow> 'h \<Rightarrow> 'h"
  talc_allocate :: "nat \<times> nat \<Rightarrow> 'h \<Rightarrow> nat option \<times> 'h"
  talc_deallocate :: "nat \<Rightarrow> nat \<times> nat \<Rightarrow> 'h \<Rightarrow> 'h"

record 'h ProcessHeap =
  heap_type :: HeapType
  heap_size :: nat
  usable_size :: nat
  allocator :: 'h
  heap_process :: "nat option"

definition heap_new :: "'h talc_api \<Rightarrow> HeapType \<Rightarrow> 'h ProcessHeap" where
  "heap_new tc ht =
     (let sz = (case ht of KernelHeap \<Rightarrow> 0 | UserHeap \<Rightarrow> USER_HEAP_INIT_SIZE) in
      \<lparr>heap_type = ht, heap_size = sz, usable_size = sz, allocator = talc_new tc (HEAP_START, sz), heap_process = None\<rparr>)"

abbreviation heap_flags :: u64 where
  "heap_flags \<equiv> PRESENT OR WRITABLE OR USER_ACCESSIBLE"

text \<open>One round of the mapping loops of \<open>init\<close> and \<open>sbrk\<close>, for the page at \<open>HEAP_START + at\<close>.\<close>

definition map_heap_page ::
  "'p mapper_api \<Rightarrow> bit_field_api \<Rightarrow> x86_api \<Rightarrow> nat \<Rightarrow> 'p \<times> BitmapFrameAllocator \<Rightarrow> ('p \<times> BitmapFrameAllocator) result" where
  "map_heap_page mp bf x at st =
     (let (p, a) = st in
      and_then (allocate_frame bf x a) (\<lambda>(frame, a).
      and_then (unwrap frame) (\<lambda>frame.
      and_then (va_add x HEAP_START at) (\<lambda>va.
      and_then (map_to mp (page_containing x va) frame heap_flags p a) (\<lambda>(r, p, a).
      case r of Inl _ \<Rightarrow> Inl UnwrapNone | Inr _ \<Rightarrow> Inr (p, a))))))"

definition heap_init ::
  "'p mapper_api \<Rightarrow> bit_field_api \<Rightarrow> x86_api \<Rightarrow> nat \<Rightarrow> 'h ProcessHeap \<Rightarrow> 'p \<times> BitmapFrameAllocator \<Rightarrow>
   ('h ProcessHeap \<times> 'p \<times> BitmapFrameAllocator) result" where
  "heap_init mp bf x proc h st =
     (case heap_type h of
        UserHeap \<Rightarrow>
          and_then (for_each (\<lambda>i. map_heap_page mp bf x (i * 4096)) [0..<USER_HEAP_INIT_SIZE div 4096] st) (\<lambda>st.
          Inr (h\<lparr>heap_process := Some proc\<rparr>, st))
      | KernelHeap \<Rightarrow> Inr (h, st))"

text \<open>
  \<open>sbrk\<close>: \<open>table\<close> is the page table of the upgraded process, \<open>None\<close> when it has been dropped.
\<close>

definition sbrk_page ::
  "'p mapper_api \<Rightarrow> bit_field_api \<Rightarrow> x86_api \<Rightarrow> nat \<Rightarrow> 'h ProcessHeap \<times> 'p \<times> BitmapFrameAllocator \<Rightarrow>
   ('h ProcessHeap \<times> 'p \<times> BitmapFrameAllocator) result" where
  "sbrk_page mp bf x i st =
     (let (h, pa) = st in
      and_then (map_heap_page mp bf x (heap_size h) pa) (\<lambda>pa.
      and_then (usize_add (heap_size h) 4096) (\<lambda>s.
      and_then (usize_add (usable_size h) 4096) (\<lambda>u.
      Inr (h\<lparr>heap_size := s, usable_size := u\<rparr>, pa)))))"

definition sbrk ::
  "'h talc_api \<Rightarrow> 'p mapper_api \<Rightarrow> bit_field_api \<Rightarrow> x86_api \<Rightarrow> nat \<Rightarrow> 'h ProcessHeap \<Rightarrow> 'p option \<Rightarrow> BitmapFrameAllocator \<Rightarrow>
   ('h ProcessHeap \<times> 'p \<times> BitmapFrameAllocator) result" where
  "sbrk tc mp bf x sz h table a =
     and_then (usize_add sz 4095) (\<lambda>s.
     let page_cnt = s div 4096;
         h = h\<lparr>allocator := talc_extend tc (HEAP_START, heap_size h) (HEAP_START, heap_size h + sz) (allocator h)\<rparr> in
     and_then (unwrap (heap_process h)) (\<lambda>_.
     and_then (unwrap table) (\<lambda>p.
     for_each (sbrk_page mp bf x) [0..<page_cnt] (h, p, a))))"

definition charge :: "nat \<Rightarrow> 'h ProcessHeap \<Rightarrow> 'h ProcessHeap result" where
  "charge sz h = and_then (usize_sub (usable_size h) sz) (\<lambda>u. Inr (h\<lparr>usable_size := u\<rparr>))"

definition heap_allocate ::
  "'h talc_api \<Rightarrow> 'p mapper_api \<Rightarrow> bit_field_api \<Rightarrow> x86_api \<Rightarrow> nat \<times> nat \<Rightarrow> 'h ProcessHeap \<Rightarrow> 'p option \<Rightarrow> BitmapFrameAllocator \<Rightarrow>
   (nat \<times> 'h ProcessHeap \<times> 'p option \<times> BitmapFrameAllocator) result" where
  "heap_allocate tc mp bf x layout h table a =
     (case heap_type h of
        KernelHeap \<Rightarrow> Inl (ExplicitPanic ''Don't use process heaps in kernel mode! Use kernel heap instead!'')
      | UserHeap \<Rightarrow>
          (case talc_allocate tc layout (allocator h) of
             (Some ptr, al) \<Rightarrow> and_then (charge (fst layout) (h\<lparr>allocator := al\<rparr>)) (\<lambda>h. Inr (ptr, h, table, a))
           | (None, al) \<Rightarrow>
               and_then (usize_mul (fst layout) 2) (\<lambda>sz.
               and_then (sbrk tc mp bf x sz (h\<lparr>allocator := al\<rparr>) table a) (\<lambda>(h, p, a).
               case talc_allocate tc layout (allocator h) of
                 (None, _) \<Rightarrow> Inl UnwrapNone
               | (Some ptr, al) \<Rightarrow> and_then (charge (fst layout) (h\<lparr>allocator := al\<rparr>)) (\<lambda>h. Inr (ptr, h, Some p, a))))))"

definition heap_deallocate :: "'h talc_api \<Rightarrow> nat \<Rightarrow> nat \<times> nat \<Rightarrow> 'h ProcessHeap \<Rightarrow> 'h ProcessHeap result" where
  "heap_deallocate tc ptr layout h =
     (case heap_type h of
        KernelHeap \<Rightarrow> Inl (ExplicitPanic ''Don't use process heaps in kernel mode!'')
      | UserHeap \<Rightarrow>
          and_then (if ptr = 0 then Inl UnwrapNone else Inr ()) (\<lambda>_.
          and_then (usize_add (usable_size h) (fst layout)) (\<lambda>u.
          Inr (h\<lparr>allocator := talc_deallocate tc ptr layout (allocator h), usable_size := u\<rparr>))))"

definition clear_page ::
  "'p mapper_api \<Rightarrow> bit_field_api \<Rightarrow> x86_api \<Rightarrow> nat \<Rightarrow> 'p \<times> BitmapFrameAllocator \<Rightarrow> ('p \<times> BitmapFrameAllocator) result" where
  "clear_page mp bf x i st =
     (let (p, a) = st in
      and_then (va_add x HEAP_START (i * 4096)) (\<lambda>va.
      case unmap mp (page_containing x va) p of
        (Inl _, _) \<Rightarrow> Inl UnwrapNone
      | (Inr frame, p) \<Rightarrow> and_then (deallocate_frame bf a frame) (\<lambda>a. Inr (p, a))))"

definition heap_clear ::
  "'p mapper_api \<Rightarrow> bit_field_api \<Rightarrow> x86_api \<Rightarrow> 'h ProcessHeap \<Rightarrow> 'p option \<Rightarrow> BitmapFrameAllocator \<Rightarrow>
   ('h ProcessHeap \<times> 'p \<times> BitmapFrameAllocator) result" where
  "heap_clear mp bf x h table a =
     and_then (usize_add (heap_size h) 4095) (\<lambda>s.
     and_then (unwrap (heap_process h)) (\<lambda>_.
     and_then (unwrap table) (\<lambda>p.
     and_then (for_each (clear_page mp bf x) [0..<s div 4096] (p, a)) (\<lambda>(p, a).
     Inr (h\<lparr>heap_size := 0, usable_size := 0\<rparr>, p, a)))))"

text \<open>
  The invariant: the heap is a whole number of pages, all mapped for the user, and the rest of its
  region of \<open>N\<close> pages is not mapped.
\<close>

definition heap_page :: "nat \<Rightarrow> nat" where
  "heap_page i = HEAP_START + 4096 * i"

definition heap_ok ::
  "('p \<Rightarrow> nat \<rightharpoonup> nat \<times> u64) \<Rightarrow> ('p \<Rightarrow> nat \<Rightarrow> bool) \<Rightarrow> nat \<Rightarrow> nat \<Rightarrow> 'p \<Rightarrow> bool" where
  "heap_ok view huge N n p \<longleftrightarrow> n \<le> N \<and> HEAP_START + 4096 * N \<le> 2 ^ 47 \<and> (\<forall>i<N. \<not> huge p (heap_page i)) \<and>
     (\<forall>i<n. \<exists>f. view p (heap_page i) = Some (f, heap_flags)) \<and> (\<forall>i. n \<le> i \<and> i < N \<longrightarrow> view p (heap_page i) = None)"

lemma heap_page_inject [simp]: "heap_page i = heap_page j \<longleftrightarrow> i = j"
  by (simp add: heap_page_def)

lemma heap_page_aligned: "heap_page i mod 4096 = 0"
proof -
  have "heap_page i = 4096 * (5368709120 + i)" by (simp add: heap_page_def HEAP_START_def)
  then show ?thesis by (metis mod_mult_self1_is_0)
qed

context page_mapper
begin

lemma heap_address:
  assumes "HEAP_START + 4096 * N \<le> 2 ^ 47" "i < N"
  shows "va_add x HEAP_START (4096 * i) = Inr (heap_page i)" "page_containing x (heap_page i) = heap_page i"
  using assms heap_page_aligned [of i]
  by (simp_all add: va_add_def usize_add_def usize_max_def virt_addr_new canonical_def page_containing)
    (simp_all add: heap_page_def)

lemma map_heap_page_ok:
  assumes "heap_ok view huge N n p" "n < N" "pool_ok bf a" "4 \<le> card (frame_pool bf a)"
  obtains p' a' where "map_heap_page mp bf x (4096 * n) (p, a) = Inr (p', a')" "heap_ok view huge N (Suc n) p'"
    "pool_ok bf a'" "card (frame_pool bf a) \<le> card (frame_pool bf a') + 4"
    "\<forall>q. q \<noteq> heap_page n \<longrightarrow> view p' q = view p q" "huge p' = huge p" "frame_pool bf a' \<subseteq> frame_pool bf a"
proof -
  have free: "view p (heap_page n) = None" "\<not> huge p (heap_page n)" using assms(1,2) by (auto simp: heap_ok_def)
  obtain f p' a' where r: "alloc_page mp bf x heap_flags (heap_page n) (p, a) = Inr (Inr (), p', a')"
    "f \<in> frame_pool bf a - frame_pool bf a'" "view p' = (view p)(heap_page n \<mapsto> (f, heap_flags))" "huge p' = huge p" "pool_ok bf a'"
    "frame_pool bf a' \<subseteq> frame_pool bf a" "card (frame_pool bf a) \<le> card (frame_pool bf a') + 4"
    using alloc_page_free [OF assms(3,4) free] .
  have bound: "HEAP_START + 4096 * N \<le> 2 ^ 47" using assms(1) by (simp add: heap_ok_def)
  have "map_heap_page mp bf x (4096 * n) (p, a) = Inr (p', a')"
    using r(1) heap_address [OF bound assms(2)]
    by (auto simp: map_heap_page_def alloc_page_def map_frame_to_page_def and_then_eq_Inr expect_eq_Inr)
  moreover have "heap_ok view huge N (Suc n) p'"
    using assms(1,2) r(3,4) by (auto simp: heap_ok_def less_Suc_eq)
  ultimately show thesis using that r by simp
qed

text \<open>Mapping \<open>k\<close> pages from page \<open>n\<close> on, as both loops do.\<close>

lemma heap_init_ok:
  assumes "heap_ok view huge N 0 p" "32 \<le> N" "pool_ok bf a" "128 \<le> card (frame_pool bf a)" "heap_type h = UserHeap"
  shows "\<exists>p' a'. heap_init mp bf x proc h (p, a) = Inr (h\<lparr>heap_process := Some proc\<rparr>, p', a') \<and>
    heap_ok view huge N 32 p' \<and> pool_ok bf a' \<and> frame_pool bf a' \<subseteq> frame_pool bf a \<and>
    card (frame_pool bf a) \<le> card (frame_pool bf a') + 128 \<and> huge p' = huge p \<and>
    (\<forall>q. q \<notin> heap_page ` {..<32} \<longrightarrow> view p' q = view p q)"
proof -
  let ?I = "\<lambda>i (p', a'). heap_ok view huge N i p' \<and> pool_ok bf a' \<and> frame_pool bf a' \<subseteq> frame_pool bf a \<and>
     card (frame_pool bf a) \<le> card (frame_pool bf a') + 4 * i \<and> huge p' = huge p \<and>
     (\<forall>q. q \<notin> heap_page ` {..<i} \<longrightarrow> view p' q = view p q)"
  have "\<exists>st. for_each (\<lambda>i. map_heap_page mp bf x (i * 4096)) [0..<32] (p, a) = Inr st \<and> ?I 32 st"
  proof (rule for_each_upt_rule [where I = ?I])
    show "?I 0 (p, a)" using assms by simp
  next
    fix i st
    assume i: "i < 32" and st: "?I i st"
    obtain p1 a1 where s: "st = (p1, a1)" by fastforce
    have ok: "heap_ok view huge N i p1" "i < N" "pool_ok bf a1" "4 \<le> card (frame_pool bf a1)" using i st s assms(2,4) by auto
    obtain p' a' where m: "map_heap_page mp bf x (4096 * i) (p1, a1) = Inr (p', a')" "heap_ok view huge N (Suc i) p'"
      "pool_ok bf a'" "card (frame_pool bf a1) \<le> card (frame_pool bf a') + 4"
      "\<forall>q. q \<noteq> heap_page i \<longrightarrow> view p' q = view p1 q" "huge p' = huge p1" "frame_pool bf a' \<subseteq> frame_pool bf a1"
      using map_heap_page_ok [OF ok] .
    have other: "view p' q = view p q" if "q \<notin> heap_page ` {..<Suc i}" for q
    proof -
      have "q \<noteq> heap_page i" "q \<notin> heap_page ` {..<i}" using that by auto
      then show ?thesis using m(5) st s by simp
    qed
    have "frame_pool bf a' \<subseteq> frame_pool bf a" using m(7) st s by auto
    then show "\<exists>s'. map_heap_page mp bf x (i * 4096) st = Inr s' \<and> ?I (Suc i) s'"
      using m other st s by (simp add: mult.commute)
  qed simp
  then show ?thesis using assms(5) by (auto simp: heap_init_def USER_HEAP_INIT_SIZE_def)
qed

lemma sbrk_ok:
  assumes "heap_ok view huge N n p" "heap_size h = 4096 * n" "n + k \<le> N" "k = (sz + 4095) div 4096" "pool_ok bf a"
    "4 * k \<le> card (frame_pool bf a)" "heap_process h = Some proc" "usable_size h \<le> heap_size h"
  shows "\<exists>h' p' a'. sbrk tc mp bf x sz h (Some p) a = Inr (h', p', a') \<and>
    heap_ok view huge N (n + k) p' \<and> heap_size h' = 4096 * (n + k) \<and> heap_size h + sz \<le> heap_size h' \<and>
    usable_size h' = usable_size h + 4096 * k \<and> heap_type h' = heap_type h \<and> heap_process h' = heap_process h \<and>
    allocator h' = talc_extend tc (HEAP_START, heap_size h) (HEAP_START, heap_size h + sz) (allocator h) \<and>
    pool_ok bf a' \<and> (\<forall>q. q \<notin> heap_page ` {n..<n + k} \<longrightarrow> view p' q = view p q)"
proof -
  define h0 where "h0 = h\<lparr>allocator := talc_extend tc (HEAP_START, heap_size h) (HEAP_START, heap_size h + sz) (allocator h)\<rparr>"
  have bound: "HEAP_START + 4096 * N \<le> 2 ^ 47" using assms(1) by (simp add: heap_ok_def)
  let ?I = "\<lambda>i (h', p', a'). heap_ok view huge N (n + i) p' \<and> pool_ok bf a' \<and>
     h' = h0\<lparr>heap_size := 4096 * (n + i), usable_size := usable_size h + 4096 * i\<rparr> \<and>
     card (frame_pool bf a) \<le> card (frame_pool bf a') + 4 * i \<and> (\<forall>q. q \<notin> heap_page ` {n..<n + i} \<longrightarrow> view p' q = view p q)"
  have "\<exists>st. for_each (sbrk_page mp bf x) [0..<k] (h0, p, a) = Inr st \<and> ?I k st"
  proof (rule for_each_upt_rule [where I = ?I])
    show "?I 0 (h0, p, a)" using assms by (simp add: h0_def)
  next
    fix i st
    assume i: "i < k" and st: "?I i st"
    obtain h1 p1 a1 where s: "st = (h1, p1, a1)" by (cases st) auto
    have h1: "h1 = h0\<lparr>heap_size := 4096 * (n + i), usable_size := usable_size h + 4096 * i\<rparr>" using st s by simp
    have ok: "heap_ok view huge N (n + i) p1" "n + i < N" "pool_ok bf a1" "4 \<le> card (frame_pool bf a1)"
      using i st s assms(3,6) by auto
    obtain p' a' where m: "map_heap_page mp bf x (4096 * (n + i)) (p1, a1) = Inr (p', a')" "heap_ok view huge N (Suc (n + i)) p'"
      "pool_ok bf a'" "card (frame_pool bf a1) \<le> card (frame_pool bf a') + 4" "\<forall>q. q \<noteq> heap_page (n + i) \<longrightarrow> view p' q = view p1 q"
      "huge p' = huge p1" "frame_pool bf a' \<subseteq> frame_pool bf a1"
      using map_heap_page_ok [OF ok] .
    have "usable_size h + 4096 * i + 4096 \<le> usize_max" "4096 * (n + i) + 4096 \<le> usize_max"
      using ok(2) bound assms(2,8) by (auto simp: usize_max_def HEAP_START_def)
    then have "sbrk_page mp bf x i st = Inr (h0\<lparr>heap_size := 4096 * (n + Suc i), usable_size := usable_size h + 4096 * Suc i\<rparr>, p', a')"
      using m(1) by (simp add: sbrk_page_def s h1 usize_add_def algebra_simps)
    moreover have "view p' q = view p q" if "q \<notin> heap_page ` {n..<n + Suc i}" for q
    proof -
      have "q \<noteq> heap_page (n + i)" "q \<notin> heap_page ` {n..<n + i}" using that by auto
      then show ?thesis using m(5) st s by simp
    qed
    ultimately show "\<exists>s'. sbrk_page mp bf x i st = Inr s' \<and> ?I (Suc i) s'" using m st s by simp
  qed simp
  then obtain p' a' where r: "for_each (sbrk_page mp bf x) [0..<k] (h0, p, a) =
      Inr (h0\<lparr>heap_size := 4096 * (n + k), usable_size := usable_size h + 4096 * k\<rparr>, p', a')"
    "heap_ok view huge N (n + k) p'" "pool_ok bf a'" "\<forall>q. q \<notin> heap_page ` {n..<n + k} \<longrightarrow> view p' q = view p q" by auto
  have sz: "sz \<le> 4096 * k" using assms(4) by (simp add: mult.commute minus_mod_eq_mult_div [symmetric])
  have "sz + 4095 \<le> usize_max"
    using assms(3,4) bound by (simp add: usize_max_def HEAP_START_def)
  with r(1) assms(4,7) have "sbrk tc mp bf x sz h (Some p) a =
      Inr (h0\<lparr>heap_size := 4096 * (n + k), usable_size := usable_size h + 4096 * k\<rparr>, p', a')"
    by (simp add: sbrk_def usize_add_def h0_def)
  with r sz assms(2,7) show ?thesis by (simp add: h0_def)
qed

lemma clear_page_ok:
  assumes "HEAP_START + 4096 * N \<le> 2 ^ 47" "i < N" "view p (heap_page i) = Some (f, fl)" "\<not> huge p (heap_page i)"
    "f div 4096 < capacity (bitmap a)"
  obtains p' a' where "clear_page mp bf x i (p, a) = Inr (p', a')" "view p' = (view p)(heap_page i := None)" "huge p' = huge p"
    "free_frames bf a' = insert (f div 4096) (free_frames bf a)" "capacity (bitmap a') = capacity (bitmap a)"
    "usable_frames a' = usable_frames a"
proof -
  obtain p' where p': "unmap mp (heap_page i) p = (Inr f, p')" "view p' = (view p)(heap_page i := None)" "huge p' = huge p"
    using unmap_used [OF assms(3,4)] by blast
  obtain b where b: "bitmap_set bf (bitmap a) (f div 4096) True = Inr b" "bitmap_len b = bitmap_len (bitmap a)"
    "bits bf b = insert (f div 4096) (bits bf (bitmap a))"
    by (rule bitmap_set_in [OF assms(5), where v = True]) simp
  have "clear_page mp bf x i (p, a) = Inr (p', a\<lparr>bitmap := b\<rparr>)"
    using p'(1) b(1) heap_address [OF assms(1,2)] by (simp add: clear_page_def deallocate_frame_def mult.commute)
  then show thesis using that p' b by (simp add: capacity_def)
qed

lemma heap_clear_ok:
  assumes "heap_ok view huge N n p" "heap_size h = 4096 * n" "heap_process h = Some proc"
    "\<forall>i<n. \<exists>fl. view p (heap_page i) = Some (F i, fl) \<and> F i div 4096 < capacity (bitmap a)"
  shows "\<exists>p' a'. heap_clear mp bf x h (Some p) a = Inr (h\<lparr>heap_size := 0, usable_size := 0\<rparr>, p', a') \<and>
    heap_ok view huge N 0 p' \<and> (\<forall>q. view p' q = (if q \<in> heap_page ` {..<n} then None else view p q)) \<and>
    free_frames bf a' = free_frames bf a \<union> (\<lambda>i. F i div 4096) ` {..<n} \<and> usable_frames a' = usable_frames a"
proof -
  have H: "n \<le> N" "HEAP_START + 4096 * N \<le> 2 ^ 47" "\<forall>i<N. \<not> huge p (heap_page i)" using assms(1) by (simp_all add: heap_ok_def)
  let ?I = "\<lambda>i (p', a'). (\<forall>q. view p' q = (if q \<in> heap_page ` {..<i} then None else view p q)) \<and> huge p' = huge p \<and>
     free_frames bf a' = free_frames bf a \<union> (\<lambda>i. F i div 4096) ` {..<i} \<and> capacity (bitmap a') = capacity (bitmap a) \<and>
     usable_frames a' = usable_frames a"
  have "\<exists>st. for_each (clear_page mp bf x) [0..<n] (p, a) = Inr st \<and> ?I n st"
  proof (rule for_each_upt_rule [where I = ?I])
    show "?I 0 (p, a)" by simp
  next
    fix i st
    assume i: "i < n" and st: "?I i st"
    obtain p1 a1 where s: "st = (p1, a1)" by fastforce
    from assms(4) i obtain fl where "view p (heap_page i) = Some (F i, fl)" "F i div 4096 < capacity (bitmap a)" by blast
    then have v: "view p1 (heap_page i) = Some (F i, fl)" "\<not> huge p1 (heap_page i)" "F i div 4096 < capacity (bitmap a1)"
      using st s i H(1,3) by auto
    have "i < N" using i H(1) by simp
    obtain p' a' where c: "clear_page mp bf x i (p1, a1) = Inr (p', a')" "view p' = (view p1)(heap_page i := None)" "huge p' = huge p1"
      "free_frames bf a' = insert (F i div 4096) (free_frames bf a1)" "capacity (bitmap a') = capacity (bitmap a1)"
      "usable_frames a' = usable_frames a1"
      using clear_page_ok [OF H(2) \<open>i < N\<close> v] .
    have "?I (Suc i) (p', a')" using c st s by (auto simp: lessThan_Suc)
    then show "\<exists>s'. clear_page mp bf x i st = Inr s' \<and> ?I (Suc i) s'" using c(1) s by blast
  qed simp
  then obtain p' a' where r: "for_each (clear_page mp bf x) [0..<n] (p, a) = Inr (p', a')"
    "\<forall>q. view p' q = (if q \<in> heap_page ` {..<n} then None else view p q)" "huge p' = huge p"
    "free_frames bf a' = free_frames bf a \<union> (\<lambda>i. F i div 4096) ` {..<n}" "usable_frames a' = usable_frames a" by auto
  have "view p' (heap_page i) = None" if "i < N" for i
    using that r(2) assms(1) by (cases "i < n") (auto simp: heap_ok_def)
  then have "heap_ok view huge N 0 p'" using r(3) H by (simp add: heap_ok_def)
  moreover have "usize_add (4096 * n) 4095 = Inr (4096 * n + 4095)"
    using H(1,2) by (simp add: usize_add_def usize_max_def HEAP_START_def)
  moreover have "(4096 * n + 4095) div 4096 = n" by simp
  ultimately show ?thesis using r assms(2,3) by (simp add: heap_clear_def)
qed

end

section \<open>Processes\<close>

record 'p table =
  table_inner :: 'p
  table_address :: u64

record ('p, 'h) Process =
  pid :: u64
  pname :: string
  page_table :: "'p table"
  proc_threads :: "nat list"
  heap :: "'h ProcessHeap"
  signal_manager :: SignalManager
  father :: "nat option"

text \<open>
  The global state the process code works on: the threads and the scheduler, the store of live
  processes, the list \<open>PROCESSES\<close>, the counter of \<open>ProcessId::new\<close>, the frame allocator and memory.
\<close>

record ('p, 'h) System =
  kernel :: Kernel
  store_processes :: "nat \<rightharpoonup> ('p, 'h) Process"
  PROCESSES :: "nat list"
  next_pid :: u64
  frame_allocator :: BitmapFrameAllocator
  memory :: bytes

record Segment =
  seg_address :: nat
  seg_size :: nat
  seg_data :: "u8 list option"

record Binary =
  binary_entry :: u64
  binary_segments :: "Segment list"

text \<open>The third-party code and the machine a process is created with.\<close>

record ('p, 'h) proc_env =
  env_bf :: bit_field_api
  env_x86 :: x86_api
  env_mapper :: "'p mapper_api"
  env_talc :: "'h talc_api"
  env_offset :: nat

definition process_id_new :: "('p, 'h) System \<Rightarrow> u64 \<times> ('p, 'h) System" where
  "process_id_new s = (next_pid s, s\<lparr>next_pid := next_pid s + 1\<rparr>)"

text \<open>\<open>new_table\<close> is the page table that \<open>create_page_table_from_kernel\<close> returns.\<close>

definition process_new :: "'h talc_api \<Rightarrow> string \<Rightarrow> HeapType \<Rightarrow> 'p table \<Rightarrow> ('p, 'h) System \<Rightarrow> ('p, 'h) Process \<times> ('p, 'h) System" where
  "process_new tc name ht new_table s =
     (let (i, s) = process_id_new s in
      (\<lparr>pid = i, pname = name, page_table = new_table, proc_threads = [], heap = heap_new tc ht,
        signal_manager = signal_manager_new 64, father = None\<rparr>, s))"

text \<open>\<open>new_kernel_process\<close>: its heap stays empty, and it is not put into \<open>PROCESSES\<close>.\<close>

definition KERNEL_PROCESS_NAME :: string where "KERNEL_PROCESS_NAME = ''kernel''"

definition new_kernel_process ::
  "('p, 'h) proc_env \<Rightarrow> (BitmapFrameAllocator \<Rightarrow> ('p table \<times> BitmapFrameAllocator) result) \<Rightarrow> nat \<Rightarrow> ('p, 'h) System \<Rightarrow> ('p, 'h) System result" where
  "new_kernel_process e create proc s =
     and_then (create (frame_allocator s)) (\<lambda>(t, a).
     let (pr, s) = process_new (env_talc e) KERNEL_PROCESS_NAME KernelHeap t (s\<lparr>frame_allocator := a\<rparr>) in
     and_then (heap_init (env_mapper e) (env_bf e) (env_x86 e) proc (heap pr) (table_inner (page_table pr), frame_allocator s)) (\<lambda>(h, p, a).
     Inr (s\<lparr>store_processes := (store_processes s)(proc \<mapsto> pr\<lparr>heap := h, page_table := (page_table pr)\<lparr>table_inner := p\<rparr>\<rparr>),
            frame_allocator := a\<rparr>)))"

definition map_segment ::
  "('p, 'h) proc_env \<Rightarrow> Segment \<Rightarrow> 'p \<times> BitmapFrameAllocator \<times> bytes \<Rightarrow> ('p \<times> BitmapFrameAllocator \<times> bytes) result" where
  "map_segment e seg st =
     (let (p, a, m) = st in
      and_then (virt_addr_new (env_x86 e) (seg_address seg)) (\<lambda>segment_address.
      and_then (alloc_range (env_mapper e) (env_bf e) (env_x86 e) segment_address (seg_size seg) heap_flags p a) (\<lambda>(r, p, a).
      case r of
        Inl _ \<Rightarrow> Inl (ExpectFailed ''Failed to allocate memory for ELF segment!'')
      | Inr _ \<Rightarrow>
          (case seg_data seg of
             None \<Rightarrow> Inr (p, a, m)
           | Some data \<Rightarrow>
               and_then (pt_write (env_mapper e) (env_x86 e) (env_offset e) p data segment_address m) (\<lambda>(r, m).
               case r of Inl _ \<Rightarrow> Inl UnwrapNone | Inr _ \<Rightarrow> Inr (p, a, m))))))"

definition map_segments ::
  "('p, 'h) proc_env \<Rightarrow> Segment list \<Rightarrow> 'p \<times> BitmapFrameAllocator \<times> bytes \<Rightarrow> ('p \<times> BitmapFrameAllocator \<times> bytes) result" where
  "map_segments e segs st = for_each (map_segment e) segs st"

text \<open>
  \<open>Thread::new_user_thread\<close>: \<open>addr\<close> and \<open>stack_end\<close> are the address of the new thread object and
  the end of its kernel stack, from the heap.
\<close>

definition new_user_thread ::
  "('p, 'h) proc_env \<Rightarrow> u16 \<times> u16 \<Rightarrow> nat \<Rightarrow> u64 \<Rightarrow> nat \<Rightarrow> u64 \<Rightarrow> ('p, 'h) System \<Rightarrow> ('p, 'h) System result" where
  "new_user_thread e user_segments addr stack_end proc entry_point s =
     (let (t, k) = thread_new proc stack_end (kernel s) in
      and_then (unwrap (store_processes s proc)) (\<lambda>pr.
      and_then (user_stack_new (env_mapper e) (env_bf e) (env_x86 e) (table_inner (page_table pr)) (frame_allocator s)) (\<lambda>(us, p, a).
      let t = t\<lparr>thread_context := context_init (thread_context t) entry_point (of_nat (end_address us))
                  (table_address (page_table pr)) user_segments\<rparr>;
          k = k\<lparr>threads := (threads k)(addr \<mapsto> t), sched := scheduler_add addr (sched k)\<rparr>;
          pr = pr\<lparr>page_table := (page_table pr)\<lparr>table_inner := p\<rparr>, proc_threads := proc_threads pr @ [addr]\<rparr> in
      Inr (s\<lparr>kernel := k, store_processes := (store_processes s)(proc \<mapsto> pr), frame_allocator := a\<rparr>))))"

text \<open>
  \<open>new_user_process\<close>: the ELF parser's result is \<open>binary\<close>, \<open>create\<close> is
  \<open>create_page_table_from_kernel\<close>, \<open>proc\<close> the address of the new process object.
\<close>

definition new_user_process ::
  "('p, 'h) proc_env \<Rightarrow> (BitmapFrameAllocator \<Rightarrow> ('p table \<times> BitmapFrameAllocator) result) \<Rightarrow> u16 \<times> u16 \<Rightarrow>
   nat \<Rightarrow> nat \<Rightarrow> u64 \<Rightarrow> string \<Rightarrow> Binary option \<Rightarrow> ('p, 'h) System \<Rightarrow> ('p, 'h) System result" where
  "new_user_process e create user_segments proc addr stack_end name binary s =
     and_then (expect ''Failed to parse ELF binary!'' binary) (\<lambda>bin.
     and_then (create (frame_allocator s)) (\<lambda>(t, a).
     let (pr, s) = process_new (env_talc e) name UserHeap t (s\<lparr>frame_allocator := a\<rparr>) in
     and_then (heap_init (env_mapper e) (env_bf e) (env_x86 e) proc (heap pr) (table_inner (page_table pr), frame_allocator s)) (\<lambda>(h, p, a).
     and_then (map_segments e (binary_segments bin) (p, a, memory s)) (\<lambda>(p, a, m).
     let pr = pr\<lparr>heap := h, page_table := (page_table pr)\<lparr>table_inner := p\<rparr>\<rparr>;
         s = s\<lparr>store_processes := (store_processes s)(proc \<mapsto> pr), frame_allocator := a, memory := m\<rparr> in
     and_then (new_user_thread e user_segments addr stack_end proc (binary_entry bin) s) (\<lambda>s.
     Inr (s\<lparr>PROCESSES := PROCESSES s @ [proc]\<rparr>))))))"

text \<open>\<open>exit_process\<close> removes the first entry of \<open>PROCESSES\<close> with the process's identifier.\<close>

fun remove_first :: "('a \<Rightarrow> bool) \<Rightarrow> 'a list \<Rightarrow> 'a list" where
  "remove_first P [] = []"
| "remove_first P (x # xs) = (if P x then xs else x # remove_first P xs)"

definition exit_process :: "u64 \<Rightarrow> ('p, 'h) System \<Rightarrow> ('p, 'h) System" where
  "exit_process i s =
     s\<lparr>PROCESSES := remove_first (\<lambda>a. map_option pid (store_processes s a) = Some i) (PROCESSES s)\<rparr>"

text \<open>
  Dropping the last reference: \<open>Drop for Process\<close> has the mapper free empty tables (the parameter
  \<open>clean_up\<close>), and the threads, which only the process owns, go with it; the scheduler is not told.
\<close>

definition process_drop ::
  "('p \<Rightarrow> BitmapFrameAllocator \<Rightarrow> BitmapFrameAllocator) \<Rightarrow> nat \<Rightarrow> ('p, 'h) System \<Rightarrow> ('p, 'h) System result" where
  "process_drop clean_up proc s =
     and_then (unwrap (store_processes s proc)) (\<lambda>pr.
     Inr (s\<lparr>store_processes := (store_processes s)(proc := None),
            frame_allocator := clean_up (table_inner (page_table pr)) (frame_allocator s),
            kernel := (kernel s)\<lparr>threads := (threads (kernel s)) |` (- set (proc_threads pr))\<rparr>\<rparr>))"

section \<open>Loading a binary\<close>

definition seg_pages :: "Segment \<Rightarrow> nat list" where
  "seg_pages seg = pages_of (seg_address seg) (seg_size seg)"

definition seg_ok :: "Segment \<Rightarrow> bool" where
  "seg_ok seg \<longleftrightarrow> 0 < seg_size seg \<and> seg_address seg + seg_size seg < 2 ^ 47 \<and>
     (\<forall>d. seg_data seg = Some d \<longrightarrow> length d \<le> seg_size seg)"

text \<open>\<open>byte_loc\<close> is where the kernel's window shows a byte of an address space.\<close>

definition byte_loc :: "('p \<Rightarrow> nat \<rightharpoonup> nat \<times> u64) \<Rightarrow> nat \<Rightarrow> 'p \<Rightarrow> nat \<Rightarrow> nat" where
  "byte_loc view offset p va = fst (the (view p (va - va mod 4096))) + va mod 4096 + offset"

definition frame_bytes :: "nat \<Rightarrow> nat set \<Rightarrow> nat set" where
  "frame_bytes offset F = {f + j + offset | f j. f \<in> F \<and> j < 4096}"

lemma frame_bytesI: "f \<in> F \<Longrightarrow> j < 4096 \<Longrightarrow> f + j + offset \<in> frame_bytes offset F"
  by (auto simp: frame_bytes_def)

definition byte_window :: "x86_api \<Rightarrow> nat \<Rightarrow> nat set \<Rightarrow> bool" where
  "byte_window x offset F \<longleftrightarrow> (\<forall>f \<in> F. \<forall>j < 4096. convert_physical_to_virtual x offset (f + j) = Inr (f + j + offset))"

lemma pages_of_iff:
  assumes "0 < len"
  shows "q \<in> set (pages_of start len) \<longleftrightarrow> q mod 4096 = 0 \<and> start div 4096 \<le> q div 4096 \<and> q div 4096 \<le> (start + len - 1) div 4096"
  by (auto simp: pages_of_def image_iff less_Suc_eq_le)

lemma page_in_range: "i < len \<Longrightarrow> start + i - (start + i) mod 4096 \<in> set (pages_of start len)"
  by (auto simp: pages_of_iff minus_mod_eq_mult_div intro!: div_le_mono)

lemma frame_loc_inject:
  assumes "f mod 4096 = 0" "g mod 4096 = 0" "i < 4096" "j < 4096" "f + i + offset = g + j + offset"
  shows "f = g \<and> i = (j :: nat)"
proof -
  from assms(1,2) obtain p q where pq: "f = 4096 * p" "g = 4096 * q" by (auto simp: mod_eq_0_iff_dvd dvd_def)
  with assms(5) have e: "4096 * p + i = 4096 * q + j" by simp
  then have "(4096 * p + i) div 4096 = (4096 * q + j) div 4096" by simp
  with assms(3,4) have "p = q" by simp
  with e pq show ?thesis by simp
qed

lemma frame_bytes_disjoint:
  assumes "\<forall>f \<in> F \<union> G. f mod 4096 = 0" "F \<inter> G = {}" "l \<in> frame_bytes offset F"
  shows "l \<notin> frame_bytes offset G"
proof
  assume "l \<in> frame_bytes offset G"
  then obtain g j where g: "g \<in> G" "j < 4096" "l = g + j + offset" by (auto simp: frame_bytes_def)
  from assms(3) obtain f i where f: "f \<in> F" "i < 4096" "l = f + i + offset" by (auto simp: frame_bytes_def)
  with g assms(1) frame_loc_inject [of f g i j offset] have "f = g" by simp
  with f(1) g(1) assms(2) show False by blast
qed

context page_mapper
begin

text \<open>Bytes of pages mapped to different frames are at different locations.\<close>

lemma located_bytes:
  assumes "\<And>i. i < n \<Longrightarrow> \<exists>f \<in> F. \<exists>fl. view p (address + i - (address + i) mod 4096) = Some (f, fl)"
    and "\<And>i. i < n \<Longrightarrow> \<not> huge p (address + i - (address + i) mod 4096)" and "byte_window x offset F"
  shows "located x view huge offset p address n (\<lambda>i. byte_loc view offset p (address + i))"
  unfolding located_def
proof (intro allI impI)
  fix i
  assume i: "i < n"
  let ?va = "address + i"
  from assms(1) [OF i] obtain f fl where f: "f \<in> F" "view p (?va - ?va mod 4096) = Some (f, fl)" by blast
  have "convert_physical_to_virtual x offset (f + ?va mod 4096) = Inr (f + ?va mod 4096 + offset)"
    using assms(3) f(1) by (simp add: byte_window_def)
  then show "\<exists>f fl. view p (page_containing x ?va) = Some (f, fl) \<and> \<not> huge p (page_containing x ?va) \<and>
      convert_physical_to_virtual x offset (f + ?va mod 4096) = Inr (byte_loc view offset p ?va)"
    using f(2) assms(2) [OF i] by (simp add: page_containing byte_loc_def)
qed

lemma byte_loc_inj:
  assumes "\<forall>q \<in> set ps. \<exists>fl. view p q = Some (F q, fl) \<and> F q mod 4096 = 0" and "inj_on F (set ps)"
    and "\<forall>i<n. address + i - (address + i) mod 4096 \<in> set ps"
  shows "inj_on (\<lambda>i. byte_loc view offset p (address + i)) {..<n}"
proof (rule inj_onI)
  fix i j
  assume ij: "i \<in> {..<n}" "j \<in> {..<n}" and eq: "byte_loc view offset p (address + i) = byte_loc view offset p (address + j)"
  let ?q = "address + i - (address + i) mod 4096" and ?r = "address + j - (address + j) mod 4096"
  have qr: "?q \<in> set ps" "?r \<in> set ps" using assms(3) ij by auto
  from bspec [OF assms(1) qr(1)] bspec [OF assms(1) qr(2)] obtain fl fl' where
    v: "view p ?q = Some (F ?q, fl)" "view p ?r = Some (F ?r, fl')" "F ?q mod 4096 = 0" "F ?r mod 4096 = 0" by auto
  with eq have "F ?q + (address + i) mod 4096 + offset = F ?r + (address + j) mod 4096 + offset" by (simp add: byte_loc_def)
  then have F: "F ?q = F ?r" and md: "(address + i) mod 4096 = (address + j) mod 4096"
    using frame_loc_inject [OF v(3,4), of "(address + i) mod 4096" "(address + j) mod 4096" offset] by simp_all
  have pg: "?q = ?r" using inj_onD [OF assms(2) F qr] .
  have "address + i = ?q + (address + i) mod 4096" by simp
  also have "\<dots> = ?r + (address + j) mod 4096" using pg md by (rule arg_cong2 [where f = "(+)"])
  also have "\<dots> = address + j" by simp
  finally show "i = j" by simp
qed

text \<open>A range that has been allocated: every page has a frame of its own, and no other page changed.\<close>

lemma alloc_range_frames:
  assumes "pool_ok bf a" "0 < len" "start + len < 2 ^ 47" "4 * length (pages_of start len) \<le> card (frame_pool bf a)"
    "\<forall>q \<in> set (pages_of start len). view p q = None \<and> \<not> huge p q"
  obtains p' a' where "alloc_range mp bf x start len flags p a = Inr (Inr (), p', a')"
    "\<forall>q \<in> set (pages_of start len). view p' q = Some (fst (the (view p' q)), flags) \<and>
       fst (the (view p' q)) \<in> frame_pool bf a - frame_pool bf a'"
    "inj_on (\<lambda>q. fst (the (view p' q))) (set (pages_of start len))" "\<forall>q. q \<notin> set (pages_of start len) \<longrightarrow> view p' q = view p q"
    "huge p' = huge p" "pool_ok bf a'" "frame_pool bf a' \<subseteq> frame_pool bf a"
    "card (frame_pool bf a) \<le> card (frame_pool bf a') + 4 * length (pages_of start len)"
proof -
  let ?ps = "pages_of start len"
  from alloc_range_free [OF assms, of flags]
  obtain fs p' a' where 1: "alloc_range mp bf x start len flags p a = Inr (Inr (), p', a')" "length fs = length ?ps" "distinct fs"
    "set fs \<subseteq> frame_pool bf a - frame_pool bf a'" "view p' = (view p)(?ps [\<mapsto>] map (\<lambda>f. (f, flags)) fs)" "huge p' = huge p"
    "pool_ok bf a'" "frame_pool bf a' \<subseteq> frame_pool bf a" "card (frame_pool bf a) \<le> card (frame_pool bf a') + 4 * length ?ps"
    by (elim exE conjE) (rule that)
  define F where "F q = fst (the (view p' q))" for q
  have nth: "view p' (?ps ! k) = Some (fs ! k, flags)" if "k < length ?ps" for k
    using that 1(2,5) map_upds_nth [OF distinct_pages_of, of "map (\<lambda>f. (f, flags)) fs" start len k "view p"] by simp
  have "view p' q = Some (F q, flags) \<and> F q \<in> frame_pool bf a - frame_pool bf a'" if q: "q \<in> set ?ps" for q
  proof -
    from q obtain k where k: "k < length ?ps" "q = ?ps ! k" by (metis in_set_conv_nth)
    then have "fs ! k \<in> set fs" using 1(2) by simp
    with nth [OF k(1)] k(2) 1(4) show ?thesis by (auto simp: F_def)
  qed
  moreover have "inj_on F (set ?ps)"
  proof (rule inj_onI)
    fix q r
    assume "q \<in> set ?ps" "r \<in> set ?ps" "F q = F r"
    then obtain k l where kl: "k < length ?ps" "q = ?ps ! k" "l < length ?ps" "r = ?ps ! l" by (metis in_set_conv_nth)
    with nth \<open>F q = F r\<close> have "fs ! k = fs ! l" by (simp add: F_def)
    with kl 1(2,3) show "q = r" by (simp add: nth_eq_iff_index_eq)
  qed
  moreover have "\<forall>q. q \<notin> set ?ps \<longrightarrow> view p' q = view p q" using 1(5) by (simp add: map_upds_apply_nontin)
  ultimately show thesis
    using 1(1,6-9) by (intro that [of p' a']) (simp_all only: F_def [abs_def] simp_thms, blast+)
qed

lemma map_segment_ok:
  assumes env: "env_bf e = bf" "env_x86 e = x" "env_mapper e = mp"
    and ok: "pool_ok bf a" and seg: "seg_ok seg" and room: "4 * length (seg_pages seg) \<le> card (frame_pool bf a)"
    and free: "\<forall>q \<in> set (seg_pages seg). view p q = None \<and> \<not> huge p q" and win: "byte_window x (env_offset e) (frame_pool bf a)"
  shows "\<exists>p' a' m'. map_segment e seg (p, a, m) = Inr (p', a', m') \<and> pool_ok bf a' \<and> frame_pool bf a' \<subseteq> frame_pool bf a \<and>
    card (frame_pool bf a) \<le> card (frame_pool bf a') + 4 * length (seg_pages seg) \<and> huge p' = huge p \<and>
    (\<forall>q. q \<notin> set (seg_pages seg) \<longrightarrow> view p' q = view p q) \<and>
    (\<forall>q \<in> set (seg_pages seg). \<exists>f \<in> frame_pool bf a - frame_pool bf a'. view p' q = Some (f, heap_flags)) \<and>
    (\<forall>d i. seg_data seg = Some d \<longrightarrow> i < length d \<longrightarrow> m' (byte_loc view (env_offset e) p' (seg_address seg + i)) = d ! i) \<and>
    (\<forall>l. l \<notin> frame_bytes (env_offset e) (frame_pool bf a - frame_pool bf a') \<longrightarrow> m' l = m l)"
proof -
  let ?s = "seg_address seg" and ?n = "seg_size seg" and ?o = "env_offset e" and ?ps = "seg_pages seg"
  have len: "0 < ?n" "?s + ?n < 2 ^ 47" using seg by (simp_all add: seg_ok_def)
  obtain p' a' where 1: "alloc_range mp bf x ?s ?n heap_flags p a = Inr (Inr (), p', a')"
    "\<forall>q \<in> set ?ps. view p' q = Some (fst (the (view p' q)), heap_flags) \<and> fst (the (view p' q)) \<in> frame_pool bf a - frame_pool bf a'"
    "inj_on (\<lambda>q. fst (the (view p' q))) (set ?ps)" "\<forall>q. q \<notin> set ?ps \<longrightarrow> view p' q = view p q" "huge p' = huge p" "pool_ok bf a'"
    "frame_pool bf a' \<subseteq> frame_pool bf a" "card (frame_pool bf a) \<le> card (frame_pool bf a') + 4 * length ?ps"
    using alloc_range_frames [OF ok len, folded seg_pages_def, OF room free] .
  define F where "F q = fst (the (view p' q))" for q
  have mapped: "view p' q = Some (F q, heap_flags) \<and> F q \<in> frame_pool bf a - frame_pool bf a'" if "q \<in> set ?ps" for q
    using that 1(2) by (simp add: F_def)
  have inj: "inj_on F (set ?ps)" using 1(3) by (simp add: F_def [abs_def])
  note outside = 1(4)
  have aligned: "F q mod 4096 = 0" if "q \<in> set ?ps" for q
    using mapped [OF that] pool.pool_frame [OF ok] by blast
  have in_ps: "?s + i - (?s + i) mod 4096 \<in> set ?ps" if "i < ?n" for i
    using that by (simp add: seg_pages_def page_in_range)
  have va: "virt_addr_new x ?s = Inr ?s" using len by (simp add: virt_addr_new canonical_def)
  show ?thesis
  proof (cases "seg_data seg")
    case None
    then have "map_segment e seg (p, a, m) = Inr (p', a', m)" using 1(1) env va by (simp add: map_segment_def)
    moreover have "\<forall>q \<in> set ?ps. \<exists>f \<in> frame_pool bf a - frame_pool bf a'. view p' q = Some (f, heap_flags)"
      using mapped by blast
    ultimately show ?thesis using 1 None outside
      by (intro exI [of _ p'] exI [of _ a'] exI [of _ m]) simp
  next
    case (Some d)
    let ?L = "\<lambda>i. byte_loc view ?o p' (?s + i)"
    have d: "length d \<le> ?n" using seg Some by (simp add: seg_ok_def)
    have loc: "located x view huge ?o p' ?s (length d) ?L"
    proof (rule located_bytes [OF _ _ win])
      fix i
      assume "i < length d"
      then have "?s + i - (?s + i) mod 4096 \<in> set ?ps" using d in_ps by simp
      then show "\<exists>f \<in> frame_pool bf a. \<exists>fl. view p' (?s + i - (?s + i) mod 4096) = Some (f, fl)"
        and "\<not> huge p' (?s + i - (?s + i) mod 4096)" using mapped free 1(5) by auto
    qed
    have injL: "inj_on ?L {..<length d}"
      using d in_ps mapped aligned by (intro byte_loc_inj [OF _ inj]) auto
    have bound: "?s + length d \<le> 2 ^ 47" using len d by simp
    from write_located [OF loc bound injL order_refl, of m] obtain m' where m': "pt_write mp x ?o p' d ?s m = Inr (Inr (), m')"
      "\<forall>i < length d. m' (?L i) = d ! i" "\<forall>l. l \<notin> ?L ` {..<length d} \<longrightarrow> m' l = m l" by blast
    have "?L i \<in> frame_bytes ?o (frame_pool bf a - frame_pool bf a')" if "i < length d" for i
    proof -
      have "?s + i - (?s + i) mod 4096 \<in> set ?ps" using that d in_ps by simp
      from mapped [OF this] show ?thesis by (simp add: byte_loc_def frame_bytesI)
    qed
    then have "?L ` {..<length d} \<subseteq> frame_bytes ?o (frame_pool bf a - frame_pool bf a')" by blast
    then have rest: "\<forall>l. l \<notin> frame_bytes ?o (frame_pool bf a - frame_pool bf a') \<longrightarrow> m' l = m l"
      using m'(3) by blast
    have "map_segment e seg (p, a, m) = Inr (p', a', m')"
      using 1(1) env va m'(1) Some by (simp add: map_segment_def)
    moreover have "\<forall>q \<in> set ?ps. \<exists>f \<in> frame_pool bf a - frame_pool bf a'. view p' q = Some (f, heap_flags)"
      using mapped by blast
    ultimately show ?thesis using 1 Some outside m'(2) rest
      by (intro exI [of _ p'] exI [of _ a'] exI [of _ m']) simp
  qed
qed

end

text \<open>
  A segment is loaded: its pages are mapped for the user to frames from \<open>F\<close>, and the bytes of its
  data are in them.
\<close>

definition seg_loaded :: "('p \<Rightarrow> nat \<rightharpoonup> nat \<times> u64) \<Rightarrow> nat \<Rightarrow> nat set \<Rightarrow> 'p \<Rightarrow> bytes \<Rightarrow> Segment \<Rightarrow> bool" where
  "seg_loaded view offset F p m seg \<longleftrightarrow> (\<forall>q \<in> set (seg_pages seg). \<exists>f \<in> F. view p q = Some (f, heap_flags)) \<and>
     (\<forall>d i. seg_data seg = Some d \<longrightarrow> i < length d \<longrightarrow> m (byte_loc view offset p (seg_address seg + i)) = d ! i)"

definition pages_apart :: "Segment list \<Rightarrow> bool" where
  "pages_apart segs \<longleftrightarrow> sorted_wrt (\<lambda>s t. set (seg_pages s) \<inter> set (seg_pages t) = {}) segs"

lemma seg_byte_page:
  assumes "seg_ok seg" "seg_data seg = Some d" "i < length d"
  shows "seg_address seg + i - (seg_address seg + i) mod 4096 \<in> set (seg_pages seg)"
  using assms by (auto simp: seg_ok_def seg_pages_def intro: page_in_range)

lemma seg_loaded_mono:
  assumes "seg_loaded view offset F p m seg" "F \<subseteq> H"
  shows "seg_loaded view offset H p m seg"
proof -
  have "\<exists>f \<in> H. view p q = Some (f, heap_flags)" if q: "q \<in> set (seg_pages seg)" for q
  proof -
    obtain f where "f \<in> F" "view p q = Some (f, heap_flags)" using assms(1) q by (auto simp: seg_loaded_def)
    then show ?thesis using assms(2) by blast
  qed
  then show ?thesis using assms(1) by (simp add: seg_loaded_def)
qed

text \<open>What has been loaded stays in place when other pages and other frames change.\<close>

lemma seg_loaded_stable:
  assumes "seg_loaded view offset F p m seg" "seg_ok seg" "\<forall>q \<in> set (seg_pages seg). view p' q = view p q"
    "\<forall>l. l \<notin> frame_bytes offset G \<longrightarrow> m' l = m l" "F \<inter> G = {}" "\<forall>f \<in> F \<union> G. f mod 4096 = 0" "F \<subseteq> H"
  shows "seg_loaded view offset H p' m' seg"
proof -
  have "m' (byte_loc view offset p' (seg_address seg + i)) = d ! i" if d: "seg_data seg = Some d" "i < length d" for d i
  proof -
    let ?va = "seg_address seg + i"
    have q: "?va - ?va mod 4096 \<in> set (seg_pages seg)" using seg_byte_page [OF assms(2) d] .
    then obtain f where f: "f \<in> F" "view p (?va - ?va mod 4096) = Some (f, heap_flags)"
      using assms(1) by (auto simp: seg_loaded_def)
    have "byte_loc view offset p' ?va = byte_loc view offset p ?va" using assms(3) q by (simp add: byte_loc_def)
    moreover have "byte_loc view offset p ?va \<in> frame_bytes offset F" using f by (simp add: byte_loc_def frame_bytesI)
    then have "byte_loc view offset p ?va \<notin> frame_bytes offset G"
      using frame_bytes_disjoint [OF assms(6,5)] by blast
    ultimately show ?thesis using assms(1,4) d by (simp add: seg_loaded_def)
  qed
  moreover have "\<exists>f \<in> H. view p' q = Some (f, heap_flags)" if "q \<in> set (seg_pages seg)" for q
    using assms(1,3,7) that unfolding seg_loaded_def by (metis subsetD)
  ultimately show ?thesis by (simp add: seg_loaded_def)
qed

context page_mapper
begin

lemma map_segments_ok:
  assumes env: "env_bf e = bf" "env_x86 e = x" "env_mapper e = mp"
    and "pool_ok bf a" "\<forall>seg \<in> set segs. seg_ok seg" "pages_apart segs"
    "4 * sum_list (map (\<lambda>s. length (seg_pages s)) segs) \<le> card (frame_pool bf a)"
    "\<forall>seg \<in> set segs. \<forall>q \<in> set (seg_pages seg). view p q = None \<and> \<not> huge p q"
    "byte_window x (env_offset e) (frame_pool bf a)"
  shows "\<exists>p' a' m'. map_segments e segs (p, a, m) = Inr (p', a', m') \<and> pool_ok bf a' \<and> frame_pool bf a' \<subseteq> frame_pool bf a \<and>
    card (frame_pool bf a) \<le> card (frame_pool bf a') + 4 * sum_list (map (\<lambda>s. length (seg_pages s)) segs) \<and> huge p' = huge p \<and>
    (\<forall>q. (\<forall>seg \<in> set segs. q \<notin> set (seg_pages seg)) \<longrightarrow> view p' q = view p q) \<and>
    (\<forall>seg \<in> set segs. seg_loaded view (env_offset e) (frame_pool bf a - frame_pool bf a') p' m' seg) \<and>
    (\<forall>l. l \<notin> frame_bytes (env_offset e) (frame_pool bf a - frame_pool bf a') \<longrightarrow> m' l = m l)"
  using assms(4-)
proof (induction segs arbitrary: p a m)
  case Nil
  then show ?case by (simp add: map_segments_def)
next
  case (Cons seg segs)
  let ?o = "env_offset e"
  from Cons.prems have seg: "seg_ok seg" "4 * length (seg_pages seg) \<le> card (frame_pool bf a)"
    "\<forall>q \<in> set (seg_pages seg). view p q = None \<and> \<not> huge p q"
    and rest: "\<forall>s \<in> set segs. seg_ok s" "pages_apart segs" by (auto simp: pages_apart_def)
  have apart: "\<forall>s \<in> set segs. set (seg_pages seg) \<inter> set (seg_pages s) = {}" using Cons.prems(3) by (simp add: pages_apart_def)
  from map_segment_ok [OF env Cons.prems(1) seg Cons.prems(6), of m] obtain p1 a1 m1 where
    1: "map_segment e seg (p, a, m) = Inr (p1, a1, m1)" "pool_ok bf a1" "frame_pool bf a1 \<subseteq> frame_pool bf a"
      "card (frame_pool bf a) \<le> card (frame_pool bf a1) + 4 * length (seg_pages seg)" "huge p1 = huge p"
      "\<forall>q. q \<notin> set (seg_pages seg) \<longrightarrow> view p1 q = view p q"
      "\<forall>q \<in> set (seg_pages seg). \<exists>f \<in> frame_pool bf a - frame_pool bf a1. view p1 q = Some (f, heap_flags)"
      "\<forall>d i. seg_data seg = Some d \<longrightarrow> i < length d \<longrightarrow> m1 (byte_loc view ?o p1 (seg_address seg + i)) = d ! i"
      "\<forall>l. l \<notin> frame_bytes ?o (frame_pool bf a - frame_pool bf a1) \<longrightarrow> m1 l = m l"
    by (elim exE conjE) (rule that)
  have loaded: "seg_loaded view ?o (frame_pool bf a - frame_pool bf a1) p1 m1 seg" using 1(7,8) by (simp add: seg_loaded_def)
  have free1: "\<forall>s \<in> set segs. \<forall>q \<in> set (seg_pages s). view p1 q = None \<and> \<not> huge p1 q"
    using Cons.prems(5) apart 1(5,6) by (metis disjoint_iff list.set_intros(2))
  have win1: "byte_window x ?o (frame_pool bf a1)" using Cons.prems(6) 1(3) by (auto simp: byte_window_def)
  have room1: "4 * sum_list (map (\<lambda>s. length (seg_pages s)) segs) \<le> card (frame_pool bf a1)" using Cons.prems(4) 1(4) by simp
  from Cons.IH [OF 1(2) rest room1 free1 win1, of m1] obtain p' a' m' where
    2: "map_segments e segs (p1, a1, m1) = Inr (p', a', m')" "pool_ok bf a'" "frame_pool bf a' \<subseteq> frame_pool bf a1"
      "card (frame_pool bf a1) \<le> card (frame_pool bf a') + 4 * sum_list (map (\<lambda>s. length (seg_pages s)) segs)" "huge p' = huge p1"
      "\<forall>q. (\<forall>seg \<in> set segs. q \<notin> set (seg_pages seg)) \<longrightarrow> view p' q = view p1 q"
      "\<forall>seg \<in> set segs. seg_loaded view ?o (frame_pool bf a1 - frame_pool bf a') p' m' seg"
      "\<forall>l. l \<notin> frame_bytes ?o (frame_pool bf a1 - frame_pool bf a') \<longrightarrow> m' l = m1 l"
    by (elim exE conjE) (rule that)
  have al: "\<forall>f \<in> frame_pool bf a. f mod 4096 = 0" using pool.pool_frame [OF Cons.prems(1)] by blast
  have P: "frame_pool bf a - frame_pool bf a1 \<subseteq> frame_pool bf a - frame_pool bf a'"
    "frame_pool bf a1 - frame_pool bf a' \<subseteq> frame_pool bf a - frame_pool bf a'" using 1(3) 2(3) by auto
  have "seg_loaded view ?o (frame_pool bf a - frame_pool bf a') p' m' seg"
  proof (rule seg_loaded_stable [OF loaded seg(1) _ 2(8)])
    show "\<forall>q \<in> set (seg_pages seg). view p' q = view p1 q" using 2(6) apart by (metis disjoint_iff)
  qed (use al 1(3) 2(3) in auto)
  moreover have "seg_loaded view ?o (frame_pool bf a - frame_pool bf a') p' m' s" if "s \<in> set segs" for s
    using 2(7) that by (intro seg_loaded_mono [OF _ P(2)]) simp
  moreover have "m' l = m l" if "l \<notin> frame_bytes ?o (frame_pool bf a - frame_pool bf a')" for l
  proof -
    have "l \<notin> frame_bytes ?o (frame_pool bf a - frame_pool bf a1)" "l \<notin> frame_bytes ?o (frame_pool bf a1 - frame_pool bf a')"
      using that P by (auto simp: frame_bytes_def)
    then show ?thesis using 1(9) 2(8) by simp
  qed
  moreover have "view p' q = view p q" if "\<forall>s \<in> set (seg # segs). q \<notin> set (seg_pages s)" for q
    using that 1(6) 2(6) by simp
  moreover have "map_segments e (seg # segs) (p, a, m) = Inr (p', a', m')" using 1(1) 2(1) by (simp add: map_segments_def)
  ultimately show ?case using 1(3-5) 2(2-5)
    by (intro exI [of _ p'] exI [of _ a'] exI [of _ m']) simp
qed

lemma segment_readable:
  assumes "seg_loaded view offset F p m seg" "seg_ok seg" "seg_data seg = Some d" "length into = length d"
    "byte_window x offset F" "\<forall>q \<in> set (seg_pages seg). \<not> huge p q"
  shows "pt_read mp x offset p m (seg_address seg) (length d) into = Inr (Inr (), d)"
proof -
  let ?L = "\<lambda>i. byte_loc view offset p (seg_address seg + i)"
  have loc: "located x view huge offset p (seg_address seg) (length d) ?L"
  proof (rule located_bytes [OF _ _ assms(5)])
    fix i
    assume "i < length d"
    from seg_byte_page [OF assms(2,3) this]
    show "\<exists>f \<in> F. \<exists>fl. view p (seg_address seg + i - (seg_address seg + i) mod 4096) = Some (f, fl)"
      and "\<not> huge p (seg_address seg + i - (seg_address seg + i) mod 4096)"
      using assms(1,6) by (auto simp: seg_loaded_def)
  qed
  have "seg_address seg + length d \<le> 2 ^ 47" using assms(2,3) by (auto simp: seg_ok_def)
  from read_located [OF loc this, of into "length d" m] assms(4)
  have "pt_read mp x offset p m (seg_address seg) (length d) into = Inr (Inr (), map (m \<circ> ?L) [0..<length d])" by simp
  moreover have "map (m \<circ> ?L) [0..<length d] = d"
    using assms(1,3) by (intro nth_equalityI) (auto simp: seg_loaded_def)
  ultimately show ?thesis by simp
qed

text \<open>A segment with a page that is in use cannot be loaded.\<close>

lemma map_segment_used:
  assumes env: "env_bf e = bf" "env_x86 e = x" "env_mapper e = mp"
    and "pool_ok bf a" "seg_ok seg" "4 * length (seg_pages seg) \<le> card (frame_pool bf a)"
    "q \<in> set (seg_pages seg)" "view p q \<noteq> None" "\<forall>q \<in> set (seg_pages seg). \<not> huge p q"
  shows "map_segment e seg (p, a, m) = Inl (ExpectFailed ''Failed to allocate memory for ELF segment!'')"
proof -
  from split_list_first_prop [of "seg_pages seg" "\<lambda>q. view p q \<noteq> None"] assms(7,8)
  obtain qs r rs where s: "seg_pages seg = qs @ r # rs" "view p r \<noteq> None" "\<forall>q \<in> set qs. view p q = None" by blast
  then obtain f fl where f: "view p r = Some (f, fl)" by auto
  have h: "\<forall>q \<in> set qs. view p q = None \<and> \<not> huge p q" "\<not> huge p r" using s assms(9) by auto
  have len: "0 < seg_size seg" "seg_address seg + seg_size seg < 2 ^ 47" using assms(5) by (simp_all add: seg_ok_def)
  have "virt_addr_new x (seg_address seg) = Inr (seg_address seg)" using len by (simp add: virt_addr_new canonical_def)
  moreover obtain p' a' where
    "alloc_range mp bf x (seg_address seg) (seg_size seg) heap_flags p a = Inr (Inl (PageAlreadyMapped f), p', a')"
    using alloc_range_used [OF assms(4) len, folded seg_pages_def, OF assms(6) s(1) h(1) f h(2)] by blast
  ultimately show ?thesis by (simp add: map_segment_def env)
qed

lemma map_segments_shared:
  assumes env: "env_bf e = bf" "env_x86 e = x" "env_mapper e = mp"
    and "pool_ok bf a" "seg_ok s" "seg_ok t" "q \<in> set (seg_pages s)" "q \<in> set (seg_pages t)"
    "4 * (length (seg_pages s) + length (seg_pages t)) \<le> card (frame_pool bf a)"
    "\<forall>q \<in> set (seg_pages s) \<union> set (seg_pages t). view p q = None \<and> \<not> huge p q"
    "byte_window x (env_offset e) (frame_pool bf a)"
  shows "map_segments e [s, t] (p, a, m) = Inl (ExpectFailed ''Failed to allocate memory for ELF segment!'')"
proof -
  have "4 * length (seg_pages s) \<le> card (frame_pool bf a)" "\<forall>q \<in> set (seg_pages s). view p q = None \<and> \<not> huge p q"
    using assms(9,10) by auto
  from map_segment_ok [OF env assms(4,5) this assms(11), of m] obtain p1 a1 m1 where
    1: "map_segment e s (p, a, m) = Inr (p1, a1, m1)" "pool_ok bf a1"
      "card (frame_pool bf a) \<le> card (frame_pool bf a1) + 4 * length (seg_pages s)" "huge p1 = huge p"
      "\<forall>q \<in> set (seg_pages s). \<exists>f \<in> frame_pool bf a - frame_pool bf a1. view p1 q = Some (f, heap_flags)"
    by (elim exE conjE) (rule that)
  have "view p1 q \<noteq> None" using 1(5) assms(7) by fastforce
  moreover have "4 * length (seg_pages t) \<le> card (frame_pool bf a1)" using 1(3) assms(9) by simp
  moreover have "\<forall>q \<in> set (seg_pages t). \<not> huge p1 q" using 1(4) assms(10) by simp
  ultimately have "map_segment e t (p1, a1, m1) = Inl (ExpectFailed ''Failed to allocate memory for ELF segment!'')"
    using map_segment_used [OF env 1(2) assms(6) _ assms(8)] by blast
  then show ?thesis using 1(1) by (simp add: map_segments_def)
qed

end

text \<open>
  Loading a binary: segments whose pages are apart and unmapped are all loaded, and every
  segment with data then reads back through the page table as exactly that data, whatever the
  order and the sizes; only frames that were free are used.
\<close>

theorem segments_loaded:
  assumes "page_mapper bf x mp view huge" "env_bf e = bf" "env_x86 e = x" "env_mapper e = mp"
    and "pool_ok bf a" "\<forall>seg \<in> set segs. seg_ok seg" "pages_apart segs"
    "4 * sum_list (map (\<lambda>s. length (seg_pages s)) segs) \<le> card (frame_pool bf a)"
    "\<forall>seg \<in> set segs. \<forall>q \<in> set (seg_pages seg). view p q = None \<and> \<not> huge p q"
    "byte_window x (env_offset e) (frame_pool bf a)"
  shows "\<exists>p' a' m'. map_segments e segs (p, a, m) = Inr (p', a', m') \<and> pool_ok bf a' \<and>
    (\<forall>seg \<in> set segs. \<forall>q \<in> set (seg_pages seg). \<exists>f \<in> frame_pool bf a - frame_pool bf a'. view p' q = Some (f, heap_flags)) \<and>
    (\<forall>seg \<in> set segs. \<forall>d into. seg_data seg = Some d \<longrightarrow> length into = length d \<longrightarrow>
       pt_read mp x (env_offset e) p' m' (seg_address seg) (length d) into = Inr (Inr (), d))"
proof -
  from page_mapper.map_segments_ok [OF assms, of m] obtain p' a' m' where
    r: "map_segments e segs (p, a, m) = Inr (p', a', m')" "pool_ok bf a'" "huge p' = huge p"
      "\<forall>seg \<in> set segs. seg_loaded view (env_offset e) (frame_pool bf a - frame_pool bf a') p' m' seg"
    by (elim exE conjE) (rule that)
  have win: "byte_window x (env_offset e) (frame_pool bf a - frame_pool bf a')" using assms(10) by (auto simp: byte_window_def)
  have "pt_read mp x (env_offset e) p' m' (seg_address seg) (length d) into = Inr (Inr (), d)"
    if "seg \<in> set segs" "seg_data seg = Some d" "length into = length d" for seg d into
    using page_mapper.segment_readable [OF assms(1) _ _ that(2,3) win] r(3,4) assms(6,9) that(1) by simp
  moreover have "\<forall>q \<in> set (seg_pages seg). \<exists>f \<in> frame_pool bf a - frame_pool bf a'. view p' q = Some (f, heap_flags)"
    if "seg \<in> set segs" for seg using r(4) that unfolding seg_loaded_def by blast
  ultimately show ?thesis using r(1,2) by blast
qed

text \<open>Two segments for the witnesses: three bytes across a page boundary, and a page without data.\<close>

definition demo_env :: "(nat \<rightharpoonup> nat \<times> u64, unit) proc_env" where
  "demo_env = \<lparr>env_bf = byte_bits, env_x86 = x86_model, env_mapper = plain_mapper,
     env_talc = \<lparr>talc_new = (\<lambda>_. ()), talc_extend = (\<lambda>_ _ _. ()), talc_allocate = (\<lambda>_ _. (None, ())), talc_deallocate = (\<lambda>_ _ _. ())\<rparr>,
     env_offset = demo_offset\<rparr>"

definition demo_text :: Segment where
  "demo_text = \<lparr>seg_address = 0x400ffe, seg_size = 4, seg_data = Some [1, 2, 3]\<rparr>"

definition demo_bss :: Segment where
  "demo_bss = \<lparr>seg_address = 0x600000, seg_size = 0x1000, seg_data = None\<rparr>"

lemma demo_seg_pages: "seg_pages demo_text = [0x400000, 0x401000]" "seg_pages demo_bss = [0x600000]"
  by (simp_all add: seg_pages_def pages_of_def demo_text_def demo_bss_def upt_rec_numeral)

lemma demo_segs_ok: "seg_ok demo_text" "seg_ok demo_bss"
  by (simp_all add: seg_ok_def demo_text_def demo_bss_def)

lemma wide_window: "byte_window x86_model demo_offset (frame_pool byte_bits wide_allocator)"
proof -
  have "f < 4096 * 4096" if "f \<in> frame_pool byte_bits wide_allocator" for f
    using that by (auto simp: frame_pool_def reachable_free_def wide_allocator_def bitmap_len_def)
  then show ?thesis
    by (fastforce simp: byte_window_def convert_physical_to_virtual_def usize_add_def usize_max_def x86_model_def
        canonical_def demo_offset_def)
qed

lemma demo_env_simps [simp]: "env_bf demo_env = byte_bits" "env_x86 demo_env = x86_model" "env_mapper demo_env = plain_mapper"
  "env_offset demo_env = demo_offset"
  by (simp_all add: demo_env_def)

theorem segments_loaded_witness:
  "\<exists>p' a' m'. map_segments demo_env [demo_text, demo_bss] (Map.empty, wide_allocator, \<lambda>_. 0) = Inr (p', a', m') \<and>
     pt_read plain_mapper x86_model demo_offset p' m' 0x400ffe 3 [0, 0, 0] = Inr (Inr (), [1, 2, 3])"
proof -
  have "\<forall>seg \<in> set [demo_text, demo_bss]. seg_ok seg" "pages_apart [demo_text, demo_bss]"
    "4 * sum_list (map (\<lambda>s. length (seg_pages s)) [demo_text, demo_bss]) \<le> card (frame_pool byte_bits wide_allocator)"
    using demo_segs_ok by (simp_all add: pages_apart_def demo_seg_pages wide_pool)
  from segments_loaded [OF plain.page_mapper_axioms demo_env_simps(1-3) wide_pool(1) this, of Map.empty "\<lambda>_. 0"] wide_window
  obtain p' a' m' where r: "map_segments demo_env [demo_text, demo_bss] (Map.empty, wide_allocator, \<lambda>_. 0) = Inr (p', a', m')"
    "\<forall>seg \<in> set [demo_text, demo_bss]. \<forall>d into. seg_data seg = Some d \<longrightarrow> length into = length d \<longrightarrow>
       pt_read plain_mapper x86_model demo_offset p' m' (seg_address seg) (length d) into = Inr (Inr (), d)"
    by auto
  have "pt_read plain_mapper x86_model demo_offset p' m' (seg_address demo_text) (length [1, 2, 3 :: u8]) [0, 0, 0] = Inr (Inr (), [1, 2, 3])"
    using r(2) [rule_format, of demo_text "[1, 2, 3]" "[0, 0, 0]"] by (simp add: demo_text_def)
  with r(1) show ?thesis by (auto simp: demo_text_def numeral_3_eq_3)
qed

text \<open>
  Two segments that share a page, as the text and data segments of a densely packed binary do,
  cannot be loaded: the second allocation fails and the loader panics.
\<close>

theorem segments_shared_page:
  assumes "page_mapper bf x mp view huge" "env_bf e = bf" "env_x86 e = x" "env_mapper e = mp"
    and "pool_ok bf a" "seg_ok s" "seg_ok t" "q \<in> set (seg_pages s)" "q \<in> set (seg_pages t)"
    "4 * (length (seg_pages s) + length (seg_pages t)) \<le> card (frame_pool bf a)"
    "\<forall>q \<in> set (seg_pages s) \<union> set (seg_pages t). view p q = None \<and> \<not> huge p q"
    "byte_window x (env_offset e) (frame_pool bf a)"
  shows "map_segments e [s, t] (p, a, m) = Inl (ExpectFailed ''Failed to allocate memory for ELF segment!'')"
  by (rule page_mapper.map_segments_shared [OF assms])

theorem segments_shared_page_witness:
  "map_segments demo_env [demo_text, demo_text\<lparr>seg_address := 0x401010\<rparr>] (Map.empty, wide_allocator, \<lambda>_. 0) =
     Inl (ExpectFailed ''Failed to allocate memory for ELF segment!'')"
proof -
  have "seg_ok (demo_text\<lparr>seg_address := 0x401010\<rparr>)" "seg_pages (demo_text\<lparr>seg_address := 0x401010\<rparr>) = [0x401000]"
    by (simp_all add: seg_ok_def demo_text_def seg_pages_def pages_of_def upt_rec_numeral)
  then show ?thesis
    using segments_shared_page [OF plain.page_mapper_axioms, of demo_env wide_allocator demo_text
        "demo_text\<lparr>seg_address := 0x401010\<rparr>" "0x401000" Map.empty "\<lambda>_. 0"] wide_window demo_segs_ok
    by (simp add: demo_seg_pages wide_pool)
qed

text \<open>
  Growing the heap keeps its invariant: \<open>sbrk\<close> maps as many new pages as the request needs,
  rounded up, right behind the heap, so that all of the arena handed to the allocator is mapped
  writable for the user, and changes no other page.
\<close>

theorem heap_sbrk_mapped:
  assumes "page_mapper bf x mp view huge" "heap_ok view huge N n p" "heap_size h = 4096 * n" "n + k \<le> N"
    "k = (sz + 4095) div 4096" "pool_ok bf a" "4 * k \<le> card (frame_pool bf a)" "heap_process h = Some proc"
    "usable_size h \<le> heap_size h"
  shows "\<exists>h' p' a'. sbrk tc mp bf x sz h (Some p) a = Inr (h', p', a') \<and>
    heap_ok view huge N (n + k) p' \<and> heap_size h' = 4096 * (n + k) \<and> heap_size h + sz \<le> heap_size h' \<and>
    usable_size h' = usable_size h + 4096 * k \<and> heap_type h' = heap_type h \<and> heap_process h' = heap_process h \<and>
    allocator h' = talc_extend tc (HEAP_START, heap_size h) (HEAP_START, heap_size h + sz) (allocator h) \<and>
    pool_ok bf a' \<and> (\<forall>q. q \<notin> heap_page ` {n..<n + k} \<longrightarrow> view p' q = view p q)"
  by (rule page_mapper.sbrk_ok [OF assms])

definition demo_heap :: "unit ProcessHeap" where
  "demo_heap = \<lparr>heap_type = UserHeap, heap_size = 0, usable_size = 0, allocator = (), heap_process = Some 1\<rparr>"

theorem heap_sbrk_mapped_witness:
  "\<exists>h' p' a'. sbrk (env_talc demo_env) plain_mapper byte_bits x86_model 5000 demo_heap (Some Map.empty) wide_allocator = Inr (h', p', a') \<and>
    heap_size h' = 8192 \<and> p' (heap_page 1) \<noteq> None \<and> p' (heap_page 2) = None"
proof -
  have "heap_ok id (\<lambda>_ _. False) 8 0 Map.empty" by (simp add: heap_ok_def HEAP_START_def)
  moreover have "heap_size demo_heap = 4096 * 0" "0 + 2 \<le> (8 :: nat)" "2 = (5000 + 4095) div (4096 :: nat)"
    "4 * 2 \<le> card (frame_pool byte_bits wide_allocator)" "heap_process demo_heap = Some 1" "usable_size demo_heap \<le> heap_size demo_heap"
    by (simp_all add: demo_heap_def wide_pool)
  ultimately obtain h' p' a' where r: "sbrk (env_talc demo_env) plain_mapper byte_bits x86_model 5000 demo_heap (Some Map.empty) wide_allocator = Inr (h', p', a')"
    "heap_ok id (\<lambda>_ _. False) 8 (0 + 2) p'" "heap_size h' = 4096 * (0 + 2)"
    using heap_sbrk_mapped [OF plain.page_mapper_axioms _ _ _ _ wide_pool(1), of 8 0 Map.empty demo_heap 2 5000 1 "env_talc demo_env"]
    by metis
  have "p' (heap_page 1) \<noteq> None" "p' (heap_page 2) = None" using r(2) by (auto simp: heap_ok_def)
  with r show ?thesis by auto
qed

text \<open>
  Clearing the heap unmaps exactly its pages, marks their frames free and leaves an empty heap
  that satisfies the invariant; the count of usable frames is not raised.
\<close>

theorem heap_clear_frees:
  assumes "page_mapper bf x mp view huge" "heap_ok view huge N n p" "heap_size h = 4096 * n" "heap_process h = Some proc"
    "\<forall>i<n. \<exists>fl. view p (heap_page i) = Some (F i, fl) \<and> F i div 4096 < capacity (bitmap a)"
  shows "\<exists>p' a'. heap_clear mp bf x h (Some p) a = Inr (h\<lparr>heap_size := 0, usable_size := 0\<rparr>, p', a') \<and>
    heap_ok view huge N 0 p' \<and> (\<forall>q. view p' q = (if q \<in> heap_page ` {..<n} then None else view p q)) \<and>
    free_frames bf a' = free_frames bf a \<union> (\<lambda>i. F i div 4096) ` {..<n} \<and> usable_frames a' = usable_frames a"
  by (rule page_mapper.heap_clear_ok [OF assms])

theorem heap_clear_frees_witness:
  "\<exists>a'. heap_clear plain_mapper byte_bits x86_model (demo_heap\<lparr>heap_size := 4096\<rparr>) (Some [heap_page 0 \<mapsto> (4096, heap_flags)]) demo_allocator =
     Inr (demo_heap, Map.empty, a') \<and> free_frames byte_bits a' = insert 1 (free_frames byte_bits demo_allocator)"
proof -
  have "heap_ok id (\<lambda>_ _. False) 8 1 [heap_page 0 \<mapsto> (4096, heap_flags)]" by (simp add: heap_ok_def HEAP_START_def)
  from heap_clear_frees [OF plain.page_mapper_axioms this, of "demo_heap\<lparr>heap_size := 4096\<rparr>" 1 "\<lambda>_. 4096" demo_allocator]
  obtain p' a' where r: "heap_clear plain_mapper byte_bits x86_model (demo_heap\<lparr>heap_size := 4096\<rparr>)
      (Some [heap_page 0 \<mapsto> (4096, heap_flags)]) demo_allocator = Inr (demo_heap, p', a')"
    "\<forall>q. p' q = (if q = heap_page 0 then None else [heap_page 0 \<mapsto> (4096, heap_flags)] q)"
    "free_frames byte_bits a' = insert 1 (free_frames byte_bits demo_allocator)"
    by (auto simp: demo_heap_def demo_allocator_def capacity_def bitmap_len_def lessThan_Suc)
  have "p' = Map.empty" using r(2) by (auto simp: fun_eq_iff)
  with r show ?thesis by auto
qed

end
