(* ===== verification/TableOps.thy ===== *)
theory TableOps
  imports UserProc
begin

text \<open>
  The implementations of the traits \<open>Mapper\<close>, \<open>Translate\<close> and \<open>CleanUp\<close> for \<open>GeneralPageTable\<close>
  (\<open>memory/page_table.rs\<close>), and memory mapped through them.  What the crate's \<open>OffsetPageTable\<close> does
  is the parameter \<open>offset_api\<close>, together with the two provided methods of the traits that the framework
  uses and does not override: the parent flags \<open>Mapper::map_to\<close> passes on and how
  \<open>Translate::translate_addr\<close> reads a \<open>TranslateResult\<close>.  The methods forward to the inner table and keep
  the physical address, so the contract of the mapper holds for the wrapper, too; it is used to follow a mapped range from
  \<open>alloc_range\<close> over writing, reading and changing flags to \<open>unmap\<close>.
\<close>

section \<open>The trait implementations\<close>

datatype FlagUpdateError = FlagPageNotMapped | FlagParentEntryHugePage

datatype TranslateError = TranslatePageNotMapped | TranslateParentEntryHugePage | TranslateInvalidFrameAddress nat



text \<open>A call on the inner table, put back into the wrapper.\<close>

definition with_table :: "'p table \<Rightarrow> ('v \<times> 'p \<times> 'a) result \<Rightarrow> ('v \<times> 'p table \<times> 'a) result" where
  "with_table t r = and_then r (\<lambda>(v, p, a). Inr (v, t\<lparr>table_inner := p\<rparr>, a))"













section \<open>The wrapper and the inner table\<close>

lemma with_table_simps [simp]:
  "with_table t (Inl e) = Inl e"
  "with_table t (Inr (v, p, a)) = Inr (v, t\<lparr>table_inner := p\<rparr>, a)"
  by (simp_all add: with_table_def)


lemma inner_again [simp]: "with_table (t\<lparr>table_inner := p\<rparr>) r = with_table t r"
  by (cases r) (simp_all add: with_table_def)







section \<open>The contract carried over to the wrapper\<close>









end
