(* ===== verification/Stacks.thy ===== *)
theory Stacks
  imports Switch Address
begin

text \<open>
  The kernel stack of a thread (\<open>task/stack.rs\<close>).  A \<open>Box\<close> of zeroed bytes is an address, given by the
  allocator, and its contents; \<open>Drop\<close> does nothing beyond freeing the box.
\<close>

definition KERNEL_STACK_SIZE :: nat where "KERNEL_STACK_SIZE = 16 * 1024"

record KernelStack =
  ks_address :: nat
  ks_bytes :: "u8 list"

definition kernel_stack_new :: "nat \<Rightarrow> KernelStack" where
  "kernel_stack_new address = \<lparr>ks_address = address, ks_bytes = replicate KERNEL_STACK_SIZE 0\<rparr>"

definition kernel_stack_end :: "x86_api \<Rightarrow> KernelStack \<Rightarrow> nat result" where
  "kernel_stack_end x k = virt_addr_new x (ks_address k + length (ks_bytes k))"

lemma kernel_stack_end_eq:
  "x86_addr x \<Longrightarrow> canonical (address + 16384) \<Longrightarrow> kernel_stack_end x (kernel_stack_new address) = Inr (address + 16384)"
  by (simp add: kernel_stack_end_def kernel_stack_new_def KERNEL_STACK_SIZE_def x86_addr.virt_addr_new)

text \<open>What the delivery of an interrupt and the pushes of \<open>timer_interrupt\<close> write: 21 quadwords below \<open>stk\<close>.\<close>

lemma entry_writes:
  assumes "memory (exec ([Cli] @ push_context @ [MovFromRsp RDI]) (deliver stk s)) a \<noteq> memory s a"
  obtains k where "0 < k" "k \<le> 21" "a = stk - of_nat (8 * k)"
proof -
  have "a \<in> {stk - 8, stk - 16, stk - 24, stk - 32, stk - 40, stk - 48, stk - 56, stk - 64, stk - 72, stk - 80, stk - 88,
    stk - 96, stk - 104, stk - 112, stk - 120, stk - 128, stk - 136, stk - 144, stk - 152, stk - 160, stk - 168}"
    using assms by (simp add: push_context_def deliver_def fun_upd_apply split: if_splits)
  also have "\<dots> = (\<lambda>k. stk - of_nat (8 * k)) ` {1..21}"
    by (simp add: numeral_eq_Suc atLeastAtMostSuc_conv insert_commute)
  finally obtain k where "a = stk - of_nat (8 * k)" "k \<in> {1..21}" by (rule imageE)
  then show thesis using that [of k] by simp
qed

text \<open>
  C17. The context of an interrupted thread is saved inside its kernel stack: with the interrupt stack
  pointer at the (16 byte aligned) end of a stack that \<open>KernelStack::new\<close> has made, the processor and the
  pushes of \<open>timer_interrupt\<close> change no memory outside the 16 KiB of the stack, and the structure that the
  handler gets lies in the stack as a whole.
\<close>

theorem context_saved_in_stack:
  assumes "x86_addr x" "kernel_stack_end x (kernel_stack_new address) = Inr e" "address mod 16 = 0"
  shows "(\<forall>a. memory (exec ([Cli] @ push_context @ [MovFromRsp RDI]) (deliver (of_nat e) s)) a \<noteq> memory s a \<longrightarrow>
      address \<le> unat a \<and> unat a + 8 \<le> address + length (ks_bytes (kernel_stack_new address)) \<and> unat a mod 8 = 0) \<and>
    address \<le> unat (gpr (exec ([Cli] @ push_context @ [MovFromRsp RDI]) (deliver (of_nat e) s)) RDI) \<and>
    unat (gpr (exec ([Cli] @ push_context @ [MovFromRsp RDI]) (deliver (of_nat e) s)) RDI) + 168 = e"
proof -
  have c: "canonical (address + 16384)" and e: "e = address + 16384"
    using assms(1,2) by (simp_all add: kernel_stack_end_def kernel_stack_new_def KERNEL_STACK_SIZE_def x86_addr.virt_addr_new split: if_splits)
  have e64: "e < 2 ^ 64" using c e by (auto simp: canonical_def)
  have below: "unat (of_nat e - of_nat (8 * k) :: u64) = e - 8 * k" if "k \<le> 21" for k
  proof -
    have "of_nat e - of_nat (8 * k) = (of_nat (e - 8 * k) :: u64)" using that e by (simp add: of_nat_diff)
    then show ?thesis using e64 by (simp add: unat_of_nat)
  qed
  have "address \<le> unat a \<and> unat a + 8 \<le> address + length (ks_bytes (kernel_stack_new address)) \<and> unat a mod 8 = 0"
    if ch: "memory (exec ([Cli] @ push_context @ [MovFromRsp RDI]) (deliver (of_nat e) s)) a \<noteq> memory s a" for a
  proof -
    obtain k where k: "0 < k" "k \<le> 21" "a = of_nat e - of_nat (8 * k)" using entry_writes [OF ch] .
    have a: "unat a = address + 8 * (2048 - k)" using below [OF k(2)] k e by simp
    then have "unat a mod 8 = 0" using assms(3) by presburger
    then show ?thesis using a k by (simp add: kernel_stack_new_def KERNEL_STACK_SIZE_def)
  qed
  moreover have "gpr (exec ([Cli] @ push_context @ [MovFromRsp RDI]) (deliver (of_nat e) s)) RDI = of_nat e - of_nat (8 * 21)"
    unfolding saved_context(1) by simp
  then have "unat (gpr (exec ([Cli] @ push_context @ [MovFromRsp RDI]) (deliver (of_nat e) s)) RDI) = e - 168"
    using below [of 21] by simp
  ultimately show ?thesis using e by simp
qed

theorem context_saved_in_stack_witness:
  "kernel_stack_end x86_model (kernel_stack_new 0x10000) = Inr 0x14000 \<and>
   unat (gpr (exec ([Cli] @ push_context @ [MovFromRsp RDI]) (deliver 0x14000 \<lparr>gpr = (\<lambda>_. 7), cpu_rsp = 0x4000, cpu_cr3 = 0x1000,
     cpu_rip = 0x400000, cpu_cs = 0x23, cpu_rflags = 0x202, cpu_ss = 0x1B, interrupts_on = True, memory = (\<lambda>_. 0)\<rparr>)) RDI) + 168 = 0x14000"
proof -
  have e: "kernel_stack_end x86_model (kernel_stack_new 0x10000) = Inr 0x14000"
    using kernel_stack_end_eq [OF x86_model.x86_addr_axioms, of "0x10000"] by (simp add: canonical_def)
  have "0x10000 mod 16 = (0 :: nat)" by simp
  from context_saved_in_stack [OF x86_model.x86_addr_axioms e this] e show ?thesis by simp
qed

end
