(* ===== verification/FpuState.thy ===== *)
theory FpuState
  imports Sched
begin

text \<open>
  The FPU state block of \<open>drivers/fpu.rs\<close> in memory: \<open>save\<close> and \<open>restore\<close> hand its address to the
  instructions \<open>fxsave64\<close> and \<open>fxrstor64\<close>, which work on its 512 bytes.  The instructions are the
  parameter \<open>fx_api\<close>, over a state \<open>'f\<close> of the FPU and SSE registers; \<open>fxsave64\<close> leaves the bytes that
  belong to software as they are, so it gets the old contents of the block.
\<close>

section \<open>The block in memory\<close>

text \<open>The sizes of the fields in the order of the structure, and their values.\<close>

definition fp_widths :: "nat list" where
  "fp_widths = [2, 2, 2, 2, 8, 8, 4, 4] @ replicate 60 8"

definition fp_values :: "FpState \<Rightarrow> nat list" where
  "fp_values st = [unat (fcw st), unat (fsw st), unat (ftw st), unat (fop st), unat (word2 st), unat (word3 st),
     unat (mxcsr st), unat (mxcsr_mask st)] @ map unat (mm st) @ map unat (xmm st) @ map unat (fp_rest st)"

definition fp_of_values :: "nat list \<Rightarrow> FpState" where
  "fp_of_values vs = \<lparr>fcw = of_nat (vs ! 0), fsw = of_nat (vs ! 1), ftw = of_nat (vs ! 2), fop = of_nat (vs ! 3),
     word2 = of_nat (vs ! 4), word3 = of_nat (vs ! 5), mxcsr = of_nat (vs ! 6), mxcsr_mask = of_nat (vs ! 7),
     mm = map of_nat (take 16 (drop 8 vs)), xmm = map of_nat (take 32 (drop 24 vs)), fp_rest = map of_nat (drop 56 vs)\<rparr>"

fun encode_fields :: "nat list \<Rightarrow> nat list \<Rightarrow> u8 list" where
  "encode_fields (w # ws) (v # vs) = to_le_bytes w v @ encode_fields ws vs"
| "encode_fields _ _ = []"

fun decode_fields :: "nat list \<Rightarrow> u8 list \<Rightarrow> nat list" where
  "decode_fields [] bs = []"
| "decode_fields (w # ws) bs = le_bytes (take w bs) # decode_fields ws (drop w bs)"

definition fp_to_bytes :: "FpState \<Rightarrow> u8 list" where
  "fp_to_bytes st = encode_fields fp_widths (fp_values st)"

definition fp_of_bytes :: "u8 list \<Rightarrow> FpState" where
  "fp_of_bytes bs = fp_of_values (decode_fields fp_widths bs)"

section \<open>Saving and restoring\<close>

record 'f fx_api =
  fxsave64 :: "'f \<Rightarrow> u8 list \<Rightarrow> u8 list"
  fxrstor64 :: "u8 list \<Rightarrow> 'f \<Rightarrow> 'f"

definition fp_save :: "'f fx_api \<Rightarrow> 'f \<Rightarrow> FpState \<Rightarrow> FpState" where
  "fp_save fx f st = fp_of_bytes (fxsave64 fx f (fp_to_bytes st))"

definition fp_restore :: "'f fx_api \<Rightarrow> FpState \<Rightarrow> 'f \<Rightarrow> 'f" where
  "fp_restore fx st f = fxrstor64 fx (fp_to_bytes st) f"

text \<open>The arrays of a block have their declared lengths.\<close>

definition fp_wf :: "FpState \<Rightarrow> bool" where
  "fp_wf st \<longleftrightarrow> length (mm st) = 16 \<and> length (xmm st) = 32 \<and> length (fp_rest st) = 12"

lemma fp_wf_new: "fp_wf fp_default" "fp_wf fp_new"
  by (simp_all add: fp_wf_def fp_new_def fp_default_def)

lemma length_encode: "length ws = length vs \<Longrightarrow> length (encode_fields ws vs) = sum_list ws"
  by (induction ws vs rule: encode_fields.induct) auto

lemma length_decode [simp]: "length (decode_fields ws bs) = length ws"
  by (induction ws bs rule: decode_fields.induct) auto

lemma decode_encode:
  "list_all2 (\<lambda>w v. v < 256 ^ w) ws vs \<Longrightarrow> decode_fields ws (encode_fields ws vs) = vs"
  by (induction ws vs rule: list_all2_induct) (simp_all add: le_bytes_to_le_bytes)

lemma encode_decode: "length bs = sum_list ws \<Longrightarrow> encode_fields ws (decode_fields ws bs) = bs"
proof (induction ws arbitrary: bs)
  case (Cons w ws)
  then have "length (take w bs) = w" by simp
  then have "to_le_bytes w (le_bytes (take w bs)) = take w bs" by (metis to_le_bytes_le_bytes)
  then show ?case using Cons by simp
qed simp

lemma decode_bounds: "length bs = sum_list ws \<Longrightarrow> list_all2 (\<lambda>w v. v < 256 ^ w) ws (decode_fields ws bs)"
proof (induction ws arbitrary: bs)
  case (Cons w ws)
  then have "le_bytes (take w bs) < 256 ^ w" using le_bytes_less [of "take w bs"] by simp
  then show ?case using Cons by simp
qed simp

lemma list_all2_replicate: "list_all2 P (replicate n w) vs \<longleftrightarrow> length vs = n \<and> (\<forall>v \<in> set vs. P w v)"
  by (induction n arbitrary: vs) (auto simp: list_all2_Cons1 length_Suc_conv)

lemma unat_of_nat_map: "\<forall>v \<in> set vs. v < 256 ^ 8 \<Longrightarrow> map unat (map of_nat vs :: u64 list) = vs"
  by (induction vs) (simp_all add: unat_of_nat)

lemma fp_values_bounds: "fp_wf st \<Longrightarrow> list_all2 (\<lambda>w v. v < 256 ^ w) fp_widths (fp_values st)"
proof -
  assume wf: "fp_wf st"
  have 2: "unat (w :: u16) < 256 ^ 2" for w using unsigned_less [of w] by simp
  have 4: "unat (w :: u32) < 256 ^ 4" for w using unsigned_less [of w] by simp
  have 8: "unat (w :: u64) < 256 ^ 8" for w using unsigned_less [of w] by simp
  have "list_all2 (\<lambda>w v. v < 256 ^ w) (replicate 60 8) (map unat (mm st) @ map unat (xmm st) @ map unat (fp_rest st))"
    using wf 8 by (auto simp: list_all2_replicate fp_wf_def)
  then show ?thesis unfolding fp_widths_def fp_values_def using 2 4 8
    by (simp only: append_Cons append_Nil list_all2_Cons)
qed

lemma fp_of_values_values: "fp_wf st \<Longrightarrow> fp_of_values (fp_values st) = st"
  by (simp add: fp_of_values_def fp_values_def fp_wf_def o_def)

lemma fp_values_of_values:
  assumes "list_all2 (\<lambda>w v. v < 256 ^ w) fp_widths vs"
  shows "fp_values (fp_of_values vs) = vs"
proof -
  obtain a b c d e f g h r where vs: "vs = [a, b, c, d, e, f, g, h] @ r" and
    bd: "a < 256 ^ 2" "b < 256 ^ 2" "c < 256 ^ 2" "d < 256 ^ 2" "e < 256 ^ 8" "f < 256 ^ 8" "g < 256 ^ 4" "h < 256 ^ 4" and
    r: "length r = 60" "\<forall>v \<in> set r. v < 256 ^ 8"
    using assms unfolding fp_widths_def by (auto simp: list_all2_Cons1 list_all2_replicate)
  have "map unat (map of_nat (take 16 r) :: u64 list) = take 16 r"
    "map unat (map of_nat (take 32 (drop 16 r)) :: u64 list) = take 32 (drop 16 r)"
    "map unat (map of_nat (drop 48 r) :: u64 list) = drop 48 r"
    using r(2) by (intro unat_of_nat_map ballI; meson in_set_takeD in_set_dropD)+
  moreover have "take 16 r @ take 32 (drop 16 r) @ drop 48 r = r"
    using append_take_drop_id [of 16 r] append_take_drop_id [of 32 "drop 16 r"] by simp
  ultimately show ?thesis using bd by (simp add: vs fp_values_def fp_of_values_def unat_of_nat)
qed

text \<open>The assertion in \<open>FpState::new\<close>, and the two directions between the structure and its bytes.\<close>

lemma fp_size: "fp_wf st \<Longrightarrow> length (fp_to_bytes st) = 512"
  by (simp add: fp_to_bytes_def length_encode fp_values_def fp_widths_def fp_wf_def sum_list_replicate)

lemma fp_of_to_bytes: "fp_wf st \<Longrightarrow> fp_of_bytes (fp_to_bytes st) = st"
  by (simp add: fp_of_bytes_def fp_to_bytes_def decode_encode fp_values_bounds fp_of_values_values)

lemma fp_to_of_bytes: "length bs = 512 \<Longrightarrow> fp_to_bytes (fp_of_bytes bs) = bs"
proof -
  assume "length bs = 512"
  then have len: "length bs = sum_list fp_widths" by (simp add: fp_widths_def sum_list_replicate)
  show ?thesis
    by (simp add: fp_of_bytes_def fp_to_bytes_def fp_values_of_values [OF decode_bounds [OF len]] encode_decode [OF len])
qed

lemma fp_wf_of_bytes: "fp_wf (fp_of_bytes bs)"
  by (simp add: fp_wf_def fp_of_bytes_def fp_of_values_def fp_widths_def)

text \<open>What the processor documents: a saved image has 512 bytes, and restoring it brings the registers back.\<close>

locale fx_unit =
  fixes fx :: "'f fx_api"
  assumes image_length: "length bs = 512 \<Longrightarrow> length (fxsave64 fx f bs) = 512"
    and image_restores: "length bs = 512 \<Longrightarrow> fxrstor64 fx (fxsave64 fx f bs) g = f"
begin

lemma save_restore: "fp_wf st \<Longrightarrow> fp_restore fx (fp_save fx f st) g = f"
  by (simp add: fp_restore_def fp_save_def fp_to_of_bytes fp_size image_length image_restores)

end

text \<open>A unit with one 16 bit register, kept where the control word is.\<close>

definition small_fx :: "u16 fx_api" where
  "small_fx = \<lparr>fxsave64 = (\<lambda>f bs. to_le_bytes 2 (unat f) @ drop 2 bs), fxrstor64 = (\<lambda>bs _. of_nat (le_bytes (take 2 bs)))\<rparr>"

interpretation small_fx: fx_unit small_fx
proof
  show "length (fxsave64 small_fx f bs) = 512" if "length bs = 512" for f bs
    using that by (simp add: small_fx_def)
  show "fxrstor64 small_fx (fxsave64 small_fx f bs) g = f" for f bs g
  proof -
    have "unat f < 2 ^ LENGTH(16)" by (rule unsigned_less)
    then have "unat f < 256 ^ 2" by simp
    then show ?thesis by (simp add: small_fx_def le_bytes_to_le_bytes)
  qed
qed

text \<open>
  The FPU state goes through memory unchanged: what \<open>FpState::save\<close> stores from the processor,
  \<open>FpState::restore\<close> loads again, whatever the registers hold in between.  The way goes through the
  fields of the structure, which cover all of its 512 bytes, as \<open>FpState::new\<close> asserts.
\<close>

theorem fpu_state_roundtrip:
  assumes "fx_unit fx" "fp_wf st"
  shows "length (fp_to_bytes st) = 512 \<and> fp_of_bytes (fp_to_bytes st) = st \<and> fp_wf (fp_save fx f st) \<and>
    fp_restore fx (fp_save fx f st) g = f"
  using assms fx_unit.save_restore by (simp add: fp_size fp_of_to_bytes fp_save_def fp_wf_of_bytes)

theorem fpu_state_roundtrip_witness: "fp_restore small_fx (fp_save small_fx 0x37f fp_default) 0 = 0x37f"
  using fpu_state_roundtrip [OF small_fx.fx_unit_axioms fp_wf_new(1)] by blast

end
