(* ===== verification/PciText.thy ===== *)
theory PciText
  imports PciBar Logger
begin

text \<open>
  The texts of \<open>drivers/pci.rs\<close>: the \<open>Display\<close> implementations and the log lines of \<open>init\<close>, over the
  number formats of the Rust core library that they use (\<open>{}\<close>, \<open>{:02x}\<close>, \<open>{:#x}\<close>, \<open>{:#010x}\<close>).
\<close>

section \<open>Number formats\<close>

definition hex_digit :: "nat \<Rightarrow> char" where
  "hex_digit d = (if d < 10 then char_of (48 + d) else char_of (87 + d))"

fun hex :: "nat \<Rightarrow> string" where
  "hex n = (if n < 16 then [hex_digit n] else hex (n div 16) @ [hex_digit (n mod 16)])"

declare hex.simps [simp del]

definition zero_padded :: "nat \<Rightarrow> string \<Rightarrow> string" where
  "zero_padded w s = replicate (w - length s) (CHR ''0'') @ s"

definition hex02 :: "nat \<Rightarrow> string" where "hex02 n = zero_padded 2 (hex n)"
definition hex0x :: "nat \<Rightarrow> string" where "hex0x n = ''0x'' @ hex n"
definition hex010 :: "nat \<Rightarrow> string" where "hex010 n = ''0x'' @ zero_padded 8 (hex n)"

definition bool_text :: "bool \<Rightarrow> string" where
  "bool_text b = (if b then ''true'' else ''false'')"

section \<open>Texts\<close>

fun error_text :: "PciError \<Rightarrow> string" where
  "error_text InvalidBarType = ''Invalid PCI BAR type.''"
| "error_text CreateMmioError = ''Error occurred while creating mmio.''"
| "error_text InvalidBusDeviceFunction = ''Found invalid BusDeviceFunction.''"
| "error_text SegmentNotFound = ''Target segment not found''"
| "error_text GetWrongHeader = ''GetWrongHeader with vendor id 0xffff''"
| "error_text UnrecognisedHeaderType = ''Found device with unrecognised header type''"
| "error_text PciDeviceStructureTransformError = ''Found None When transform Pci device structure''"

definition bdf_text :: "BusDeviceFunction \<Rightarrow> string" where
  "bdf_text b = hex02 (unat (bus b)) @ '':'' @ hex02 (unat (device b)) @ ''.'' @ digits (unat (func b))"

text \<open>A root that is not mapped has no text: the implementation unwraps \<open>mmio_base\<close>.\<close>

definition root_text :: "PciRoot \<Rightarrow> string result" where
  "root_text r = and_then (unwrap (mmio_base r)) (\<lambda>mmio.
     Inr (''PCI Root with segement:'' @ digits (unat (segement_group_number r)) @ '', bus begin at '' @ digits (unat (bus_begin r)) @
       '', bus end at '' @ digits (unat (bus_end r)) @ '', physical address at '' @ digits (unat (physical_address_base r)) @
       '',mapped at '' @ hex0x mmio))"

fun bar_type_text :: "MemoryBarType \<Rightarrow> string" where
  "bar_type_text Width32 = ''Width32''"
| "bar_type_text Below1MiB = ''Below1MiB''"
| "bar_type_text Width64 = ''Width64''"

fun bar_text :: "BarInfo \<Rightarrow> string" where
  "bar_text (Memory ty pre address sz va) =
     ''Memory space at '' @ hex010 (unat address) @ '', size '' @ digits (unat sz) @ '', type '' @ bar_type_text ty @
     '', prefetchable '' @ bool_text pre @ '',mapped at '' @ hex0x va"
| "bar_text (IO address sz) = ''I/O space at '' @ hex010 (unat address) @ '', size '' @ digits (unat sz)"
| "bar_text Unused = ''Unused bar''"

abbreviation crlf :: string where "crlf \<equiv> [CHR 0x0D, CHR 0x0A]"

definition device_bar_text :: "PciStandardDeviceBar \<Rightarrow> string" where
  "device_bar_text d = crlf @ ''Bar0:'' @ bar_text (bar0 d) @ crlf @ '' Bar1:'' @ bar_text (bar1 d) @ crlf @ '' Bar2:'' @ bar_text (bar2 d) @
     crlf @ '' Bar3:'' @ bar_text (bar3 d) @ crlf @ ''Bar4:'' @ bar_text (bar4 d) @ crlf @ ''Bar5:'' @ bar_text (bar5 d)"

text \<open>The log lines of \<open>init\<close> with their levels.\<close>

fun header_type_name :: "HeaderType \<Rightarrow> string" where
  "header_type_name Standard = ''standard device''"
| "header_type_name PciPciBridge = ''-to-pci bridge device''"
| "header_type_name PciCardbusBridge = ''cardbus bridge device''"
| "header_type_name (Unrecognised _) = []"

definition found_text :: "HeaderType \<Rightarrow> u8 \<Rightarrow> u8 \<Rightarrow> u16 \<Rightarrow> string" where
  "found_text t c sc st =
     ''Found pci'' @ (if t = Standard then '' '' else []) @ header_type_name t @ '' with class code ='' @ digits (unat c) @
     '' subclass='' @ digits (unat sc) @ '' status='' @ hex0x (unat st) @ '' ''"

fun message_line :: "PciMessage \<Rightarrow> Level \<times> string" where
  "message_line Initializing = (Info, ''Initializing PCI bus...'')"
| "message_line (Init_failed e) = (Error, ''pci init failed when checking bus because of error: '' @ error_text e)"
| "message_line (Device_total n) = (Info, ''Total pci device and function num = '' @ digits n)"
| "message_line (Found_with_capabilities c sc st cap v d) =
     (Info, found_text Standard c sc st @ ''cap_pointer='' @ hex0x (unat cap) @ ''  vendor='' @ hex0x (unat v) @
       '', device id='' @ hex0x (unat d))"
| "message_line (Found t c sc st) = (Info, found_text t c sc st)"
| "message_line Initialized = (Info, ''PCI bus initialized.'')"

text \<open>\<open>PCI_ROOT_0\<close>: the root of segment 0, or an error line.\<close>

definition PCI_ROOT_0 :: "x86_api \<Rightarrow> nat \<Rightarrow> SegmentGroup list \<Rightarrow> (PciRoot option \<times> (nat \<times> nat) list \<times> (Level \<times> string) list) result" where
  "PCI_ROOT_0 x offset mcfg =
     and_then (pci_root_new x offset mcfg 0) (\<lambda>r.
     case r of Inr (pages, root) \<Rightarrow> Inr (Some root, pages, [])
     | Inl err \<Rightarrow> Inr (None, [], [(Error, ''Pci_root init failed because of error: '' @ error_text err)]))"

section \<open>Reading the texts\<close>

definition digit_value :: "char \<Rightarrow> nat" where
  "digit_value c = (if of_char c < (58 :: nat) then of_char c - 48 else of_char c - 87)"

definition number_value :: "nat \<Rightarrow> string \<Rightarrow> nat" where
  "number_value radix s = foldl (\<lambda>v c. radix * v + digit_value c) 0 s"

lemma number_value_snoc [simp]: "number_value radix (s @ [c]) = radix * number_value radix s + digit_value c"
  by (simp add: number_value_def)

lemma digit_value_hex: "d < 16 \<Longrightarrow> digit_value (hex_digit d) = d"
  by (simp add: digit_value_def hex_digit_def)

lemma number_value_hex: "number_value 16 (hex n) = n"
proof (induction n rule: hex.induct)
  case (1 n)
  show ?case
  proof (cases "n < 16")
    case True
    then show ?thesis by (subst hex.simps) (simp add: number_value_def digit_value_hex)
  next
    case False
    then show ?thesis using 1 by (subst hex.simps) (simp add: digit_value_hex)
  qed
qed

lemma number_value_digits: "number_value 10 (digits n) = n"
proof (induction n rule: digits.induct)
  case (1 n)
  have d: "digit_value (char_of (48 + m)) = m" if "m < 10" for m :: nat
    using that by (simp add: digit_value_def)
  show ?case
  proof (cases "n < 10")
    case True
    then show ?thesis using d by (subst digits.simps) (simp add: number_value_def)
  next
    case False
    then show ?thesis using 1 d [of "n mod 10"] by (subst digits.simps) simp
  qed
qed

lemma number_value_padded: "number_value radix (zero_padded w s) = number_value radix s"
proof -
  have "foldl (\<lambda>v c. radix * v + digit_value c) 0 (replicate k (CHR ''0'')) = 0" for k
    by (induction k) (simp_all add: digit_value_def)
  then show ?thesis by (simp add: number_value_def zero_padded_def)
qed

lemma length_hex02: "n < 256 \<Longrightarrow> length (hex02 n) = 2"
  by (simp add: hex02_def zero_padded_def hex.simps [of n] hex.simps [of "n div 16"] div_less_iff_less_mult)

text \<open>A location is read back by its columns.\<close>

definition bdf_read :: "string \<Rightarrow> BusDeviceFunction" where
  "bdf_read s = \<lparr>bus = of_nat (number_value 16 (take 2 s)), device = of_nat (number_value 16 (take 2 (drop 3 s))),
     func = of_nat (number_value 10 (drop 6 s))\<rparr>"

text \<open>
  The text of a PCI location determines it: reading the columns of what \<open>Display\<close> writes for a
  \<open>BusDeviceFunction\<close> gives the bus, the device and the function back, so different functions have
  different texts, and the three parts stand at fixed places.
\<close>

theorem bdf_text_roundtrip:
  "bdf_read (bdf_text b) = b \<and> bdf_text b ! 2 = CHR '':'' \<and> bdf_text b ! 5 = CHR ''.''"
proof -
  have l: "length (hex02 (unat w)) = 2" for w :: u8 by (rule length_hex02) (rule unat_byte_less)
  have v: "number_value 16 (hex02 n) = n" for n by (simp add: hex02_def number_value_padded number_value_hex)
  have "take 2 (bdf_text b) = hex02 (unat (bus b))" "take 2 (drop 3 (bdf_text b)) = hex02 (unat (device b))"
    "drop 6 (bdf_text b) = digits (unat (func b))" "bdf_text b ! 2 = CHR '':''" "bdf_text b ! 5 = CHR ''.''"
    by (simp_all add: bdf_text_def l nth_append)
  then show ?thesis by (simp add: bdf_read_def v number_value_digits)
qed

end
