(* ===== verification/Spec2Isabelle.thy ===== *)
theory Spec2Isabelle
  imports Frame Signals Sched NvmeDisks Interrupts Boot Console KernelMem KernelSpace TableOps Stacks FpuState PciText
begin

text \<open>
  A verification of the framework \<open>good-os-framework\<close> (Rust, sources under \<open>src/src\<close>), a library for
  x86-64 kernels: physical and virtual memory, processes and scheduling, interrupts and processors,
  and drivers for PCI, NVMe, the PS/2 devices and the clocks.

  \<^bold>\<open>Conventions.\<close>  The theory \<open>Prelude\<close> has the shared vocabulary.  A Rust computation that may panic
  is a value of \<open>'a result = panic + 'a\<close>, sequenced by \<open>and_then\<close>; one with a polling loop is a value of
  \<open>'a outcome = 'a result option\<close>, where \<open>None\<close> is a run that never returns.  Recoverable errors (Rust's
  \<open>Result\<close>) are ordinary values beside the state that is kept.  Counters, sizes and addresses are
  natural numbers with checked operations, so an overflow is a panic as in a build with overflow
  checks; registers and everything read bit by bit are words of the source's width.  An operation
  runs while it holds its lock, and interleavings are sequences of operations; only \<open>Boot\<close> has a lock
  in its state, because start-up hands over between processors through it.

  \<^bold>\<open>Code outside the repository\<close> is a parameter: a record of functions (\<open>bit_field_api\<close>, \<open>x86_api\<close>,
  \<open>mapper_api\<close>, \<open>apic_api\<close>, \<open>acpi_api\<close>, \<open>gdt_api\<close>, \<open>msr_api\<close>, \<open>array_queue_api\<close>, \<open>time_api\<close>, device registers
  and ports).  A locale beside each record (\<open>bit_field\<close>, \<open>x86_addr\<close>, \<open>page_mapper\<close>, \<open>tty_mapper\<close>, \<open>ioapic_lines\<close>,
  \<open>gdt_table\<close>, \<open>syscall_msrs\<close>, \<open>array_queue\<close>, \<open>hpet_counter\<close>, \<open>cmos_ports\<close>, \<open>bar_registers\<close> and others)
  states what the crate or the hardware documents, the lemmas are proved inside it, and an
  interpretation on a concrete instance shows that it can hold.

  \<^bold>\<open>Memory.\<close>
  \<open>Bitmap\<close> (\<open>data/bitmap.rs\<close>) and \<open>Frame\<close> (\<open>memory/frame.rs\<close>, \<open>drivers/mod.rs\<close>): the frame allocator, its
  initialisation from the memory map, first fit for contiguous runs, ascending order for single
  frames, the limits that \<open>Bitmap::len\<close> imposes.  \<open>Address\<close> (\<open>memory/mod.rs\<close>): the physical window.
  \<open>Paging\<close> (\<open>memory/page_table.rs\<close>): the recursive copy of a page table tree over a store of tables; a
  copy translates every address as the original does, shares no table with it and leaves every
  other table alone.  \<open>VirtMem\<close> (\<open>memory/manager.rs\<close>, the rest of \<open>memory/page_table.rs\<close>,
  \<open>task/stack.rs\<close>): mapping ranges, what is left behind when a page is in use, reading and writing
  through a table, stacks.  \<open>KernelMem\<close> (\<open>memory/kernel_heap.rs\<close>, \<open>drivers/xhci.rs\<close>): the kernel heap and
  the window of the XHCI registers are mapped, and where the count of pages falls short.  \<open>UserProc\<close>
  (\<open>memory/user_heap.rs\<close>, \<open>task/process.rs\<close>, \<open>Thread::new_user_thread\<close>): the process heap, loading of
  ELF segments, the process list.  \<open>TableOps\<close> (the trait implementations in \<open>memory/page_table.rs\<close>): the
  contract of the mapper carries over to the wrapper \<open>GeneralPageTable\<close>, and memory mapped through it is followed from
  \<open>alloc_range\<close> over writing, reading and changing flags to \<open>unmap\<close>.  \<open>KernelSpace\<close> (\<open>memory/mod.rs\<close>): the lazy statics, and the
  page tables made from them one after the other, which translate as the kernel's and share no table; accesses to
  raw memory.

  \<^bold>\<open>Tasks.\<close>
  \<open>Switch\<close> (\<open>task/context.rs\<close>, the assembly of \<open>arch/interrupts.rs\<close> and \<open>user/syscall.rs\<close>): the register
  save and restore sequences run on a small machine.  \<open>Sched\<close> (\<open>task/scheduler.rs\<close>, \<open>task/thread.rs\<close>,
  \<open>drivers/fpu.rs\<close>): scheduling as a function on the kernel state and as a step relation
  (\<open>task_step\<close>), round robin, and the invariant that no thread runs twice.  \<open>Stacks\<close> (\<open>task/stack.rs\<close>): the
  kernel stack, and that the timer interrupt saves the context inside it.  \<open>FpuState\<close> (\<open>drivers/fpu.rs\<close>): the
  layout of the FPU state block, saving and restoring.  \<open>Signals\<close>
  (\<open>task/signal.rs\<close>).  \<open>Processors\<close> (\<open>arch/gdt.rs\<close>, \<open>arch/smp.rs\<close>, \<open>user/syscall.rs\<close>): each processor's own
  segments and stacks, the start of the processors, a system call from the instruction to its return.  \<open>Boot\<close> (\<open>lib.rs\<close>,
  \<open>arch/smp.rs\<close>, \<open>arch/acpi.rs\<close>): the order of initialisation and the flags the other processors wait for, as
  a step relation (\<open>boot_step\<close>) over all interleavings.  Each call names the facts it needs and
  gives; an invariant over them shows that no call comes before what it needs, that interrupts are on only at processors
  that are set up, and that start-up cannot deadlock: a processor waits only for a lock or a flag that the boot
  processor still has to release or set.

  \<^bold>\<open>Interrupts and clocks.\<close>
  \<open>Clock\<close> (\<open>drivers/rtc.rs\<close>, \<open>drivers/hpet.rs\<close>), \<open>Apic\<close> (\<open>arch/apic.rs\<close>): civil time from the CMOS
  registers, consistent reads of a running 64-bit counter, calibration of the local timer to
  periodic interrupts.
  \<open>Interrupts\<close> (\<open>arch/interrupts.rs\<close>, \<open>drivers/keyboard.rs\<close>): the descriptor table, every handler, the
  keyboard queue as a bounded first-in first-out queue, routing of the device lines, preemption.
  \<open>Mouse\<close> (\<open>drivers/mouse.rs\<close>): packets against a reference decoding, detection of the mouse type.

  \<^bold>\<open>Devices.\<close>
  \<open>PciConfig\<close>, \<open>PciDevices\<close>, \<open>PciBar\<close> (\<open>drivers/pci.rs\<close>, \<open>arch/mod.rs\<close>): configuration access by ports and
  memory, headers and their round trip, enumeration over the bus tree, the capability list, base address
  registers.  \<open>PciText\<close>: the texts of the \<open>Display\<close> implementations and the log lines.  \<open>NvmeCmd\<close>, \<open>NvmeMem\<close>, \<open>NvmeQueue\<close>, \<open>NvmeDevice\<close> (\<open>drivers/nvme\<close>): commands, DMA slices, the
  two rings as queues, initialisation and transfers.  \<open>NvmeDisks\<close> (\<open>drivers/nvme/mod.rs\<close>): the drives found
  on the PCI buses and their numbers.  \<open>Tty\<close> (\<open>console/tty.rs\<close>,
  \<open>drivers/display.rs\<close>): pixels and the switch between text consoles, which remaps their
  buffers: what each console shows is kept, and the frame allocator loses frames.  \<open>Logger\<close>
  (\<open>console/log.rs\<close>): the filter and the formats of the records, against the lines spelled out level by level.
  \<open>Console\<close> (\<open>console/mod.rs\<close>, \<open>console/log.rs\<close>, \<open>drivers/serial.rs\<close>): initialisation, and the devices behind the logger: the serial
  port and the terminal get exactly these lines, and the terminal's pixels are painted on console 0.

  \<^bold>\<open>This theory\<close> has the properties that span components: a user process from its binary to a runnable
  thread (page tables, frames, heap, stack, segments, scheduler), the process list, and the
  panic of the scheduler after a process has ended.

  \<^bold>\<open>Bounds and fuel.\<close>  PCI enumeration recurses over buses with fuel 256: bus numbers have eight bits, and
  with bridges that lead to higher buses the fuel is shown to be enough.  The page table copy recurses
  over the four levels.  The PS/2 polling loops carry the source's limit of 10000 tries.  Polling
  loops without a limit are partial functions, and that they return is proved under the progress of
  the device.  The rings of the NVMe queues are stores of their own; \<open>nvme_transfer\<close> therefore asks that the
  entries it uses lie inside the memory allocated for them, which is too small for all of them.

  \<^bold>\<open>Not modelled.\<close>  What third-party crates do: parsing of ACPI tables and ELF files, the drawing of characters by
  the terminal, the serial port, the allocator inside the kernel heap, the XHCI registers (\<open>get_xhci\<close>); they are
  parameters where the framework uses what they return.  The casts \<open>addr_of\<close>, \<open>ref_to_mut\<close> and \<open>ref_to_static\<close> and the
  dereferencing of a \<open>Dma\<close> pointer have no behaviour of their own.  In \<open>Boot\<close> the calls \<open>init_bsp\<close>, \<open>init_ap\<close>,
  \<open>acpi::init\<close>, \<open>hpet::init\<close> and \<open>user::init\<close> run the definitions of their components; the other calls are one
  step whose effect is the part they set up, and what they do, also whether their polling loops return, is in the theory of
  their component.
\<close>

section \<open>Creating and ending a process\<close>

definition user_stack_pages :: "nat list" where
  "user_stack_pages = pages_of (USER_STACK_END - USER_STACK_SIZE) USER_STACK_SIZE"

text \<open>
  A binary fits the address space: its segments are apart from each other, from the initial heap
  and from the stack.  \<open>process_frames\<close> bounds the frames a process takes when it starts.
\<close>

definition user_layout :: "Segment list \<Rightarrow> bool" where
  "user_layout segs \<longleftrightarrow> (\<forall>seg \<in> set segs. seg_ok seg) \<and> pages_apart segs \<and>
     (\<forall>seg \<in> set segs. \<forall>q \<in> set (seg_pages seg). q \<notin> heap_page ` {..<32} \<and> q \<notin> set user_stack_pages)"

definition process_frames :: "Segment list \<Rightarrow> nat" where
  "process_frames segs = 128 + 4 * sum_list (map (\<lambda>s. length (seg_pages s)) segs) + 64"

definition user_pages :: "Segment list \<Rightarrow> nat set" where
  "user_pages segs = heap_page ` {..<32} \<union> set user_stack_pages \<union> (\<Union>seg \<in> set segs. set (seg_pages seg))"

lemma heap_not_stack: "i < 32 \<Longrightarrow> heap_page i \<notin> set user_stack_pages"
proof
  assume "i < 32" "heap_page i \<in> set user_stack_pages"
  then have "(USER_STACK_END - USER_STACK_SIZE) div 4096 \<le> heap_page i div 4096"
    by (simp add: user_stack_pages_def pages_of_iff USER_STACK_SIZE_def)
  moreover have "heap_page i < 20 * 2 ^ 40 + 2 ^ 20" using \<open>i < 32\<close> by (simp add: heap_page_def HEAP_START_def)
  then have "heap_page i div 4096 \<le> (20 * 2 ^ 40 + 2 ^ 20) div 4096" by (intro div_le_mono) simp
  ultimately show False by (simp add: USER_STACK_END_def USER_STACK_SIZE_def)
qed

text \<open>What a started process looks like, in the system \<open>s'\<close> that results from \<open>s\<close>.\<close>

definition process_started ::
  "('p \<Rightarrow> nat \<rightharpoonup> nat \<times> u64) \<Rightarrow> ('p, 'h) proc_env \<Rightarrow> 'p table \<Rightarrow> u16 \<times> u16 \<Rightarrow> nat \<Rightarrow> nat \<Rightarrow> Binary \<Rightarrow>
   ('p, 'h) System \<Rightarrow> ('p, 'h) System \<Rightarrow> bool" where
  "process_started view e t user_segments proc addr bin s s' \<longleftrightarrow>
     PROCESSES s' = PROCESSES s @ [proc] \<and> next_pid s' = next_pid s + 1 \<and>
     ready_threads (sched (kernel s')) = addr # ready_threads (sched (kernel s)) \<and>
     (\<exists>pr th. store_processes s' = (store_processes s)(proc \<mapsto> pr) \<and> pid pr = next_pid s \<and> proc_threads pr = [addr] \<and>
        table_address (page_table pr) = table_address t \<and>
        threads (kernel s') addr = Some th \<and> state th = Ready \<and> Thread.process th = proc \<and>
        thread_context th = context_init context_default (binary_entry bin) (of_nat USER_STACK_END) (table_address t) user_segments \<and>
        (\<forall>i<32. \<exists>f. view (table_inner (page_table pr)) (heap_page i) = Some (f, heap_flags)) \<and>
        (\<forall>q \<in> set user_stack_pages. \<exists>f. view (table_inner (page_table pr)) q =
           Some (f, PRESENT OR WRITABLE OR USER_ACCESSIBLE OR NO_EXECUTE)) \<and>
        (\<forall>seg \<in> set (binary_segments bin). \<forall>d into. seg_data seg = Some d \<longrightarrow> length into = length d \<longrightarrow>
           pt_read (env_mapper e) (env_x86 e) (env_offset e) (table_inner (page_table pr)) (memory s') (seg_address seg) (length d) into =
           Inr (Inr (), d)))"

context page_mapper
begin

lemma user_process_ok:
  assumes env: "env_bf e = bf" "env_x86 e = x" "env_mapper e = mp"
    and create: "create (frame_allocator s) = Inr (t, a0)" and ok: "pool_ok bf a0"
    and room: "process_frames (binary_segments bin) \<le> card (frame_pool bf a0)"
    and layout: "user_layout (binary_segments bin)"
    and free: "\<forall>q \<in> user_pages (binary_segments bin). view (table_inner t) q = None \<and> \<not> huge (table_inner t) q"
    and win: "byte_window x (env_offset e) (frame_pool bf a0)"
  shows "\<exists>s'. new_user_process e create user_segments proc addr stack_end name (Some bin) s = Inr s' \<and>
    process_started view e t user_segments proc addr bin s s'"
proof -
  let ?segs = "binary_segments bin" and ?o = "env_offset e"
  let ?sum = "sum_list (map (\<lambda>s. length (seg_pages s)) (binary_segments bin))"
  obtain h where h: "h = heap_new (env_talc e) UserHeap" by simp
  have ht: "heap_type h = UserHeap" by (simp add: h heap_new_def)
  have L: "\<forall>seg \<in> set ?segs. seg_ok seg" "pages_apart ?segs" using layout by (simp_all add: user_layout_def)
  have "heap_ok view huge 32 0 (table_inner t)"
    using free by (auto simp: heap_ok_def user_pages_def HEAP_START_def)
  from heap_init_ok [OF this _ ok _ ht, of proc] room obtain p1 a1 where
    1: "heap_init mp bf x proc h (table_inner t, a0) = Inr (h\<lparr>heap_process := Some proc\<rparr>, p1, a1)"
      "heap_ok view huge 32 32 p1" "pool_ok bf a1" "frame_pool bf a1 \<subseteq> frame_pool bf a0"
      "card (frame_pool bf a0) \<le> card (frame_pool bf a1) + 128" "huge p1 = huge (table_inner t)"
      "\<forall>q. q \<notin> heap_page ` {..<32} \<longrightarrow> view p1 q = view (table_inner t) q"
    by (auto simp: process_frames_def)
  have room1: "4 * ?sum \<le> card (frame_pool bf a1)" using 1(5) room by (simp add: process_frames_def)
  have free1: "\<forall>seg \<in> set ?segs. \<forall>q \<in> set (seg_pages seg). view p1 q = None \<and> \<not> huge p1 q"
    using free layout 1(6,7) by (auto simp: user_pages_def user_layout_def)
  have win1: "byte_window x ?o (frame_pool bf a1)" using win 1(4) by (auto simp: byte_window_def)
  from map_segments_ok [OF env 1(3) L room1 free1 win1, of "memory s"] obtain p2 a2 m2 where
    2: "map_segments e ?segs (p1, a1, memory s) = Inr (p2, a2, m2)" "pool_ok bf a2" "frame_pool bf a2 \<subseteq> frame_pool bf a1"
      "card (frame_pool bf a1) \<le> card (frame_pool bf a2) + 4 * ?sum" "huge p2 = huge p1"
      "\<forall>q. (\<forall>seg \<in> set ?segs. q \<notin> set (seg_pages seg)) \<longrightarrow> view p2 q = view p1 q"
      "\<forall>seg \<in> set ?segs. seg_loaded view ?o (frame_pool bf a1 - frame_pool bf a2) p2 m2 seg"
    by (elim exE conjE) (rule that)
  have room2: "64 \<le> card (frame_pool bf a2)" using 1(5) 2(4) room by (simp add: process_frames_def)
  have stack_view: "view p2 q = None \<and> \<not> huge p2 q" if q: "q \<in> set user_stack_pages" for q
  proof -
    have "q \<notin> heap_page ` {..<32}" "\<forall>seg \<in> set ?segs. q \<notin> set (seg_pages seg)"
      using q heap_not_stack layout by (auto simp: user_layout_def)
    then show ?thesis using free q 1(6,7) 2(5,6) by (simp add: user_pages_def)
  qed
  from user_stack_ok [OF 2(2) room2, folded user_stack_pages_def, of p2] stack_view obtain p3 a3 where
    3: "user_stack_new mp bf x p2 a2 = Inr (\<lparr>start_address = USER_STACK_END - USER_STACK_SIZE, end_address = USER_STACK_END\<rparr>, p3, a3)"
      "\<forall>q. q \<notin> set user_stack_pages \<longrightarrow> view p3 q = view p2 q" "huge p3 = huge p2"
      "\<forall>q \<in> set user_stack_pages. \<exists>f \<in> frame_pool bf a2. view p3 q = Some (f, PRESENT OR WRITABLE OR USER_ACCESSIBLE OR NO_EXECUTE)"
    by blast
  have heap3: "\<exists>f. view p3 (heap_page i) = Some (f, heap_flags)" if i: "i < 32" for i
  proof -
    have "\<forall>seg \<in> set ?segs. heap_page i \<notin> set (seg_pages seg)" using i layout by (auto simp: user_layout_def)
    then have "view p3 (heap_page i) = view p1 (heap_page i)" using 2(6) 3(2) heap_not_stack [OF i] by simp
    then show ?thesis using 1(2) i by (simp add: heap_ok_def)
  qed
  have read3: "pt_read mp x ?o p3 m2 (seg_address seg) (length d) into = Inr (Inr (), d)"
    if seg: "seg \<in> set ?segs" "seg_data seg = Some d" "length into = length d" for seg d into
  proof -
    have sl: "seg_ok seg" "seg_loaded view ?o (frame_pool bf a1 - frame_pool bf a2) p2 m2 seg" using seg(1) L(1) 2(7) by auto
    have same: "\<forall>q \<in> set (seg_pages seg). view p3 q = view p2 q" using seg(1) layout 3(2) by (auto simp: user_layout_def)
    have "seg_loaded view ?o (frame_pool bf a1) p3 m2 seg"
      using pool.pool_frame [OF 1(3)] by (intro seg_loaded_stable [OF sl(2,1) same, where G = "{}"]) auto
    moreover have "\<forall>q \<in> set (seg_pages seg). \<not> huge p3 q" using free1 seg(1) 2(5) 3(3) by simp
    ultimately show ?thesis using segment_readable [OF _ sl(1) seg(2,3) win1] by blast
  qed
  define th where "th = \<lparr>tid = next_id (kernel s), state = Ready, kernel_stack = stack_end,
     thread_context = context_init context_default (binary_entry bin) (of_nat USER_STACK_END) (table_address t) user_segments,
     process = proc, fpu_context = fp_default\<rparr>"
  define pr where "pr = \<lparr>pid = next_pid s, pname = name, page_table = t\<lparr>table_inner := p3\<rparr>, proc_threads = [addr],
     heap = h\<lparr>heap_process := Some proc\<rparr>, signal_manager = signal_manager_new 64, father = None\<rparr>"
  define k where "k = (kernel s)\<lparr>next_id := next_id (kernel s) + 1, threads := (threads (kernel s))(addr \<mapsto> th),
     sched := scheduler_add addr (sched (kernel s))\<rparr>"
  define s' where "s' = s\<lparr>kernel := k, store_processes := (store_processes s)(proc \<mapsto> pr), PROCESSES := PROCESSES s @ [proc],
     next_pid := next_pid s + 1, frame_allocator := a3, memory := m2\<rparr>"
  have "new_user_process e create user_segments proc addr stack_end name (Some bin) s = Inr s'"
    using create 1(1) 2(1) 3(1)
    by (simp add: new_user_process_def process_new_def process_id_new_def new_user_thread_def thread_new_def thread_id_new_def
        env h [symmetric] s'_def pr_def k_def th_def)
  moreover have "process_started view e t user_segments proc addr bin s s'"
    unfolding process_started_def
    by (intro conjI exI [of _ pr] exI [of _ th])
      (use heap3 read3 3(4) in \<open>auto simp: s'_def pr_def k_def th_def scheduler_add_def env\<close>)
  ultimately show ?thesis by blast
qed

end

text \<open>What any successful creation does to the lists and the scheduler.\<close>

lemma new_user_process_result:
  assumes "new_user_process e create user_segments proc addr stack_end name binary s = Inr s'"
  obtains pr where "store_processes s' = (store_processes s)(proc \<mapsto> pr)" "pid pr = next_pid s" "proc_threads pr = [addr]"
    "PROCESSES s' = PROCESSES s @ [proc]" "next_pid s' = next_pid s + 1"
    "ready_threads (sched (kernel s')) = addr # ready_threads (sched (kernel s))"
    "current_threads (sched (kernel s')) = current_threads (sched (kernel s))"
  using assms
  by (auto simp: new_user_process_def process_new_def process_id_new_def new_user_thread_def thread_new_def thread_id_new_def
      scheduler_add_def Let_def result_simps split: prod.splits)

section \<open>Properties\<close>

text \<open>
  C1. Starting a process: when the page table copied from the kernel leaves the user's pages free
  and there are frames enough, \<open>new_user_process\<close> returns, and in the new address space the
  initial heap and the stack are mapped, every segment of the binary reads back as its data,
  and one new thread waits at the head of the ready queue whose context starts at the entry
  point, on that stack, with that page table and the user segments.
\<close>

theorem user_process_starts:
  assumes "page_mapper bf x mp view huge" "env_bf e = bf" "env_x86 e = x" "env_mapper e = mp"
    and "create (frame_allocator s) = Inr (t, a0)" "pool_ok bf a0"
    "process_frames (binary_segments bin) \<le> card (frame_pool bf a0)" "user_layout (binary_segments bin)"
    "\<forall>q \<in> user_pages (binary_segments bin). view (table_inner t) q = None \<and> \<not> huge (table_inner t) q"
    "byte_window x (env_offset e) (frame_pool bf a0)"
  shows "\<exists>s'. new_user_process e create user_segments proc addr stack_end name (Some bin) s = Inr s' \<and>
    process_started view e t user_segments proc addr bin s s'"
  by (rule page_mapper.user_process_ok [OF assms(1-4), where create = create and s = s and t = t and ?a0.0 = a0, OF assms(5-10)])

definition demo_system :: "(nat \<rightharpoonup> nat \<times> u64, unit) System" where
  "demo_system = \<lparr>kernel = demo_kernel, store_processes = Map.empty, PROCESSES = [], next_pid = 1,
     frame_allocator = wide_allocator, memory = (\<lambda>_. 0)\<rparr>"

definition demo_create :: "BitmapFrameAllocator \<Rightarrow> ((nat \<rightharpoonup> nat \<times> u64) table \<times> BitmapFrameAllocator) result" where
  "demo_create a = Inr (\<lparr>table_inner = Map.empty, table_address = 0x7000\<rparr>, a)"

definition demo_binary :: Binary where
  "demo_binary = \<lparr>binary_entry = 0x400ffe, binary_segments = [demo_text, demo_bss]\<rparr>"

lemma demo_layout: "user_layout (binary_segments demo_binary)" "process_frames (binary_segments demo_binary) = 204"
proof -
  have seg: "q \<notin> heap_page ` {..<32} \<and> q \<notin> set user_stack_pages" if "q < 2 ^ 40" for q
  proof -
    have "q \<noteq> heap_page i" for i using that by (simp add: heap_page_def HEAP_START_def)
    moreover have "q \<notin> set user_stack_pages"
    proof
      assume "q \<in> set user_stack_pages"
      then have "(USER_STACK_END - USER_STACK_SIZE) div 4096 \<le> q div 4096"
        by (simp add: user_stack_pages_def pages_of_iff USER_STACK_SIZE_def)
      moreover have "q div 4096 \<le> 2 ^ 40 div 4096" using that by (intro div_le_mono) simp
      ultimately show False by (simp add: USER_STACK_END_def USER_STACK_SIZE_def)
    qed
    ultimately show ?thesis by blast
  qed
  show "user_layout (binary_segments demo_binary)"
    using demo_segs_ok seg by (simp add: user_layout_def demo_binary_def pages_apart_def demo_seg_pages)
  show "process_frames (binary_segments demo_binary) = 204"
    by (simp add: process_frames_def demo_binary_def demo_seg_pages)
qed

theorem user_process_starts_witness:
  "\<exists>s'. new_user_process demo_env demo_create (0x23, 0x1b) 7 20 0 ''init'' (Some demo_binary) demo_system = Inr s' \<and>
    process_started id demo_env \<lparr>table_inner = Map.empty, table_address = 0x7000\<rparr> (0x23, 0x1b) 7 20 demo_binary demo_system s'"
  by (rule user_process_starts [OF plain.page_mapper_axioms demo_env_simps(1-3), where ?a0.0 = wide_allocator])
    (simp_all add: demo_create_def demo_system_def wide_pool demo_layout wide_window)

text \<open>The invariant of the list of processes.\<close>

definition procs_ok :: "('p, 'h) System \<Rightarrow> bool" where
  "procs_ok s \<longleftrightarrow> (\<forall>a \<in> set (PROCESSES s). store_processes s a \<noteq> None) \<and>
     distinct (map (\<lambda>a. pid (the (store_processes s a))) (PROCESSES s)) \<and>
     (\<forall>a pr. store_processes s a = Some pr \<longrightarrow> pid pr < next_pid s)"

lemma remove_first_filter:
  "distinct (map f xs) \<Longrightarrow> remove_first (\<lambda>x. f x = i) xs = filter (\<lambda>x. f x \<noteq> i) xs"
proof (induction xs)
  case (Cons a xs)
  then have "filter (\<lambda>x. f x \<noteq> i) xs = xs" if "f a = i" using that by (intro filter_True) (auto simp: image_iff)
  with Cons show ?case by simp
qed simp

lemma remove_first_cong: "(\<And>x. x \<in> set xs \<Longrightarrow> P x = Q x) \<Longrightarrow> remove_first P xs = remove_first Q xs"
  by (induction xs) auto

lemma exit_process_list:
  assumes "procs_ok s"
  shows "PROCESSES (exit_process i s) = filter (\<lambda>a. pid (the (store_processes s a)) \<noteq> i) (PROCESSES s)"
proof -
  let ?f = "\<lambda>a. pid (the (store_processes s a))"
  have live: "map_option pid (store_processes s a) = Some i \<longleftrightarrow> ?f a = i" if "a \<in> set (PROCESSES s)" for a
    using assms that by (auto simp: procs_ok_def)
  have "remove_first (\<lambda>a. map_option pid (store_processes s a) = Some i) (PROCESSES s) = remove_first (\<lambda>a. ?f a = i) (PROCESSES s)"
    using live by (rule remove_first_cong)
  then have "PROCESSES (exit_process i s) = remove_first (\<lambda>a. ?f a = i) (PROCESSES s)" by (simp only: exit_process_def) simp
  with assms remove_first_filter [of ?f] show ?thesis by (simp add: procs_ok_def)
qed

text \<open>
  C38. The list of processes: identifiers stay unique and below the counter when a process is
  created and when one exits; exiting removes the process with the given identifier and no other.
\<close>

theorem process_list_invariant:
  assumes "procs_ok s"
  shows "PROCESSES (exit_process i s) = filter (\<lambda>a. pid (the (store_processes s a)) \<noteq> i) (PROCESSES s) \<and>
    procs_ok (exit_process i s) \<and>
    (\<forall>s'. store_processes s proc = None \<and> next_pid s \<noteq> - 1 \<and>
       new_user_process e create user_segments proc addr stack_end name binary s = Inr s' \<longrightarrow> procs_ok s')"
proof (intro conjI allI impI)
  show list: "PROCESSES (exit_process i s) = filter (\<lambda>a. pid (the (store_processes s a)) \<noteq> i) (PROCESSES s)"
    by (rule exit_process_list [OF assms])
  have "store_processes (exit_process i s) = store_processes s" "next_pid (exit_process i s) = next_pid s"
    by (simp_all add: exit_process_def)
  then show "procs_ok (exit_process i s)"
    using assms list by (auto simp: procs_ok_def distinct_map inj_on_def)
next
  fix s'
  assume a: "store_processes s proc = None \<and> next_pid s \<noteq> - 1 \<and>
    new_user_process e create user_segments proc addr stack_end name binary s = Inr s'"
  then obtain pr where pr: "store_processes s' = (store_processes s)(proc \<mapsto> pr)" "pid pr = next_pid s"
    "PROCESSES s' = PROCESSES s @ [proc]" "next_pid s' = next_pid s + 1"
    by (meson new_user_process_result)
  have "unat (next_pid s) \<noteq> unat (- 1 :: u64)" using a unsigned_word_eqI by blast
  moreover have "unat (- 1 :: u64) = 2 ^ 64 - 1" by (simp add: unsigned_minus_1_eq_mask mask_eq_exp_minus_1)
  ultimately have "unat (next_pid s) < 2 ^ 64 - 1" using unsigned_less [of "next_pid s", where 'a = nat] by simp
  then have lt: "next_pid s < next_pid s + 1" by (simp add: word_less_nat_alt unat_word_ariths)
  have mem: "\<forall>b \<in> set (PROCESSES s). store_processes s b \<noteq> None" using assms by (simp add: procs_ok_def)
  then have same: "map (\<lambda>b. pid (the (store_processes s' b))) (PROCESSES s) = map (\<lambda>b. pid (the (store_processes s b))) (PROCESSES s)"
    using a pr(1) by (auto simp: fun_upd_def)
  have "next_pid s \<notin> (\<lambda>b. pid (the (store_processes s b))) ` set (PROCESSES s)"
    using assms mem by (fastforce simp: procs_ok_def)
  moreover have "distinct (map (\<lambda>b. pid (the (store_processes s b))) (PROCESSES s))" using assms by (simp add: procs_ok_def)
  ultimately have "distinct (map (\<lambda>b. pid (the (store_processes s' b))) (PROCESSES s'))"
    unfolding pr(3) map_append same using pr(1,2) by simp
  moreover have "pid qr < next_pid s'" if "store_processes s' b = Some qr" for b qr
  proof (cases "b = proc")
    case False
    then have "pid qr < next_pid s" using that pr(1) assms by (simp add: procs_ok_def)
    also note lt
    finally show ?thesis by (simp add: pr(4))
  qed (use that pr lt in simp)
  moreover have "\<forall>b \<in> set (PROCESSES s'). store_processes s' b \<noteq> None" using mem pr(1,3) by auto
  ultimately show "procs_ok s'" by (simp add: procs_ok_def)
qed

definition demo_process :: "u64 \<Rightarrow> (nat \<rightharpoonup> nat \<times> u64, unit) Process" where
  "demo_process i = \<lparr>pid = i, pname = ''init'', page_table = \<lparr>table_inner = Map.empty, table_address = 0x7000\<rparr>, proc_threads = [],
     heap = heap_new (env_talc demo_env) UserHeap, signal_manager = signal_manager_new 64, father = None\<rparr>"

theorem process_list_invariant_witness:
  "PROCESSES (exit_process 5 (demo_system\<lparr>store_processes := [7 \<mapsto> demo_process 5, 8 \<mapsto> demo_process 6], PROCESSES := [7, 8], next_pid := 9\<rparr>)) = [8]"
  using process_list_invariant [of "demo_system\<lparr>store_processes := [7 \<mapsto> demo_process 5, 8 \<mapsto> demo_process 6], PROCESSES := [7, 8], next_pid := 9\<rparr>" 5]
  by (simp add: procs_ok_def demo_process_def)

text \<open>
  Nothing takes a process's threads out of the scheduler when the process ends: if a process is
  started, exits and is dropped before its thread runs, the next timer interrupt panics, on
  whichever processor it arrives.
\<close>

theorem exited_process_panics:
  assumes "new_user_process e create user_segments proc addr stack_end name binary s = Inr s1"
    and "process_drop clean_up proc (exit_process i s1) = Inr s2"
    and "current_threads (sched (kernel s)) l = Some cur"
  shows "schedule ca l ctx (kernel s2) = Inl UnwrapNone"
proof -
  obtain pr where pr: "store_processes s1 = (store_processes s)(proc \<mapsto> pr)" "proc_threads pr = [addr]"
    "ready_threads (sched (kernel s1)) = addr # ready_threads (sched (kernel s))"
    "current_threads (sched (kernel s1)) = current_threads (sched (kernel s))"
    using new_user_process_result [OF assms(1)] by metis
  have s2: "s2 = (exit_process i s1)\<lparr>store_processes := (store_processes s1)(proc := None),
      frame_allocator := clean_up (table_inner (page_table pr)) (frame_allocator s1),
      kernel := (kernel s1)\<lparr>threads := (threads (kernel s1)) |` (- {addr})\<rparr>\<rparr>"
    using assms(2) pr(1,2) by (simp add: process_drop_def exit_process_def)
  show ?thesis
    by (rule schedule_dropped_thread [of _ _ cur addr]) (simp_all add: s2 pr assms(3))
qed

theorem exited_process_panics_witness:
  "\<exists>s1 s2. new_user_process demo_env demo_create (0x23, 0x1b) 7 20 0 ''init'' (Some demo_binary) demo_system = Inr s1 \<and>
    process_drop (\<lambda>_ a. a) 7 (exit_process 1 s1) = Inr s2 \<and> schedule (\<lambda>t. of_nat t) 0 context_default (kernel s2) = Inl UnwrapNone"
proof -
  have "\<exists>s1. new_user_process demo_env demo_create (0x23, 0x1b) 7 20 0 ''init'' (Some demo_binary) demo_system = Inr s1 \<and>
      process_started id demo_env \<lparr>table_inner = Map.empty, table_address = 0x7000\<rparr> (0x23, 0x1b) 7 20 demo_binary demo_system s1"
    by (rule page_mapper.user_process_ok [OF plain.page_mapper_axioms demo_env_simps(1-3), where ?a0.0 = wide_allocator])
      (simp_all add: demo_create_def demo_system_def wide_pool demo_layout wide_window)
  then obtain s1 pr where s1: "new_user_process demo_env demo_create (0x23, 0x1b) 7 20 0 ''init'' (Some demo_binary) demo_system = Inr s1"
    "store_processes s1 7 = Some pr" by (auto simp: process_started_def)
  obtain s2 where s2: "process_drop (\<lambda>_ a. a) 7 (exit_process 1 s1) = Inr s2"
    using s1(2) by (simp add: process_drop_def exit_process_def)
  have "current_threads (sched (kernel demo_system)) 0 = Some 10" by (simp add: demo_system_def demo_kernel_def)
  from exited_process_panics [OF s1(1) s2 this] s1(1) s2 show ?thesis by blast
qed

end
